(* ===== verification/Prelude.thy ===== *)
theory Prelude
  imports Main "HOL-Library.Word" "HOL-Library.Monad_Syntax"
begin

unbundle bit_operations_syntax

text \<open>
  Shared vocabulary of the development: machine integers, Rust's checked and
  saturating arithmetic, byte slices (reading a sub-slice, overwriting one with
  \<^verbatim>\<open>copy_from_slice\<close>), the little- and big-endian integer codecs of the standard
  library, and the searches that the kernel and the servers do on vectors
  (\<^verbatim>\<open>iter().find\<close>, \<^verbatim>\<open>iter_mut().find\<close>, \<^verbatim>\<open>position\<close>, \<^verbatim>\<open>retain\<close>).
\<close>

section \<open>Machine integers\<close>

type_synonym u8 = "8 word"
type_synonym u16 = "16 word"
type_synonym u32 = "32 word"
type_synonym u64 = "64 word"
type_synonym usize = "64 word"
type_synonym bytes = "u8 list"

text \<open>Unfolding of the source's named constants, and of its byte-string literals.\<close>

named_theorems consts_def

definition checked_add :: "'a::len word \<Rightarrow> 'a word \<Rightarrow> 'a word option" where
  "checked_add a b = (if unat a + unat b < 2 ^ LENGTH('a) then Some (a + b) else None)"

definition checked_mul :: "'a::len word \<Rightarrow> 'a word \<Rightarrow> 'a word option" where
  "checked_mul a b = (if unat a * unat b < 2 ^ LENGTH('a) then Some (a * b) else None)"

definition saturating_add :: "'a::len word \<Rightarrow> 'a word \<Rightarrow> 'a word" where
  "saturating_add a b = (if unat a + unat b < 2 ^ LENGTH('a) then a + b else - 1)"

lemma unat_add_no_wrap:
  "unat a + unat b < 2 ^ LENGTH('a) \<Longrightarrow> unat (a + b) = unat a + unat b"
  for a b :: "'a::len word"
  by (simp add: unat_word_ariths)

lemma checked_add_SomeD:
  assumes "checked_add a b = Some c"
  shows "c = a + b" and "unat c = unat a + unat b" and "a \<le> c" and "b \<le> c"
  using assms
  by (auto simp: checked_add_def unat_add_no_wrap word_le_nat_alt split: if_splits)

lemma checked_add_NoneD:
  "checked_add a b = None \<Longrightarrow> 2 ^ LENGTH('a) \<le> unat a + unat b" for a b :: "'a::len word"
  by (auto simp: checked_add_def split: if_splits)

lemma unat_saturating_add:
  "unat (saturating_add a b) = min (unat a + unat b) (2 ^ LENGTH('a) - 1)"
  for a b :: "'a::len word"
  by (auto simp: saturating_add_def unat_add_no_wrap unsigned_minus_1_eq_mask mask_eq_exp_minus_1 min_def)

lemma unat_add_diff: "a \<le> b \<Longrightarrow> unat a + unat (b - a) = unat b" for a b :: "'a::len word"
  by (simp add: unat_sub word_le_nat_alt)

lemma unat_le_max: "unat a \<le> 2 ^ LENGTH('a) - 1" for a :: "'a::len word"
  using unsigned_less [of a, where 'a = nat] by linarith

lemma word_le_saturating_add: "a \<le> saturating_add a b" for a b :: "'a::len word"
  using unat_le_max [of a] by (simp add: word_le_nat_alt unat_saturating_add)

text \<open>Clearing the low bits (\<^verbatim>\<open>x & !(2^n - 1)\<close>) rounds down to a multiple of \<open>2 ^ n\<close>.\<close>

lemma and_not_mask: "x AND NOT (mask n) = push_bit n (drop_bit n x)" for x :: "'a::len word"
  by (rule bit_word_eqI)
    (auto simp: bit_and_iff bit_not_iff bit_mask_iff bit_push_bit_iff bit_drop_bit_eq)

lemma unat_and_not_mask: "unat (x AND NOT (mask n)) = unat x div 2 ^ n * 2 ^ n"
  for x :: "'a::len word"
proof -
  have "unat x div 2 ^ n * 2 ^ n < 2 ^ LENGTH('a)"
    using unsigned_less [of x, where 'a = nat] by (meson div_times_less_eq_dividend le_less_trans)
  moreover have "unat (x AND NOT (mask n))
      = take_bit LENGTH('a) (push_bit n (drop_bit n (unat x)))"
    using unsigned_less [of x, where 'a = nat]
    by (simp only: and_not_mask unsigned_push_bit_eq unsigned_drop_bit_eq take_bit_nat_eq_self)
  ultimately show ?thesis
    by (simp only: take_bit_eq_mod push_bit_eq_mult drop_bit_eq_div mod_less)
qed

section \<open>Slices\<close>

text \<open>\<^verbatim>\<open>&xs[i..j]\<close>. Every use in the model has \<open>j \<le> length xs\<close>, checked where it is used.\<close>

definition rslice :: "'a list \<Rightarrow> nat \<Rightarrow> nat \<Rightarrow> 'a list" where
  "rslice xs i j = take (j - i) (drop i xs)"

text \<open>\<^verbatim>\<open>xs[off..off + ys.len()].copy_from_slice(ys)\<close>.\<close>

definition copy_at :: "'a list \<Rightarrow> nat \<Rightarrow> 'a list \<Rightarrow> 'a list" where
  "copy_at xs off ys = take off xs @ ys @ drop (off + length ys) xs"

lemma length_rslice [simp]: "length (rslice xs i j) = min (j - i) (length xs - i)"
  by (simp add: rslice_def)

lemma length_copy_at [simp]:
  "off + length ys \<le> length xs \<Longrightarrow> length (copy_at xs off ys) = length xs"
  by (simp add: copy_at_def)

lemma nth_rslice [simp]: "k < j - i \<Longrightarrow> i + k < length xs \<Longrightarrow> rslice xs i j ! k = xs ! (i + k)"
  by (simp add: rslice_def)

lemma nth_copy_at:
  assumes "off + length ys \<le> length xs" and "k < length xs"
  shows "copy_at xs off ys ! k = (if off \<le> k \<and> k < off + length ys then ys ! (k - off) else xs ! k)"
  using assms by (auto simp: copy_at_def nth_append min_def)

lemma rslice_copy_at_same [simp]:
  "off + length ys \<le> length xs \<Longrightarrow> j = off + length ys \<Longrightarrow> rslice (copy_at xs off ys) off j = ys"
  by (simp add: rslice_def copy_at_def)

lemma rslice_copy_at_other:
  assumes "off + length ys \<le> length xs" and "j \<le> off \<or> off + length ys \<le> i"
  shows "rslice (copy_at xs off ys) i j = rslice xs i j"
proof (rule nth_equalityI)
  show "length (rslice (copy_at xs off ys) i j) = length (rslice xs i j)"
    using assms(1) by simp
  fix k assume "k < length (rslice (copy_at xs off ys) i j)"
  with assms show "rslice (copy_at xs off ys) i j ! k = rslice xs i j ! k"
    by (auto simp: nth_copy_at)
qed

lemma rslice_all [simp]: "length xs \<le> j \<Longrightarrow> rslice xs 0 j = xs"
  by (simp add: rslice_def)

lemma take_eq_rslice: "take n xs = rslice xs 0 n"
  by (simp add: rslice_def)

text \<open>\<^verbatim>\<open>&xs[i..j]\<close> with its bounds check.\<close>

definition slice_chk :: "'a list \<Rightarrow> nat \<Rightarrow> nat \<Rightarrow> 'a list option" where
  "slice_chk xs i j = (if i \<le> j \<and> j \<le> length xs then Some (rslice xs i j) else None)"

section \<open>Integer codecs\<close>

text \<open>\<^verbatim>\<open>to_le_bytes\<close> of an \<open>n\<close>-byte integer, and \<^verbatim>\<open>from_le_bytes\<close>.\<close>

definition to_le :: "nat \<Rightarrow> 'a::len word \<Rightarrow> bytes" where
  "to_le n w = map (\<lambda>i. ucast (drop_bit (8 * i) w)) [0..<n]"

primrec from_le :: "bytes \<Rightarrow> 'a::len word" where
  "from_le [] = 0"
| "from_le (b # bs) = ucast b OR push_bit 8 (from_le bs)"

definition to_be :: "nat \<Rightarrow> 'a::len word \<Rightarrow> bytes" where
  "to_be n w = rev (to_le n w)"

definition from_be :: "bytes \<Rightarrow> 'a::len word" where
  "from_be bs = from_le (rev bs)"

lemma length_to_le [simp]: "length (to_le n w) = n"
  by (simp add: to_le_def)

lemma length_to_be [simp]: "length (to_be n w) = n"
  by (simp add: to_be_def)

lemma bit_from_le:
  "bit (from_le bs :: 'a::len word) i \<longleftrightarrow>
     i < LENGTH('a) \<and> i < 8 * length bs \<and> bit (bs ! (i div 8)) (i mod 8)"
proof (induction bs arbitrary: i)
  case Nil
  then show ?case by simp
next
  case (Cons b bs)
  show ?case
  proof (cases "i < 8")
    case True
    then show ?thesis
      by (auto simp: bit_or_iff bit_push_bit_iff bit_ucast_iff)
  next
    case False
    then obtain j where j: "i = j + 8" using that [of "i - 8"] by simp
    have ub: "\<not> bit b (j + 8)" by (auto dest: bit_imp_le_length)
    have "bit (from_le (b # bs) :: 'a word) (j + 8) \<longleftrightarrow>
        j + 8 < LENGTH('a) \<and> bit (from_le bs :: 'a word) j"
      using ub by (simp add: bit_or_iff bit_push_bit_iff bit_ucast_iff)
    also have "\<dots> \<longleftrightarrow>
        j + 8 < LENGTH('a) \<and> j < 8 * length bs \<and> bit (bs ! (j div 8)) (j mod 8)"
      unfolding Cons.IH by linarith
    finally show ?thesis unfolding j by (simp add: div_add_self2)
  qed
qed

lemma from_to_le:
  assumes "LENGTH('a) \<le> 8 * n"
  shows "from_le (to_le n w) = (w :: 'a::len word)"
proof (rule bit_word_eqI)
  fix i assume i: "i < LENGTH('a)"
  then have "i div 8 < n" using assms by linarith
  then show "bit (from_le (to_le n w) :: 'a word) i = bit w i"
    using i assms
    by (simp add: bit_from_le to_le_def bit_ucast_iff bit_drop_bit_eq)
qed

lemma to_from_le:
  assumes "8 * length bs \<le> LENGTH('a)"
  shows "to_le (length bs) (from_le bs :: 'a::len word) = bs"
proof (rule nth_equalityI)
  show "length (to_le (length bs) (from_le bs :: 'a word)) = length bs" by simp
  fix i assume "i < length (to_le (length bs) (from_le bs :: 'a word))"
  then have i: "i < length bs" by simp
  show "to_le (length bs) (from_le bs :: 'a word) ! i = bs ! i"
  proof (rule bit_word_eqI)
    fix k assume k: "k < LENGTH(8)"
    then have "8 * i + k < 8 * length bs" using i by simp
    moreover from k have "(8 * i + k) div 8 = i" and "(8 * i + k) mod 8 = k" by simp_all
    ultimately show "bit (to_le (length bs) (from_le bs :: 'a word) ! i) k = bit (bs ! i) k"
      using i k assms
      by (simp add: to_le_def bit_ucast_iff bit_drop_bit_eq bit_from_le)
  qed
qed

lemma from_to_le_u64 [simp]: "from_le (to_le 8 w) = (w :: u64)"
  by (rule from_to_le) simp

lemma from_to_le_u32 [simp]: "from_le (to_le 4 w) = (w :: u32)"
  by (rule from_to_le) simp

lemma from_to_le_u16 [simp]: "from_le (to_le 2 w) = (w :: u16)"
  by (rule from_to_le) simp

lemma to_le_inject_u64: "to_le 8 (v :: u64) = to_le 8 w \<longleftrightarrow> v = w"
  by (metis from_to_le_u64)

section \<open>Searches on vectors\<close>

text \<open>\<^verbatim>\<open>iter().position(p)\<close>.\<close>

fun position :: "('a \<Rightarrow> bool) \<Rightarrow> 'a list \<Rightarrow> nat option" where
  "position p [] = None"
| "position p (x # xs) = (if p x then Some 0 else map_option Suc (position p xs))"

lemma position_None: "position p xs = None \<longleftrightarrow> (\<forall>x \<in> set xs. \<not> p x)"
  by (induction xs) auto

lemma position_SomeD:
  "position p xs = Some i \<Longrightarrow> i < length xs \<and> p (xs ! i) \<and> (\<forall>j < i. \<not> p (xs ! j))"
proof (induction xs arbitrary: i)
  case (Cons x xs)
  show ?case
  proof (cases "p x")
    case True
    with Cons.prems show ?thesis by simp
  next
    case False
    with Cons.prems obtain k where k: "position p xs = Some k" "i = Suc k" by auto
    have "\<not> p ((x # xs) ! j)" if "j < i" for j
      using Cons.IH [OF k(1)] k(2) False that by (cases j) simp_all
    then show ?thesis using Cons.IH [OF k(1)] k(2) by simp
  qed
qed simp

text \<open>
  \<^verbatim>\<open>iter_mut().find(p)\<close> followed by an assignment through the reference: the first
  element that satisfies \<open>p\<close> is updated, the others are kept.
\<close>

fun update_first :: "('a \<Rightarrow> bool) \<Rightarrow> ('a \<Rightarrow> 'a) \<Rightarrow> 'a list \<Rightarrow> 'a list" where
  "update_first p f [] = []"
| "update_first p f (x # xs) = (if p x then f x # xs else x # update_first p f xs)"

lemma length_update_first [simp]: "length (update_first p f xs) = length xs"
  by (induction xs) auto

lemma map_update_first:
  "(\<And>x. g (f x) = g x) \<Longrightarrow> map g (update_first p f xs) = map g xs"
  by (induction xs) auto

lemma find_SomeD: "List.find p xs = Some x \<Longrightarrow> x \<in> set xs \<and> p x"
  by (induction xs) (auto split: if_splits)

lemma find_NoneD: "List.find p xs = None \<Longrightarrow> x \<in> set xs \<Longrightarrow> \<not> p x"
  by (simp add: find_None_iff)

section \<open>Loops that may panic\<close>

text \<open>A loop over a list whose body may panic (\<open>None\<close>).\<close>

primrec ofold :: "('a \<Rightarrow> 's \<Rightarrow> 's option) \<Rightarrow> 'a list \<Rightarrow> 's \<Rightarrow> 's option" where
  "ofold f [] s = Some s"
| "ofold f (x # xs) s = f x s \<bind> ofold f xs"

lemma ofold_cong [fundef_cong]:
  "xs = ys \<Longrightarrow> s = t \<Longrightarrow> (\<And>x s. x \<in> set ys \<Longrightarrow> f x s = g x s) \<Longrightarrow> ofold f xs s = ofold g ys t"
proof (induction ys arbitrary: xs s t)
  case (Cons y ys)
  then show ?case by (cases "g y t") auto
qed simp

lemma ofold_append: "ofold f (xs @ ys) s = ofold f xs s \<bind> ofold f ys"
  by (induction xs arbitrary: s) (auto intro: bind_assoc [symmetric] split: bind_splits)

end
