(* ===== verification/Caps.thy ===== *)
theory Caps
  imports Prelude
begin

text \<open>
  Capabilities: the objects of \<^verbatim>\<open>kernel/src/caps.rs\<close>, the errno values of the
  system-call ABI, and the pure part of the two derivation paths of
  \<^verbatim>\<open>kernel/src/syscall.rs\<close> (\<^verbatim>\<open>derive_for_child\<close> and \<^verbatim>\<open>sys_cap_derive\<close>).
  The partial order \<open>attenuates\<close> says what it means to hold no more authority than
  another capability; both derivations descend in it, and so does every chain of them.
\<close>

section \<open>Rights, errno values, objects\<close>

definition CAP_TABLE_SIZE :: nat where [consts_def]: "CAP_TABLE_SIZE = 32"
definition R_READ :: u64 where [consts_def]: "R_READ = 1"
definition R_WRITE :: u64 where [consts_def]: "R_WRITE = 2"
definition R_GRANT :: u64 where [consts_def]: "R_GRANT = 4"

definition E_OK :: u64 where [consts_def]: "E_OK = 0"
definition E_CAP_MISSING :: u64 where [consts_def]: "E_CAP_MISSING = 1"
definition E_CAP_DENIED :: u64 where [consts_def]: "E_CAP_DENIED = 2"
definition E_NO_REPLY_WAITING :: u64 where [consts_def]: "E_NO_REPLY_WAITING = 4"
definition E_BAD_ARG :: u64 where [consts_def]: "E_BAD_ARG = 5"
definition E_NO_CHILDREN :: u64 where [consts_def]: "E_NO_CHILDREN = 6"
definition E_PEER_DIED :: u64 where [consts_def]: "E_PEER_DIED = 7"
definition E_ENDPOINT_BUSY :: u64 where [consts_def]: "E_ENDPOINT_BUSY = 8"
definition E_WOULD_BLOCK :: u64 where [consts_def]: "E_WOULD_BLOCK = 9"
definition E_TIMEDOUT :: u64 where [consts_def]: "E_TIMEDOUT = 10"

text \<open>
  \<open>Endpoint endpoint rights\<close>, \<open>Memory base_paddr pages rights\<close> and
  \<open>Block disk lba_start lbas rights\<close>, the fields in the source's order.
\<close>

datatype cap =
    Endpoint u64 u64
  | Memory u64 u64 u64
  | Block u64 u64 u64 u64

fun cap_rights :: "cap \<Rightarrow> u64" where
  "cap_rights (Endpoint _ r) = r"
| "cap_rights (Memory _ _ r) = r"
| "cap_rights (Block _ _ _ r) = r"

fun is_block :: "cap \<Rightarrow> bool" where
  "is_block (Block _ _ _ _) = True"
| "is_block _ = False"

section \<open>Derivation\<close>

text \<open>\<^verbatim>\<open>derive_for_child\<close> once the source slot has been read: same object, rights intersected.\<close>

fun with_rights :: "cap \<Rightarrow> u64 \<Rightarrow> cap" where
  "with_rights (Endpoint e _) r = Endpoint e r"
| "with_rights (Memory b p _) r = Memory b p r"
| "with_rights (Block d s l _) r = Block d s l r"

definition derive_child_cap :: "cap \<Rightarrow> u64 \<Rightarrow> u64 + cap" where
  "derive_child_cap src msk =
     (if cap_rights src AND R_GRANT = 0 then Inl E_CAP_DENIED
      else let new_rights = cap_rights src AND msk in
        if new_rights = 0 then Inl E_CAP_DENIED
        else Inr (with_rights src new_rights))"

text \<open>
  \<^verbatim>\<open>sys_cap_derive\<close> once the source slot has been read; \<open>r_lo\<close> and \<open>r_len\<close> are
  the arguments \<^verbatim>\<open>a[2]\<close> and \<^verbatim>\<open>a[3]\<close>.
\<close>

definition derive_cap :: "cap \<Rightarrow> u64 \<Rightarrow> u64 \<Rightarrow> u64 \<Rightarrow> u64 + cap" where
  "derive_cap src msk r_lo r_len =
     (if cap_rights src AND R_GRANT = 0 then Inl E_CAP_DENIED
      else let new_rights = cap_rights src AND msk in
        if new_rights = 0 then Inl E_CAP_DENIED
        else if \<not> is_block src \<and> (r_lo \<noteq> 0 \<or> r_len \<noteq> 0) then Inl E_BAD_ARG
        else case src of
            Endpoint e _ \<Rightarrow> Inr (Endpoint e new_rights)
          | Memory b p _ \<Rightarrow> Inr (Memory b p new_rights)
          | Block disk lba_start lbas _ \<Rightarrow>
              (case checked_add r_lo r_len of
                 None \<Rightarrow> Inl E_BAD_ARG
               | Some req_hi \<Rightarrow>
                   let hold_hi = saturating_add lba_start lbas;
                       lo = max r_lo lba_start;
                       hi = min req_hi hold_hi
                   in if hi \<le> lo then Inl E_CAP_DENIED
                      else Inr (Block disk lo (hi - lo) new_rights)))"

section \<open>Attenuation\<close>

text \<open>
  \<open>attenuates d c\<close>: \<open>d\<close> names the same object as \<open>c\<close>, with a subset of its rights
  and, for a disk, a sub-range of its sectors.
\<close>

fun attenuates :: "cap \<Rightarrow> cap \<Rightarrow> bool" where
  "attenuates (Endpoint e r) (Endpoint e' r') \<longleftrightarrow> e = e' \<and> r AND r' = r"
| "attenuates (Memory b p r) (Memory b' p' r') \<longleftrightarrow> b = b' \<and> p = p' \<and> r AND r' = r"
| "attenuates (Block d s l r) (Block d' s' l' r') \<longleftrightarrow>
     d = d' \<and> r AND r' = r \<and> s' \<le> s \<and> unat s + unat l \<le> unat s' + unat l'"
| "attenuates _ _ \<longleftrightarrow> False"

lemma and_subset_trans: "a AND b = a \<Longrightarrow> b AND c = b \<Longrightarrow> a AND c = a" for a b c :: "'a::len word"
  by (metis and.assoc)

lemma and_and_left [simp]: "(r AND m) AND r = r AND m" for r m :: "'a::len word"
  by (metis and.assoc and.commute and.idem)

lemma attenuates_refl: "attenuates c c"
  by (cases c) simp_all

lemma attenuates_trans: "attenuates a b \<Longrightarrow> attenuates b c \<Longrightarrow> attenuates a c"
  by (cases a; cases b; cases c) (auto dest: and_subset_trans)

lemma attenuates_rights: "attenuates d c \<Longrightarrow> cap_rights d AND cap_rights c = cap_rights d"
  by (cases d; cases c) auto

lemma derive_block_window:
  assumes "checked_add r_lo r_len = Some req_hi"
    and "\<not> min req_hi (saturating_add s l) \<le> max r_lo s"
  shows "unat (max r_lo s) + unat (min req_hi (saturating_add s l) - max r_lo s)
           = unat (min req_hi (saturating_add s l))"
  using assms(2) by (intro unat_add_diff) (rule linear [THEN disjE], blast+)

lemma derive_cap_Block:
  "derive_cap (Block d s l r) msk r_lo r_len = Inr c \<longleftrightarrow>
     r AND R_GRANT \<noteq> 0 \<and> r AND msk \<noteq> 0 \<and>
     (\<exists>req_hi. checked_add r_lo r_len = Some req_hi \<and>
        max r_lo s < min req_hi (saturating_add s l) \<and>
        c = Block d (max r_lo s) (min req_hi (saturating_add s l) - max r_lo s) (r AND msk))"
  unfolding derive_cap_def Let_def is_block.simps cap_rights.simps
  by (auto simp: linorder_not_le simp del: min_less_iff_conj max_less_iff_conj
      split: option.splits if_splits)

lemma derive_cap_attenuates:
  assumes "derive_cap c msk r_lo r_len = Inr d"
  shows "attenuates d c"
proof (cases c)
  case (Block k s l r)
  with assms obtain req_hi where h: "checked_add r_lo r_len = Some req_hi"
      "max r_lo s < min req_hi (saturating_add s l)"
      "d = Block k (max r_lo s) (min req_hi (saturating_add s l) - max r_lo s) (r AND msk)"
    by (auto simp: derive_cap_Block)
  have "unat (min req_hi (saturating_add s l)) \<le> unat (saturating_add s l)"
    by (simp add: min_def word_le_nat_alt)
  also have "\<dots> \<le> unat s + unat l" by (simp add: unat_saturating_add)
  finally show ?thesis
    using h(2) derive_block_window [OF h(1), of s l]
    by (simp add: Block h(3) not_le)
qed (use assms in \<open>auto simp: derive_cap_def Let_def split: if_splits\<close>)

lemma derive_child_cap_attenuates: "derive_child_cap c msk = Inr d \<Longrightarrow> attenuates d c"
  by (cases c) (auto simp: derive_child_cap_def Let_def split: if_splits)

lemma derive_cap_rights:
  "derive_cap c msk r_lo r_len = Inr d \<Longrightarrow> cap_rights d = cap_rights c AND msk \<and> cap_rights d \<noteq> 0"
  by (cases c) (auto simp: derive_cap_def Let_def split: if_splits option.splits)

lemma derive_child_cap_rights:
  "derive_child_cap c msk = Inr d \<Longrightarrow> cap_rights d = cap_rights c AND msk \<and> cap_rights d \<noteq> 0"
  by (cases c) (auto simp: derive_child_cap_def Let_def split: if_splits)

section \<open>The delegation interface\<close>

text \<open>
  What the rest of the kernel relies on: capabilities are preordered, and one
  derivation never moves up. Then no sequence of derivations does.
\<close>

locale delegation =
  fixes le :: "'c \<Rightarrow> 'c \<Rightarrow> bool"
    and derives :: "'c \<Rightarrow> 'c \<Rightarrow> bool"
  assumes le_refl: "le c c"
    and le_trans: "le a b \<Longrightarrow> le b c \<Longrightarrow> le a c"
    and derives_le: "derives c d \<Longrightarrow> le d c"
begin

lemma chain_le: "derives\<^sup>*\<^sup>* c d \<Longrightarrow> le d c"
  by (induction rule: rtranclp_induct) (auto intro: le_refl le_trans dest: derives_le)

text \<open>A property that only shrinks with \<open>le\<close> can never be regained along a chain.\<close>

lemma chain_down_closed:
  assumes "\<And>c d. le d c \<Longrightarrow> P d \<Longrightarrow> P c" and "derives\<^sup>*\<^sup>* c d" and "P d"
  shows "P c"
  using assms chain_le by blast

end

definition cap_derives :: "cap \<Rightarrow> cap \<Rightarrow> bool" where
  "cap_derives c d \<longleftrightarrow>
     (\<exists>msk r_lo r_len. derive_cap c msk r_lo r_len = Inr d) \<or> (\<exists>msk. derive_child_cap c msk = Inr d)"

interpretation kcaps: delegation attenuates cap_derives
  by unfold_locales
    (auto simp: cap_derives_def attenuates_refl
      intro: attenuates_trans derive_cap_attenuates derive_child_cap_attenuates)

section \<open>Properties\<close>

text \<open>
  The sectors a block capability covers, as the kernel bounds it: a held range is cut at
  the last representable LBA (\<^verbatim>\<open>saturating_add\<close>).
\<close>

fun block_window :: "cap \<Rightarrow> nat set" where
  "block_window (Block _ s l _) = {unat s ..< unat (saturating_add s l)}"
| "block_window _ = {}"

text \<open>C6: Narrowing is exact: a derived block capability covers precisely the intersection of
  the held range with the requested range, on the same disk, with the intersected rights;
  nothing is gained and nothing inside the request is lost.
\<close>

theorem derive_block_exact:
  assumes "derive_cap (Block disk s l r) msk r_lo r_len = Inr c"
  shows "block_window c = block_window (Block disk s l r) \<inter> {unat r_lo ..< unat r_lo + unat r_len}
    \<and> (\<exists>s' l'. c = Block disk s' l' (r AND msk))"
proof -
  from assms obtain req_hi where h: "checked_add r_lo r_len = Some req_hi"
      "max r_lo s < min req_hi (saturating_add s l)"
      "c = Block disk (max r_lo s) (min req_hi (saturating_add s l) - max r_lo s) (r AND msk)"
    by (auto simp: derive_cap_Block)
  let ?lo = "max r_lo s" and ?hi = "min req_hi (saturating_add s l)"
  have sum: "unat ?lo + unat (?hi - ?lo) = unat ?hi"
    using h(2) derive_block_window [OF h(1), of s l] by (simp add: not_le)
  have hi: "unat (saturating_add ?lo (?hi - ?lo)) = unat ?hi"
    using unat_le_max [of ?hi] by (simp add: unat_saturating_add sum)
  have "block_window c = {unat ?lo ..< unat ?hi}"
    by (simp only: h(3) block_window.simps hi)
  also have "\<dots> = {unat s ..< unat (saturating_add s l)} \<inter> {unat r_lo ..< unat req_hi}"
    by (auto simp: max_def min_def word_le_nat_alt)
  finally show ?thesis
    using checked_add_SomeD(2) [OF h(1)] h(3) by auto
qed

theorem derive_block_exact_witness:
  "derive_cap (Block 1 0 100 7) 5 90 20 = Inr (Block 1 90 10 5) \<and>
   block_window (Block 1 90 10 5) = block_window (Block 1 0 100 7) \<inter> {90 ..< 110}"
proof -
  have h: "derive_cap (Block 1 0 100 7) 5 90 20 = Inr (Block 1 90 10 5)"
    by (simp add: derive_cap_Block checked_add_def saturating_add_def consts_def max_def min_def)
  show ?thesis using derive_block_exact [OF h] h by simp
qed

text \<open>C7: No amplification through any chain of derivations, in any mix of \<^verbatim>\<open>SYS_CAP_DERIVE\<close>
  and spawn-time transfer: the last capability names the same object as the first, within
  its rights and its range; and if the first could not be delegated at all (no
  \<^verbatim>\<open>R_GRANT\<close>), there is no derivation from it.
\<close>

theorem derivation_chain_attenuates:
  assumes "cap_derives\<^sup>*\<^sup>* c d"
  shows "attenuates d c \<and> (cap_rights c AND R_GRANT = 0 \<longrightarrow> d = c)"
proof
  show "attenuates d c" using assms by (rule kcaps.chain_le)
  show "cap_rights c AND R_GRANT = 0 \<longrightarrow> d = c"
  proof
    assume g: "cap_rights c AND R_GRANT = 0"
    from assms show "d = c"
    proof (cases rule: converse_rtranclpE)
      case (step b)
      with g show ?thesis
        by (auto simp: cap_derives_def derive_cap_def derive_child_cap_def)
    qed simp
  qed
qed

theorem derivation_chain_attenuates_witness:
  "cap_derives\<^sup>*\<^sup>* (Endpoint 3 7) (Endpoint 3 2) \<and> attenuates (Endpoint 3 2) (Endpoint 3 7)"
proof -
  have "derive_child_cap (Endpoint 3 7) 2 = Inr (Endpoint 3 2)"
    by (simp add: derive_child_cap_def consts_def)
  then have h: "cap_derives\<^sup>*\<^sup>* (Endpoint 3 7) (Endpoint 3 2)"
    unfolding cap_derives_def by (intro r_into_rtranclp) blast
  show ?thesis using derivation_chain_attenuates [OF h] h by simp
qed

end
