(* ===== verification/Frame.thy ===== *)
theory Frame
  imports Prelude
begin

text \<open>
  The physical frame allocator, \<^verbatim>\<open>kernel/src/frame.rs\<close>: a first-fit free list over
  ranges that were returned, and a bump pointer over the usable regions the boot loader
  reported. A failed \<^verbatim>\<open>assert!\<close> or \<^verbatim>\<open>expect\<close> of \<^verbatim>\<open>free_frames\<close> panics the kernel and
  is \<open>None\<close> here. Addresses are 64-bit words and wrap where the code's do.

  The allocator is shown to be an ownership ledger: against the ghost set \<open>H\<close> of bytes
  that callers hold, an allocation hands out bytes nobody holds, and returning bytes that
  are held never trips an assertion.
\<close>

section \<open>Model\<close>

definition PAGE_SIZE :: u64 where [consts_def]: "PAGE_SIZE = 4096"
definition MIN_ADDR :: u64 where [consts_def]: "MIN_ADDR = 0x100000"
definition MAX_REGIONS :: nat where [consts_def]: "MAX_REGIONS = 32"

definition page_floor :: "u64 \<Rightarrow> u64" where
  "page_floor x = x AND NOT (PAGE_SIZE - 1)"

text \<open>\<open>fa_regions\<close> is the used prefix \<^verbatim>\<open>regions[..n_regions]\<close> of the fixed array.\<close>

record frame_alloc =
  fa_regions :: "(u64 \<times> u64) list"
  fa_cur :: nat
  fa_next_free :: u64
  fa_free :: "(u64 \<times> u64) list"
  fa_allocated :: u64

text \<open>The region scan of \<^verbatim>\<open>init\<close>; a boot-loader region is (usable?, start, end).\<close>

fun scan_regions :: "(bool \<times> u64 \<times> u64) list \<Rightarrow> (u64 \<times> u64) list \<Rightarrow> (u64 \<times> u64) list" where
  "scan_regions [] acc = acc"
| "scan_regions ((usable, rstart, rend) # rs) acc =
     (if \<not> usable \<or> MAX_REGIONS \<le> length acc then scan_regions rs acc
      else let start = page_floor (max rstart MIN_ADDR + PAGE_SIZE - 1);
               end' = page_floor rend
           in scan_regions rs (if start < end' then acc @ [(start, end')] else acc))"

definition frame_init :: "(bool \<times> u64 \<times> u64) list \<Rightarrow> frame_alloc" where
  "frame_init rs =
     (let regs = scan_regions rs [] in
      \<lparr>fa_regions = regs, fa_cur = 0,
       fa_next_free = (case regs of [] \<Rightarrow> 0 | (s, _) # _ \<Rightarrow> s),
       fa_free = [], fa_allocated = 0\<rparr>)"

text \<open>Step 1 of \<^verbatim>\<open>alloc_frames\<close>: the first free range that is long enough.\<close>

fun first_fit :: "u64 \<Rightarrow> (u64 \<times> u64) list \<Rightarrow> (u64 \<times> (u64 \<times> u64) list) option" where
  "first_fit bytes [] = None"
| "first_fit bytes ((base, end') # rs) =
     (if bytes \<le> end' - base
      then Some (base, if end' - base = bytes then rs else (base + bytes, end') # rs)
      else map_option (\<lambda>(r, rs'). (r, (base, end') # rs')) (first_fit bytes rs))"

text \<open>Step 2: the loop over the virgin regions.\<close>

function bump :: "u64 \<Rightarrow> frame_alloc \<Rightarrow> u64 option \<times> frame_alloc" where
  "bump count fa =
     (if fa_cur fa < length (fa_regions fa) then
        let end' = snd (fa_regions fa ! fa_cur fa);
            aligned = page_floor (fa_next_free fa + PAGE_SIZE - 1)
        in if aligned + count * PAGE_SIZE \<le> end'
           then (Some aligned,
                 fa\<lparr>fa_next_free := aligned + count * PAGE_SIZE,
                    fa_allocated := fa_allocated fa + count\<rparr>)
           else let c = fa_cur fa; fa1 = fa\<lparr>fa_cur := c + 1\<rparr>
                in bump count
                     (if c + 1 < length (fa_regions fa)
                      then fa1\<lparr>fa_next_free := fst (fa_regions fa ! (c + 1))\<rparr> else fa1)
      else (None, fa))"
  by pat_completeness auto
termination
  by (relation "measure (\<lambda>(_, fa). length (fa_regions fa) - fa_cur fa)") auto

declare bump.simps [simp del]

definition alloc_frames :: "u64 \<Rightarrow> frame_alloc \<Rightarrow> u64 option \<times> frame_alloc" where
  "alloc_frames count0 fa =
     (let count = max count0 1; bytes = count * PAGE_SIZE in
      case first_fit bytes (fa_free fa) of
        Some (ret, fl) \<Rightarrow>
          (Some ret, fa\<lparr>fa_free := fl, fa_allocated := fa_allocated fa + count\<rparr>)
      | None \<Rightarrow> bump count fa)"

text \<open>
  The insertion into the sorted list, with its two overlap assertions and the merges
  with the predecessor and the successor.
\<close>

definition free_insert :: "u64 \<Rightarrow> u64 \<Rightarrow> (u64 \<times> u64) list \<Rightarrow> (u64 \<times> u64) list option" where
  "free_insert start end' free =
     (let at = (case position (\<lambda>(b, _). b > start) free of Some i \<Rightarrow> i | None \<Rightarrow> length free) in
      if 0 < at \<and> \<not> snd (free ! (at - 1)) \<le> start then None
      else if at < length free \<and> \<not> end' \<le> fst (free ! at) then None
      else if 0 < at \<and> snd (free ! (at - 1)) = start then
        (let merged = free[at - 1 := (fst (free ! (at - 1)), end')] in
         if at < length free \<and> fst (free ! at) = end'
         then Some ((take at merged @ drop (Suc at) merged)
                      [at - 1 := (fst (free ! (at - 1)), snd (free ! at))])
         else Some merged)
      else if at < length free \<and> fst (free ! at) = end'
        then Some (free[at := (start, snd (free ! at))])
      else Some (take at free @ (start, end') # drop at free))"

definition free_frames :: "u64 \<Rightarrow> u64 \<Rightarrow> frame_alloc \<Rightarrow> frame_alloc option" where
  "free_frames start count fa =
     (if count = 0 then Some fa
      else if start mod PAGE_SIZE \<noteq> 0 then None
      else do {
        bytes \<leftarrow> checked_mul count PAGE_SIZE;
        end' \<leftarrow> checked_add start bytes;
        if \<not> list_ex (\<lambda>(rs, re). start \<ge> rs \<and> end' \<le> re) (fa_regions fa) then None
        else if fa_allocated fa < count then None
        else do {
          fl \<leftarrow> free_insert start end' (fa_free fa);
          Some (fa\<lparr>fa_allocated := fa_allocated fa - count, fa_free := fl\<rparr>)
        }
      })"

text \<open>\<^verbatim>\<open>stats\<close>: frames held, frames managed.\<close>

definition frame_stats :: "frame_alloc \<Rightarrow> u64 \<times> u64" where
  "frame_stats fa =
     (fa_allocated fa, sum_list (map (\<lambda>(s, e). (e - s) div PAGE_SIZE) (fa_regions fa)))"

section \<open>Ranges as sets of bytes\<close>

fun range_of :: "u64 \<times> u64 \<Rightarrow> nat set" where
  "range_of (b, e) = {unat b ..< unat e}"

definition ranges :: "(u64 \<times> u64) list \<Rightarrow> nat set" where
  "ranges xs = \<Union> (range_of ` set xs)"

lemma ranges_simps [simp]:
  "ranges [] = {}"
  "ranges (x # xs) = range_of x \<union> ranges xs"
  "ranges (xs @ ys) = ranges xs \<union> ranges ys"
  by (auto simp: ranges_def)

text \<open>Nonempty, page-aligned ranges inside the 52-bit physical address space.\<close>

fun page_range :: "u64 \<times> u64 \<Rightarrow> bool" where
  "page_range (b, e) \<longleftrightarrow> b < e \<and> 4096 dvd unat b \<and> 4096 dvd unat e \<and> unat e \<le> 2 ^ 52"

fun before :: "u64 \<times> u64 \<Rightarrow> u64 \<times> u64 \<Rightarrow> bool" where
  "before (b, e) (b', e') \<longleftrightarrow> e < b'"

fun within :: "u64 \<times> u64 \<Rightarrow> u64 \<times> u64 \<Rightarrow> bool" where
  "within (b, e) (b', e') \<longleftrightarrow> b' \<le> b \<and> e \<le> e'"

text \<open>The comment on \<^verbatim>\<open>FrameAllocator::free\<close>: sorted by base, pairwise non-adjacent.\<close>

definition free_ok :: "(u64 \<times> u64) list \<Rightarrow> bool" where
  "free_ok xs \<longleftrightarrow> sorted_wrt before xs \<and> list_all page_range xs"

text \<open>The regions the boot loader reported are apart from each other: none touches another.\<close>

definition regions_ok :: "(u64 \<times> u64) list \<Rightarrow> bool" where
  "regions_ok xs \<longleftrightarrow> sorted_wrt (\<lambda>x y. before x y \<or> before y x) xs \<and> list_all page_range xs"

definition virgin :: "frame_alloc \<Rightarrow> nat set" where
  "virgin fa =
     (if fa_cur fa < length (fa_regions fa)
      then {unat (fa_next_free fa) ..< unat (snd (fa_regions fa ! fa_cur fa))}
             \<union> ranges (drop (Suc (fa_cur fa)) (fa_regions fa))
      else {})"

definition fa_inv :: "frame_alloc \<Rightarrow> bool" where
  "fa_inv fa \<longleftrightarrow>
     regions_ok (fa_regions fa) \<and> free_ok (fa_free fa) \<and>
     list_all (\<lambda>r. list_ex (within r) (fa_regions fa)) (fa_free fa) \<and>
     ranges (fa_free fa) \<inter> virgin fa = {} \<and>
     (fa_cur fa < length (fa_regions fa) \<longrightarrow>
        4096 dvd unat (fa_next_free fa) \<and>
        fst (fa_regions fa ! fa_cur fa) \<le> fa_next_free fa \<and>
        fa_next_free fa \<le> snd (fa_regions fa ! fa_cur fa))"

definition available :: "frame_alloc \<Rightarrow> nat set" where
  "available fa = ranges (fa_free fa) \<union> virgin fa"

text \<open>The ledger: \<open>H\<close> is what callers hold.\<close>

definition ledger :: "frame_alloc \<Rightarrow> nat set \<Rightarrow> bool" where
  "ledger fa H \<longleftrightarrow>
     fa_inv fa \<and> H \<inter> available fa = {} \<and> H \<subseteq> ranges (fa_regions fa) \<and>
     card H = 4096 * unat (fa_allocated fa)"

section \<open>Sorted free lists\<close>

lemma free_ok_Cons:
  "free_ok (x # xs) \<longleftrightarrow> page_range x \<and> free_ok xs \<and> (\<forall>y \<in> set xs. before x y)"
  by (auto simp: free_ok_def)

lemma free_ok_Nil [simp]: "free_ok []"
  by (simp add: free_ok_def)

lemma free_ok_memD: "free_ok xs \<Longrightarrow> y \<in> set xs \<Longrightarrow> page_range y"
  by (simp add: free_ok_def list_all_iff)

lemma page_range_less: "page_range y \<Longrightarrow> fst y < snd y"
  by (cases y) simp

lemma before_disjoint: "before x y \<Longrightarrow> range_of x \<inter> range_of y = {}"
  by (cases x; cases y) (auto simp: word_less_nat_alt)

lemma within_subset: "within x y \<Longrightarrow> range_of x \<subseteq> range_of y"
  by (cases x; cases y) (auto simp: word_le_nat_alt)

lemma within_iff: "within x y \<longleftrightarrow> fst y \<le> fst x \<and> snd x \<le> snd y"
  by (cases x; cases y) simp

lemma range_of_eq: "range_of x = {unat (fst x) ..< unat (snd x)}"
  by (cases x) simp

lemma within_trans: "within x y \<Longrightarrow> within y z \<Longrightarrow> within x z"
  by (auto simp: within_iff)

lemma free_ok_Cons_disjoint: "free_ok (x # xs) \<Longrightarrow> range_of x \<inter> ranges xs = {}"
  by (auto simp: free_ok_Cons ranges_def dest: before_disjoint)

lemma fit_no_wrap:
  fixes b e n :: u64
  assumes "n \<le> e - b" and "b \<le> e"
  shows "unat (b + n) = unat b + unat n" and "b + n \<le> e"
proof -
  have "unat b + unat n \<le> unat e"
    using assms by (simp add: word_le_nat_alt unat_sub)
  then show 1: "unat (b + n) = unat b + unat n"
    using unsigned_less [of e, where 'a = nat] by (simp add: unat_word_ariths)
  with \<open>unat b + unat n \<le> unat e\<close> show "b + n \<le> e" by (simp add: word_le_nat_alt)
qed

lemma first_fit_Some:
  assumes "first_fit n xs = Some (r, ys)" and "free_ok xs" and "0 < n" and "4096 dvd unat n"
  shows "free_ok ys \<and> ranges ys = ranges xs - {unat r ..< unat r + unat n} \<and>
    (\<forall>y \<in> set ys. \<exists>x \<in> set xs. within y x) \<and> 4096 dvd unat r \<and>
    unat (r + n) = unat r + unat n \<and> (\<exists>x \<in> set xs. within (r, r + n) x)"
  using assms(1,2)
proof (induction xs arbitrary: ys)
  case Nil
  then show ?case by simp
next
  case (Cons x xs)
  obtain b e where x: "x = (b, e)" by (cases x)
  have pr: "b < e" "4096 dvd unat b" "4096 dvd unat e" "unat e \<le> 2 ^ 52" "free_ok xs"
    and bf: "\<forall>y \<in> set xs. before (b, e) y"
    using Cons.prems(2) by (auto simp: free_ok_Cons x)
  have disj: "{unat b ..< unat e} \<inter> ranges xs = {}"
    using free_ok_Cons_disjoint [OF Cons.prems(2)] by (simp add: x)
  have above: "unat e \<le> z" if "z \<in> ranges xs" "unat b \<le> z" for z
    using disj that by (meson atLeastLessThan_iff disjoint_iff not_le)
  show ?case
  proof (cases "n \<le> e - b")
    case True
    with Cons.prems x have r: "r = b" and ys: "ys = (if e - b = n then xs else (b + n, e) # xs)"
      by auto
    note w = fit_no_wrap [OF True order_less_imp_le [OF pr(1)]]
    have "e - b = n \<longleftrightarrow> e = b + n" by (auto simp: algebra_simps)
    moreover have "page_range (b + n, e)" if "e \<noteq> b + n"
      using that w pr assms(4) by (auto simp: dvd_add)
    moreover have "before (b + n, e) y = before (b, e) y" for y
      by (cases y) simp
    moreover have "within (b + n, e) (b, e)"
      using w by (simp add: word_le_nat_alt)
    moreover have "\<forall>y \<in> set xs. within y y" by auto
    ultimately show ?thesis
      using w pr disj bf unfolding r ys x
      by (auto simp: free_ok_Cons word_le_nat_alt dest: above)
  next
    case False
    with Cons.prems x obtain zs where z: "first_fit n xs = Some (r, zs)" "ys = (b, e) # zs"
      by auto
    note IH = Cons.IH [OF z(1) pr(5)]
    have "before (b, e) y" if y: "y \<in> set zs" for y
    proof -
      from IH y obtain x' where "x' \<in> set xs" "within y x'" by blast
      with bf show ?thesis by (cases y; cases x') (force simp: word_le_nat_alt word_less_nat_alt)
    qed
    moreover have "{unat b ..< unat e} \<inter> {unat r ..< unat r + unat n} = {}"
    proof -
      from IH obtain x' where "x' \<in> set xs" "within (r, r + n) x'" by blast
      then have "{unat r ..< unat r + unat n} \<subseteq> ranges xs"
        using IH within_subset [of "(r, r + n)" x'] by (auto simp: ranges_def)
      with disj show ?thesis by blast
    qed
    ultimately show ?thesis
      using IH pr unfolding z(2) x by (auto simp: free_ok_Cons)
  qed
qed

lemma free_ok_append:
  "free_ok (xs @ ys) \<longleftrightarrow> free_ok xs \<and> free_ok ys \<and> (\<forall>x \<in> set xs. \<forall>y \<in> set ys. before x y)"
  by (auto simp: free_ok_def sorted_wrt_append)

lemma position_append:
  "\<forall>x \<in> set xs. \<not> p x \<Longrightarrow> position p (xs @ ys) = map_option (\<lambda>i. length xs + i) (position p ys)"
  by (cases "position p ys"; induction xs) auto

lemma position_split:
  "\<forall>x \<in> set xs. \<not> p x \<Longrightarrow> ys = [] \<or> p (hd ys) \<Longrightarrow>
   (case position p (xs @ ys) of Some i \<Rightarrow> i | None \<Rightarrow> length (xs @ ys)) = length xs"
  by (cases ys) (auto simp: position_append position_None [THEN iffD2])

text \<open>
  The insertion, with the list split at the insertion point: the ranges before it end at or
  before \<open>s\<close>, the ranges after it begin at or after \<open>e\<close>.
\<close>

lemma free_insert_split:
  assumes "\<forall>x \<in> set L. fst x \<le> s \<and> snd x \<le> s" and "\<forall>y \<in> set R. s < fst y \<and> e \<le> fst y"
  shows "free_insert s e (L @ R) = Some (
    let (L', b) = (if L \<noteq> [] \<and> snd (last L) = s then (butlast L, fst (last L)) else (L, s));
        (R', f) = (if R \<noteq> [] \<and> fst (hd R) = e then (tl R, snd (hd R)) else (R, e))
    in L' @ (b, f) # R')"
proof -
  have "(case position (\<lambda>(b, _). b > s) (L @ R) of Some i \<Rightarrow> i | None \<Rightarrow> length (L @ R)) = length L"
    using assms by (intro position_split) (cases R; auto)+
  then have at: "(case position (\<lambda>(b, _). b > s) (L @ R) of Some i \<Rightarrow> i | None \<Rightarrow> length (L @ R)) = length L" .
  show ?thesis
    unfolding free_insert_def at Let_def
    using assms
    by (cases L rule: rev_cases; cases R) (auto simp: nth_append list_update_append)
qed

lemma free_ok_split:
  assumes "free_ok xs" and "page_range (s, e)" and "{unat s ..< unat e} \<inter> ranges xs = {}"
  obtains L R where "xs = L @ R" and "\<forall>x \<in> set L. fst x \<le> s \<and> snd x \<le> s"
    and "\<forall>y \<in> set R. s < fst y \<and> e \<le> fst y"
proof
  let ?L = "takeWhile (\<lambda>x. fst x \<le> s) xs" and ?R = "dropWhile (\<lambda>x. fst x \<le> s) xs"
  show "xs = ?L @ ?R" by simp
  have ok: "free_ok ?L" "free_ok ?R" using assms(1) free_ok_append [of ?L ?R] by auto
  have apart: "x \<in> set xs \<Longrightarrow> snd x \<le> s \<or> e \<le> fst x" for x
  proof -
    assume x: "x \<in> set xs"
    obtain b f where bf: "x = (b, f)" by (cases x)
    have "b < f" using assms(1) x by (auto simp: free_ok_def list_all_iff bf)
    have "range_of x \<subseteq> ranges xs" using x by (auto simp: ranges_def)
    with assms(3) have "{unat s ..< unat e} \<inter> {unat b ..< unat f} = {}"
      unfolding bf range_of.simps by blast
    then have "max (unat s) (unat b) \<notin> {unat s ..< unat e} \<inter> {unat b ..< unat f}" by simp
    with \<open>b < f\<close> show ?thesis
      using assms(2) by (auto simp: bf word_le_nat_alt word_less_nat_alt)
  qed
  show "\<forall>x \<in> set ?L. fst x \<le> s \<and> snd x \<le> s"
  proof
    fix x assume "x \<in> set ?L"
    then have "x \<in> set xs" "fst x \<le> s" by (auto dest: set_takeWhileD)
    with apart [of x] assms(2) show "fst x \<le> s \<and> snd x \<le> s" by auto
  qed
  have R: "s < fst y" if y: "y \<in> set ?R" for y
  proof (cases ?R)
    case Nil
    with y show ?thesis by simp
  next
    case (Cons z zs)
    then have z: "s < fst z" using hd_dropWhile [of "\<lambda>x. fst x \<le> s" xs] by (auto simp: not_le)
    from ok(2) Cons y have "y = z \<or> before z y" "page_range z" by (auto simp: free_ok_Cons)
    with z show ?thesis by (cases y; cases z) auto
  qed
  show "\<forall>y \<in> set ?R. s < fst y \<and> e \<le> fst y"
  proof
    fix y assume y: "y \<in> set ?R"
    then have ys: "y \<in> set xs" by (auto dest: set_dropWhileD)
    have "fst y < snd y" by (rule page_range_less [OF free_ok_memD [OF assms(1) ys]])
    with ys show "s < fst y \<and> e \<le> fst y" using R [OF y] apart [of y] by auto
  qed
qed

text \<open>Two ranges that touch and lie in regions that are apart lie in the same region.\<close>

lemma touching_same_region:
  assumes "regions_ok G" and "g \<in> set G" and "h \<in> set G"
    and "within (b, m) g" and "within (m, e) h" and "b < m" and "m < e"
  shows "within (b, e) g"
proof (cases "g = h")
  case True
  with assms(4,5) show ?thesis by (cases g) auto
next
  case False
  from assms(2,3) obtain i j where ij: "i < length G" "j < length G" "g = G ! i" "h = G ! j"
    by (auto simp: in_set_conv_nth)
  with False have "i < j \<or> j < i" by (cases i j rule: linorder_cases) auto
  with ij assms(1) have "before g h \<or> before h g"
    unfolding regions_ok_def by (auto dest: sorted_wrt_nth_less)
  with assms(4-7) show ?thesis by (cases g; cases h) auto
qed

lemma merge_left:
  assumes "free_ok L" and "\<forall>x \<in> set L. fst x \<le> s \<and> snd x \<le> s" and "4096 dvd unat s"
    and "(if L \<noteq> [] \<and> snd (last L) = s then (butlast L, fst (last L)) else (L, s)) = (L', b)"
  shows "free_ok L' \<and> b \<le> s \<and> 4096 dvd unat b \<and> (\<forall>x \<in> set L'. snd x < b) \<and>
    ranges L = ranges L' \<union> {unat b ..< unat s} \<and> set L' \<subseteq> set L \<and> (b = s \<or> (b, s) \<in> set L)"
proof (cases L rule: rev_cases)
  case Nil
  with assms show ?thesis by auto
next
  case (snoc M x)
  obtain pb pe where x: "x = (pb, pe)" by (cases x)
  have M: "free_ok M" "\<forall>y \<in> set M. snd y < pb" and pr: "pb < pe" "4096 dvd unat pb"
    using assms(1) unfolding snoc x by (auto simp: free_ok_append free_ok_Cons)
  have "snd y < s" if "y \<in> set M" for y
    using M(2) that assms(2) pr(1) snoc x by fastforce
  then show ?thesis
    using assms M pr unfolding snoc x by (auto split: if_splits)
qed

lemma merge_right:
  assumes "free_ok R" and "\<forall>y \<in> set R. e \<le> fst y" and "4096 dvd unat e" and "unat e \<le> 2 ^ 52"
    and "(if R \<noteq> [] \<and> fst (hd R) = e then (tl R, snd (hd R)) else (R, e)) = (R', f)"
  shows "free_ok R' \<and> e \<le> f \<and> 4096 dvd unat f \<and> unat f \<le> 2 ^ 52 \<and> (\<forall>y \<in> set R'. f < fst y) \<and>
    ranges R = {unat e ..< unat f} \<union> ranges R' \<and> set R' \<subseteq> set R \<and> (f = e \<or> (e, f) \<in> set R)"
proof (cases R)
  case Nil
  with assms show ?thesis by auto
next
  case (Cons x N)
  obtain nb ne where x: "x = (nb, ne)" by (cases x)
  have N: "free_ok N" "\<forall>y \<in> set N. ne < fst y" and pr: "nb < ne" "4096 dvd unat ne" "unat ne \<le> 2 ^ 52"
    using assms(1) unfolding Cons x by (auto simp: free_ok_Cons)
  have "e < fst y" if "y \<in> set N" for y
    using N(2) that assms(2) pr(1) Cons x by fastforce
  then show ?thesis
    using assms N pr unfolding Cons x by (auto split: if_splits)
qed

lemma free_insert_ok:
  assumes "free_ok xs" and "page_range (s, e)" and "{unat s ..< unat e} \<inter> ranges xs = {}"
    and "regions_ok G" and "\<forall>x \<in> set xs. \<exists>g \<in> set G. within x g" and "g \<in> set G" and "within (s, e) g"
  shows "\<exists>ys. free_insert s e xs = Some ys \<and> free_ok ys \<and>
    ranges ys = ranges xs \<union> {unat s ..< unat e} \<and> (\<forall>y \<in> set ys. \<exists>g \<in> set G. within y g)"
proof -
  obtain L R where xs: "xs = L @ R" and L: "\<forall>x \<in> set L. fst x \<le> s \<and> snd x \<le> s"
    and R: "\<forall>y \<in> set R. s < fst y \<and> e \<le> fst y"
    using free_ok_split [OF assms(1-3)] by blast
  define P where "P = (if L \<noteq> [] \<and> snd (last L) = s then (butlast L, fst (last L)) else (L, s))"
  define Q where "Q = (if R \<noteq> [] \<and> fst (hd R) = e then (tl R, snd (hd R)) else (R, e))"
  obtain L' b R' f where PQ: "P = (L', b)" "Q = (R', f)" by (cases P; cases Q)
  have res: "free_insert s e xs = Some (L' @ (b, f) # R')"
    using free_insert_split [OF L R] PQ unfolding xs P_def Q_def by simp
  have ok: "free_ok L" "free_ok R" and se: "s < e" "4096 dvd unat s" "4096 dvd unat e" "unat e \<le> 2 ^ 52"
    using assms(1,2) by (auto simp: xs free_ok_append)
  note l = merge_left [OF ok(1) L se(2) PQ(1) [unfolded P_def]]
  have "\<forall>y \<in> set R. e \<le> fst y" using R by blast
  note r = merge_right [OF ok(2) this se(3,4) PQ(2) [unfolded Q_def]]
  have reg: "\<exists>g \<in> set G. within (b, f) g"
  proof -
    obtain g1 where g1: "g1 \<in> set G" "within (b, e) g1"
    proof (cases "b = s")
      case True
      with assms(6,7) that show ?thesis by blast
    next
      case False
      with l have "b < s" "(b, s) \<in> set xs" by (auto simp: xs)
      with assms(4-7) se(1) that show ?thesis by (meson touching_same_region)
    qed
    show ?thesis
    proof (cases "f = e")
      case True
      with g1 show ?thesis by blast
    next
      case False
      with r have "e < f" "(e, f) \<in> set xs" by (auto simp: xs)
      moreover have "b < e" using l se(1) by auto
      ultimately show ?thesis using assms(4,5) g1 by (meson touching_same_region)
    qed
  qed
  have "page_range (b, f)" using l r se by auto
  moreover have "\<forall>x \<in> set L'. before x (b, f)" "\<forall>y \<in> set R'. before (b, f) y"
    using l r by (auto split: prod.splits)
  moreover have "\<forall>x \<in> set L'. \<forall>y \<in> set R'. before x y"
    using assms(1) [unfolded xs free_ok_append] l r by blast
  moreover have "ranges (L' @ (b, f) # R') = ranges xs \<union> {unat s ..< unat e}"
    using l r se(1) unfolding xs by (auto simp: word_le_nat_alt word_less_nat_alt)
  moreover have "\<forall>y \<in> set (L' @ (b, f) # R'). \<exists>g \<in> set G. within y g"
    using reg l r assms(5) by (auto simp: xs)
  ultimately show ?thesis
    using res l r by (auto simp: free_ok_append free_ok_Cons)
qed

lemma page_floor_aligned:
  assumes "4096 dvd unat x" and "unat x \<le> 2 ^ 52"
  shows "page_floor (x + PAGE_SIZE - 1) = x"
proof -
  have "page_floor (x + PAGE_SIZE - 1) = (x + 4095) AND NOT (mask 12)"
    by (simp add: page_floor_def consts_def mask_eq_exp_minus_1 add.commute)
  moreover have "unat (x + 4095) = unat x + 4095"
    using assms(2) by (simp add: unat_word_ariths)
  ultimately have "unat (page_floor (x + PAGE_SIZE - 1)) = (unat x + 4095) div 2 ^ 12 * 2 ^ 12"
    by (simp only: unat_and_not_mask)
  also have "\<dots> = unat x" using assms(1) by (auto elim!: dvdE)
  finally show ?thesis by (simp only: word_unat_eq_iff)
qed

lemma regions_later_disjoint:
  assumes "regions_ok G" and "i < length G"
  shows "range_of (G ! i) \<inter> ranges (drop (Suc i) G) = {}"
proof -
  have "range_of (G ! i) \<inter> range_of y = {}" if "y \<in> set (drop (Suc i) G)" for y
  proof -
    from that obtain j where j: "j < length G - Suc i" and y: "y = G ! (Suc i + j)"
      by (auto simp: in_set_conv_nth)
    have "before (G ! i) (G ! (Suc i + j)) \<or> before (G ! (Suc i + j)) (G ! i)"
      using assms j unfolding regions_ok_def
      by (intro sorted_wrt_nth_less [of "\<lambda>x y. before x y \<or> before y x"]) auto
    then have "before (G ! i) y \<or> before y (G ! i)" by (simp add: y)
    then show ?thesis using before_disjoint by blast
  qed
  then show ?thesis by (auto simp: ranges_def)
qed

lemma region_memD: "regions_ok G \<Longrightarrow> i < length G \<Longrightarrow> page_range (G ! i)"
  by (simp add: regions_ok_def list_all_iff)

text \<open>One round of the loop: the region at the cursor has room, or the cursor moves on.\<close>

definition advance :: "frame_alloc \<Rightarrow> frame_alloc" where
  "advance fa =
     (if fa_cur fa + 1 < length (fa_regions fa)
      then fa\<lparr>fa_cur := fa_cur fa + 1, fa_next_free := fst (fa_regions fa ! (fa_cur fa + 1))\<rparr>
      else fa\<lparr>fa_cur := fa_cur fa + 1\<rparr>)"

lemma virgin_advance:
  assumes "fa_cur fa < length (fa_regions fa)"
  shows "virgin (advance fa) = ranges (drop (Suc (fa_cur fa)) (fa_regions fa))"
proof (cases "Suc (fa_cur fa) < length (fa_regions fa)")
  case True
  obtain b e where be: "fa_regions fa ! Suc (fa_cur fa) = (b, e)" by fastforce
  have "drop (Suc (fa_cur fa)) (fa_regions fa) = (b, e) # drop (Suc (Suc (fa_cur fa))) (fa_regions fa)"
    using Cons_nth_drop_Suc [OF True] be by simp
  with True be show ?thesis by (simp add: virgin_def advance_def)
next
  case False
  then show ?thesis by (simp add: virgin_def advance_def)
qed

lemma advance_sel [simp]:
  "fa_regions (advance fa) = fa_regions fa" "fa_free (advance fa) = fa_free fa"
  "fa_allocated (advance fa) = fa_allocated fa"
  by (simp_all add: advance_def)

lemma fa_inv_advance:
  assumes "fa_inv fa" and "fa_cur fa < length (fa_regions fa)"
  shows "fa_inv (advance fa)" and "virgin (advance fa) \<subseteq> virgin fa"
proof -
  have "page_range (fa_regions fa ! Suc (fa_cur fa))" if "Suc (fa_cur fa) < length (fa_regions fa)"
    using that assms(1) by (auto simp: fa_inv_def intro: region_memD)
  then have "fa_cur (advance fa) < length (fa_regions fa) \<Longrightarrow>
      4096 dvd unat (fa_next_free (advance fa)) \<and>
      fst (fa_regions fa ! fa_cur (advance fa)) \<le> fa_next_free (advance fa) \<and>
      fa_next_free (advance fa) \<le> snd (fa_regions fa ! fa_cur (advance fa))"
    by (cases "fa_regions fa ! Suc (fa_cur fa)") (auto simp: advance_def split: if_splits)
  moreover show sub: "virgin (advance fa) \<subseteq> virgin fa"
    using assms(2) by (auto simp: virgin_advance) (auto simp: virgin_def)
  ultimately show "fa_inv (advance fa)" using assms(1) by (auto simp: fa_inv_def)
qed

lemma bump_step:
  assumes "fa_inv fa" and "unat c < 2 ^ 40" and "fa_cur fa < length (fa_regions fa)"
  shows "unat (fa_next_free fa + c * PAGE_SIZE) = unat (fa_next_free fa) + 4096 * unat c"
    and "bump c fa =
      (if fa_next_free fa + c * PAGE_SIZE \<le> snd (fa_regions fa ! fa_cur fa)
       then (Some (fa_next_free fa), fa\<lparr>fa_next_free := fa_next_free fa + c * PAGE_SIZE,
               fa_allocated := fa_allocated fa + c\<rparr>)
       else bump c (advance fa))"
proof -
  let ?nf = "fa_next_free fa"
  obtain b e where be: "fa_regions fa ! fa_cur fa = (b, e)" by fastforce
  have nf: "4096 dvd unat ?nf" "?nf \<le> e" and G: "regions_ok (fa_regions fa)"
    using assms(1,3) be by (auto simp: fa_inv_def)
  have "unat e \<le> 2 ^ 52" using region_memD [OF G assms(3)] be by auto
  with nf(2) have nf52: "unat ?nf \<le> 2 ^ 52" by (simp add: word_le_nat_alt)
  have "unat (c * PAGE_SIZE) = 4096 * unat c"
    using assms(2) by (simp add: unat_word_ariths consts_def)
  then show "unat (?nf + c * PAGE_SIZE) = unat ?nf + 4096 * unat c"
    using nf52 assms(2) by (simp add: unat_word_ariths)
  show "bump c fa =
      (if fa_next_free fa + c * PAGE_SIZE \<le> snd (fa_regions fa ! fa_cur fa)
       then (Some (fa_next_free fa), fa\<lparr>fa_next_free := fa_next_free fa + c * PAGE_SIZE,
               fa_allocated := fa_allocated fa + c\<rparr>)
       else bump c (advance fa))"
    using assms(3) page_floor_aligned [OF nf(1) nf52]
    by (simp add: bump.simps [of c fa] Let_def advance_def)
qed

text \<open>\<open>taken fa fa' c r\<close>: \<open>c\<close> frames at \<open>r\<close> moved from the virgin bytes to the caller.\<close>

definition taken :: "frame_alloc \<Rightarrow> frame_alloc \<Rightarrow> u64 \<Rightarrow> u64 \<Rightarrow> bool" where
  "taken fa fa' c r \<longleftrightarrow>
     {unat r ..< unat r + 4096 * unat c} \<subseteq> virgin fa \<and>
     virgin fa' \<subseteq> virgin fa - {unat r ..< unat r + 4096 * unat c} \<and>
     fa_allocated fa' = fa_allocated fa + c \<and> 4096 dvd unat r \<and>
     (\<exists>g \<in> set (fa_regions fa). fst g \<le> r \<and> unat r + 4096 * unat c \<le> unat (snd g))"

lemma bump_here:
  assumes "fa_inv fa" and "unat c < 2 ^ 40" and "fa_cur fa < length (fa_regions fa)"
    and "fa_next_free fa + c * PAGE_SIZE \<le> snd (fa_regions fa ! fa_cur fa)"
    and "fa' = fa\<lparr>fa_next_free := fa_next_free fa + c * PAGE_SIZE, fa_allocated := fa_allocated fa + c\<rparr>"
  shows "fa_inv fa' \<and> taken fa fa' c (fa_next_free fa)"
proof -
  note u = bump_step(1) [OF assms(1-3)]
  obtain b e where be: "fa_regions fa ! fa_cur fa = (b, e)" by fastforce
  have nf: "4096 dvd unat (fa_next_free fa)" "b \<le> fa_next_free fa" and G: "regions_ok (fa_regions fa)"
    using assms(1,3) be by (auto simp: fa_inv_def)
  have le: "unat (fa_next_free fa) + 4096 * unat c \<le> unat e"
    using assms(4) be u by (simp add: word_le_nat_alt)
  have d: "{unat b ..< unat e} \<inter> ranges (drop (Suc (fa_cur fa)) (fa_regions fa)) = {}"
    using regions_later_disjoint [OF G assms(3)] be by simp
  have "{unat (fa_next_free fa) ..< unat (fa_next_free fa) + 4096 * unat c} \<subseteq> {unat b ..< unat e}"
    using nf(2) le by (auto simp: word_le_nat_alt)
  with d have "{unat (fa_next_free fa) ..< unat (fa_next_free fa) + 4096 * unat c} \<inter>
      ranges (drop (Suc (fa_cur fa)) (fa_regions fa)) = {}" by blast
  then have v: "virgin fa' \<subseteq> virgin fa - {unat (fa_next_free fa) ..< unat (fa_next_free fa) + 4096 * unat c}"
    using assms(3) be u le unfolding disjoint_iff by (auto simp: virgin_def assms(5))
  moreover have sub: "{unat (fa_next_free fa) ..< unat (fa_next_free fa) + 4096 * unat c} \<subseteq> virgin fa"
    using assms(3) be le by (auto simp: virgin_def)
  moreover have "(b, e) \<in> set (fa_regions fa)"
    using assms(3) be nth_mem by fastforce
  moreover have "b \<le> fa_next_free fa + c * PAGE_SIZE"
    using nf(2) u by (simp add: word_le_nat_alt)
  moreover have "4096 dvd unat (fa_next_free fa + c * PAGE_SIZE)"
    unfolding u using nf(1) by simp
  ultimately show ?thesis
    using assms(1,3,4) be nf le sub unfolding fa_inv_def taken_def
    by (auto simp: assms(5) intro!: bexI [of _ "(b, e)"])
qed

lemma bump_inv:
  assumes "fa_inv fa" and "unat c < 2 ^ 40" and "bump c fa = (ro, fa')"
  shows "fa_inv fa' \<and> fa_regions fa' = fa_regions fa \<and> fa_free fa' = fa_free fa \<and>
    (case ro of
       None \<Rightarrow> virgin fa' \<subseteq> virgin fa \<and> fa_allocated fa' = fa_allocated fa
     | Some r \<Rightarrow> taken fa fa' c r)"
  using assms
proof (induction "length (fa_regions fa) - fa_cur fa" arbitrary: fa)
  case 0
  then show ?case by (auto simp: bump.simps [of c fa])
next
  case (Suc n)
  then have i: "fa_cur fa < length (fa_regions fa)" by simp
  show ?case
  proof (cases "fa_next_free fa + c * PAGE_SIZE \<le> snd (fa_regions fa ! fa_cur fa)")
    case True
    with Suc.prems i show ?thesis
      using bump_here [OF Suc.prems(1,2) i True refl] by (auto simp: bump_step(2))
  next
    case False
    have "n = length (fa_regions (advance fa)) - fa_cur (advance fa)"
      using Suc.hyps(2) i by (auto simp: advance_def)
    moreover have "bump c (advance fa) = (ro, fa')"
      using False Suc.prems i by (simp add: bump_step(2))
    ultimately show ?thesis
      using Suc.hyps(1) [of "advance fa"] fa_inv_advance [OF Suc.prems(1) i] Suc.prems(2)
      by (auto simp: taken_def split: option.splits)
  qed
qed

lemma bump_None_exhausts: "bump c fa = (None, fa') \<Longrightarrow> virgin fa' = {}"
proof (induction "length (fa_regions fa) - fa_cur fa" arbitrary: fa)
  case 0
  then show ?case by (auto simp: bump.simps [of c fa] virgin_def)
next
  case (Suc n)
  have "n = length (fa_regions (advance fa)) - fa_cur (advance fa)"
    using Suc.hyps(2) by (auto simp: advance_def)
  moreover have "bump c (advance fa) = (None, fa')"
    using Suc.prems Suc.hyps(2)
    by (auto simp: bump.simps [of c fa] Let_def advance_def split: if_splits)
  ultimately show ?case by (rule Suc.hyps(1))
qed

lemma ranges_bound:
  assumes "regions_ok G"
  shows "ranges G \<subseteq> {0 ..< 2 ^ 52}"
proof -
  have "range_of g \<subseteq> {0 ..< 2 ^ 52}" if "page_range g" for g
    using that by (cases g) simp
  with assms have "range_of g \<subseteq> {0 ..< 2 ^ 52}" if "g \<in> set G" for g
    using that by (simp add: regions_ok_def list_all_iff)
  then show ?thesis by (auto simp: ranges_def)
qed

lemma ledger_bound: "ledger fa H \<Longrightarrow> ranges (fa_regions fa) \<subseteq> {0 ..< 2 ^ 52}"
  unfolding ledger_def fa_inv_def using ranges_bound by blast

lemma ledger_finite: "ledger fa H \<Longrightarrow> finite H"
  using ledger_bound [of fa H] by (auto simp: ledger_def intro: finite_subset)

lemma ledger_take:
  assumes "ledger fa H" and "fa_inv fa'" and "fa_regions fa' = fa_regions fa"
    and "{unat r ..< unat r + 4096 * unat c} \<subseteq> available fa"
    and "available fa' \<subseteq> available fa - {unat r ..< unat r + 4096 * unat c}"
    and "fa_allocated fa' = fa_allocated fa + c"
    and "g \<in> set (fa_regions fa)" and "fst g \<le> r" and "unat r + 4096 * unat c \<le> unat (snd g)"
  shows "{unat r ..< unat r + 4096 * unat c} \<inter> H = {}"
    and "ledger fa' (H \<union> {unat r ..< unat r + 4096 * unat c})"
proof -
  let ?R = "{unat r ..< unat r + 4096 * unat c}"
  show d: "?R \<inter> H = {}" using assms(1,4) by (auto simp: ledger_def)
  have "?R \<subseteq> range_of g" using assms(8,9) by (cases g) (auto simp: word_le_nat_alt)
  then have sub: "H \<union> ?R \<subseteq> ranges (fa_regions fa)"
    using assms(1,7) by (auto simp: ledger_def ranges_def)
  also have "\<dots> \<subseteq> {0 ..< 2 ^ 52}"
    by (rule ledger_bound [OF assms(1)])
  finally have "card (H \<union> ?R) \<le> card {0 ..< 2 ^ 52 :: nat}" by (intro card_mono) auto
  moreover have card: "card (H \<union> ?R) = 4096 * (unat (fa_allocated fa) + unat c)"
    using d assms(1) by (subst card_Un_disjoint) (auto simp: ledger_finite ledger_def)
  ultimately have "unat (fa_allocated fa) + unat c < 2 ^ 64" by simp
  then have "unat (fa_allocated fa') = unat (fa_allocated fa) + unat c"
    by (simp add: assms(6) unat_word_ariths)
  with card sub assms(1-5) show "ledger fa' (H \<union> ?R)" by (auto simp: ledger_def)
qed

lemma alloc_cases:
  assumes "fa_inv fa" and "unat count0 < 2 ^ 40" and "alloc_frames count0 fa = (ro, fa')"
  shows "fa_inv fa' \<and> fa_regions fa' = fa_regions fa \<and>
    (case ro of
       None \<Rightarrow> available fa' \<subseteq> available fa \<and> fa_allocated fa' = fa_allocated fa
     | Some r \<Rightarrow> let c = max count0 1; R = {unat r ..< unat r + 4096 * unat c} in
         R \<subseteq> available fa \<and> available fa' \<subseteq> available fa - R \<and>
         fa_allocated fa' = fa_allocated fa + c \<and> 4096 dvd unat r \<and>
         (\<exists>g \<in> set (fa_regions fa). fst g \<le> r \<and> unat r + 4096 * unat c \<le> unat (snd g)))"
proof -
  let ?c = "max count0 1"
  have c: "unat ?c < 2 ^ 40" "0 < unat ?c"
    using assms(2) by (auto simp: max_def word_le_nat_alt unat_gt_0)
  then have uc: "unat (?c * PAGE_SIZE) = 4096 * unat ?c"
    by (simp add: unat_word_ariths consts_def)
  show ?thesis
  proof (cases "first_fit (?c * PAGE_SIZE) (fa_free fa)")
    case None
    with assms have "bump ?c fa = (ro, fa')" by (simp add: alloc_frames_def Let_def)
    note b = bump_inv [OF assms(1) c(1) this]
    then show ?thesis using assms(1)
      by (cases ro) (auto simp: available_def taken_def fa_inv_def Let_def)
  next
    case (Some p)
    obtain r fl where p: "p = (r, fl)" by (cases p)
    have fa': "ro = Some r" "fa' = fa\<lparr>fa_free := fl, fa_allocated := fa_allocated fa + ?c\<rparr>"
      using assms(3) Some p by (auto simp: alloc_frames_def Let_def)
    have "free_ok (fa_free fa)" using assms(1) by (simp add: fa_inv_def)
    moreover have "0 < ?c * PAGE_SIZE" using c uc by (simp add: word_less_nat_alt)
    ultimately have ff: "free_ok fl" "ranges fl = ranges (fa_free fa) - {unat r ..< unat r + 4096 * unat ?c}"
      "\<forall>y \<in> set fl. \<exists>x \<in> set (fa_free fa). within y x" "4096 dvd unat r"
      "\<exists>x \<in> set (fa_free fa). fst x \<le> r \<and> unat r + 4096 * unat ?c \<le> unat (snd x)"
      using first_fit_Some [of "?c * PAGE_SIZE" "fa_free fa" r fl] Some p uc
      by (auto simp: within_iff word_le_nat_alt)
    have R: "{unat r ..< unat r + 4096 * unat ?c} \<subseteq> ranges (fa_free fa)"
    proof -
      from ff(5) obtain x where x: "x \<in> set (fa_free fa)" "fst x \<le> r"
        "unat r + 4096 * unat ?c \<le> unat (snd x)" by blast
      then have "{unat r ..< unat r + 4096 * unat ?c} \<subseteq> range_of x"
        by (auto simp: range_of_eq word_le_nat_alt)
      with x(1) show ?thesis by (auto simp: ranges_def)
    qed
    have fv: "ranges (fa_free fa) \<inter> virgin fa = {}" and
      reg: "\<forall>x \<in> set (fa_free fa). \<exists>g \<in> set (fa_regions fa). within x g"
      using assms(1) by (auto simp: fa_inv_def list_all_iff list_ex_iff)
    have v: "virgin fa' = virgin fa" by (simp add: fa' virgin_def)
    have "\<exists>g \<in> set (fa_regions fa). within y g" if y: "y \<in> set fl" for y
      using ff(3) reg y by (meson within_trans)
    then have "fa_inv fa'"
      using assms(1) fv ff(1,2) v by (auto simp: fa_inv_def fa' list_all_iff list_ex_iff)
    moreover have "\<exists>g \<in> set (fa_regions fa). fst g \<le> r \<and> unat r + 4096 * unat ?c \<le> unat (snd g)"
    proof -
      from ff(5) obtain x where x: "x \<in> set (fa_free fa)" "fst x \<le> r"
        "unat r + 4096 * unat ?c \<le> unat (snd x)" by blast
      with reg obtain g where "g \<in> set (fa_regions fa)" "within x g" by blast
      with x show ?thesis by (auto simp: within_iff word_le_nat_alt intro!: bexI [of _ g])
    qed
    ultimately show ?thesis
      using R fv ff(2,4) v by (auto simp: fa' available_def Let_def)
  qed
qed

text \<open>The two directions of the ledger.\<close>

lemma ledger_give:
  assumes "ledger fa H" and "fa_inv fa'" and "fa_regions fa' = fa_regions fa"
    and "R \<subseteq> H" and "available fa' = available fa \<union> R" and "card R = 4096 * unat c"
    and "fa_allocated fa' = fa_allocated fa - c"
  shows "c \<le> fa_allocated fa" and "ledger fa' (H - R)"
proof -
  have "card R \<le> card H" using assms(1,4) by (intro card_mono ledger_finite)
  then show le: "c \<le> fa_allocated fa"
    using assms(1,6) by (simp add: ledger_def word_le_nat_alt)
  have "card (H - R) = card H - card R"
    using assms(1,4) by (intro card_Diff_subset) (auto intro: finite_subset ledger_finite)
  also have "\<dots> = 4096 * unat (fa_allocated fa')"
    using assms(1,6) le by (simp add: ledger_def assms(7) unat_sub word_le_nat_alt)
  finally show "ledger fa' (H - R)"
    using assms(1-5) by (auto simp: ledger_def)
qed

lemma free_frames_ledger_aux:
  assumes "ledger fa H" and "c \<noteq> 0" and "4096 dvd unat s"
    and "{unat s ..< unat s + 4096 * unat c} \<subseteq> H"
    and "g \<in> set (fa_regions fa)" and "fst g \<le> s" and "unat s + 4096 * unat c \<le> unat (snd g)"
  shows "\<exists>fa'. free_frames s c fa = Some fa' \<and> fa_regions fa' = fa_regions fa \<and>
    ledger fa' (H - {unat s ..< unat s + 4096 * unat c}) \<and>
    available fa' = available fa \<union> {unat s ..< unat s + 4096 * unat c}"
proof -
  let ?R = "{unat s ..< unat s + 4096 * unat c}" and ?e = "s + c * PAGE_SIZE"
  have inv: "fa_inv fa" and G: "regions_ok (fa_regions fa)" and ok: "free_ok (fa_free fa)"
    using assms(1) by (auto simp: ledger_def fa_inv_def)
  have "page_range g" using G assms(5) by (simp add: regions_ok_def list_all_iff)
  then have "unat (snd g) \<le> 2 ^ 52" by (cases g) simp
  with assms(7) have b: "unat s + 4096 * unat c \<le> 2 ^ 52" by simp
  then have m: "unat (c * PAGE_SIZE) = 4096 * unat c" by (simp add: unat_word_ariths consts_def)
  with b have e: "unat ?e = unat s + 4096 * unat c" by (simp add: unat_word_ariths)
  have chk: "checked_mul c PAGE_SIZE = Some (c * PAGE_SIZE)" "checked_add s (c * PAGE_SIZE) = Some ?e"
    using b m by (simp_all add: checked_mul_def checked_add_def consts_def)
  have "0 < unat c" using assms(2) by (simp add: unat_gt_0)
  with e b assms(3) have pr: "page_range (s, ?e)" by (simp add: word_less_nat_alt)
  have w: "within (s, ?e) g" using assms(6,7) e by (simp add: within_iff word_le_nat_alt)
  have "H \<inter> available fa = {}" using assms(1) by (simp add: ledger_def)
  then have d: "?R \<inter> ranges (fa_free fa) = {}" "?R \<inter> virgin fa = {}"
    using assms(4) by (auto simp: available_def)
  have regs: "\<forall>x \<in> set (fa_free fa). \<exists>g \<in> set (fa_regions fa). within x g"
    using inv by (auto simp: fa_inv_def list_all_iff list_ex_iff)
  obtain ys where ys: "free_insert s ?e (fa_free fa) = Some ys" "free_ok ys"
    "ranges ys = ranges (fa_free fa) \<union> ?R" "\<forall>y \<in> set ys. \<exists>g \<in> set (fa_regions fa). within y g"
    using free_insert_ok [OF ok pr _ G regs assms(5) w] d(1) e by auto
  let ?fa = "fa\<lparr>fa_allocated := fa_allocated fa - c, fa_free := ys\<rparr>"
  have v: "virgin ?fa = virgin fa" by (simp add: virgin_def)
  have inv': "fa_inv ?fa"
    using inv ys d(2) v by (auto simp: fa_inv_def list_all_iff list_ex_iff)
  have av: "available ?fa = available fa \<union> ?R" using ys(3) v by (auto simp: available_def)
  note L = ledger_give [OF assms(1) inv' _ assms(4) av, of c, simplified]
  have "s mod PAGE_SIZE = 0"
    using assms(3) by (simp add: consts_def word_arith_nat_mod mod_eq_0_iff_dvd)
  moreover have "list_ex (\<lambda>(rs, re). s \<ge> rs \<and> ?e \<le> re) (fa_regions fa)"
    using assms(5) w by (auto simp: list_ex_iff within_iff split: prod.splits)
  ultimately have "free_frames s c fa = Some ?fa"
    using assms(2) L(1) ys(1) by (simp add: free_frames_def chk not_less)
  with L(2) av show ?thesis by simp
qed

text \<open>Freeing bytes that are already free trips one of the two overlap assertions.\<close>

lemma free_insert_disjoint:
  assumes "free_insert s e xs = Some ys" and "free_ok xs" and "s < e"
  shows "{unat s ..< unat e} \<inter> ranges xs = {}"
proof -
  define n where "n = (case position (\<lambda>(b, _). b > s) xs of Some i \<Rightarrow> i | None \<Rightarrow> length xs)"
  have lo: "0 < n \<Longrightarrow> snd (xs ! (n - 1)) \<le> s" and hi: "n < length xs \<Longrightarrow> e \<le> fst (xs ! n)"
    using assms(1) by (auto simp: free_insert_def n_def [symmetric] Let_def split: if_splits)
  have n: "n \<le> length xs"
    unfolding n_def by (auto split: option.splits dest: position_SomeD)
  have pr: "fst (xs ! i) < snd (xs ! i)" if "i < length xs" for i
    using assms(2) that by (intro page_range_less free_ok_memD [of xs]) auto
  have bef: "snd (xs ! i) < fst (xs ! j)" if "i < j" "j < length xs" for i j
    using assms(2) that sorted_wrt_nth_less [of before xs i j]
    by (cases "xs ! i"; cases "xs ! j") (auto simp: free_ok_def)
  have "snd (xs ! i) \<le> s \<or> e \<le> fst (xs ! i)" if i: "i < length xs" for i
  proof (cases "i < n")
    case True
    then have "i = n - 1 \<or> i < n - 1" by auto
    with True lo n bef [of i "n - 1"] pr [of "n - 1"] show ?thesis by force
  next
    case False
    then have "i = n \<or> n < i" by auto
    with False i hi bef [of n i] pr [of n] show ?thesis by force
  qed
  then show ?thesis
    by (auto simp: ranges_def range_of_eq in_set_conv_nth word_le_nat_alt) fastforce+
qed

section \<open>Start-up\<close>

text \<open>What the boot loader's memory map promises: usable regions end inside the physical
  address space and no two of them touch.\<close>

fun apart :: "bool \<times> u64 \<times> u64 \<Rightarrow> bool \<times> u64 \<times> u64 \<Rightarrow> bool" where
  "apart (u, s, e) (u', s', e') \<longleftrightarrow> u \<and> u' \<longrightarrow> e < s' \<or> e' < s"

definition boot_map_ok :: "(bool \<times> u64 \<times> u64) list \<Rightarrow> bool" where
  "boot_map_ok rs \<longleftrightarrow> sorted_wrt apart rs \<and>
     list_all (\<lambda>(u, s, e). u \<longrightarrow> unat s \<le> 2 ^ 52 \<and> unat e \<le> 2 ^ 52) rs"

lemma page_floor_eq: "page_floor x = x AND NOT (mask 12)"
  by (simp add: page_floor_def consts_def mask_eq_exp_minus_1)

lemma unat_page_floor: "unat (page_floor x) = unat x div 4096 * 4096"
  using unat_and_not_mask [of x 12] by (simp only: page_floor_eq) simp

lemma page_floor_up:
  assumes "unat x \<le> 2 ^ 52"
  shows "x \<le> page_floor (x + PAGE_SIZE - 1)" and "4096 dvd unat (page_floor y)"
proof -
  have "unat (x + PAGE_SIZE - 1) = unat x + 4095"
    using assms by (simp add: unat_word_ariths consts_def)
  then have "unat (page_floor (x + PAGE_SIZE - 1)) = (unat x + 4095) div 4096 * 4096"
    by (simp only: unat_page_floor)
  then show "x \<le> page_floor (x + PAGE_SIZE - 1)" by (simp only: word_le_nat_alt)
  show "4096 dvd unat (page_floor y)" by (simp only: unat_page_floor dvd_triv_right)
qed

lemma page_floor_le: "page_floor x \<le> x"
  by (simp only: word_le_nat_alt unat_page_floor div_times_less_eq_dividend)

text \<open>What the scan keeps of one region.\<close>

definition clip :: "u64 \<Rightarrow> u64 \<Rightarrow> u64 \<times> u64" where
  "clip s e = (page_floor (max s MIN_ADDR + PAGE_SIZE - 1), page_floor e)"

lemma clip_props:
  assumes "unat s \<le> 2 ^ 52" and "unat e \<le> 2 ^ 52"
  shows "within (clip s e) (max s MIN_ADDR, e)"
    and "fst (clip s e) < snd (clip s e) \<Longrightarrow> page_range (clip s e)"
proof -
  have "unat (max s MIN_ADDR) \<le> 2 ^ 52" using assms(1) by (simp add: max_def consts_def)
  note up = page_floor_up [OF this]
  show "within (clip s e) (max s MIN_ADDR, e)"
    using up(1) page_floor_le by (simp add: clip_def)
  have "unat (page_floor e) \<le> 2 ^ 52"
    using page_floor_le [of e] assms(2) by (simp add: word_le_nat_alt)
  then show "fst (clip s e) < snd (clip s e) \<Longrightarrow> page_range (clip s e)"
    using up(2) by (simp add: clip_def)
qed

lemma scan_regions_ok:
  assumes "boot_map_ok rs" and "regions_ok acc"
    and "\<forall>r \<in> set acc. \<forall>(u, s, e) \<in> set rs. u \<longrightarrow> before r (s, e) \<or> before (s, e) r"
  shows "regions_ok (scan_regions rs acc) \<and>
    (\<forall>r \<in> set (scan_regions rs acc). r \<in> set acc \<or>
       (\<exists>s e. (True, s, e) \<in> set rs \<and> within r (max s MIN_ADDR, e)))"
  using assms
proof (induction rs acc rule: scan_regions.induct)
  case (1 acc)
  then show ?case by simp
next
  case (2 u s e rs acc)
  have rs: "boot_map_ok rs" using "2.prems"(1) by (simp add: boot_map_ok_def)
  show ?case
  proof (cases "\<not> u \<or> MAX_REGIONS \<le> length acc")
    case True
    with "2.IH"(1) [OF True rs] "2.prems" show ?thesis by fastforce
  next
    case False
    define acc' where "acc' = (if fst (clip s e) < snd (clip s e) then acc @ [clip s e] else acc)"
    have eq: "scan_regions ((u, s, e) # rs) acc = scan_regions rs acc'"
      using False by (simp add: acc'_def clip_def Let_def)
    have b: "unat s \<le> 2 ^ 52" "unat e \<le> 2 ^ 52" and ap: "\<forall>r \<in> set rs. apart (True, s, e) r"
      using "2.prems"(1) False by (auto simp: boot_map_ok_def)
    note cl = clip_props [OF b]
    have in_e: "fst (clip s e) \<ge> s" "snd (clip s e) \<le> e" using cl(1) by (auto simp: within_iff)
    have "before r (clip s e) \<or> before (clip s e) r" if "r \<in> set acc" for r
      using "2.prems"(3) that False in_e by (cases r; cases "clip s e") fastforce
    then have ok: "regions_ok acc'"
      using "2.prems"(2) cl(2) by (auto simp: acc'_def regions_ok_def sorted_wrt_append)
    have "before (clip s e) (s', e') \<or> before (s', e') (clip s e)" if "(True, s', e') \<in> set rs" for s' e'
      using ap that in_e by (cases "clip s e") fastforce
    then have sep: "\<forall>r \<in> set acc'. \<forall>(u, s, e) \<in> set rs. u \<longrightarrow> before r (s, e) \<or> before (s, e) r"
      using "2.prems"(3) by (auto simp: acc'_def) blast
    have "regions_ok (scan_regions rs acc') \<and> (\<forall>r \<in> set (scan_regions rs acc'). r \<in> set acc' \<or>
       (\<exists>s e. (True, s, e) \<in> set rs \<and> within r (max s MIN_ADDR, e)))"
      using "2.IH"(2) [OF False refl refl rs] ok sep
      unfolding acc'_def clip_def fst_conv snd_conv by blast
    moreover have "r \<in> set acc \<or> within r (max s MIN_ADDR, e)" if "r \<in> set acc'" for r
      using that cl(1) by (auto simp: acc'_def split: if_splits)
    ultimately show ?thesis unfolding eq using False by fastforce
  qed
qed

text \<open>The allocator that \<^verbatim>\<open>init\<close> builds from a map whose usable regions do not touch is consistent with nobody
  holding anything, and manages usable memory at or above \<^verbatim>\<open>MIN_ADDR\<close> only.\<close>

lemma frame_init_ok:
  assumes "boot_map_ok rs"
  shows "ledger (frame_init rs) {} \<and>
    (\<forall>r \<in> set (fa_regions (frame_init rs)).
       \<exists>s e. (True, s, e) \<in> set rs \<and> within r (max s MIN_ADDR, e))"
proof -
  have "regions_ok []" by (simp add: regions_ok_def)
  then have scan: "regions_ok (scan_regions rs [])"
    "\<forall>r \<in> set (scan_regions rs []). \<exists>s e. (True, s, e) \<in> set rs \<and> within r (max s MIN_ADDR, e)"
    using scan_regions_ok [OF assms, of "[]"] by auto
  have "page_range r" if "scan_regions rs [] = r # rest" for r rest
    using scan(1) that by (simp add: regions_ok_def)
  then have "ledger (frame_init rs) {}"
    using scan(1)
    by (auto simp: ledger_def fa_inv_def frame_init_def Let_def split: list.splits prod.splits)
  with scan(2) show ?thesis by (simp add: frame_init_def Let_def)
qed

section \<open>Properties\<close>

text \<open>C10: an allocation hands out bytes nobody holds. Whatever \<^verbatim>\<open>alloc_frames\<close> returns, the
  ledger stays consistent: on success the frames are page aligned, contiguous, inside one
  managed region, disjoint from everything held, and become held; on failure nothing
  changes hands.\<close>

theorem alloc_frames_ledger:
  assumes "ledger fa H" and "unat count < 2 ^ 40" and "alloc_frames count fa = (ro, fa')"
  shows "fa_regions fa' = fa_regions fa \<and>
    (case ro of
       None \<Rightarrow> ledger fa' H
     | Some r \<Rightarrow> let R = {unat r ..< unat r + 4096 * unat (max count 1)} in
         R \<inter> H = {} \<and> ledger fa' (H \<union> R) \<and> 4096 dvd unat r \<and>
         (\<exists>g \<in> set (fa_regions fa). R \<subseteq> range_of g))"
proof -
  have inv: "fa_inv fa" using assms(1) by (simp add: ledger_def)
  note a = alloc_cases [OF inv assms(2,3)]
  show ?thesis
  proof (cases ro)
    case None
    with a assms(1) show ?thesis by (auto simp: ledger_def)
  next
    case (Some r)
    with a obtain g where g: "g \<in> set (fa_regions fa)" "fst g \<le> r"
      "unat r + 4096 * unat (max count 1) \<le> unat (snd g)" by (auto simp: Let_def)
    then have "{unat r ..< unat r + 4096 * unat (max count 1)} \<subseteq> range_of g"
      by (auto simp: range_of_eq word_le_nat_alt)
    with a Some g show ?thesis
      using ledger_take [OF assms(1) _ _ _ _ _ g] by (auto simp: Let_def)
  qed
qed

lemma alloc_frames_ledger_witness:
  "ledger (frame_init [(True, 0x100000, 0x800000)]) {} \<and>
   fst (alloc_frames 4 (frame_init [(True, 0x100000, 0x800000)])) = Some 0x100000 \<and>
   ledger (snd (alloc_frames 4 (frame_init [(True, 0x100000, 0x800000)]))) {0x100000 ..< 0x104000}"
proof -
  have init: "frame_init [(True, 0x100000, 0x800000)] =
      \<lparr>fa_regions = [(0x100000, 0x800000)], fa_cur = 0, fa_next_free = 0x100000, fa_free = [],
       fa_allocated = 0\<rparr>"
    by (simp add: frame_init_def consts_def page_floor_def)
  have L: "ledger (frame_init [(True, 0x100000, 0x800000)]) {}"
    unfolding init
    by (simp add: ledger_def fa_inv_def regions_ok_def virgin_def available_def)
  have al: "alloc_frames 4 (frame_init [(True, 0x100000, 0x800000)]) =
      (Some 0x100000, \<lparr>fa_regions = [(0x100000, 0x800000)], fa_cur = 0, fa_next_free = 0x104000,
        fa_free = [], fa_allocated = 4\<rparr>)"
    unfolding init by (simp add: alloc_frames_def bump.simps page_floor_def consts_def max_def word_le_nat_alt)
  show ?thesis
    using L alloc_frames_ledger [OF L _ al] by (simp add: al [unfolded init] max_def word_le_nat_alt Let_def init)
qed

text \<open>C11: returning what is held never panics. If the bytes of \<^verbatim>\<open>free_frames(start, count)\<close>
  are held and lie in one managed region, none of the assertions fires, the bytes stop
  being held, and the allocator stays consistent.\<close>

theorem free_frames_ledger:
  assumes "ledger fa H" and "4096 dvd unat start"
    and "{unat start ..< unat start + 4096 * unat count} \<subseteq> H"
    and "\<exists>g \<in> set (fa_regions fa). fst g \<le> start \<and> unat start + 4096 * unat count \<le> unat (snd g)"
  shows "\<exists>fa'. free_frames start count fa = Some fa' \<and> fa_regions fa' = fa_regions fa \<and>
    ledger fa' (H - {unat start ..< unat start + 4096 * unat count})"
proof (cases "count = 0")
  case True
  with assms(1) show ?thesis by (simp add: free_frames_def)
next
  case False
  with assms show ?thesis using free_frames_ledger_aux [OF assms(1) False assms(2,3)] by blast
qed

lemma free_frames_ledger_witness:
  "ledger \<lparr>fa_regions = [(0x100000, 0x800000)], fa_cur = 0, fa_next_free = 0x102000, fa_free = [],
     fa_allocated = 2\<rparr> {0x100000 ..< 0x102000} \<and>
   (\<exists>fa'. free_frames 0x101000 1 \<lparr>fa_regions = [(0x100000, 0x800000)], fa_cur = 0,
       fa_next_free = 0x102000, fa_free = [], fa_allocated = 2\<rparr> = Some fa' \<and>
     ledger fa' {0x100000 ..< 0x101000})"
proof -
  let ?fa = "\<lparr>fa_regions = [(0x100000, 0x800000)], fa_cur = 0, fa_next_free = 0x102000, fa_free = [],
     fa_allocated = 2\<rparr>"
  have L: "ledger ?fa {0x100000 ..< 0x102000}"
    by (simp add: ledger_def fa_inv_def regions_ok_def virgin_def available_def)
  have "{0x100000 ..< 0x102000} - {0x101000 ..< 0x102000} = {0x100000 ..< 0x101000 :: nat}" by auto
  then show ?thesis using L free_frames_ledger [OF L, of "0x101000" 1] by auto
qed

text \<open>C12: a double free is caught. If any of the bytes given to \<^verbatim>\<open>free_frames\<close> is already
  on the free list, the kernel panics on one of its two overlap assertions (or an earlier
  one); it never builds a free list in which a byte occurs twice.\<close>

theorem double_free_panics:
  assumes "fa_inv fa" and "x \<in> ranges (fa_free fa)"
    and "unat start \<le> x" and "x < unat start + 4096 * unat count"
  shows "free_frames start count fa = None"
proof (rule ccontr)
  assume "free_frames start count fa \<noteq> None"
  then obtain fl where m: "unat count * 4096 < 2 ^ 64" "unat start + unat (count * PAGE_SIZE) < 2 ^ 64"
    and fl: "free_insert start (start + count * PAGE_SIZE) (fa_free fa) = Some fl"
    using assms(3,4)
    by (auto simp: free_frames_def checked_mul_def checked_add_def consts_def
        split: if_splits option.splits bind_splits)
  have u: "unat (count * PAGE_SIZE) = 4096 * unat count"
    using m(1) by (simp add: unat_word_ariths consts_def mult.commute)
  with m(2) have e: "unat (start + count * PAGE_SIZE) = unat start + 4096 * unat count"
    by (simp add: unat_word_ariths)
  with assms(3,4) have "start < start + count * PAGE_SIZE" by (simp add: word_less_nat_alt)
  with free_insert_disjoint [OF fl] assms e show False by (auto simp: fa_inv_def)
qed

lemma double_free_panics_witness:
  "free_frames 0x101000 1 \<lparr>fa_regions = [(0x100000, 0x800000)], fa_cur = 0,
     fa_next_free = 0x103000, fa_free = [(0x101000, 0x102000)], fa_allocated = 2\<rparr> = None"
proof (rule double_free_panics)
  show "fa_inv \<lparr>fa_regions = [(0x100000, 0x800000)], fa_cur = 0,
     fa_next_free = 0x103000, fa_free = [(0x101000, 0x102000)], fa_allocated = 2\<rparr>"
    by (simp add: fa_inv_def regions_ok_def free_ok_def virgin_def)
  show "0x101000 \<in> ranges (fa_free \<lparr>fa_regions = [(0x100000, 0x800000)], fa_cur = 0,
     fa_next_free = 0x103000, fa_free = [(0x101000, 0x102000)], fa_allocated = 2\<rparr>)"
    by simp
qed simp_all

text \<open>C13: a failed allocation spends every virgin byte. When no managed range is long
  enough, \<^verbatim>\<open>alloc_frames\<close> answers \<^verbatim>\<open>None\<close> only after the cursor has passed the last region,
  so that from then on only returned frames can be allocated; the free list itself is
  left alone.\<close>

theorem failed_alloc_spends_virgin:
  assumes "alloc_frames count fa = (None, fa')"
  shows "virgin fa' = {} \<and> (fa_inv fa \<and> unat count < 2 ^ 40 \<longrightarrow> fa_free fa' = fa_free fa)"
proof -
  have b: "bump (max count 1) fa = (None, fa')"
    using assms by (auto simp: alloc_frames_def Let_def split: option.splits)
  have "unat count < 2 ^ 40 \<Longrightarrow> unat (max count 1) < 2 ^ 40" by (simp add: max_def)
  with b show ?thesis using bump_None_exhausts bump_inv by blast
qed

lemma failed_alloc_spends_virgin_witness:
  "alloc_frames 8 \<lparr>fa_regions = [(0x100000, 0x104000)], fa_cur = 0, fa_next_free = 0x100000,
      fa_free = [], fa_allocated = 0\<rparr> =
    (None, \<lparr>fa_regions = [(0x100000, 0x104000)], fa_cur = 1, fa_next_free = 0x100000,
      fa_free = [], fa_allocated = 0\<rparr>) \<and>
   virgin \<lparr>fa_regions = [(0x100000, 0x104000)], fa_cur = 1, fa_next_free = 0x100000,
      fa_free = [], fa_allocated = 0\<rparr> = {}"
proof -
  have "alloc_frames 8 \<lparr>fa_regions = [(0x100000, 0x104000)], fa_cur = 0, fa_next_free = 0x100000,
      fa_free = [], fa_allocated = 0\<rparr> =
    (None, \<lparr>fa_regions = [(0x100000, 0x104000)], fa_cur = 1, fa_next_free = 0x100000,
      fa_free = [], fa_allocated = 0\<rparr>)"
    by (simp add: alloc_frames_def bump.simps page_floor_def consts_def max_def word_le_nat_alt)
  with failed_alloc_spends_virgin [OF this] show ?thesis by blast
qed

text \<open>The hypothesis that usable regions do not touch is needed. With two touching regions
  the merge of \<^verbatim>\<open>free_frames\<close> builds a free range across both, the next allocation hands
  it out, and returning it panics with "range outside usable memory".\<close>

definition touching_run :: "(u64 \<times> frame_alloc) option" where
  "touching_run =
     (let fa0 = frame_init [(True, 0x100000, 0x101000), (True, 0x101000, 0x102000)];
          (_, fa1) = alloc_frames 1 fa0;
          (_, fa2) = alloc_frames 1 fa1
      in do {
        fa3 \<leftarrow> free_frames 0x100000 1 fa2;
        fa4 \<leftarrow> free_frames 0x101000 1 fa3;
        let (r, fa5) = alloc_frames 2 fa4;
        p \<leftarrow> r;
        Some (p, fa5)
      })"

lemma touching_regions_panic:
  "\<exists>fa. touching_run = Some (0x100000, fa) \<and> free_frames 0x100000 2 fa = None"
  by (simp add: touching_run_def frame_init_def alloc_frames_def bump.simps page_floor_def consts_def
      max_def word_le_nat_alt free_frames_def checked_mul_def checked_add_def free_insert_def)

end
