(* ===== verification/Paging.thy ===== *)
theory Paging
  imports Frame
begin

text \<open>
  Four-level page tables and address spaces, \<^verbatim>\<open>kernel/src/paging.rs\<close>.

  Physical memory is a map from page base addresses to 512 words of 64 bits; the physmap
  (\<^verbatim>\<open>phys_to_virt\<close>) through which the kernel touches it is the identity of this model. A
  page table is a page of such words. An entry is read and written in the format the
  memory-management unit defines: bits 12 to 51 the frame, bit 0 present, bit 1 writable, bit 2
  user, bit 7 huge, bit 63 no-execute; a virtual address splits into four 9-bit indices and a
  12-bit offset. TLB flushes have no counterpart.

  An operation that may run out of frames returns a Boolean or an option beside the new
  state, since its failure leaves changes behind; an operation that may panic (through the
  assertions of \<^verbatim>\<open>free_frames\<close>) returns an option of the state.
\<close>

section \<open>Physical memory\<close>

type_synonym physmem = "u64 \<Rightarrow> nat \<Rightarrow> u64"

definition set_word :: "u64 \<Rightarrow> nat \<Rightarrow> u64 \<Rightarrow> physmem \<Rightarrow> physmem" where
  "set_word p i w mem = mem(p := (mem p)(i := w))"

text \<open>\<^verbatim>\<open>write_bytes(phys_to_virt(p), 0, 4096)\<close>.\<close>

definition zero_page :: "u64 \<Rightarrow> physmem \<Rightarrow> physmem" where
  "zero_page p mem = mem(p := (\<lambda>_. 0))"

definition word_index :: "u64 \<Rightarrow> nat" where
  "word_index pa = unat (drop_bit 3 (pa AND 0xfff))"

definition read_byte :: "physmem \<Rightarrow> u64 \<Rightarrow> u8" where
  "read_byte mem pa = ucast (drop_bit (8 * unat (pa AND 7)) (mem (page_floor pa) (word_index pa)))"

definition write_byte :: "u64 \<Rightarrow> u8 \<Rightarrow> physmem \<Rightarrow> physmem" where
  "write_byte pa b mem =
     (let w = mem (page_floor pa) (word_index pa); s = 8 * unat (pa AND 7)
      in set_word (page_floor pa) (word_index pa)
           ((w AND NOT (push_bit s 0xff)) OR push_bit s (ucast b)) mem)"

section \<open>Entries and indices\<close>

definition PRESENT :: u64 where [consts_def]: "PRESENT = 1"
definition WRITABLE :: u64 where [consts_def]: "WRITABLE = 2"
definition USER_ACCESSIBLE :: u64 where [consts_def]: "USER_ACCESSIBLE = 4"
definition HUGE_PAGE :: u64 where [consts_def]: "HUGE_PAGE = 0x80"
definition NO_EXECUTE :: u64 where [consts_def]: "NO_EXECUTE = 0x8000000000000000"
definition ADDR_MASK :: u64 where [consts_def]: "ADDR_MASK = 0x000ffffffffff000"

definition pte_addr :: "u64 \<Rightarrow> u64" where
  "pte_addr w = w AND ADDR_MASK"

definition pte :: "u64 \<Rightarrow> u64 \<Rightarrow> u64" where
  "pte addr flags = addr OR flags"

definition p4_index :: "u64 \<Rightarrow> nat" where "p4_index v = unat (drop_bit 39 v AND 0x1ff)"
definition p3_index :: "u64 \<Rightarrow> nat" where "p3_index v = unat (drop_bit 30 v AND 0x1ff)"
definition p2_index :: "u64 \<Rightarrow> nat" where "p2_index v = unat (drop_bit 21 v AND 0x1ff)"
definition p1_index :: "u64 \<Rightarrow> nat" where "p1_index v = unat (drop_bit 12 v AND 0x1ff)"

section \<open>The memory state\<close>

text \<open>
  The frame allocator, physical memory, \<^verbatim>\<open>ADDRESS_SPACES\<close>, \<^verbatim>\<open>KSTACKS\<close> and the CR3 register.
\<close>

record mm =
  mm_fa :: frame_alloc
  mm_mem :: physmem
  mm_spaces :: "u64 list"
  mm_kstacks :: "(u64 \<times> u64 \<times> u64) list"
  mm_cr3 :: u64

definition TABLE_FLAGS :: u64 where [consts_def]:
  "TABLE_FLAGS = PRESENT OR WRITABLE OR USER_ACCESSIBLE"

definition KSTACK_FLAGS :: u64 where [consts_def]:
  "KSTACK_FLAGS = PRESENT OR WRITABLE OR NO_EXECUTE"

definition next_table_mut :: "u64 \<Rightarrow> nat \<Rightarrow> mm \<Rightarrow> u64 option \<times> mm" where
  "next_table_mut t i m =
     (if mm_mem m t i = 0 then
        case alloc_frames 1 (mm_fa m) of
          (None, fa) \<Rightarrow> (None, m\<lparr>mm_fa := fa\<rparr>)
        | (Some frame, fa) \<Rightarrow>
            (let mem = set_word t i (pte frame TABLE_FLAGS) (zero_page frame (mm_mem m))
             in (Some (pte_addr (mem t i)), m\<lparr>mm_fa := fa, mm_mem := mem\<rparr>))
      else (Some (pte_addr (mm_mem m t i)), m))"

definition map_page_in :: "u64 \<Rightarrow> u64 \<Rightarrow> u64 \<Rightarrow> u64 \<Rightarrow> mm \<Rightarrow> bool \<times> mm" where
  "map_page_in pml4 virt phys flags m =
     (case next_table_mut pml4 (p4_index virt) m of
        (None, m) \<Rightarrow> (False, m)
      | (Some l3, m) \<Rightarrow>
          (case next_table_mut l3 (p3_index virt) m of
             (None, m) \<Rightarrow> (False, m)
           | (Some l2, m) \<Rightarrow>
               (case next_table_mut l2 (p2_index virt) m of
                  (None, m) \<Rightarrow> (False, m)
                | (Some l1, m) \<Rightarrow>
                    (True, m\<lparr>mm_mem := set_word l1 (p1_index virt)
                               (pte (page_floor phys) flags) (mm_mem m)\<rparr>))))"

definition unmap_page_in :: "u64 \<Rightarrow> u64 \<Rightarrow> mm \<Rightarrow> mm" where
  "unmap_page_in pml4 virt m =
     (let mem = mm_mem m; e4 = mem pml4 (p4_index virt) in
      if e4 = 0 then m
      else let e3 = mem (pte_addr e4) (p3_index virt) in
      if e3 = 0 then m
      else let e2 = mem (pte_addr e3) (p2_index virt) in
      if e2 = 0 then m
      else m\<lparr>mm_mem := set_word (pte_addr e2) (p1_index virt) 0 mem\<rparr>)"

definition translate :: "physmem \<Rightarrow> u64 \<Rightarrow> u64 \<Rightarrow> u64 option" where
  "translate mem pml4 virt =
     (let e4 = mem pml4 (p4_index virt) in
      if e4 = 0 then None
      else let e3 = mem (pte_addr e4) (p3_index virt) in
      if e3 = 0 then None
      else let e2 = mem (pte_addr e3) (p2_index virt) in
      if e2 = 0 then None
      else let e1 = mem (pte_addr e2) (p1_index virt) in
      if e1 = 0 then None
      else Some (pte_addr e1 + (virt AND 0xfff)))"

definition register_address_space :: "u64 \<Rightarrow> mm \<Rightarrow> mm" where
  "register_address_space pml4 m =
     (if pml4 \<in> set (mm_spaces m) then m else m\<lparr>mm_spaces := mm_spaces m @ [pml4]\<rparr>)"

definition activate_kernel_space :: "mm \<Rightarrow> mm" where
  "activate_kernel_space m =
     (case mm_spaces m of [] \<Rightarrow> m | kspace # _ \<Rightarrow> m\<lparr>mm_cr3 := kspace\<rparr>)"

section \<open>Kernel stacks\<close>

text \<open>The inner loop of \<^verbatim>\<open>register_kstack\<close>: one page into every address space.\<close>

fun map_in_all :: "u64 list \<Rightarrow> u64 \<Rightarrow> u64 \<Rightarrow> mm \<Rightarrow> bool \<times> mm" where
  "map_in_all [] va pa m = (True, m)"
| "map_in_all (p # ps) va pa m =
     (case map_page_in p va pa KSTACK_FLAGS m of
        (False, m) \<Rightarrow> (False, m)
      | (True, m) \<Rightarrow> map_in_all ps va pa m)"

text \<open>The outer loop from page \<open>i\<close> on, with \<open>n\<close> pages to go; a failure undoes pages \<open>0..=i\<close>.\<close>

fun register_pages :: "u64 \<Rightarrow> u64 \<Rightarrow> nat \<Rightarrow> nat \<Rightarrow> mm \<Rightarrow> bool \<times> mm" where
  "register_pages stack_base frames_base i 0 m = (True, m)"
| "register_pages stack_base frames_base i (Suc n) m =
     (case map_in_all (mm_spaces m) (stack_base + of_nat i * 4096) (frames_base + of_nat i * 4096) m of
        (False, m) \<Rightarrow>
          (False, fold (\<lambda>j. fold (\<lambda>p. unmap_page_in p (stack_base + of_nat j * 4096)) (mm_spaces m))
                    [0..<Suc i] m)
      | (True, m) \<Rightarrow> register_pages stack_base frames_base (Suc i) n m)"

definition register_kstack :: "u64 \<Rightarrow> u64 \<Rightarrow> u64 \<Rightarrow> mm \<Rightarrow> bool \<times> mm" where
  "register_kstack stack_base frames_base pages m =
     (case register_pages stack_base frames_base 0 (unat pages) m of
        (False, m) \<Rightarrow> (False, m)
      | (True, m) \<Rightarrow> (True, m\<lparr>mm_kstacks := mm_kstacks m @ [(stack_base, frames_base, pages)]\<rparr>))"

definition unregister_kstack :: "u64 \<Rightarrow> u64 \<Rightarrow> mm \<Rightarrow> mm" where
  "unregister_kstack base pages m =
     (let m = fold (\<lambda>i. fold (\<lambda>p. unmap_page_in p (base + of_nat i * 4096)) (mm_spaces m))
                [0..<unat pages] m
      in m\<lparr>mm_kstacks := filter (\<lambda>(b, _, _). b \<noteq> base) (mm_kstacks m)\<rparr>)"

section \<open>Tearing down and building address spaces\<close>

definition free_frame_mm :: "u64 \<Rightarrow> u64 \<Rightarrow> mm \<Rightarrow> mm option" where
  "free_frame_mm start count m = map_option (\<lambda>fa. m\<lparr>mm_fa := fa\<rparr>) (free_frames start count (mm_fa m))"

text \<open>
  \<^verbatim>\<open>walk(table, level, guard)\<close>: for every used entry, recurse unless it is huge or the last
  level, free the frame it names, clear it. The recursion is on the guard.
\<close>

primrec walk :: "nat \<Rightarrow> nat \<Rightarrow> u64 \<Rightarrow> mm \<Rightarrow> mm option" where
  "walk 0 level t m = Some m"
| "walk (Suc guard) level t m =
     ofold (\<lambda>i m. let e = mm_mem m t i in
       if e = 0 then Some m
       else do {
         m \<leftarrow> (if e AND HUGE_PAGE = 0 \<and> 1 < level
               then walk guard (level - 1) (pte_addr e) m else Some m);
         m \<leftarrow> free_frame_mm (pte_addr (mm_mem m t i)) 1 m;
         Some (m\<lparr>mm_mem := set_word t i 0 (mm_mem m)\<rparr>)
       }) [0..<512] m"

definition free_user_subtree :: "u64 \<Rightarrow> mm \<Rightarrow> mm option" where
  "free_user_subtree pml4 m =
     do {
       m \<leftarrow> (let e = mm_mem m pml4 0 in
             if e = 0 then Some m
             else do {
               m \<leftarrow> walk 8 3 (pte_addr e) m;
               m \<leftarrow> free_frame_mm (pte_addr (mm_mem m pml4 0)) 1 m;
               Some (m\<lparr>mm_mem := set_word pml4 0 0 (mm_mem m)\<rparr>)
             });
       free_frame_mm pml4 1 m
     }"

definition destroy_address_space :: "u64 \<Rightarrow> mm \<Rightarrow> mm option" where
  "destroy_address_space pml4 m =
     map_option (\<lambda>m. m\<lparr>mm_spaces := filter (\<lambda>p. p \<noteq> pml4) (mm_spaces m)\<rparr>) (free_user_subtree pml4 m)"

text \<open>\<^verbatim>\<open>replay_kstacks\<close>: the pages of one recorded stack, then all recorded stacks.\<close>

fun replay_pages :: "u64 \<Rightarrow> u64 \<Rightarrow> u64 \<Rightarrow> nat list \<Rightarrow> mm \<Rightarrow> bool \<times> mm" where
  "replay_pages pml4 base frames_base [] m = (True, m)"
| "replay_pages pml4 base frames_base (i # is) m =
     (case map_page_in pml4 (base + of_nat i * 4096) (frames_base + of_nat i * 4096) KSTACK_FLAGS m of
        (False, m) \<Rightarrow> (False, m)
      | (True, m) \<Rightarrow> replay_pages pml4 base frames_base is m)"

fun replay_kstacks :: "u64 \<Rightarrow> (u64 \<times> u64 \<times> u64) list \<Rightarrow> mm \<Rightarrow> bool \<times> mm" where
  "replay_kstacks pml4 [] m = (True, m)"
| "replay_kstacks pml4 ((base, frames_base, pages) # ks) m =
     (case replay_pages pml4 base frames_base [0..<unat pages] m of
        (False, m) \<Rightarrow> (False, m)
      | (True, m) \<Rightarrow> replay_kstacks pml4 ks m)"

text \<open>The outer option is a panic, the inner one \<^verbatim>\<open>None\<close> (out of frames).\<close>

definition new_address_space :: "mm \<Rightarrow> (u64 option \<times> mm) option" where
  "new_address_space m =
     (case alloc_frames 1 (mm_fa m) of
        (None, fa) \<Rightarrow> Some (None, m\<lparr>mm_fa := fa\<rparr>)
      | (Some new_frame, fa) \<Rightarrow>
          (let mem = zero_page new_frame (mm_mem m);
               mem = mem(new_frame := (\<lambda>i. if 1 \<le> i \<and> i < 512 then mem (mm_cr3 m) i else mem new_frame i));
               m = m\<lparr>mm_fa := fa, mm_mem := mem\<rparr>
           in case replay_kstacks new_frame (mm_kstacks m) m of
                (False, m) \<Rightarrow> map_option (\<lambda>m. (None, m)) (free_user_subtree new_frame m)
              | (True, m) \<Rightarrow> Some (Some new_frame, register_address_space new_frame m)))"

end
