(* ===== verification/Elf.thy ===== *)
theory Elf
  imports Paging
begin

text \<open>
  The ELF loader, \<^verbatim>\<open>load_elf\<close> of \<^verbatim>\<open>kernel/src/task.rs\<close>. Slicing the image out of bounds
  panics, so the readers return an option; the loader's own refusal of an image is
  \<open>Inl ()\<close>. The validation pass (\<open>elf_plan\<close>) is separate from the pass that maps pages,
  as in the code.
\<close>

section \<open>User address range\<close>

definition USER_STACK_TOP :: u64 where [consts_def]: "USER_STACK_TOP = 0x7f000000"
definition USER_STACK_BYTES :: u64 where [consts_def]: "USER_STACK_BYTES = 0x10000"
definition USER_LOAD_LIMIT :: u64 where [consts_def]: "USER_LOAD_LIMIT = USER_STACK_TOP - USER_STACK_BYTES"

definition user_range_valid :: "u64 \<Rightarrow> u64 \<Rightarrow> bool" where
  "user_range_valid start len =
     (case checked_add start len of
        None \<Rightarrow> False
      | Some end' \<Rightarrow> start < USER_STACK_TOP \<and> end' \<le> USER_STACK_TOP)"

section \<open>Reading the image\<close>

definition rd_slice :: "nat \<Rightarrow> bytes \<Rightarrow> u64 \<Rightarrow> bytes option" where
  "rd_slice n elf off = slice_chk elf (unat off) (unat (off + of_nat n))"

definition rd :: "bytes \<Rightarrow> u64 \<Rightarrow> u64 option" where
  "rd elf off = map_option from_le (rd_slice 8 elf off)"

definition rd16 :: "bytes \<Rightarrow> u64 \<Rightarrow> u16 option" where
  "rd16 elf off = map_option from_le (rd_slice 2 elf off)"

definition rd32 :: "bytes \<Rightarrow> u64 \<Rightarrow> u32 option" where
  "rd32 elf off = map_option from_le (rd_slice 4 elf off)"

text \<open>Indexing out of bounds and a remainder by zero panic.\<close>

definition byte_at :: "bytes \<Rightarrow> nat \<Rightarrow> u8 option" where
  "byte_at bs i = (if i < length bs then Some (bs ! i) else None)"

definition rem_chk :: "u64 \<Rightarrow> u64 \<Rightarrow> u64 option" where
  "rem_chk a b = (if b = 0 then None else Some (a mod b))"

section \<open>The load plan\<close>

record load_segment =
  ls_flags :: u32
  ls_offset :: u64
  ls_vaddr :: u64
  ls_filesz :: u64
  ls_page_start :: u64
  ls_page_end :: u64

definition is_power_of_two :: "u64 \<Rightarrow> bool" where
  "is_power_of_two w \<longleftrightarrow> w \<noteq> 0 \<and> w AND (w - 1) = 0"

definition overlaps :: "u64 \<Rightarrow> u64 \<Rightarrow> load_segment \<Rightarrow> bool" where
  "overlaps page_start page_end other \<longleftrightarrow>
     page_start < ls_page_end other \<and> ls_page_start other < page_end"

text \<open>
  The alignment test, its disjuncts evaluated from left to right, and the checks on one \<^verbatim>\<open>PT_LOAD\<close> header with non-zero memory size; the state is the
  \<^verbatim>\<open>entry_is_executable\<close> flag and the segments accepted so far.
\<close>

definition misaligned :: "u64 \<Rightarrow> u64 \<Rightarrow> u64 \<Rightarrow> bool option" where
  "misaligned p_vaddr p_offset p_align =
     (if \<not> p_align > 1 then Some False
      else if \<not> is_power_of_two p_align then Some True
      else do {
        v \<leftarrow> rem_chk p_vaddr p_align;
        f \<leftarrow> rem_chk p_offset p_align;
        Some (v \<noteq> f)
      })"

definition check_segment ::
    "nat \<Rightarrow> u64 \<Rightarrow> u32 \<Rightarrow> u64 \<Rightarrow> u64 \<Rightarrow> u64 \<Rightarrow> u64 \<Rightarrow> u64 \<Rightarrow> bool \<times> load_segment list
      \<Rightarrow> (unit + bool \<times> load_segment list) option" where
  "check_segment elf_len entry p_flags p_offset p_vaddr p_filesz p_memsz p_align st =
     (case checked_add p_offset p_filesz of None \<Rightarrow> Some (Inl ()) | Some file_end \<Rightarrow>
      if unat file_end > elf_len then Some (Inl ())
      else if p_filesz > p_memsz then Some (Inl ())
      else do {
        bad \<leftarrow> misaligned p_vaddr p_offset p_align;
        if bad then Some (Inl ())
        else Some (case checked_add p_vaddr p_memsz of None \<Rightarrow> Inl () | Some segment_end \<Rightarrow>
          let page_start = page_floor p_vaddr in
          case checked_add segment_end (PAGE_SIZE - 1) of None \<Rightarrow> Inl () | Some up \<Rightarrow>
          let page_end = page_floor up in
          if page_start < PAGE_SIZE \<or> page_end > USER_LOAD_LIMIT then Inl ()
          else if p_flags AND 3 = 3 then Inl ()
          else
            let exec = (if p_flags AND 1 \<noteq> 0 \<and> entry \<ge> p_vaddr \<and> entry < segment_end then True else fst st)
            in if list_ex (overlaps page_start page_end) (snd st) then Inl ()
               else Inr (exec, snd st @
                 [\<lparr>ls_flags = p_flags, ls_offset = p_offset, ls_vaddr = p_vaddr, ls_filesz = p_filesz,
                   ls_page_start = page_start, ls_page_end = page_end\<rparr>]))
      })"

definition check_phdr ::
    "bytes \<Rightarrow> u64 \<Rightarrow> u64 \<Rightarrow> bool \<times> load_segment list \<Rightarrow> (unit + bool \<times> load_segment list) option" where
  "check_phdr elf entry ph st =
     do {
       ty \<leftarrow> rd32 elf ph;
       if ty \<noteq> 1 then Some (Inr st)
       else do {
         p_flags \<leftarrow> rd32 elf (ph + 4);
         p_offset \<leftarrow> rd elf (ph + 8);
         p_vaddr \<leftarrow> rd elf (ph + 16);
         p_filesz \<leftarrow> rd elf (ph + 32);
         p_memsz \<leftarrow> rd elf (ph + 40);
         p_align \<leftarrow> rd elf (ph + 48);
         if p_memsz = 0 then Some (Inr st)
         else check_segment (length elf) entry p_flags p_offset p_vaddr p_filesz p_memsz p_align st
       }
     }"

fun check_phdrs ::
    "bytes \<Rightarrow> u64 \<Rightarrow> u64 \<Rightarrow> u64 \<Rightarrow> nat list \<Rightarrow> bool \<times> load_segment list
      \<Rightarrow> (unit + bool \<times> load_segment list) option" where
  "check_phdrs elf entry phoff phentsize [] st = Some (Inr st)"
| "check_phdrs elf entry phoff phentsize (i # is) st =
     do {
       r \<leftarrow> check_phdr elf entry (phoff + of_nat i * phentsize) st;
       case r of
         Inl e \<Rightarrow> Some (Inl e)
       | Inr st \<Rightarrow> check_phdrs elf entry phoff phentsize is st
     }"

text \<open>Everything \<^verbatim>\<open>load_elf\<close> does before it allocates: entry point, flag, segments.\<close>

definition elf_plan :: "bytes \<Rightarrow> (unit + u64 \<times> bool \<times> load_segment list) option" where
  "elf_plan elf =
     (if length elf < 0x40 then Some (Inl ())
      else do {
        magic \<leftarrow> slice_chk elf 0 4;
        cls \<leftarrow> byte_at elf 4;
        endian \<leftarrow> byte_at elf 5;
        version \<leftarrow> byte_at elf 6;
        if magic \<noteq> [0x7f, 0x45, 0x4c, 0x46] \<or> cls \<noteq> 2 \<or> endian \<noteq> 1 \<or> version \<noteq> 1 then Some (Inl ())
        else do {
          machine \<leftarrow> rd16 elf 0x12;
          if machine \<noteq> 0x3e then Some (Inl ())
          else do {
            ty \<leftarrow> rd16 elf 0x10;
            if ty \<noteq> 2 then Some (Inl ())
            else do {
              entry \<leftarrow> rd elf 0x18;
              phoff \<leftarrow> rd elf 0x20;
              phentsize16 \<leftarrow> rd16 elf 0x36;
              phnum16 \<leftarrow> rd16 elf 0x38;
              let phentsize = (ucast phentsize16 :: u64);
              let phnum = (ucast phnum16 :: u64);
              if phnum > 32 \<or> phentsize < 56 then Some (Inl ())
              else case checked_mul phnum phentsize of
                  None \<Rightarrow> Some (Inl ())
                | Some sz \<Rightarrow>
                    (case checked_add phoff sz of
                       None \<Rightarrow> Some (Inl ())
                     | Some phend \<Rightarrow>
                         if unat phend > length elf then Some (Inl ())
                         else do {
                           r \<leftarrow> check_phdrs elf entry phoff phentsize [0..<unat phnum] (False, []);
                           Some (case r of Inl e \<Rightarrow> Inl e | Inr (exec, segs) \<Rightarrow> Inr (entry, exec, segs))
                         })
            }
          }
        }
      })"

section \<open>Mapping the segments\<close>

definition pages_of :: "load_segment \<Rightarrow> u64 list" where
  "pages_of s = map (\<lambda>i. ls_page_start s + of_nat i * 4096)
     [0..<(unat (ls_page_end s) - unat (ls_page_start s) + 4095) div 4096]"

definition USER_RW :: u64 where [consts_def]:
  "USER_RW = PRESENT OR WRITABLE OR NO_EXECUTE OR USER_ACCESSIBLE"

text \<open>Fresh zeroed pages, writable while they are filled; the count is \<^verbatim>\<open>elf_pages\<close>.\<close>

fun map_fresh :: "u64 \<Rightarrow> u64 list \<Rightarrow> u64 \<Rightarrow> mm \<Rightarrow> ((unit + u64) \<times> mm) option" where
  "map_fresh cr3 [] n m = Some (Inr n, m)"
| "map_fresh cr3 (page # pages) n m =
     (case alloc_frames 1 (mm_fa m) of
        (None, fa) \<Rightarrow> Some (Inl (), m\<lparr>mm_fa := fa\<rparr>)
      | (Some fr, fa) \<Rightarrow>
          (case map_page_in cr3 page fr USER_RW (m\<lparr>mm_fa := fa, mm_mem := zero_page fr (mm_mem m)\<rparr>) of
             (False, m) \<Rightarrow> map_option (\<lambda>m. (Inl (), m)) (free_frame_mm fr 1 m)
           | (True, m) \<Rightarrow> map_fresh cr3 pages (n + 1) m))"

text \<open>Byte by byte through the page tables; \<open>False\<close> when a page is not mapped.\<close>

fun write_through :: "u64 \<Rightarrow> u64 \<Rightarrow> bytes \<Rightarrow> physmem \<Rightarrow> bool \<times> physmem" where
  "write_through cr3 va [] mem = (True, mem)"
| "write_through cr3 va (b # bs) mem =
     (case translate mem cr3 va of
        None \<Rightarrow> (False, mem)
      | Some pa \<Rightarrow> write_through cr3 (va + 1) bs (write_byte pa b mem))"

fun protect_pages :: "u64 \<Rightarrow> u64 list \<Rightarrow> u64 \<Rightarrow> mm \<Rightarrow> bool \<times> mm" where
  "protect_pages cr3 [] flags m = (True, m)"
| "protect_pages cr3 (page # pages) flags m =
     (case translate (mm_mem m) cr3 page of
        None \<Rightarrow> (False, m)
      | Some pa \<Rightarrow>
          (case map_page_in cr3 page pa flags m of
             (False, m) \<Rightarrow> (False, m)
           | (True, m) \<Rightarrow> protect_pages cr3 pages flags m))"

definition final_flags :: "u32 \<Rightarrow> u64" where
  "final_flags fl =
     PRESENT OR USER_ACCESSIBLE OR (if fl AND 2 \<noteq> 0 then WRITABLE else 0)
       OR (if fl AND 1 = 0 then NO_EXECUTE else 0)"

definition load_one :: "u64 \<Rightarrow> bytes \<Rightarrow> load_segment \<Rightarrow> u64 \<Rightarrow> mm \<Rightarrow> ((unit + u64) \<times> mm) option" where
  "load_one cr3 elf s n m =
     do {
       r \<leftarrow> map_fresh cr3 (pages_of s) n m;
       case r of
         (Inl e, m) \<Rightarrow> Some (Inl e, m)
       | (Inr n, m) \<Rightarrow> do {
           data \<leftarrow> slice_chk elf (unat (ls_offset s)) (unat (ls_offset s + ls_filesz s));
           case write_through cr3 (ls_vaddr s) data (mm_mem m) of
             (False, mem) \<Rightarrow> Some (Inl (), m\<lparr>mm_mem := mem\<rparr>)
           | (True, mem) \<Rightarrow>
               (case protect_pages cr3 (pages_of s) (final_flags (ls_flags s)) (m\<lparr>mm_mem := mem\<rparr>) of
                  (False, m) \<Rightarrow> Some (Inl (), m)
                | (True, m) \<Rightarrow> Some (Inr n, m))
         }
     }"

fun load_segments :: "u64 \<Rightarrow> bytes \<Rightarrow> load_segment list \<Rightarrow> u64 \<Rightarrow> mm \<Rightarrow> ((unit + u64) \<times> mm) option" where
  "load_segments cr3 elf [] n m = Some (Inr n, m)"
| "load_segments cr3 elf (s # ss) n m =
     do {
       r \<leftarrow> load_one cr3 elf s n m;
       case r of
         (Inl e, m) \<Rightarrow> Some (Inl e, m)
       | (Inr n, m) \<Rightarrow> load_segments cr3 elf ss n m
     }"

text \<open>On success: the entry point and the number of leaf pages mapped.\<close>

definition load_elf :: "u64 \<Rightarrow> bytes \<Rightarrow> mm \<Rightarrow> ((unit + u64 \<times> u64) \<times> mm) option" where
  "load_elf cr3 elf m =
     do {
       p \<leftarrow> elf_plan elf;
       case p of
         Inl e \<Rightarrow> Some (Inl e, m)
       | Inr (entry, exec, segs) \<Rightarrow> do {
           r \<leftarrow> load_segments cr3 elf segs 0 m;
           Some (case r of
             (Inl e, m) \<Rightarrow> (Inl e, m)
           | (Inr n, m) \<Rightarrow> (if \<not> exec then Inl () else Inr (entry, n), m))
         }
     }"

section \<open>The validation pass is total and safe\<close>

lemma rd_slice_ok:
  assumes "unat off + n \<le> length elf" and "length elf < 2 ^ 63"
  shows "\<exists>bs. rd_slice n elf off = Some bs"
proof -
  have "n < 2 ^ 64" "unat off + n < 2 ^ 64" using assms by auto
  then have "unat (off + of_nat n) = unat off + n"
    by (simp add: unat_word_ariths unat_of_nat)
  with assms show ?thesis by (simp add: rd_slice_def slice_chk_def)
qed

lemma rd_ok:
  assumes "length elf < 2 ^ 63"
  shows "unat off + 8 \<le> length elf \<Longrightarrow> \<exists>w. rd elf off = Some w"
    and "unat off + 2 \<le> length elf \<Longrightarrow> \<exists>w. rd16 elf off = Some w"
    and "unat off + 4 \<le> length elf \<Longrightarrow> \<exists>w. rd32 elf off = Some w"
  using rd_slice_ok [OF _ assms] by (auto simp: rd_def rd16_def rd32_def)

lemma misaligned_total: "\<exists>r. misaligned va off al = Some r"
  by (auto simp: misaligned_def rem_chk_def is_power_of_two_def)

lemma check_segment_total: "\<exists>r. check_segment n entry fl off va fsz msz al st = Some r"
  using misaligned_total [of va off al] by (auto simp: check_segment_def split: option.split)

lemma check_phdr_ok:
  assumes "length elf < 2 ^ 63" and "unat ph + 56 \<le> length elf"
  shows "\<exists>r. check_phdr elf entry ph st = Some r"
proof -
  have u: "unat (ph + k) = unat ph + unat k" if "unat k \<le> 56" for k
    using assms that by (simp add: unat_word_ariths)
  note r = rd_ok [OF assms(1)]
  have "\<exists>w. rd32 elf ph = Some w" "\<exists>w. rd32 elf (ph + 4) = Some w" "\<exists>w. rd elf (ph + 8) = Some w"
    "\<exists>w. rd elf (ph + 16) = Some w" "\<exists>w. rd elf (ph + 32) = Some w" "\<exists>w. rd elf (ph + 40) = Some w"
    "\<exists>w. rd elf (ph + 48) = Some w"
    using assms(2) by (auto intro!: r simp: u)
  then show ?thesis using check_segment_total [of _ _ _ _ _ _ _ _ st] by (auto simp: check_phdr_def simp del: split_paired_All)
qed

lemma check_phdrs_ok:
  assumes "length elf < 2 ^ 63" and "56 \<le> unat phentsize"
    and "\<forall>i \<in> set is. unat phoff + (i + 1) * unat phentsize \<le> length elf"
  shows "\<exists>r. check_phdrs elf entry phoff phentsize is st = Some r"
  using assms(3)
proof (induction "is" arbitrary: st)
  case Nil
  then show ?case by simp
next
  case (Cons i "is")
  then have b: "unat phoff + i * unat phentsize + unat phentsize \<le> length elf" by simp
  then have m: "i * unat phentsize < 2 ^ 64" using assms(1) by auto
  have "i \<le> i * unat phentsize" using assms(2) by simp
  also note m
  finally have "i < 2 ^ 64" .
  with m have "unat (of_nat i * phentsize) = i * unat phentsize"
    by (simp add: unat_word_ariths unat_of_nat)
  with b assms(1) have "unat (phoff + of_nat i * phentsize) = unat phoff + i * unat phentsize"
    by (simp add: unat_word_ariths)
  with b assms(2) have "unat (phoff + of_nat i * phentsize) + 56 \<le> length elf" by simp
  from check_phdr_ok [OF assms(1) this] obtain r
    where "check_phdr elf entry (phoff + of_nat i * phentsize) st = Some r" by blast
  with Cons show ?case by (cases r) auto
qed

lemma elf_plan_total:
  assumes "length elf < 2 ^ 63"
  shows "\<exists>r. elf_plan elf = Some r"
proof (cases "length elf < 0x40")
  case True
  then show ?thesis by (simp add: elf_plan_def)
next
  case False
  note r = rd_ok [OF assms]
  from False obtain machine ty entry phoff pes pn where
    f: "rd16 elf 0x12 = Some machine" "rd16 elf 0x10 = Some ty" "rd elf 0x18 = Some entry"
      "rd elf 0x20 = Some phoff" "rd16 elf 0x36 = Some pes" "rd16 elf 0x38 = Some pn"
    using r(2) [of "0x12"] r(2) [of "0x10"] r(1) [of "0x18"] r(1) [of "0x20"] r(2) [of "0x36"] r(2) [of "0x38"]
    by auto
  have "\<exists>x. check_phdrs elf entry phoff (ucast pes) [0..<unat (ucast pn :: u64)] (False, []) = Some x"
    if "\<not> ucast pes < (56 :: u64)" "checked_mul (ucast pn) (ucast pes :: u64) = Some sz"
      "checked_add phoff sz = Some phend" "\<not> length elf < unat phend" for sz phend
  proof (rule check_phdrs_ok [OF assms])
    show "56 \<le> unat (ucast pes :: u64)" using that(1) by (simp add: word_less_nat_alt)
    have sz: "unat sz = unat (ucast pn :: u64) * unat (ucast pes :: u64)"
      using that(2) by (auto simp: checked_mul_def unat_word_ariths split: if_splits)
    show "\<forall>i \<in> set [0..<unat (ucast pn :: u64)]. unat phoff + (i + 1) * unat (ucast pes :: u64) \<le> length elf"
    proof
      fix i assume "i \<in> set [0..<unat (ucast pn :: u64)]"
      then have "i + 1 \<le> unat (ucast pn :: u64)" by simp
      then have "(i + 1) * unat (ucast pes :: u64) \<le> unat sz" unfolding sz by (rule mult_le_mono1)
      with that(4) checked_add_SomeD(2) [OF that(3)]
      show "unat phoff + (i + 1) * unat (ucast pes :: u64) \<le> length elf" by linarith
    qed
  qed
  then show ?thesis
    using False by (simp add: elf_plan_def Let_def f slice_chk_def byte_at_def split: option.splits) fastforce
qed

text \<open>C9: a hostile image never panics the loader's validation: whatever the bytes are, every
  read of the image stays inside it and the answer is a plan or a refusal.\<close>

theorem elf_plan_no_panic:
  assumes "length elf < 2 ^ 63"
  shows "\<exists>r. elf_plan elf = Some r"
  by (rule elf_plan_total [OF assms])

text \<open>What a validated plan guarantees about one segment.\<close>

definition segment_ok :: "nat \<Rightarrow> load_segment \<Rightarrow> bool" where
  "segment_ok elf_len s \<longleftrightarrow>
     unat (ls_offset s) + unat (ls_filesz s) \<le> elf_len \<and>
     4096 dvd unat (ls_page_start s) \<and> 4096 dvd unat (ls_page_end s) \<and>
     4096 \<le> unat (ls_page_start s) \<and> unat (ls_page_start s) \<le> unat (ls_vaddr s) \<and>
     unat (ls_vaddr s) + unat (ls_filesz s) \<le> unat (ls_page_end s) \<and>
     ls_page_start s < ls_page_end s \<and> ls_page_end s \<le> USER_LOAD_LIMIT \<and>
     ls_flags s AND 3 \<noteq> 3"

definition seg_range :: "load_segment \<Rightarrow> nat set" where
  "seg_range s = {unat (ls_page_start s) ..< unat (ls_page_end s)}"

definition plan_ok :: "nat \<Rightarrow> load_segment list \<Rightarrow> bool" where
  "plan_ok elf_len segs \<longleftrightarrow>
     (\<forall>s \<in> set segs. segment_ok elf_len s) \<and>
     sorted_wrt (\<lambda>s t. seg_range s \<inter> seg_range t = {}) segs"

lemma page_floor_dvd: "4096 dvd unat (page_floor y)"
  by (simp only: unat_page_floor dvd_triv_right)

lemma overlaps_disjoint:
  "\<not> overlaps (ls_page_start t) (ls_page_end t) s \<Longrightarrow> seg_range s \<inter> seg_range t = {}"
  by (auto simp: overlaps_def seg_range_def word_less_nat_alt)

lemma check_segment_ok:
  assumes "check_segment elf_len entry fl off va fsz msz al (ex, segs) = Some (Inr (ex', segs'))"
    and "plan_ok elf_len segs" and "msz \<noteq> 0"
  shows "plan_ok elf_len segs'"
    and "\<exists>s. segs' = segs @ [s] \<and> ls_flags s = fl \<and> ls_vaddr s = va \<and>
      (ex' \<longrightarrow> ex \<or> fl AND 1 \<noteq> 0 \<and> unat va \<le> unat entry \<and> unat entry < unat (ls_page_end s))"
proof -
  from assms(1) obtain fe se up where c: "checked_add off fsz = Some fe" "unat fe \<le> elf_len"
    "fsz \<le> msz" "checked_add va msz = Some se" "checked_add se (PAGE_SIZE - 1) = Some up"
    "\<not> page_floor va < PAGE_SIZE" "page_floor up \<le> USER_LOAD_LIMIT" "fl AND 3 \<noteq> 3"
    "\<not> list_ex (overlaps (page_floor va) (page_floor up)) segs"
    "ex' \<longrightarrow> ex \<or> fl AND 1 \<noteq> 0 \<and> va \<le> entry \<and> entry < se"
    "segs' = segs @ [\<lparr>ls_flags = fl, ls_offset = off, ls_vaddr = va, ls_filesz = fsz,
      ls_page_start = page_floor va, ls_page_end = page_floor up\<rparr>]" (is "_ = _ @ [?s]")
    by (simp add: check_segment_def Let_def not_le not_less split: option.splits if_split_asm bind_split_asm)
  have u: "unat fe = unat off + unat fsz" "unat se = unat va + unat msz" "unat up = unat se + 4095"
    using checked_add_SomeD(2) [OF c(1)] checked_add_SomeD(2) [OF c(4)] checked_add_SomeD(2) [OF c(5)]
    by (simp_all add: consts_def)
  have pe: "unat se \<le> unat (page_floor up)" unfolding unat_page_floor u(3) by simp
  have lo: "unat (page_floor va) \<le> unat va" by (simp add: unat_page_floor)
  have "unat msz \<noteq> 0" using assms(3) by (simp add: unat_eq_zero)
  then have lt: "unat (page_floor va) < unat (page_floor up)" using lo pe u(2) by linarith
  have "4096 \<le> unat (page_floor va)" using c(6) by (simp add: word_less_nat_alt consts_def)
  then have ok: "segment_ok elf_len ?s"
    using c u pe lo lt
    by (simp add: segment_ok_def word_less_nat_alt word_le_nat_alt page_floor_dvd)
  have "seg_range t \<inter> seg_range ?s = {}" if "t \<in> set segs" for t
    using overlaps_disjoint [of ?s t] c(9) that by (auto simp: list_ex_iff)
  with ok assms(2) c(11) show "plan_ok elf_len segs'"
    by (auto simp: plan_ok_def sorted_wrt_append)
  show "\<exists>s. segs' = segs @ [s] \<and> ls_flags s = fl \<and> ls_vaddr s = va \<and>
      (ex' \<longrightarrow> ex \<or> fl AND 1 \<noteq> 0 \<and> unat va \<le> unat entry \<and> unat entry < unat (ls_page_end s))"
    using c(10,11) pe by (auto simp: word_le_nat_alt word_less_nat_alt split: if_splits)
qed

definition entry_in :: "u64 \<Rightarrow> load_segment \<Rightarrow> bool" where
  "entry_in entry s \<longleftrightarrow> ls_flags s AND 1 \<noteq> 0 \<and> unat (ls_vaddr s) \<le> unat entry \<and>
     unat entry < unat (ls_page_end s)"

lemma check_phdrs_plan:
  assumes "check_phdrs elf entry phoff phentsize is (ex, segs) = Some (Inr (ex', segs'))"
    and "plan_ok (length elf) segs" and "ex \<longrightarrow> (\<exists>s \<in> set segs. entry_in entry s)"
  shows "plan_ok (length elf) segs' \<and> (ex' \<longrightarrow> (\<exists>s \<in> set segs'. entry_in entry s))"
  using assms
proof (induction "is" arbitrary: ex segs)
  case Nil
  then show ?case by simp
next
  case (Cons i "is")
  then obtain ex1 segs1 where
    1: "check_phdr elf entry (phoff + of_nat i * phentsize) (ex, segs) = Some (Inr (ex1, segs1))" and
    2: "check_phdrs elf entry phoff phentsize is (ex1, segs1) = Some (Inr (ex', segs'))"
    by (auto split: bind_splits sum.splits)
  from 1 have "(ex1, segs1) = (ex, segs) \<or> (\<exists>fl off va fsz msz al. msz \<noteq> 0 \<and>
      check_segment (length elf) entry fl off va fsz msz al (ex, segs) = Some (Inr (ex1, segs1)))"
    by (fastforce simp: check_phdr_def split: bind_splits if_splits)
  then have "plan_ok (length elf) segs1 \<and> (ex1 \<longrightarrow> (\<exists>s \<in> set segs1. entry_in entry s))"
  proof
    assume "(ex1, segs1) = (ex, segs)"
    with Cons.prems(2,3) show ?thesis by simp
  next
    assume "\<exists>fl off va fsz msz al. msz \<noteq> 0 \<and>
      check_segment (length elf) entry fl off va fsz msz al (ex, segs) = Some (Inr (ex1, segs1))"
    then obtain fl off va fsz msz al where "msz \<noteq> 0"
      "check_segment (length elf) entry fl off va fsz msz al (ex, segs) = Some (Inr (ex1, segs1))" by blast
    from check_segment_ok [OF this(2) Cons.prems(2) this(1)] Cons.prems(3)
    show ?thesis by (auto simp: entry_in_def)
  qed
  with Cons.IH [OF 2] show ?case by blast
qed

lemma elf_plan_ok:
  assumes "elf_plan elf = Some (Inr (entry, exec, segs))"
  shows "plan_ok (length elf) segs \<and> (exec \<longrightarrow> (\<exists>s \<in> set segs. entry_in entry s))"
proof -
  from assms obtain phoff phentsize "is" where
    "check_phdrs elf entry phoff phentsize is (False, []) = Some (Inr (exec, segs))"
    by (auto simp: elf_plan_def Let_def split: if_splits bind_splits option.splits sum.splits prod.splits)
  from check_phdrs_plan [OF this] show ?thesis by (simp add: plan_ok_def)
qed

text \<open>The page count the loader returns.\<close>

lemma map_fresh_count: "map_fresh cr3 ps n m = Some (Inr n', m') \<Longrightarrow> n' = n + of_nat (length ps)"
  by (induction cr3 ps n m rule: map_fresh.induct) (auto split: prod.splits option.splits bool.splits)

lemma load_segments_count:
  "load_segments cr3 elf segs n m = Some (Inr n', m') \<Longrightarrow> n' = n + of_nat (\<Sum>s \<leftarrow> segs. length (pages_of s))"
proof (induction cr3 elf segs n m rule: load_segments.induct)
  case (2 cr3 elf s ss n m)
  then obtain n1 m1 where 1: "load_one cr3 elf s n m = Some (Inr n1, m1)" "load_segments cr3 elf ss n1 m1 = Some (Inr n', m')"
    by (auto split: bind_splits prod.splits sum.splits)
  then have "n1 = n + of_nat (length (pages_of s))"
    by (auto simp: load_one_def split: bind_splits prod.splits sum.splits bool.splits dest!: map_fresh_count)
  moreover have "n' = n1 + of_nat (\<Sum>s \<leftarrow> ss. length (pages_of s))" using "2.IH" 1 by auto
  ultimately show ?case by (simp add: algebra_simps)
qed simp

text \<open>C8: an image that \<^verbatim>\<open>load_elf\<close> accepts is safe to execute: the loaded segments are page-granular,
  pairwise disjoint, above the null page and below the stack, their file parts lie inside the image, no
  segment is both writable and executable, the entry point lies in the pages of an executable segment at or above its
  start, and the page count returned is the number of pages of the segments.\<close>

theorem load_elf_safe:
  assumes "load_elf cr3 elf m = Some (Inr (entry, n), m')"
  shows "\<exists>segs. elf_plan elf = Some (Inr (entry, True, segs)) \<and> plan_ok (length elf) segs \<and>
    (\<exists>s \<in> set segs. entry_in entry s) \<and> n = of_nat (\<Sum>s \<leftarrow> segs. length (pages_of s))"
proof -
  obtain segs where p: "elf_plan elf = Some (Inr (entry, True, segs))" "load_segments cr3 elf segs 0 m = Some (Inr n, m')"
    using assms by (auto simp: load_elf_def split: bind_splits sum.splits prod.splits if_splits)
  with elf_plan_ok [OF p(1)] load_segments_count [OF p(2)] show ?thesis by auto
qed

lemma elf_plan_no_panic_witness:
  "length (replicate 100 0xff :: bytes) < 2 ^ 63 \<and> (\<exists>r. elf_plan (replicate 100 0xff) = Some r)"
  using elf_plan_no_panic [of "replicate 100 0xff"] by simp

text \<open>A one-segment image: executable code at \<open>0x1000\<close>, entry there.\<close>

definition tiny_elf :: bytes where
  "tiny_elf =
     [0x7f, 0x45, 0x4c, 0x46, 2, 1, 1, 0, 0, 0, 0, 0, 0, 0, 0, 0,
      2, 0, 0x3e, 0, 1, 0, 0, 0, 0, 0x10, 0, 0, 0, 0, 0, 0,
      0x40, 0, 0, 0, 0, 0, 0, 0, 0, 0, 0, 0, 0, 0, 0, 0,
      0, 0, 0, 0, 0x40, 0, 0x38, 0, 1, 0, 0, 0, 0, 0, 0, 0,
      1, 0, 0, 0, 5, 0, 0, 0, 0, 0, 0, 0, 0, 0, 0, 0,
      0, 0x10, 0, 0, 0, 0, 0, 0, 0, 0, 0, 0, 0, 0, 0, 0,
      0x01, 0, 0, 0, 0, 0, 0, 0, 0x78, 0, 0, 0, 0, 0, 0, 0,
      0, 0x10, 0, 0, 0, 0, 0, 0]"

lemma tiny_plan:
  "elf_plan tiny_elf = Some (Inr (0x1000, True,
      [\<lparr>ls_flags = 5, ls_offset = 0, ls_vaddr = 0x1000, ls_filesz = 1, ls_page_start = 0x1000, ls_page_end = 0x2000\<rparr>]))"
  by (simp add: elf_plan_def tiny_elf_def rd_def rd16_def rd32_def rd_slice_def slice_chk_def rslice_def
      checked_mul_def checked_add_def check_phdr_def check_segment_def misaligned_def rem_chk_def byte_at_def is_power_of_two_def
      page_floor_def consts_def)

text \<open>A root at \<open>0x100000\<close> in otherwise empty memory.\<close>

definition tiny_mm :: mm where
  "tiny_mm = \<lparr>mm_fa = \<lparr>fa_regions = [(0x100000, 0x200000)], fa_cur = 0, fa_next_free = 0x101000, fa_free = [], fa_allocated = 1\<rparr>,
     mm_mem = (\<lambda>_ _. 0), mm_spaces = [0x100000], mm_kstacks = [], mm_cr3 = 0x100000\<rparr>"

lemma tiny_slice: "slice_chk tiny_elf 0 (Suc 0) = Some [0x7f]"
  by (simp add: slice_chk_def rslice_def tiny_elf_def)

lemma tiny_loads: "map_option fst (load_elf 0x100000 tiny_elf tiny_mm) = Some (Inr (0x1000, 1))"
  by (simp add: load_elf_def tiny_plan load_one_def pages_of_def tiny_mm_def tiny_slice alloc_frames_def bump.simps
      page_floor_def consts_def map_page_in_def next_table_mut_def Let_def p4_index_def p3_index_def p2_index_def p1_index_def
      set_word_def zero_page_def pte_def pte_addr_def translate_def write_byte_def word_index_def max_def final_flags_def)

lemma load_elf_safe_witness:
  "\<exists>m'. load_elf 0x100000 tiny_elf tiny_mm = Some (Inr (0x1000, 1), m') \<and>
    (\<exists>segs. elf_plan tiny_elf = Some (Inr (0x1000, True, segs)) \<and> plan_ok (length tiny_elf) segs \<and>
       (\<exists>s \<in> set segs. entry_in 0x1000 s))"
proof -
  obtain m' where "load_elf 0x100000 tiny_elf tiny_mm = Some (Inr (0x1000, 1), m')" using tiny_loads by auto
  with load_elf_safe [OF this] show ?thesis by blast
qed

end
