(* ===== verification/Task.thy ===== *)
theory Task
  imports Caps Elf
begin

text \<open>
  Tasks (\<^verbatim>\<open>kernel/src/task.rs\<close>), trap frames (\<^verbatim>\<open>trap.rs\<close>), endpoints
  (\<^verbatim>\<open>syscall.rs\<close>) and the state of the whole kernel, with the operations of
  \<^verbatim>\<open>task.rs\<close>: kernel stacks, spawning, and the deferred teardown of dead tasks.

  The kernel's statics are the fields of one record. A \<^verbatim>\<open>TrapFrame\<close> lives at the top of
  its task's kernel stack and is reached through \<^verbatim>\<open>saved_rsp\<close>; \<open>k_frames\<close> is the memory of
  trap frames by address, \<open>k_rsp0\<close> the stack the processor switches to on a trap from ring 3
  (\<^verbatim>\<open>TSS.RSP0\<close>). Kernel heap allocation is taken to succeed. \<open>k_out\<close> is what user programs
  print; the kernel's own log lines are left out.
\<close>

section \<open>Trap frames\<close>

record trap_frame =
  tf_r15 :: u64
  tf_r14 :: u64
  tf_r13 :: u64
  tf_r12 :: u64
  tf_r11 :: u64
  tf_r10 :: u64
  tf_r9 :: u64
  tf_r8 :: u64
  tf_rdi :: u64
  tf_rsi :: u64
  tf_rbp :: u64
  tf_rbx :: u64
  tf_rdx :: u64
  tf_rcx :: u64
  tf_rax :: u64
  tf_rip :: u64
  tf_cs :: u64
  tf_rflags :: u64
  tf_rsp :: u64
  tf_ss :: u64

definition FRAME_BYTES :: u64 where [consts_def]: "FRAME_BYTES = 160"

definition new_user :: "u64 \<Rightarrow> u64 \<Rightarrow> u64 \<Rightarrow> u64 \<Rightarrow> trap_frame" where
  "new_user entry user_stack_top cs' ss' =
     \<lparr>tf_r15 = 0, tf_r14 = 0, tf_r13 = 0, tf_r12 = 0, tf_r11 = 0, tf_r10 = 0, tf_r9 = 0, tf_r8 = 0,
      tf_rdi = 0, tf_rsi = 0, tf_rbp = 0, tf_rbx = 0, tf_rdx = 0, tf_rcx = 0, tf_rax = 0,
      tf_rip = entry, tf_cs = cs', tf_rflags = 0x202, tf_rsp = user_stack_top, tf_ss = ss'\<rparr>"

section \<open>Tasks, endpoints, the kernel\<close>

datatype task_state =
    Ready
  | Running
  | BlockedSend u64
  | BlockedCall u64
  | BlockedRecv u64 u64
  | BlockedWait
  | BlockedInput
  | BlockedSleep u64
  | Zombie u64

fun is_zombie :: "task_state \<Rightarrow> bool" where
  "is_zombie (Zombie _) = True"
| "is_zombie _ = False"

record task =
  t_id :: usize
  t_name :: bytes
  t_state :: task_state
  t_cr3 :: u64
  t_kstack_top :: u64
  t_saved_rsp :: u64
  t_caps :: "cap option list"
  t_parent :: "usize option"
  t_kstack_base_va :: u64
  t_kstack_frames_base :: u64
  t_pages :: u64

text \<open>A queued message is \<^verbatim>\<open>[u64; 6]\<close>, here a list.\<close>

record endpoint =
  ep_pending_callers :: "(usize \<times> u64 list) list"
  ep_active_caller :: "usize option"
  ep_active_server :: "usize option"

record waiter =
  w_tid :: usize
  w_buf :: u64
  w_len :: u64
  w_cr3 :: u64

record input =
  in_queue :: bytes
  in_shift :: bool
  in_extended :: bool
  in_waiters :: "waiter list"

record pending_reap =
  pr_cr3 :: u64
  pr_kstack_base_va :: u64
  pr_kstack_frames_base :: u64

text \<open>A drive of \<^verbatim>\<open>ata.rs\<close>: its sector count and its contents by sector.\<close>

record drive =
  dr_sectors :: u64
  dr_data :: "u64 \<Rightarrow> bytes"

record kernel_state =
  k_tasks :: "task list"
  k_current :: "usize option"
  k_ready :: "usize list"
  k_frames :: "u64 \<Rightarrow> trap_frame"
  k_endpoints :: "endpoint list"
  k_reap :: "pending_reap list"
  k_next_tid :: usize
  k_next_kslot :: usize
  k_ticks :: u64
  k_since_switch :: u64
  k_input :: input
  k_mm :: mm
  k_rsp0 :: u64
  k_out :: bytes
  k_primary :: "drive option"
  k_secondary :: "drive option"

definition create_endpoint :: "kernel_state \<Rightarrow> u64 \<times> kernel_state" where
  "create_endpoint k =
     (let eps = k_endpoints k @ [\<lparr>ep_pending_callers = [], ep_active_caller = None, ep_active_server = None\<rparr>]
      in (of_nat (length eps - 1), k\<lparr>k_endpoints := eps\<rparr>))"

section \<open>Lookups and updates on the task table\<close>

text \<open>\<^verbatim>\<open>ts.iter().find(|t| t.id == tid)\<close> and an update of the task it finds.\<close>

definition find_task :: "usize \<Rightarrow> kernel_state \<Rightarrow> task option" where
  "find_task tid k = find (\<lambda>t. t_id t = tid) (k_tasks k)"

definition upd_task :: "usize \<Rightarrow> (task \<Rightarrow> task) \<Rightarrow> kernel_state \<Rightarrow> kernel_state" where
  "upd_task tid f k = k\<lparr>k_tasks := update_first (\<lambda>t. t_id t = tid) f (k_tasks k)\<rparr>"

definition set_frame :: "u64 \<Rightarrow> (trap_frame \<Rightarrow> trap_frame) \<Rightarrow> kernel_state \<Rightarrow> kernel_state" where
  "set_frame addr f k = k\<lparr>k_frames := (k_frames k)(addr := f (k_frames k addr))\<rparr>"

definition set_mm :: "mm \<Rightarrow> kernel_state \<Rightarrow> kernel_state" where
  "set_mm m k = k\<lparr>k_mm := m\<rparr>"

definition free_cap_slot :: "task \<Rightarrow> nat option" where
  "free_cap_slot t = position (\<lambda>c. c = None) (t_caps t)"

text \<open>\<^verbatim>\<open>is_ascii_graphic\<close> is the range \<^verbatim>\<open>'!'..='~'\<close>.\<close>

definition set_name :: "bytes \<Rightarrow> task \<Rightarrow> task" where
  "set_name name t =
     (let kept = filter (\<lambda>b. 0x21 \<le> b \<and> b \<le> 0x7e \<or> b = 0x20) (take 16 name)
      in t\<lparr>t_name := if kept = [] then [0x3f] else kept\<rparr>)"

section \<open>Kernel stacks\<close>

definition KSTACK_PAGES :: u64 where [consts_def]: "KSTACK_PAGES = 8"
definition KSTACK_GUARD_PAGES :: u64 where [consts_def]: "KSTACK_GUARD_PAGES = 1"
definition KSTACK_REGION_BASE :: u64 where [consts_def]: "KSTACK_REGION_BASE = 0xFFFFC00000000000"
definition KSTACK_SLOT_BYTES :: u64 where [consts_def]:
  "KSTACK_SLOT_BYTES = (KSTACK_PAGES + KSTACK_GUARD_PAGES) * 4096"

text \<open>On success the stack top and the physical base of its frames; the outer option is a panic.\<close>

definition kstack_slot :: "usize \<Rightarrow> mm \<Rightarrow> ((u64 \<times> u64) option \<times> mm) option" where
  "kstack_slot slot m =
     (if slot \<ge> 4096 then Some (None, m)
      else let base = KSTACK_REGION_BASE + slot * KSTACK_SLOT_BYTES;
               stack_base = base + KSTACK_GUARD_PAGES * 4096
      in case alloc_frames KSTACK_PAGES (mm_fa m) of
           (None, fa) \<Rightarrow> Some (None, m\<lparr>mm_fa := fa\<rparr>)
         | (Some frames, fa) \<Rightarrow>
             (case register_kstack stack_base frames KSTACK_PAGES (m\<lparr>mm_fa := fa\<rparr>) of
                (False, m) \<Rightarrow> map_option (\<lambda>m. (None, m)) (free_frame_mm frames KSTACK_PAGES m)
              | (True, m) \<Rightarrow> Some (Some (stack_base + KSTACK_PAGES * 4096, frames), m)))"

definition alloc_kstack :: "kernel_state \<Rightarrow> ((u64 \<times> u64) option \<times> kernel_state) option" where
  "alloc_kstack k =
     (let slot = k_next_kslot k; k = k\<lparr>k_next_kslot := slot + 1\<rparr> in
      if slot \<ge> 4096 then Some (None, k)
      else map_option (\<lambda>(r, m). (r, set_mm m k)) (kstack_slot slot (k_mm k)))"

section \<open>Spawning\<close>

text \<open>\<^verbatim>\<open>write_bytes(stack_frames, 0, USER_STACK_BYTES)\<close>.\<close>

definition zero_pages :: "u64 \<Rightarrow> nat \<Rightarrow> physmem \<Rightarrow> physmem" where
  "zero_pages base n mem = fold (\<lambda>i. zero_page (base + of_nat i * 4096)) [0..<n] mem"

fun map_user_stack :: "u64 \<Rightarrow> u64 \<Rightarrow> u64 \<Rightarrow> nat \<Rightarrow> nat \<Rightarrow> mm \<Rightarrow> bool \<times> mm" where
  "map_user_stack cr3 stack_base frames i 0 m = (True, m)"
| "map_user_stack cr3 stack_base frames i (Suc n) m =
     (case map_page_in cr3 (stack_base + of_nat i * 4096) (frames + of_nat i * 4096) USER_RW m of
        (False, m) \<Rightarrow>
          (False, fold (\<lambda>mapped. unmap_page_in cr3 (stack_base + of_nat mapped * 4096)) [0..<i] m)
      | (True, m) \<Rightarrow> map_user_stack cr3 stack_base frames (Suc i) n m)"

definition STACK_PAGES :: u64 where [consts_def]: "STACK_PAGES = USER_STACK_BYTES div 4096"

text \<open>
  The address space of a new task: page tables, the image, the user stack. On success
  the root, the entry point and the number of user pages.
\<close>

definition spawn_space :: "bytes \<Rightarrow> mm \<Rightarrow> ((u64 \<times> u64 \<times> u64) option \<times> mm) option" where
  "spawn_space elf m =
     do {
       r \<leftarrow> new_address_space m;
       case r of
         (None, m) \<Rightarrow> Some (None, m)
       | (Some cr3, m) \<Rightarrow> do {
           r \<leftarrow> load_elf cr3 elf m;
           case r of
             (Inl _, m) \<Rightarrow> map_option (\<lambda>m. (None, m)) (destroy_address_space cr3 m)
           | (Inr (entry, elf_pages), m) \<Rightarrow>
               (case alloc_frames STACK_PAGES (mm_fa m) of
                  (None, fa) \<Rightarrow>
                    map_option (\<lambda>m. (None, m)) (destroy_address_space cr3 (m\<lparr>mm_fa := fa\<rparr>))
                | (Some stack_frames, fa) \<Rightarrow>
                    (case map_user_stack cr3 (USER_STACK_TOP - USER_STACK_BYTES) stack_frames 0
                            (unat STACK_PAGES)
                            (m\<lparr>mm_fa := fa,
                               mm_mem := zero_pages stack_frames (unat STACK_PAGES) (mm_mem m)\<rparr>) of
                       (False, m) \<Rightarrow> do {
                         m \<leftarrow> free_frame_mm stack_frames STACK_PAGES m;
                         m \<leftarrow> destroy_address_space cr3 m;
                         Some (None, m)
                       }
                     | (True, m) \<Rightarrow> Some (Some (cr3, entry, elf_pages + STACK_PAGES), m)))
         }
     }"

definition install_caps :: "cap list \<Rightarrow> cap option list" where
  "install_caps caps = map Some (take CAP_TABLE_SIZE caps) @ replicate (CAP_TABLE_SIZE - length caps) None"

text \<open>
  The selectors of ring 3 are the fourth and the third descriptor that \<^verbatim>\<open>gdt::init\<close>
  appends, with privilege level 3.
\<close>

definition USER_CS :: u64 where [consts_def]: "USER_CS = 0x23"
definition USER_SS :: u64 where [consts_def]: "USER_SS = 0x1b"

definition spawn_user ::
    "bytes \<Rightarrow> bytes \<Rightarrow> cap list \<Rightarrow> usize option \<Rightarrow> kernel_state \<Rightarrow> ((unit + usize) \<times> kernel_state) option" where
  "spawn_user elf name caps parent k =
     do {
       r \<leftarrow> spawn_space elf (k_mm k);
       case r of
         (None, m) \<Rightarrow> Some (Inl (), set_mm m k)
       | (Some (cr3, entry, pages), m) \<Rightarrow> do {
           r \<leftarrow> alloc_kstack (set_mm m k);
           case r of
             (None, k) \<Rightarrow>
               map_option (\<lambda>m. (Inl (), set_mm m k)) (destroy_address_space cr3 (k_mm k))
           | (Some (kstack_top, kstack_frames_base), k) \<Rightarrow>
               (let frame_addr = kstack_top - FRAME_BYTES;
                    tid = k_next_tid k;
                    t = \<lparr>t_id = tid, t_name = name, t_state = Ready, t_cr3 = cr3,
                         t_kstack_top = kstack_top, t_saved_rsp = frame_addr,
                         t_caps = install_caps caps, t_parent = parent,
                         t_kstack_base_va = kstack_top - KSTACK_PAGES * 4096,
                         t_kstack_frames_base = kstack_frames_base, t_pages = pages\<rparr>;
                    k = set_frame frame_addr (\<lambda>_. new_user entry USER_STACK_TOP USER_CS USER_SS) k;
                    k = k\<lparr>k_next_tid := tid + 1, k_tasks := k_tasks k @ [t],
                           k_ready := k_ready k @ [tid]\<rparr>
                in Some (Inr tid, k))
         }
     }"

section \<open>The reaper\<close>

definition reclaim :: "pending_reap \<Rightarrow> mm \<Rightarrow> mm option" where
  "reclaim p m =
     do {
       m \<leftarrow> destroy_address_space (pr_cr3 p) m;
       free_frame_mm (pr_kstack_frames_base p) KSTACK_PAGES
         (unregister_kstack (pr_kstack_base_va p) KSTACK_PAGES m)
     }"

definition snapshot :: "task \<Rightarrow> pending_reap" where
  "snapshot t = \<lparr>pr_cr3 = t_cr3 t, pr_kstack_base_va = t_kstack_base_va t,
                 pr_kstack_frames_base = t_kstack_frames_base t\<rparr>"

definition schedule_reap :: "usize \<Rightarrow> kernel_state \<Rightarrow> kernel_state" where
  "schedule_reap tid k =
     (case find_task tid k of
        None \<Rightarrow> k
      | Some t \<Rightarrow> k\<lparr>k_tasks := filter (\<lambda>t. t_id t \<noteq> tid) (k_tasks k),
                   k_reap := k_reap k @ [snapshot t]\<rparr>)"

definition drain_reaper :: "kernel_state \<Rightarrow> kernel_state option" where
  "drain_reaper k =
     map_option (\<lambda>m. k\<lparr>k_mm := m, k_reap := []\<rparr>) (ofold reclaim (k_reap k) (k_mm k))"

text \<open>\<^verbatim>\<open>ts.remove(pos)\<close> of the first task with the id.\<close>

definition remove_first :: "('a \<Rightarrow> bool) \<Rightarrow> 'a list \<Rightarrow> 'a list" where
  "remove_first p xs = (case position p xs of None \<Rightarrow> xs | Some i \<Rightarrow> take i xs @ drop (Suc i) xs)"

definition reap_zombie :: "usize \<Rightarrow> kernel_state \<Rightarrow> (u64 option \<times> kernel_state) option" where
  "reap_zombie tid k =
     (case find_task tid k of
        None \<Rightarrow> Some (None, k)
      | Some t \<Rightarrow>
          (case t_state t of
             Zombie code \<Rightarrow>
               map_option (\<lambda>m. (Some code, k\<lparr>k_tasks := remove_first (\<lambda>t. t_id t = tid) (k_tasks k), k_mm := m\<rparr>))
                 (reclaim (snapshot t) (k_mm k))
           | _ \<Rightarrow> Some (None, k)))"

end
