(* ===== verification/Sched.thy ===== *)
theory Sched
  imports Task
begin

text \<open>
  The scheduler, \<^verbatim>\<open>kernel/src/sched.rs\<close>: the ready queue, switching to a task, waking
  bounded waits, preemption at the timer, and the idle path.

  A trap handler ends by returning the frame through which the processor leaves the kernel
  (\<open>Resume\<close>), by parking the processor (\<open>Idle\<close>), or not at all (\<open>Reboot\<close>, \<open>Halt\<close>); a
  panic is \<open>None\<close> around the whole result.
\<close>

datatype cpu = Resume u64 | Idle | Reboot | Halt

definition QUANTUM_TICKS :: u64 where [consts_def]: "QUANTUM_TICKS = 20"

definition set_current :: "usize option \<Rightarrow> kernel_state \<Rightarrow> kernel_state" where
  "set_current c k = k\<lparr>k_current := c\<rparr>"

definition make_ready :: "usize \<Rightarrow> bool \<Rightarrow> kernel_state \<Rightarrow> kernel_state" where
  "make_ready tid front k =
     k\<lparr>k_ready := if front then tid # k_ready k else k_ready k @ [tid]\<rparr>"

text \<open>
  The loop of \<^verbatim>\<open>pick_next\<close>. Entries skipped on the way are put back behind the queue when a
  task is found, and dropped when none is.
\<close>

fun pick_loop :: "(usize \<Rightarrow> bool) \<Rightarrow> usize option \<Rightarrow> usize list \<Rightarrow> usize list \<Rightarrow> usize option \<times> usize list" where
  "pick_loop ok exclude [] skipped = (None, [])"
| "pick_loop ok exclude (tid # q) skipped =
     (if Some tid \<noteq> exclude \<and> ok tid then (Some tid, q @ skipped)
      else pick_loop ok exclude q (skipped @ [tid]))"

definition is_ready :: "kernel_state \<Rightarrow> usize \<Rightarrow> bool" where
  "is_ready k tid = list_ex (\<lambda>t. t_id t = tid \<and> t_state t = Ready) (k_tasks k)"

definition pick_next :: "usize option \<Rightarrow> kernel_state \<Rightarrow> usize option \<times> kernel_state" where
  "pick_next exclude k =
     (case pick_loop (is_ready k) exclude (k_ready k) [] of (r, q) \<Rightarrow> (r, k\<lparr>k_ready := q\<rparr>))"

text \<open>\<open>expect("resumed task vanished")\<close> is the \<open>None\<close>.\<close>

definition resume :: "usize \<Rightarrow> kernel_state \<Rightarrow> (cpu \<times> kernel_state) option" where
  "resume tid k =
     (case find_task tid k of
        None \<Rightarrow> None
      | Some t \<Rightarrow>
          (let k = upd_task tid (\<lambda>t. t\<lparr>t_state := Running\<rparr>) k;
               k = set_current (Some tid) k
           in Some (Resume (t_saved_rsp t),
                k\<lparr>k_mm := (k_mm k)\<lparr>mm_cr3 := t_cr3 t\<rparr>, k_rsp0 := t_kstack_top t\<rparr>)))"

text \<open>The top of kernel stack slot 0.\<close>

definition idle_stack_top :: u64 where [consts_def]:
  "idle_stack_top = KSTACK_REGION_BASE + KSTACK_GUARD_PAGES * 4096 + KSTACK_PAGES * 4096"

definition park_idle :: "kernel_state \<Rightarrow> (cpu \<times> kernel_state) option" where
  "park_idle k = Some (Idle, k\<lparr>k_mm := activate_kernel_space (k_mm k), k_rsp0 := idle_stack_top\<rparr>)"

text \<open>The tail every blocking path ends with: pick a task and switch to it, or idle.\<close>

definition switch_away :: "kernel_state \<Rightarrow> (cpu \<times> kernel_state) option" where
  "switch_away k =
     (case pick_next None k of
        (Some next, k) \<Rightarrow> resume next k
      | (None, k) \<Rightarrow> park_idle k)"

section \<open>The timer\<close>

fun expired :: "u64 \<Rightarrow> task_state \<Rightarrow> bool" where
  "expired now (BlockedRecv _ deadline) \<longleftrightarrow> deadline \<noteq> 0 \<and> now \<ge> deadline"
| "expired now (BlockedSleep until) \<longleftrightarrow> now \<ge> until"
| "expired now _ \<longleftrightarrow> False"

definition wake_code :: "task_state \<Rightarrow> u64" where
  "wake_code s = (case s of BlockedRecv _ _ \<Rightarrow> E_TIMEDOUT | _ \<Rightarrow> E_OK)"

text \<open>The pass over the task table: new table, new frames, ids woken in order.\<close>

fun wake_loop :: "u64 \<Rightarrow> task list \<Rightarrow> (u64 \<Rightarrow> trap_frame) \<Rightarrow> task list \<times> (u64 \<Rightarrow> trap_frame) \<times> usize list" where
  "wake_loop now [] fs = ([], fs, [])"
| "wake_loop now (t # ts) fs =
     (if expired now (t_state t) then
        (case wake_loop now ts
                (fs(t_saved_rsp t := (fs (t_saved_rsp t))\<lparr>tf_rax := wake_code (t_state t)\<rparr>)) of
           (ts', fs', woke) \<Rightarrow> (t\<lparr>t_state := Ready\<rparr> # ts', fs', t_id t # woke))
      else (case wake_loop now ts fs of (ts', fs', woke) \<Rightarrow> (t # ts', fs', woke)))"

definition wake_expired :: "kernel_state \<Rightarrow> kernel_state" where
  "wake_expired k =
     (case wake_loop (k_ticks k) (k_tasks k) (k_frames k) of
        (ts, fs, woke) \<Rightarrow> fold (\<lambda>tid. make_ready tid True) woke (k\<lparr>k_tasks := ts, k_frames := fs\<rparr>))"

text \<open>Shared by \<^verbatim>\<open>yield_task\<close> and \<^verbatim>\<open>maybe_preempt\<close>: the current task goes to the back of the queue.\<close>

definition requeue_current :: "usize \<Rightarrow> u64 \<Rightarrow> kernel_state \<Rightarrow> kernel_state option" where
  "requeue_current tid frame_ptr k =
     (case find_task tid k of
        None \<Rightarrow> None
      | Some _ \<Rightarrow>
          Some (make_ready tid False
            (upd_task tid (\<lambda>t. t\<lparr>t_saved_rsp := frame_ptr, t_state := Ready\<rparr>) k)))"

definition maybe_preempt :: "u64 \<Rightarrow> kernel_state \<Rightarrow> (cpu \<times> kernel_state) option" where
  "maybe_preempt frame_ptr k =
     (let since = k_since_switch k + 1 in
      if since < QUANTUM_TICKS then Some (Resume frame_ptr, k\<lparr>k_since_switch := since\<rparr>)
      else let k = k\<lparr>k_since_switch := 0\<rparr> in
        case (k_current k, pick_next (k_current k) k) of
          (None, Some next, k) \<Rightarrow> resume next k
        | (_, None, k) \<Rightarrow> Some (Resume frame_ptr, k)
        | (Some cur, Some next, k) \<Rightarrow> requeue_current cur frame_ptr k \<bind> resume next)"

definition bump_tick :: "kernel_state \<Rightarrow> kernel_state" where
  "bump_tick k = k\<lparr>k_ticks := k_ticks k + 1\<rparr>"

definition timer_trap :: "u64 \<Rightarrow> kernel_state \<Rightarrow> (cpu \<times> kernel_state) option" where
  "timer_trap frame_ptr k = maybe_preempt frame_ptr (wake_expired (bump_tick k))"

definition kickoff :: "kernel_state \<Rightarrow> (cpu \<times> kernel_state) option" where
  "kickoff k = switch_away k"

end
