(* ===== verification/Input.thy ===== *)
theory Input
  imports Sched
begin

text \<open>
  The keyboard path, \<^verbatim>\<open>kernel/src/input.rs\<close>: decoding of scancodes, the byte queue, and
  the readers parked in \<^verbatim>\<open>SYS_INPUT_READ\<close>. Bytes reach a reader's buffer through the page
  tables whose root was recorded with it.
\<close>

definition QUEUE_CAP :: nat where [consts_def]: "QUEUE_CAP = 256"

section \<open>Scancodes\<close>

text \<open>Scancode set 1, US layout: the make codes and their bytes.\<close>

definition KEYMAP :: "(u8 \<times> u8) list" where
  "KEYMAP =
    [(0x02, 0x31), (0x03, 0x32), (0x04, 0x33), (0x05, 0x34), (0x06, 0x35), (0x07, 0x36),
     (0x08, 0x37), (0x09, 0x38), (0x0a, 0x39), (0x0b, 0x30), (0x0c, 0x2d), (0x0d, 0x3d),
     (0x0e, 0x08), (0x0f, 0x09),
     (0x10, 0x71), (0x11, 0x77), (0x12, 0x65), (0x13, 0x72), (0x14, 0x74), (0x15, 0x79),
     (0x16, 0x75), (0x17, 0x69), (0x18, 0x6f), (0x19, 0x70), (0x1a, 0x5b), (0x1b, 0x5d),
     (0x1c, 0x0a),
     (0x1e, 0x61), (0x1f, 0x73), (0x20, 0x64), (0x21, 0x66), (0x22, 0x67), (0x23, 0x68),
     (0x24, 0x6a), (0x25, 0x6b), (0x26, 0x6c), (0x27, 0x3b), (0x28, 0x27), (0x29, 0x60),
     (0x2b, 0x5c),
     (0x2c, 0x7a), (0x2d, 0x78), (0x2e, 0x63), (0x2f, 0x76), (0x30, 0x62), (0x31, 0x6e),
     (0x32, 0x6d), (0x33, 0x2c), (0x34, 0x2e), (0x35, 0x2f), (0x39, 0x20)]"

definition SHIFTMAP :: "(u8 \<times> u8) list" where
  "SHIFTMAP =
    [(0x31, 0x21), (0x32, 0x40), (0x33, 0x23), (0x34, 0x24), (0x35, 0x25), (0x36, 0x5e),
     (0x37, 0x26), (0x38, 0x2a), (0x39, 0x28), (0x30, 0x29), (0x2d, 0x5f), (0x3d, 0x2b),
     (0x5b, 0x7b), (0x5d, 0x7d), (0x3b, 0x3a), (0x27, 0x22), (0x60, 0x7e), (0x5c, 0x7c),
     (0x2c, 0x3c), (0x2e, 0x3e), (0x2f, 0x3f)]"

definition unshift :: "u8 \<Rightarrow> u8" where
  "unshift c =
     (case map_of SHIFTMAP c of
        Some s \<Rightarrow> s
      | None \<Rightarrow> if 0x61 \<le> c \<and> c \<le> 0x7a then c - 0x61 + 0x41 else c)"

definition decode :: "bool \<Rightarrow> u8 \<Rightarrow> u8 option" where
  "decode sh sc = map_option (\<lambda>c. if sh then unshift c else c) (map_of KEYMAP sc)"

section \<open>Delivery\<close>

text \<open>
  The copy loop of \<^verbatim>\<open>deliver_to\<close>, \<^verbatim>\<open>request_read\<close> and \<^verbatim>\<open>try_read\<close>: byte by byte until the
  buffer is full, the queue is empty or the page is not mapped.
\<close>

fun fill :: "u64 \<Rightarrow> u64 \<Rightarrow> u64 \<Rightarrow> u64 \<Rightarrow> bytes \<Rightarrow> physmem \<Rightarrow> u64 \<times> bytes \<times> physmem" where
  "fill cr3 buf len written [] mem = (written, [], mem)"
| "fill cr3 buf len written (b # q) mem =
     (if written < len then
        case translate mem cr3 (buf + written) of
          None \<Rightarrow> (written, b # q, mem)
        | Some pa \<Rightarrow> fill cr3 buf len (written + 1) q (write_byte pa b mem)
      else (written, b # q, mem))"

definition fill_from_queue :: "u64 \<Rightarrow> u64 \<Rightarrow> u64 \<Rightarrow> kernel_state \<Rightarrow> u64 \<times> kernel_state" where
  "fill_from_queue cr3 buf len k =
     (case fill cr3 buf len 0 (in_queue (k_input k)) (mm_mem (k_mm k)) of
        (written, q, mem) \<Rightarrow>
          (written, k\<lparr>k_input := (k_input k)\<lparr>in_queue := q\<rparr>, k_mm := (k_mm k)\<lparr>mm_mem := mem\<rparr>\<rparr>))"

definition deliver_to :: "waiter \<Rightarrow> kernel_state \<Rightarrow> kernel_state" where
  "deliver_to w k =
     (case fill_from_queue (w_cr3 w) (w_buf w) (w_len w) k of
        (written, k) \<Rightarrow>
          (let k = (case find_task (w_tid w) k of
                      Some t \<Rightarrow>
                        if t_state t = BlockedInput
                        then upd_task (w_tid w) (\<lambda>t. t\<lparr>t_state := Ready\<rparr>)
                               (set_frame (t_saved_rsp t) (\<lambda>f. f\<lparr>tf_rax := written\<rparr>) k)
                        else k
                    | None \<Rightarrow> k)
           in make_ready (w_tid w) True k))"

definition enqueue :: "u8 \<Rightarrow> kernel_state \<Rightarrow> kernel_state" where
  "enqueue byte k =
     (let q = in_queue (k_input k);
          q = (if length q \<ge> QUEUE_CAP then tl q else q) @ [byte]
      in case in_waiters (k_input k) of
           [] \<Rightarrow> k\<lparr>k_input := (k_input k)\<lparr>in_queue := q\<rparr>\<rparr>
         | w # ws \<Rightarrow> deliver_to w (k\<lparr>k_input := (k_input k)\<lparr>in_queue := q, in_waiters := ws\<rparr>\<rparr>))"

definition on_scancode :: "u8 \<Rightarrow> kernel_state \<Rightarrow> kernel_state" where
  "on_scancode sc k =
     (let i = k_input k in
      if sc = 0xe0 then k\<lparr>k_input := i\<lparr>in_extended := True\<rparr>\<rparr>
      else if in_extended i then k\<lparr>k_input := i\<lparr>in_extended := False\<rparr>\<rparr>
      else if sc = 0x2a \<or> sc = 0x36 then k\<lparr>k_input := i\<lparr>in_shift := True\<rparr>\<rparr>
      else if sc = 0xaa \<or> sc = 0xb6 then k\<lparr>k_input := i\<lparr>in_shift := False\<rparr>\<rparr>
      else if sc AND 0x80 \<noteq> 0 then k
      else case decode (in_shift i) sc of None \<Rightarrow> k | Some byte \<Rightarrow> enqueue byte k)"

section \<open>Reading\<close>

datatype read_outcome = Served u64 | Parked | BadArgs

definition request_read :: "usize \<Rightarrow> u64 \<Rightarrow> u64 \<Rightarrow> u64 \<Rightarrow> kernel_state \<Rightarrow> read_outcome \<times> kernel_state" where
  "request_read tid cr3 buf len k =
     (if len = 0 \<or> \<not> user_range_valid buf len then (BadArgs, k)
      else if translate (mm_mem (k_mm k)) cr3 buf = None then (BadArgs, k)
      else if in_queue (k_input k) = [] then
        (Parked, k\<lparr>k_input := (k_input k)\<lparr>in_waiters := in_waiters (k_input k) @
           [\<lparr>w_tid = tid, w_buf = buf, w_len = len, w_cr3 = cr3\<rparr>]\<rparr>\<rparr>)
      else case fill_from_queue cr3 buf len k of (written, k) \<Rightarrow> (Served written, k))"

definition try_read :: "u64 \<Rightarrow> u64 \<Rightarrow> u64 \<Rightarrow> kernel_state \<Rightarrow> u64 option \<times> kernel_state" where
  "try_read cr3 buf len k =
     (if len = 0 \<or> \<not> user_range_valid buf len then (Some 0, k)
      else case fill_from_queue cr3 buf len k of (written, k) \<Rightarrow> (Some written, k))"

end
