(* ===== verification/Ata.thy ===== *)
theory Ata
  imports Task
begin

text \<open>
  The disk driver, \<^verbatim>\<open>kernel/src/ata.rs\<close>, above its port accesses: which requests it
  refuses, how it programs the LBA48 registers, and what a transfer does to the drive. What
  the hardware does is an argument of the operations (\<open>hw\<close>): how many sectors it completes
  before it reports an error or times out, with which error, and whether the flush succeeds.
\<close>

datatype ata_error = NoDrive | BusyTimeout | DeviceError | AtaBadArgs

record hw =
  hw_done :: nat
  hw_error :: ata_error
  hw_flush :: "ata_error option"

text \<open>
  \<^verbatim>\<open>setup_lba48\<close>: the refusals, then the register writes (offset, value) in order.
\<close>

definition setup_lba48 :: "drive \<Rightarrow> u64 \<Rightarrow> u16 \<Rightarrow> ata_error + (u16 \<times> u8) list" where
  "setup_lba48 d lba count =
     (if count = 0 \<or> count > 256 then Inl AtaBadArgs
      else case checked_add lba (ucast count) of
          None \<Rightarrow> Inl AtaBadArgs
        | Some end' \<Rightarrow>
            if end' > dr_sectors d then Inl AtaBadArgs
            else Inr [(2, ucast (drop_bit 8 count)),
                      (3, ucast (drop_bit 24 lba)),
                      (4, ucast (drop_bit 32 lba)),
                      (5, ucast (drop_bit 40 lba)),
                      (2, ucast (count AND 0xff)),
                      (3, ucast lba),
                      (4, ucast (drop_bit 8 lba)),
                      (5, ucast (drop_bit 16 lba))])"

definition drive_read :: "hw \<Rightarrow> drive \<Rightarrow> u64 \<Rightarrow> u16 \<Rightarrow> nat \<Rightarrow> ata_error + bytes" where
  "drive_read h d lba count buf_len =
     (if buf_len < unat count * 512 then Inl AtaBadArgs
      else case setup_lba48 d lba count of
          Inl e \<Rightarrow> Inl e
        | Inr _ \<Rightarrow>
            if hw_done h < unat count then Inl (hw_error h)
            else Inr (concat (map (\<lambda>s. dr_data d (lba + of_nat s)) [0..<unat count])))"

text \<open>The first \<open>n\<close> sectors of a transfer reach the drive.\<close>

definition put_sectors :: "drive \<Rightarrow> u64 \<Rightarrow> bytes \<Rightarrow> nat \<Rightarrow> drive" where
  "put_sectors d lba buf n =
     d\<lparr>dr_data := fold (\<lambda>s f. f(lba + of_nat s := rslice buf (s * 512) (s * 512 + 512))) [0..<n] (dr_data d)\<rparr>"

definition drive_write :: "hw \<Rightarrow> drive \<Rightarrow> u64 \<Rightarrow> u16 \<Rightarrow> bytes \<Rightarrow> ata_error option \<times> drive" where
  "drive_write h d lba count buf =
     (if length buf < unat count * 512 then (Some AtaBadArgs, d)
      else case setup_lba48 d lba count of
          Inl e \<Rightarrow> (Some e, d)
        | Inr _ \<Rightarrow>
            if hw_done h < unat count then (Some (hw_error h), put_sectors d lba buf (hw_done h))
            else (hw_flush h, put_sectors d lba buf (unat count)))"

definition with_drive :: "u64 \<Rightarrow> kernel_state \<Rightarrow> drive option" where
  "with_drive idx k = (if idx = 0 then k_primary k else if idx = 1 then k_secondary k else None)"

definition drive_present :: "u64 \<Rightarrow> kernel_state \<Rightarrow> bool" where
  "drive_present idx k = (with_drive idx k \<noteq> None)"

definition drive_sectors :: "u64 \<Rightarrow> kernel_state \<Rightarrow> u64" where
  "drive_sectors idx k = (case with_drive idx k of Some d \<Rightarrow> dr_sectors d | None \<Rightarrow> 0)"

definition read_sectors :: "hw \<Rightarrow> u64 \<Rightarrow> u64 \<Rightarrow> u16 \<Rightarrow> nat \<Rightarrow> kernel_state \<Rightarrow> ata_error + bytes" where
  "read_sectors h idx lba count buf_len k =
     (case with_drive idx k of
        None \<Rightarrow> Inl NoDrive
      | Some d \<Rightarrow> drive_read h d lba count buf_len)"

definition write_sectors ::
    "hw \<Rightarrow> u64 \<Rightarrow> u64 \<Rightarrow> u16 \<Rightarrow> bytes \<Rightarrow> kernel_state \<Rightarrow> ata_error option \<times> kernel_state" where
  "write_sectors h idx lba count buf k =
     (case with_drive idx k of
        None \<Rightarrow> (Some NoDrive, k)
      | Some d \<Rightarrow>
          (case drive_write h d lba count buf of
             (r, d) \<Rightarrow> (r, if idx = 0 then k\<lparr>k_primary := Some d\<rparr> else k\<lparr>k_secondary := Some d\<rparr>)))"

end
