(* ===== verification/Text.thy ===== *)
theory Text
  imports Prelude
begin

text \<open>
  Text as the kernel and the servers handle it, on byte strings: UTF-8 validity, the standard library's
  integer parsing and \<^verbatim>\<open>str::trim\<close>, decimal printing (\<^verbatim>\<open>itoa_small\<close> of the kernel, \<^verbatim>\<open>push_num\<close> of the servers),
  splitting and trimming of slices. The main fact is that printing and parsing a number round-trip.
\<close>

section \<open>Literals and UTF-8\<close>

text \<open>A byte-string literal of the source.\<close>

definition lit :: "string \<Rightarrow> bytes" where
  "lit s = map of_char s"

lemma lit_simps [simp]: "lit [] = []" "lit (c # s) = of_char c # lit s" "length (lit s) = length s"
  by (simp_all add: lit_def)

text \<open>\<^verbatim>\<open>core::str::from_utf8\<close> succeeds on the well-formed sequences of the Unicode standard.\<close>

definition cont :: "u8 \<Rightarrow> bool" where "cont b \<longleftrightarrow> 0x80 \<le> b \<and> b \<le> 0xbf"

fun utf8_ok :: "bytes \<Rightarrow> bool" where
  "utf8_ok [] \<longleftrightarrow> True"
| "utf8_ok (a # bs) \<longleftrightarrow>
     (if a < 0x80 then utf8_ok bs
      else if 0xc2 \<le> a \<and> a \<le> 0xdf then
        (case bs of b # r \<Rightarrow> cont b \<and> utf8_ok r | _ \<Rightarrow> False)
      else if 0xe0 \<le> a \<and> a \<le> 0xef then
        (case bs of
           b # c # r \<Rightarrow>
             cont b \<and> (a = 0xe0 \<longrightarrow> 0xa0 \<le> b) \<and> (a = 0xed \<longrightarrow> b \<le> 0x9f) \<and> cont c \<and> utf8_ok r
         | _ \<Rightarrow> False)
      else if 0xf0 \<le> a \<and> a \<le> 0xf4 then
        (case bs of
           b # c # d # r \<Rightarrow>
             cont b \<and> (a = 0xf0 \<longrightarrow> 0x90 \<le> b) \<and> (a = 0xf4 \<longrightarrow> b \<le> 0x8f) \<and> cont c \<and> cont d \<and> utf8_ok r
         | _ \<Rightarrow> False)
      else False)"

lemma utf8_ok_ascii: "\<forall>b \<in> set bs. b < 0x80 \<Longrightarrow> utf8_ok bs"
  by (induction bs) simp_all

definition from_utf8 :: "bytes \<Rightarrow> bytes option" where
  "from_utf8 bs = (if utf8_ok bs then Some bs else None)"

text \<open>The encodings of the characters with the Unicode property \<open>White_Space\<close>, and \<^verbatim>\<open>str::trim\<close>.\<close>

definition WHITE_SPACE :: "bytes list" where
  "WHITE_SPACE =
     map (\<lambda>b. [b]) [0x09, 0x0a, 0x0b, 0x0c, 0x0d, 0x20] @
     [[0xc2, 0x85], [0xc2, 0xa0], [0xe1, 0x9a, 0x80]] @
     map (\<lambda>b. [0xe2, 0x80, b]) [0x80, 0x81, 0x82, 0x83, 0x84, 0x85, 0x86, 0x87, 0x88, 0x89, 0x8a, 0xa8, 0xa9, 0xaf] @
     [[0xe2, 0x81, 0x9f], [0xe3, 0x80, 0x80]]"

function strip_any :: "bytes list \<Rightarrow> bytes \<Rightarrow> bytes" where
  "strip_any ws s =
     (case List.find (\<lambda>w. w \<noteq> [] \<and> take (length w) s = w) ws of
        Some w \<Rightarrow> strip_any ws (drop (length w) s)
      | None \<Rightarrow> s)"
  by pat_completeness auto
termination
proof (relation "measure (length \<circ> snd)")
  fix ws s w assume "List.find (\<lambda>w. w \<noteq> [] \<and> take (length w) s = w) ws = Some w"
  then have "w \<noteq> []" "take (length w) s = w" using find_SomeD by fastforce+
  then show "((ws, drop (length w) s), ws, s) \<in> measure (length \<circ> snd)" by (cases s) auto
qed simp

declare strip_any.simps [simp del]

definition str_trim :: "bytes \<Rightarrow> bytes" where
  "str_trim s = rev (strip_any (map rev WHITE_SPACE) (rev (strip_any WHITE_SPACE s)))"

text \<open>\<^verbatim>\<open>str::get(i..j)\<close>: both ends in range and on character boundaries.\<close>

definition char_boundary :: "bytes \<Rightarrow> nat \<Rightarrow> bool" where
  "char_boundary s i \<longleftrightarrow> i = length s \<or> i < length s \<and> \<not> cont (s ! i)"

definition str_get :: "bytes \<Rightarrow> nat \<Rightarrow> nat \<Rightarrow> bytes option" where
  "str_get s i j = (if i \<le> j \<and> char_boundary s i \<and> char_boundary s j then Some (rslice s i j) else None)"

section \<open>Numbers\<close>

text \<open>\<^verbatim>\<open>char::to_digit\<close> on an ASCII byte.\<close>

definition to_digit :: "nat \<Rightarrow> u8 \<Rightarrow> nat option" where
  "to_digit radix b =
     (let d = (if 0x30 \<le> b \<and> b \<le> 0x39 then Some (unat (b - 0x30))
               else if 0x61 \<le> b \<and> b \<le> 0x7a then Some (unat (b - 0x61) + 10)
               else if 0x41 \<le> b \<and> b \<le> 0x5a then Some (unat (b - 0x41) + 10)
               else None)
      in case d of Some n \<Rightarrow> if n < radix then Some n else None | None \<Rightarrow> None)"

text \<open>
  \<^verbatim>\<open>from_str_radix\<close> of an unsigned integer of \<open>bits\<close> bits: an optional plus sign, at least one digit, an
  error on any other character and on overflow.
\<close>

fun parse_digits :: "nat \<Rightarrow> nat \<Rightarrow> nat \<Rightarrow> bytes \<Rightarrow> nat option" where
  "parse_digits radix bits acc [] = Some acc"
| "parse_digits radix bits acc (b # bs) =
     (case to_digit radix b of
        None \<Rightarrow> None
      | Some d \<Rightarrow> if acc * radix + d < 2 ^ bits then parse_digits radix bits (acc * radix + d) bs else None)"

definition from_str_radix :: "nat \<Rightarrow> nat \<Rightarrow> bytes \<Rightarrow> nat option" where
  "from_str_radix radix bits s =
     (case s of
        [] \<Rightarrow> None
      | [b] \<Rightarrow> if b = 0x2b \<or> b = 0x2d then None else parse_digits radix bits 0 s
      | b # bs \<Rightarrow> parse_digits radix bits 0 (if b = 0x2b then bs else s))"

definition parse_u64 :: "bytes \<Rightarrow> u64 option" where
  "parse_u64 s = map_option of_nat (from_str_radix 10 64 s)"

definition parse_usize :: "bytes \<Rightarrow> nat option" where
  "parse_usize s = from_str_radix 10 64 s"

text \<open>Two hexadecimal characters of \<open>s\<close> as a byte, as every key parser of the servers reads them.\<close>

definition hex_byte :: "bytes \<Rightarrow> nat \<Rightarrow> u8 option" where
  "hex_byte s i = map_option of_nat (from_str_radix 16 8 (case str_get s (i * 2) (i * 2 + 2) of Some h \<Rightarrow> h | None \<Rightarrow> lit ''zz''))"

text \<open>The digit loop of \<^verbatim>\<open>itoa_small\<close> and \<^verbatim>\<open>push_num\<close> writes the low digit first.\<close>

function digit_loop :: "u64 \<Rightarrow> bytes" where
  "digit_loop v = (if v = 0 then [] else (0x30 + ucast (v mod 10)) # digit_loop (v div 10))"
  by pat_completeness auto
termination
  by (relation "measure unat") (auto simp: unat_div unat_gt_0 intro!: div_less_dividend)

declare digit_loop.simps [simp del]

definition push_num :: "bytes \<Rightarrow> u64 \<Rightarrow> bytes" where
  "push_num out v = out @ (if v = 0 then [0x30] else rev (digit_loop v))"

section \<open>Slices of text\<close>

text \<open>\<^verbatim>\<open>split(|b| b == c)\<close>: the separators are dropped, empty pieces are kept.\<close>

fun split_on :: "'a \<Rightarrow> 'a list \<Rightarrow> 'a list list" where
  "split_on c [] = [[]]"
| "split_on c (x # xs) =
     (if x = c then [] # split_on c xs
      else case split_on c xs of [] \<Rightarrow> [[x]] | p # ps \<Rightarrow> (x # p) # ps)"

definition words_of :: "bytes \<Rightarrow> bytes list" where
  "words_of s = filter (\<lambda>p. p \<noteq> []) (split_on 0x20 s)"

text \<open>\<^verbatim>\<open>trim\<close> of the servers: blanks, tabs and carriage returns at both ends.\<close>

definition blank :: "u8 \<Rightarrow> bool" where
  "blank b \<longleftrightarrow> b = 0x20 \<or> b = 0x09 \<or> b = 0x0d"

definition trim :: "bytes \<Rightarrow> bytes" where
  "trim s = rev (dropWhile blank (rev (dropWhile blank s)))"

definition strip_prefix :: "bytes \<Rightarrow> bytes \<Rightarrow> bytes option" where
  "strip_prefix s p = (if length p \<le> length s \<and> take (length p) s = p then Some (drop (length p) s) else None)"

text \<open>\<^verbatim>\<open>iter().rposition(p)\<close>.\<close>

definition rposition :: "('a \<Rightarrow> bool) \<Rightarrow> 'a list \<Rightarrow> nat option" where
  "rposition p xs = map_option (\<lambda>i. length xs - 1 - i) (position p (rev xs))"

text \<open>\<^verbatim>\<open>chunks(n)\<close>.\<close>

function chunks :: "nat \<Rightarrow> 'a list \<Rightarrow> 'a list list" where
  "chunks n xs = (if n = 0 \<or> xs = [] then [] else take n xs # chunks n (drop n xs))"
  by pat_completeness auto
termination
  by (relation "measure (length \<circ> snd)") auto

declare chunks.simps [simp del]

section \<open>Printing and parsing\<close>

lemma less_ten: "d \<in> {0, 1, 2, 3, 4, 5, 6, 7, 8, 9}" if "d < 10" for d :: nat
  using that unfolding insert_iff empty_iff by presburger

lemma to_digit_decimal: "d < 10 \<Longrightarrow> to_digit 10 (0x30 + of_nat d) = Some d"
  by (drule less_ten, elim insertE emptyE; simp add: to_digit_def)

lemma ucast_mod_ten: "(ucast (v mod 10) :: u8) = of_nat (unat v mod 10)" for v :: u64
proof -
  have m: "unat v mod 10 < 256" "unat v mod 10 < 2 ^ 64"
    using mod_less_divisor [of 10 "unat v"] by simp_all
  have "unat (ucast (v mod 10) :: u8) = unat v mod 10"
    using m by (simp add: unsigned_ucast_eq unat_mod take_bit_eq_mod)
  moreover have "unat (of_nat (unat v mod 10) :: u8) = unat v mod 10"
    using m by (simp add: unsigned_of_nat take_bit_eq_mod)
  ultimately show ?thesis by (metis unsigned_word_eqI)
qed

definition is_decimal :: "u8 \<Rightarrow> bool" where
  "is_decimal b \<longleftrightarrow> 0x30 \<le> b \<and> b \<le> 0x39"

lemma is_decimal_digit: "d < 10 \<Longrightarrow> is_decimal (0x30 + of_nat d)"
  using less_ten [of d] by (auto simp: is_decimal_def)

lemma digit_loop_decimal: "\<forall>b \<in> set (digit_loop v). is_decimal b"
proof (induction v rule: digit_loop.induct)
  case (1 v)
  then show ?case by (subst digit_loop.simps) (simp add: ucast_mod_ten is_decimal_digit)
qed

lemma parse_digits_append:
  "parse_digits r w a (xs @ ys) = parse_digits r w a xs \<bind> (\<lambda>a. parse_digits r w a ys)"
  by (induction xs arbitrary: a) (auto split: option.splits)

lemma parse_digit_loop: "parse_digits 10 64 0 (rev (digit_loop v)) = Some (unat v)"
proof (induction v rule: digit_loop.induct)
  case (1 v)
  show ?case
  proof (cases "v = 0")
    case True
    then show ?thesis by (simp add: digit_loop.simps [of 0])
  next
    case False
    have IH: "parse_digits 10 64 0 (rev (digit_loop (v div 10))) = Some (unat v div 10)"
      using 1 False by (simp add: unat_div)
    have d: "unat v div 10 * 10 + unat v mod 10 = unat v" by simp
    have "unat v < 2 ^ 64" using unsigned_less [of v, where 'a = nat] by simp
    then have "parse_digits 10 64 (unat v div 10) [0x30 + of_nat (unat v mod 10)] = Some (unat v)"
      by (simp only: parse_digits.simps to_digit_decimal [OF mod_less_divisor] zero_less_numeral option.case d if_True)
    then show ?thesis
      using False IH by (subst digit_loop.simps) (simp add: parse_digits_append ucast_mod_ten)
  qed
qed

lemma digit_loop_Nil [simp]: "digit_loop v = [] \<longleftrightarrow> v = 0"
  by (subst digit_loop.simps) simp

text \<open>Twenty bytes hold the digits: the buffer of \<^verbatim>\<open>push_num\<close> is never overrun.\<close>

lemma length_digit_loop: "unat v < 10 ^ n \<Longrightarrow> length (digit_loop v) \<le> n"
proof (induction n arbitrary: v)
  case 0
  then have "v = 0" by (simp add: unat_eq_0)
  then show ?case by simp
next
  case (Suc n)
  then have "unat (v div 10) < 10 ^ n" by (simp add: unat_div less_mult_imp_div_less mult.commute)
  then have "length (digit_loop (v div 10)) \<le> n" by (rule Suc.IH)
  then show ?case by (subst digit_loop.simps) simp
qed

lemma length_digit_loop_20: "length (digit_loop v) \<le> 20"
  using unsigned_less [of v, where 'a = nat] by (intro length_digit_loop) simp

lemma push_num_append: "push_num out v = out @ push_num [] v"
  by (simp add: push_num_def)

lemma push_num_decimal: "\<forall>b \<in> set (push_num [] v). is_decimal b"
  using digit_loop_decimal [of v] by (auto simp: push_num_def is_decimal_def)

lemma length_push_num: "0 < length (push_num [] v)" "length (push_num [] v) \<le> 20"
  using length_digit_loop_20 [of v] by (auto simp: push_num_def)

lemma is_decimal_neq: "is_decimal b \<Longrightarrow> b \<noteq> 0 \<and> b \<noteq> 0x20 \<and> b \<noteq> 0x2b \<and> b \<noteq> 0x2d \<and> b < 0x80 \<and> \<not> blank b"
  unfolding is_decimal_def blank_def by (auto simp: word_le_nat_alt word_less_nat_alt)

lemma from_str_radix_digits:
  "s \<noteq> [] \<Longrightarrow> \<forall>b \<in> set s. is_decimal b \<Longrightarrow> from_str_radix 10 w s = parse_digits 10 w 0 s"
  by (auto simp: from_str_radix_def dest: is_decimal_neq split: list.splits)

lemma parse_usize_push_num [simp]: "parse_usize (push_num [] v) = Some (unat v)"
proof -
  have "parse_digits 10 64 0 (push_num [] v) = Some (unat v)"
    using parse_digit_loop [of v] by (simp add: push_num_def to_digit_def)
  then show ?thesis
    using length_push_num(1) [of v] push_num_decimal [of v] by (simp add: parse_usize_def from_str_radix_digits)
qed

lemma parse_u64_push_num [simp]: "parse_u64 (push_num [] v) = Some v"
  using parse_usize_push_num [of v] by (simp add: parse_u64_def parse_usize_def)

lemma utf8_push_num [simp]: "utf8_ok (push_num [] v)"
  using push_num_decimal [of v] is_decimal_neq by (intro utf8_ok_ascii) blast

lemma dropWhile_id: "(xs \<noteq> [] \<Longrightarrow> \<not> p (hd xs)) \<Longrightarrow> dropWhile p xs = xs"
  by (cases xs) auto

lemma trim_id: "(s \<noteq> [] \<Longrightarrow> \<not> blank (hd s) \<and> \<not> blank (last s)) \<Longrightarrow> trim s = s"
  by (cases "s = []") (simp_all add: trim_def dropWhile_id hd_rev)

lemma trim_push_num [simp]: "trim (push_num [] v) = push_num [] v"
  using push_num_decimal [of v] length_push_num(1) [of v] is_decimal_neq by (intro trim_id) auto

lemma strip_prefix_append [simp]: "strip_prefix (p @ s) p = Some s"
  by (simp add: strip_prefix_def)

lemma concat_chunks: "0 < n \<Longrightarrow> concat (chunks n xs) = xs"
  by (induction n xs rule: chunks.induct) (subst chunks.simps, simp)

end
