(* ===== verification/Syscall.thy ===== *)
theory Syscall
  imports Input Ata Text
begin

text \<open>
  System calls, \<^verbatim>\<open>kernel/src/syscall.rs\<close>, one definition per handler, each the whole
  handler, and the dispatcher on the trapping task's registers. A handler returns how the
  processor leaves the kernel and the new state, or \<open>None\<close> where the code would panic.
  \<open>frame_ptr\<close> is the address of the trapping task's frame.

  What the environment decides is in \<open>env\<close>: the outcome of a disk transfer, and the four
  bytes of padding at the end of \<^verbatim>\<open>SysStats\<close>, which the code never writes.
\<close>

record env =
  env_hw :: hw
  env_pad :: u32

section \<open>Returning to the caller\<close>

definition set_rax :: "u64 \<Rightarrow> u64 \<Rightarrow> kernel_state \<Rightarrow> kernel_state" where
  "set_rax frame_ptr v = set_frame frame_ptr (\<lambda>f. f\<lparr>tf_rax := v\<rparr>)"

definition ret :: "u64 \<Rightarrow> u64 \<Rightarrow> kernel_state \<Rightarrow> (cpu \<times> kernel_state) option" where
  "ret frame_ptr v k = Some (Resume frame_ptr, set_rax frame_ptr v k)"

text \<open>\<^verbatim>\<open>ts.iter_mut().find(|t| t.id == tid).unwrap()\<close> and an update.\<close>

definition with_task :: "usize \<Rightarrow> (task \<Rightarrow> task) \<Rightarrow> kernel_state \<Rightarrow> kernel_state option" where
  "with_task tid f k = (case find_task tid k of None \<Rightarrow> None | Some _ \<Rightarrow> Some (upd_task tid f k))"

section \<open>User memory\<close>

fun read_through :: "physmem \<Rightarrow> u64 \<Rightarrow> u64 \<Rightarrow> nat \<Rightarrow> bytes option" where
  "read_through mem cr3 va 0 = Some []"
| "read_through mem cr3 va (Suc n) =
     (case translate mem cr3 va of
        None \<Rightarrow> None
      | Some pa \<Rightarrow> map_option (\<lambda>bs. read_byte mem pa # bs) (read_through mem cr3 (va + 1) n))"

definition copy_from_user :: "u64 \<Rightarrow> u64 \<Rightarrow> u64 \<Rightarrow> kernel_state \<Rightarrow> bytes option" where
  "copy_from_user cr3 src len k =
     (if \<not> user_range_valid src len then None
      else read_through (mm_mem (k_mm k)) cr3 src (unat len))"

definition copy_to_user :: "u64 \<Rightarrow> u64 \<Rightarrow> bytes \<Rightarrow> kernel_state \<Rightarrow> bool \<times> kernel_state" where
  "copy_to_user cr3 dst src k =
     (if \<not> user_range_valid dst (of_nat (length src)) then (False, k)
      else case write_through cr3 dst src (mm_mem (k_mm k)) of
             (ok, mem) \<Rightarrow> (ok, k\<lparr>k_mm := (k_mm k)\<lparr>mm_mem := mem\<rparr>\<rparr>))"

abbreviation current_cr3 :: "kernel_state \<Rightarrow> u64" where
  "current_cr3 k \<equiv> mm_cr3 (k_mm k)"

section \<open>Text\<close>

text \<open>\<^verbatim>\<open>itoa_small\<close>: the loop pushes the low digit first, then the digits are reversed.\<close>

definition itoa_small :: "u64 \<Rightarrow> bytes" where
  "itoa_small v = (if v = 0 then [0x30] else rev (digit_loop v))"

definition kprint_raw :: "bytes \<Rightarrow> kernel_state \<Rightarrow> kernel_state" where
  "kprint_raw s k = k\<lparr>k_out := k_out k @ s\<rparr>"

text \<open>The literals are \<^verbatim>\<open>"[tid "\<close>, \<^verbatim>\<open>"] "\<close>, \<^verbatim>\<open>"<binary>\n"\<close>.\<close>

definition sys_debug_write :: "u64 \<Rightarrow> usize \<Rightarrow> u64 \<Rightarrow> u64 \<Rightarrow> u64 \<Rightarrow> kernel_state \<Rightarrow> kernel_state" where
  "sys_debug_write frame_ptr tid buf len raw k =
     (case copy_from_user (current_cr3 k) buf (min len 512) k of
        Some bytes' \<Rightarrow>
          (let k = (if raw = 0
                    then kprint_raw ([0x5b, 0x74, 0x69, 0x64, 0x20] @ itoa_small tid @ [0x5d, 0x20]) k else k);
               txt = (if utf8_ok bytes' then bytes'
                      else [0x3c, 0x62, 0x69, 0x6e, 0x61, 0x72, 0x79, 0x3e, 0x0a]);
               k = kprint_raw txt k;
               k = (if \<not> (txt \<noteq> [] \<and> last txt = 0x0a) \<and> raw = 0 then kprint_raw [0x0a] k else k)
           in set_rax frame_ptr E_OK k)
      | None \<Rightarrow> set_rax frame_ptr E_CAP_MISSING k)"

section \<open>Yield and exit\<close>

definition yield_task :: "usize \<Rightarrow> u64 \<Rightarrow> kernel_state \<Rightarrow> (cpu \<times> kernel_state) option" where
  "yield_task tid frame_ptr k =
     (case pick_next (Some tid) k of
        (None, k) \<Rightarrow> Some (Resume frame_ptr, k)
      | (Some next, k) \<Rightarrow> requeue_current tid frame_ptr k \<bind> resume next)"

text \<open>
  \<^verbatim>\<open>abort_ipc_for_exiting_task\<close>: what happens to one endpoint, the pass over all of them
  (with the stranded callers in order), and the wake-up of one stranded caller.
\<close>

definition abort_endpoint :: "usize \<Rightarrow> endpoint \<Rightarrow> usize list \<times> endpoint" where
  "abort_endpoint tid e =
     (let e = e\<lparr>ep_pending_callers := filter (\<lambda>(caller, _). caller \<noteq> tid) (ep_pending_callers e)\<rparr>;
          e = (if ep_active_caller e = Some tid
               then e\<lparr>ep_active_caller := None, ep_active_server := None\<rparr> else e)
      in if ep_active_server e = Some tid
         then (case ep_active_caller e of Some c \<Rightarrow> [c] | None \<Rightarrow> [],
               e\<lparr>ep_active_caller := None, ep_active_server := None\<rparr>)
         else ([], e))"

definition wake_stranded :: "usize \<Rightarrow> kernel_state \<Rightarrow> kernel_state" where
  "wake_stranded caller k =
     (case find_task caller k of
        None \<Rightarrow> k
      | Some t \<Rightarrow>
          (case t_state t of
             BlockedCall _ \<Rightarrow>
               make_ready caller True
                 (upd_task caller (\<lambda>t. t\<lparr>t_state := Ready\<rparr>)
                   (set_rax (t_saved_rsp t) E_PEER_DIED k))
           | _ \<Rightarrow> k))"

definition abort_ipc :: "usize \<Rightarrow> kernel_state \<Rightarrow> kernel_state" where
  "abort_ipc tid k =
     (let rs = map (abort_endpoint tid) (k_endpoints k)
      in fold wake_stranded (concat (map fst rs)) (k\<lparr>k_endpoints := map snd rs\<rparr>))"

datatype fate = Deliver usize | Linger | Orphan

text \<open>The children of \<open>tid\<close> lose their parent; those already dead are collected for the reaper.\<close>

definition orphan_child :: "usize \<Rightarrow> task list \<Rightarrow> task list" where
  "orphan_child kid ts = update_first (\<lambda>t. t_id t = kid) (\<lambda>t. t\<lparr>t_parent := None\<rparr>) ts"

definition kids_of :: "usize \<Rightarrow> task list \<Rightarrow> usize list" where
  "kids_of tid ts = map t_id (filter (\<lambda>t. t_parent t = Some tid) ts)"

definition zombie_id :: "task list \<Rightarrow> usize \<Rightarrow> bool" where
  "zombie_id ts kid =
     (case find (\<lambda>t. t_id t = kid) ts of None \<Rightarrow> False | Some t \<Rightarrow> is_zombie (t_state t))"

definition fate_of :: "usize option \<Rightarrow> task list \<Rightarrow> fate" where
  "fate_of parent ts =
     (case parent of
        None \<Rightarrow> Orphan
      | Some pid \<Rightarrow>
          (case find (\<lambda>t. t_id t = pid) ts of
             None \<Rightarrow> Orphan
           | Some p \<Rightarrow> if t_state p = BlockedWait then Deliver pid else Linger))"

text \<open>The first critical section of \<^verbatim>\<open>terminate_lifecycle\<close>: fate, dead children, new table.\<close>

definition die :: "usize \<Rightarrow> u64 \<Rightarrow> task list \<Rightarrow> fate \<times> usize list \<times> task list" where
  "die tid code ts =
     (case find (\<lambda>t. t_id t = tid) ts of
        None \<Rightarrow> (Orphan, [], ts)
      | Some me \<Rightarrow>
          (let ts = update_first (\<lambda>t. t_id t = tid) (\<lambda>t. t\<lparr>t_state := Zombie code\<rparr>) ts;
               kids = kids_of tid ts;
               dead = filter (zombie_id ts) kids;
               ts = fold orphan_child kids ts
           in (fate_of (t_parent me) ts, dead, ts)))"

definition deliver_exit :: "usize \<Rightarrow> usize \<Rightarrow> u64 \<Rightarrow> kernel_state \<Rightarrow> kernel_state option" where
  "deliver_exit pid tid code k =
     (case find_task pid k of
        None \<Rightarrow> None
      | Some p \<Rightarrow>
          (let k = set_frame (t_saved_rsp p)
                     (\<lambda>f. f\<lparr>tf_rax := E_OK, tf_rdi := tid, tf_rsi := code\<rparr>) k;
               k = upd_task pid (\<lambda>p. p\<lparr>t_state := Ready\<rparr>) k
           in Some (schedule_reap tid (make_ready pid True k))))"

definition terminate_lifecycle :: "usize \<Rightarrow> u64 \<Rightarrow> kernel_state \<Rightarrow> kernel_state option" where
  "terminate_lifecycle tid code k =
     (case die tid code (k_tasks k) of
        (fate, dead, ts) \<Rightarrow>
          (let k = k\<lparr>k_tasks := ts\<rparr>;
               k = fold schedule_reap dead k;
               k = abort_ipc tid k
           in case fate of
                Deliver pid \<Rightarrow> deliver_exit pid tid code k
              | Linger \<Rightarrow> Some k
              | Orphan \<Rightarrow> Some (schedule_reap tid k)))"

definition exit_task :: "usize \<Rightarrow> u64 \<Rightarrow> kernel_state \<Rightarrow> (cpu \<times> kernel_state) option" where
  "exit_task tid code k =
     do {
       k \<leftarrow> terminate_lifecycle tid code k;
       switch_away (set_current None k)
     }"

section \<open>Waiting for input and for children\<close>

definition INPUT_NOHANG :: u64 where [consts_def]: "INPUT_NOHANG = 1"
definition WAIT_NOHANG :: u64 where [consts_def]: "WAIT_NOHANG = 1"

definition sys_input_read :: "usize \<Rightarrow> u64 \<Rightarrow> u64 list \<Rightarrow> kernel_state \<Rightarrow> (cpu \<times> kernel_state) option" where
  "sys_input_read tid frame_ptr a k =
     (let buf = a ! 0; len = min (a ! 1) 512; flags = a ! 2 in
      case find_task tid k of
        None \<Rightarrow> ret frame_ptr E_BAD_ARG k
      | Some t \<Rightarrow>
          if flags AND INPUT_NOHANG \<noteq> 0 then
            (case try_read (t_cr3 t) buf len k of
               (Some n, k) \<Rightarrow> ret frame_ptr n k
             | (None, k) \<Rightarrow> ret frame_ptr E_WOULD_BLOCK k)
          else (case request_read tid (t_cr3 t) buf len k of
               (Served n, k) \<Rightarrow> ret frame_ptr n k
             | (BadArgs, k) \<Rightarrow> ret frame_ptr E_BAD_ARG k
             | (Parked, k) \<Rightarrow> do {
                 k \<leftarrow> with_task tid (\<lambda>t. t\<lparr>t_saved_rsp := frame_ptr, t_state := BlockedInput\<rparr>) k;
                 switch_away (set_current None k)
               }))"

definition sys_wait :: "usize \<Rightarrow> u64 \<Rightarrow> u64 \<Rightarrow> kernel_state \<Rightarrow> (cpu \<times> kernel_state) option" where
  "sys_wait tid frame_ptr flags k =
     (case find (\<lambda>t. t_parent t = Some tid \<and> is_zombie (t_state t)) (k_tasks k) of
        Some z \<Rightarrow> do {
          (code, k) \<leftarrow> reap_zombie (t_id z) k;
          Some (Resume frame_ptr, set_frame frame_ptr
            (\<lambda>f. f\<lparr>tf_rax := E_OK, tf_rdi := t_id z,
                   tf_rsi := (case code of Some c \<Rightarrow> c | None \<Rightarrow> 0)\<rparr>) k)
        }
      | None \<Rightarrow>
          if \<not> list_ex (\<lambda>t. t_parent t = Some tid \<and> \<not> is_zombie (t_state t)) (k_tasks k)
            then ret frame_ptr E_NO_CHILDREN k
          else if flags AND WAIT_NOHANG \<noteq> 0 then ret frame_ptr E_WOULD_BLOCK k
          else do {
            k \<leftarrow> with_task tid (\<lambda>t. t\<lparr>t_saved_rsp := frame_ptr, t_state := BlockedWait\<rparr>) k;
            switch_away (set_current None k)
          })"

section \<open>IPC\<close>

text \<open>\<^verbatim>\<open>t.caps.get(slot as usize)\<close>.\<close>

definition cap_at :: "task \<Rightarrow> u64 \<Rightarrow> cap option option" where
  "cap_at t slot = (if unat slot < length (t_caps t) then Some (t_caps t ! unat slot) else None)"

definition get_endpoint_cap :: "usize \<Rightarrow> u64 \<Rightarrow> u64 \<Rightarrow> kernel_state \<Rightarrow> u64 + u64" where
  "get_endpoint_cap tid slot need k =
     (case find_task tid k of
        None \<Rightarrow> Inl E_CAP_DENIED
      | Some t \<Rightarrow>
          (case cap_at t slot of
             None \<Rightarrow> Inl E_CAP_MISSING
           | Some None \<Rightarrow> Inl E_CAP_MISSING
           | Some (Some (Endpoint ep rights)) \<Rightarrow>
               if rights AND need = need then Inr ep else Inl E_CAP_DENIED
           | Some (Some _) \<Rightarrow> Inl E_CAP_DENIED))"

text \<open>\<^verbatim>\<open>eps[ep_idx]\<close>: out of bounds panics.\<close>

definition get_ep :: "u64 \<Rightarrow> kernel_state \<Rightarrow> endpoint option" where
  "get_ep ep k = (if unat ep < length (k_endpoints k) then Some (k_endpoints k ! unat ep) else None)"

definition set_ep :: "u64 \<Rightarrow> endpoint \<Rightarrow> kernel_state \<Rightarrow> kernel_state" where
  "set_ep ep e k = k\<lparr>k_endpoints := (k_endpoints k)[unat ep := e]\<rparr>"

fun recv_on :: "u64 \<Rightarrow> task_state \<Rightarrow> bool" where
  "recv_on ep (BlockedRecv e _) \<longleftrightarrow> e = ep"
| "recv_on ep _ \<longleftrightarrow> False"

text \<open>A message as the receiver sees it: status, sender, five words.\<close>

definition message_frame :: "usize \<Rightarrow> u64 list \<Rightarrow> trap_frame \<Rightarrow> trap_frame" where
  "message_frame caller msg f =
     f\<lparr>tf_rax := E_OK, tf_rdi := caller, tf_rsi := msg ! 0, tf_rdx := msg ! 1, tf_r10 := msg ! 2,
       tf_r8 := msg ! 3, tf_r9 := msg ! 4\<rparr>"

definition reply_frame :: "u64 list \<Rightarrow> trap_frame \<Rightarrow> trap_frame" where
  "reply_frame reply f =
     f\<lparr>tf_rax := E_OK, tf_rdi := reply ! 0, tf_rsi := reply ! 1, tf_rdx := reply ! 2,
       tf_r10 := reply ! 3, tf_r8 := reply ! 4\<rparr>"

definition ipc_call :: "usize \<Rightarrow> u64 \<Rightarrow> u64 list \<Rightarrow> kernel_state \<Rightarrow> (cpu \<times> kernel_state) option" where
  "ipc_call tid frame_ptr a k =
     (let msg = [a ! 1, a ! 2, a ! 3, a ! 4, a ! 5, 0] in
      case get_endpoint_cap tid (a ! 0) R_WRITE k of
        Inl e \<Rightarrow> ret frame_ptr e k
      | Inr ep \<Rightarrow> do {
          k \<leftarrow> with_task tid (\<lambda>t. t\<lparr>t_saved_rsp := frame_ptr\<rparr>) k;
          e \<leftarrow> get_ep ep k;
          k \<leftarrow> (case find (\<lambda>t. recv_on ep (t_state t)) (k_tasks k) of
                 Some w \<Rightarrow>
                   (let k = set_frame (t_saved_rsp w) (message_frame tid msg) k;
                        k = k\<lparr>k_tasks := update_first (\<lambda>t. recv_on ep (t_state t))
                                            (\<lambda>t. t\<lparr>t_state := Ready\<rparr>) (k_tasks k)\<rparr>;
                        k = make_ready (t_id w) True k;
                        k = set_ep ep (e\<lparr>ep_active_caller := Some tid, ep_active_server := Some (t_id w)\<rparr>) k
                    in with_task tid (\<lambda>t. t\<lparr>t_state := BlockedCall ep\<rparr>) k)
               | None \<Rightarrow>
                   with_task tid (\<lambda>t. t\<lparr>t_state := BlockedSend ep\<rparr>)
                     (set_ep ep (e\<lparr>ep_pending_callers := ep_pending_callers e @ [(tid, msg)]\<rparr>) k));
          switch_away (set_current None k)
        })"

definition ipc_recv :: "usize \<Rightarrow> u64 \<Rightarrow> u64 \<Rightarrow> u64 \<Rightarrow> kernel_state \<Rightarrow> (cpu \<times> kernel_state) option" where
  "ipc_recv tid frame_ptr ep_slot deadline k =
     (case get_endpoint_cap tid ep_slot R_READ k of
        Inl e \<Rightarrow> ret frame_ptr e k
      | Inr ep \<Rightarrow> do {
          e \<leftarrow> get_ep ep k;
          if ep_active_caller e \<noteq> None then ret frame_ptr E_ENDPOINT_BUSY k
          else case ep_pending_callers e of
              (caller, msg) # rest \<Rightarrow>
                (let k = set_ep ep (e\<lparr>ep_pending_callers := rest, ep_active_caller := Some caller,
                                       ep_active_server := Some tid\<rparr>) k;
                     k = upd_task caller (\<lambda>t. t\<lparr>t_state := BlockedCall ep\<rparr>) k
                 in Some (Resume frame_ptr, set_frame frame_ptr (message_frame caller msg) k))
            | [] \<Rightarrow>
                if deadline \<noteq> 0 \<and> deadline \<le> k_ticks k then ret frame_ptr E_TIMEDOUT k
                else do {
                  k \<leftarrow> with_task tid (\<lambda>t. t\<lparr>t_saved_rsp := frame_ptr, t_state := BlockedRecv ep deadline\<rparr>) k;
                  switch_away (set_current None k)
                }
        })"

definition ipc_reply :: "usize \<Rightarrow> u64 \<Rightarrow> u64 list \<Rightarrow> kernel_state \<Rightarrow> (cpu \<times> kernel_state) option" where
  "ipc_reply tid frame_ptr a k =
     (let reply = [a ! 1, a ! 2, a ! 3, a ! 4, a ! 5] in
      case get_endpoint_cap tid (a ! 0) R_WRITE k of
        Inl e \<Rightarrow> ret frame_ptr e k
      | Inr ep \<Rightarrow> do {
          e \<leftarrow> get_ep ep k;
          if ep_active_server e \<noteq> Some tid then ret frame_ptr E_NO_REPLY_WAITING k
          else let k = set_ep ep (e\<lparr>ep_active_server := None, ep_active_caller := None\<rparr>) k
            in case ep_active_caller e of
                 None \<Rightarrow> ret frame_ptr E_NO_REPLY_WAITING k
               | Some cid \<Rightarrow>
                   (case find_task cid k of
                      None \<Rightarrow> None
                    | Some ct \<Rightarrow>
                        ret frame_ptr E_OK
                          (make_ready cid True
                            (upd_task cid (\<lambda>t. t\<lparr>t_state := Ready\<rparr>)
                              (set_frame (t_saved_rsp ct) (reply_frame reply) k))))
        })"

section \<open>Capabilities\<close>

definition derive_for_child :: "usize \<Rightarrow> u64 \<Rightarrow> u64 \<Rightarrow> kernel_state \<Rightarrow> u64 + cap" where
  "derive_for_child tid src_slot msk k =
     (case find_task tid k of
        None \<Rightarrow> Inl E_CAP_MISSING
      | Some t \<Rightarrow>
          (case cap_at t src_slot of
             Some (Some src) \<Rightarrow> derive_child_cap src msk
           | _ \<Rightarrow> Inl E_CAP_MISSING))"

text \<open>\<^verbatim>\<open>spec.chunks_exact(16)\<close>, each chunk a slot and a mask.\<close>

definition spec_pairs :: "bytes \<Rightarrow> (u64 \<times> u64) list" where
  "spec_pairs spec =
     map (\<lambda>i. (from_le (rslice spec (16 * i) (16 * i + 8)), from_le (rslice spec (16 * i + 8) (16 * i + 16))))
       [0..<length spec div 16]"

fun derive_children :: "usize \<Rightarrow> (u64 \<times> u64) list \<Rightarrow> kernel_state \<Rightarrow> u64 + cap list" where
  "derive_children tid [] k = Inr []"
| "derive_children tid ((slot, msk) # ps) k =
     (case derive_for_child tid slot msk k of
        Inl e \<Rightarrow> Inl e
      | Inr c \<Rightarrow> (case derive_children tid ps k of Inl e \<Rightarrow> Inl e | Inr cs' \<Rightarrow> Inr (c # cs')))"

definition MAX_SPAWN_ELF :: u64 where [consts_def]: "MAX_SPAWN_ELF = 2 * 1024 * 1024"

text \<open>The name given to the child is \<^verbatim>\<open>"user"\<close>.\<close>

definition sys_task_spawn :: "u64 \<Rightarrow> usize \<Rightarrow> u64 list \<Rightarrow> kernel_state \<Rightarrow> kernel_state option" where
  "sys_task_spawn frame_ptr tid a k =
     (let elf_ptr = a ! 0; elf_len = a ! 1; spec_ptr = a ! 2; spec_words = a ! 3 in
      if elf_len = 0 \<or> elf_len > MAX_SPAWN_ELF \<or> spec_words mod 2 \<noteq> 0 then Some (set_rax frame_ptr E_BAD_ARG k)
      else if unat (spec_words div 2) > CAP_TABLE_SIZE then Some (set_rax frame_ptr E_BAD_ARG k)
      else case copy_from_user (current_cr3 k) elf_ptr elf_len k of
          None \<Rightarrow> Some (set_rax frame_ptr E_BAD_ARG k)
        | Some elf \<Rightarrow>
            (case (if spec_words > 0 then copy_from_user (current_cr3 k) spec_ptr (spec_words * 8) k else Some []) of
               None \<Rightarrow> Some (set_rax frame_ptr E_BAD_ARG k)
             | Some spec \<Rightarrow>
                 (case derive_children tid (spec_pairs spec) k of
                    Inl e \<Rightarrow> Some (set_rax frame_ptr e k)
                  | Inr child_caps \<Rightarrow> do {
                      r \<leftarrow> spawn_user elf [0x75, 0x73, 0x65, 0x72] child_caps (Some tid) k;
                      Some (case r of
                        (Inr child, k) \<Rightarrow> set_frame frame_ptr (\<lambda>f. f\<lparr>tf_rax := E_OK, tf_rdi := child\<rparr>) k
                      | (Inl _, k) \<Rightarrow> set_rax frame_ptr E_BAD_ARG k)
                    })))"

definition cap_derive_result :: "usize \<Rightarrow> u64 list \<Rightarrow> kernel_state \<Rightarrow> u64 + (nat \<times> cap)" where
  "cap_derive_result tid a k =
     (case find_task tid k of
        None \<Rightarrow> Inl E_CAP_MISSING
      | Some t \<Rightarrow>
          (case cap_at t (a ! 0) of
             Some (Some src) \<Rightarrow>
               (case derive_cap src (a ! 1) (a ! 2) (a ! 3) of
                  Inl e \<Rightarrow> Inl e
                | Inr derived \<Rightarrow>
                    (case free_cap_slot t of
                       Some slot \<Rightarrow> Inr (slot, derived)
                     | None \<Rightarrow> Inl E_CAP_MISSING))
           | _ \<Rightarrow> Inl E_CAP_MISSING))"

definition sys_cap_derive :: "u64 \<Rightarrow> usize \<Rightarrow> u64 list \<Rightarrow> kernel_state \<Rightarrow> kernel_state" where
  "sys_cap_derive frame_ptr tid a k =
     (case cap_derive_result tid a k of
        Inr (slot, derived) \<Rightarrow>
          set_frame frame_ptr (\<lambda>f. f\<lparr>tf_rax := E_OK, tf_rdi := of_nat slot\<rparr>)
            (upd_task tid (\<lambda>t. t\<lparr>t_caps := (t_caps t)[slot := Some derived]\<rparr>) k)
      | Inl e \<Rightarrow> set_frame frame_ptr (\<lambda>f. f\<lparr>tf_rax := e, tf_rdi := 0\<rparr>) k)"

section \<open>Observability and control\<close>

definition sys_set_name :: "u64 \<Rightarrow> usize \<Rightarrow> u64 \<Rightarrow> u64 \<Rightarrow> kernel_state \<Rightarrow> kernel_state" where
  "sys_set_name frame_ptr tid buf len k =
     (case copy_from_user (current_cr3 k) buf (min len 16) k of
        None \<Rightarrow> set_rax frame_ptr E_BAD_ARG k
      | Some bytes' \<Rightarrow>
          set_rax frame_ptr E_OK (upd_task tid (set_name (if utf8_ok bytes' then bytes' else [])) k))"

text \<open>The fields of \<^verbatim>\<open>SysStats\<close> in their C layout, 48 bytes with the trailing padding.\<close>

definition sys_stats_bytes :: "u32 \<Rightarrow> usize \<Rightarrow> kernel_state \<Rightarrow> bytes" where
  "sys_stats_bytes pad tid k =
     to_le 4 (0x41454753 :: u32) @ to_le 4 (100 :: u32) @ to_le 8 (k_ticks k) @
     to_le 8 (fst (frame_stats (mm_fa (k_mm k)))) @ to_le 8 (snd (frame_stats (mm_fa (k_mm k)))) @
     to_le 8 (case find_task tid k of Some t \<Rightarrow> t_pages t | None \<Rightarrow> 0) @
     to_le 4 (of_nat (length (k_tasks k)) :: u32) @ to_le 4 pad"

definition sys_stats :: "u32 \<Rightarrow> u64 \<Rightarrow> usize \<Rightarrow> u64 \<Rightarrow> u64 \<Rightarrow> kernel_state \<Rightarrow> kernel_state" where
  "sys_stats pad frame_ptr tid buf len k =
     (if len < 48 then set_rax frame_ptr E_BAD_ARG k
      else case copy_to_user (current_cr3 k) buf (sys_stats_bytes pad tid k) k of
             (ok, k) \<Rightarrow> set_rax frame_ptr (if ok then E_OK else E_BAD_ARG) k)"

definition sys_sleep :: "usize \<Rightarrow> u64 \<Rightarrow> u64 \<Rightarrow> kernel_state \<Rightarrow> (cpu \<times> kernel_state) option" where
  "sys_sleep tid frame_ptr delta k =
     (if delta = 0 \<or> delta > 0xffffffff then ret frame_ptr E_BAD_ARG k
      else do {
        let until = saturating_add (k_ticks k) delta;
        k \<leftarrow> with_task tid (\<lambda>t. t\<lparr>t_saved_rsp := frame_ptr, t_state := BlockedSleep until\<rparr>) k;
        switch_away (set_current None k)
      })"

definition sys_kill :: "u64 \<Rightarrow> usize \<Rightarrow> u64 \<Rightarrow> kernel_state \<Rightarrow> (cpu \<times> kernel_state) option" where
  "sys_kill frame_ptr tid victim k =
     (if victim = tid then ret frame_ptr E_BAD_ARG k
      else if \<not> list_ex (\<lambda>t. t_id t = victim \<and> t_parent t = Some tid) (k_tasks k)
        then ret frame_ptr E_CAP_DENIED k
      else terminate_lifecycle victim 0x200 k \<bind> ret frame_ptr E_OK)"

section \<open>Block I/O\<close>

definition check_block_cap :: "usize \<Rightarrow> u64 \<Rightarrow> u64 \<Rightarrow> u64 \<Rightarrow> u64 \<Rightarrow> u64 \<Rightarrow> kernel_state \<Rightarrow> u64 + unit" where
  "check_block_cap tid slot disk lba count need k =
     (let s = (case find_task tid k of
                 None \<Rightarrow> E_CAP_MISSING
               | Some t \<Rightarrow>
                   (case cap_at t slot of
                      None \<Rightarrow> E_CAP_MISSING
                    | Some None \<Rightarrow> E_CAP_MISSING
                    | Some (Some (Block d _ lbas rights)) \<Rightarrow>
                        (case checked_add lba count of
                           None \<Rightarrow> E_BAD_ARG
                         | Some end' \<Rightarrow>
                             if \<not> (d = disk \<and> end' \<le> lbas) then E_CAP_DENIED
                             else if rights AND need \<noteq> need then E_CAP_DENIED
                             else E_OK)
                    | Some (Some _) \<Rightarrow> E_CAP_DENIED))
      in if s = E_OK then Inr () else Inl s)"

definition MAX_BLOCK_SECTORS :: u16 where [consts_def]: "MAX_BLOCK_SECTORS = 8"

text \<open>The capability a block call names: disk and base, or the errno for its absence.\<close>

definition locate_block_cap :: "usize \<Rightarrow> u64 \<Rightarrow> kernel_state \<Rightarrow> u64 + u64 \<times> u64" where
  "locate_block_cap tid slot k =
     (case find_task tid k of
        None \<Rightarrow> Inl E_CAP_MISSING
      | Some t \<Rightarrow>
          (case cap_at t slot of
             None \<Rightarrow> Inl E_CAP_MISSING
           | Some (Some (Block disk lba_start _ _)) \<Rightarrow> Inr (disk, lba_start)
           | Some _ \<Rightarrow> Inl E_CAP_DENIED))"

definition block_io :: "hw \<Rightarrow> u64 \<Rightarrow> usize \<Rightarrow> u64 list \<Rightarrow> bool \<Rightarrow> kernel_state \<Rightarrow> (cpu \<times> kernel_state) option" where
  "block_io h frame_ptr tid a write k =
     (let slot = a ! 0; rel_lba = a ! 1; count = (ucast (a ! 2) :: u16); buf = a ! 3 in
      if count = 0 \<or> count > MAX_BLOCK_SECTORS then ret frame_ptr E_BAD_ARG k
      else let bytes' = unat count * 512 in
        case locate_block_cap tid slot k of
          Inl e \<Rightarrow> ret frame_ptr e k
        | Inr (disk, cap_base) \<Rightarrow>
            (case check_block_cap tid slot disk rel_lba (ucast count) (if write then R_WRITE else R_READ) k of
               Inl e \<Rightarrow> ret frame_ptr e k
             | Inr _ \<Rightarrow>
                 (case checked_add cap_base rel_lba of
                    None \<Rightarrow> ret frame_ptr E_BAD_ARG k
                  | Some lba \<Rightarrow>
                      if write then
                        (if \<not> user_range_valid buf (of_nat bytes') then ret frame_ptr E_BAD_ARG k
                         else case copy_from_user (current_cr3 k) buf (of_nat bytes') k of
                             None \<Rightarrow> ret frame_ptr E_BAD_ARG k
                           | Some data \<Rightarrow>
                               (case write_sectors h disk lba count data k of
                                  (None, k) \<Rightarrow> ret frame_ptr E_OK k
                                | (Some _, k) \<Rightarrow> ret frame_ptr E_BAD_ARG k))
                      else
                        (case read_sectors h disk lba count bytes' k of
                           Inl _ \<Rightarrow> ret frame_ptr E_BAD_ARG k
                         | Inr data \<Rightarrow>
                             (case copy_to_user (current_cr3 k) buf data k of
                                (ok, k) \<Rightarrow> ret frame_ptr (if ok then E_OK else E_BAD_ARG) k)))))"

section \<open>Dispatch\<close>

definition args_of :: "trap_frame \<Rightarrow> u64 list" where
  "args_of f = [tf_rdi f, tf_rsi f, tf_rdx f, tf_r10 f, tf_r8 f, tf_r9 f]"

text \<open>A handler that changes registers and state but returns to its caller.\<close>

definition stay :: "u64 \<Rightarrow> kernel_state \<Rightarrow> (cpu \<times> kernel_state) option" where
  "stay frame_ptr k = Some (Resume frame_ptr, k)"

definition dispatch :: "env \<Rightarrow> u64 \<Rightarrow> kernel_state \<Rightarrow> (cpu \<times> kernel_state) option" where
  "dispatch env frame_ptr k =
     (case k_current k of
        None \<Rightarrow> stay frame_ptr k
      | Some tid \<Rightarrow>
          (let frame = k_frames k frame_ptr; num = tf_rax frame; a = args_of frame in
           if num = 1 then yield_task tid frame_ptr k
           else if num = 2 then exit_task tid (a ! 0) k
           else if num = 3 then stay frame_ptr (sys_debug_write frame_ptr tid (a ! 0) (a ! 1) (a ! 2) k)
           else if num = 4 then ipc_call tid frame_ptr a k
           else if num = 5 then ipc_recv tid frame_ptr (a ! 0) (a ! 1) k
           else if num = 6 then ipc_reply tid frame_ptr a k
           else if num = 7 then stay frame_ptr (sys_cap_derive frame_ptr tid a k)
           else if num = 8 then sys_task_spawn frame_ptr tid a k \<bind> stay frame_ptr
           else if num = 9 then sys_wait tid frame_ptr (a ! 0) k
           else if num = 10 then sys_input_read tid frame_ptr a k
           else if num = 11 then ret frame_ptr (k_ticks k) k
           else if num = 12 then stay frame_ptr (sys_set_name frame_ptr tid (a ! 0) (a ! 1) k)
           else if num = 13 then stay frame_ptr (sys_stats (env_pad env) frame_ptr tid (a ! 0) (a ! 1) k)
           else if num = 14 then Some (Reboot, k)
           else if num = 15 then sys_sleep tid frame_ptr (a ! 0) k
           else if num = 16 then sys_kill frame_ptr tid (a ! 0) k
           else if num = 17 then block_io (env_hw env) frame_ptr tid a False k
           else if num = 18 then block_io (env_hw env) frame_ptr tid a True k
           else ret frame_ptr 0xffffffffffffffff k))"

definition handle_user_fault :: "u64 \<Rightarrow> u64 \<Rightarrow> kernel_state \<Rightarrow> (cpu \<times> kernel_state) option" where
  "handle_user_fault frame_ptr vector k =
     (if tf_cs (k_frames k frame_ptr) AND 3 \<noteq> 3 then Some (Halt, k)
      else case k_current k of
          None \<Rightarrow> Some (Halt, k)
        | Some tid \<Rightarrow> exit_task tid (0x100 + vector) k)"

definition VECTOR_TIMER :: u64 where [consts_def]: "VECTOR_TIMER = 32"
definition VECTOR_SYSCALL :: u64 where [consts_def]: "VECTOR_SYSCALL = 0x80"

definition handle_trap :: "env \<Rightarrow> u64 \<Rightarrow> u64 \<Rightarrow> kernel_state \<Rightarrow> (cpu \<times> kernel_state) option" where
  "handle_trap env frame_ptr vector k =
     do {
       k \<leftarrow> drain_reaper k;
       if vector = VECTOR_TIMER then timer_trap frame_ptr k
       else if vector = VECTOR_SYSCALL then dispatch env frame_ptr k
       else stay frame_ptr k
     }"

end
