(* ===== verification/Kernel_Inv.thy ===== *)
theory Kernel_Inv
  imports Syscall
begin

text \<open>
  The invariant of the kernel's tables and the lemmas that carry it through the primitive
  changes the handlers are made of. The task table and the endpoint table are viewed as
  maps. \<open>core\<close> is what holds at every point of a handler, up to one task that has been
  taken from the ready queue but does not run yet (\<open>picked\<close>); \<open>at_rest\<close> is what holds
  whenever a handler starts or ends.
\<close>

section \<open>The task table as a map\<close>

definition tmap :: "task list \<Rightarrow> usize \<Rightarrow> task option" where
  "tmap ts tid = find (\<lambda>t. t_id t = tid) ts"

lemma find_task_tmap: "find_task tid k = tmap (k_tasks k) tid"
  by (simp add: find_task_def tmap_def)

lemma tmap_id: "tmap ts tid = Some t \<Longrightarrow> t_id t = tid"
  by (auto simp: tmap_def dest: find_SomeD)

lemma tmap_Cons: "tmap (t # ts) tid = (if t_id t = tid then Some t else tmap ts tid)"
  by (simp add: tmap_def)

lemma tmap_Nil [simp]: "tmap [] = Map.empty"
  by (simp add: tmap_def fun_eq_iff)

lemma tmap_None: "tmap ts tid = None \<longleftrightarrow> tid \<notin> t_id ` set ts"
  by (auto simp: tmap_def find_None_iff)

lemma tmap_mem: "distinct (map t_id ts) \<Longrightarrow> tmap ts tid = Some t \<longleftrightarrow> t \<in> set ts \<and> t_id t = tid"
  by (induction ts) (auto simp: tmap_Cons)

lemma tmap_update [simp]:
  assumes "\<And>t. t_id (f t) = t_id t"
  shows "tmap (update_first (\<lambda>t. t_id t = tid) f ts) = (tmap ts)(tid := map_option f (tmap ts tid))"
proof
  fix x show "tmap (update_first (\<lambda>t. t_id t = tid) f ts) x = ((tmap ts)(tid := map_option f (tmap ts tid))) x"
    by (induction ts) (auto simp: tmap_Cons assms)
qed

text \<open>An update of the first task with some property is an update at its id.\<close>

lemma update_first_at:
  assumes "distinct (map t_id ts)" and "find p ts = Some w"
  shows "update_first p f ts = update_first (\<lambda>t. t_id t = t_id w) f ts"
  using assms
proof (induction ts)
  case (Cons t ts)
  have "t_id w \<noteq> t_id t" if "\<not> p t"
  proof -
    have "t_id w \<in> t_id ` set ts" using Cons.prems(2) that find_SomeD [of p ts w] by auto
    with Cons.prems(1) show ?thesis by auto
  qed
  with Cons show ?case by (auto split: if_splits)
qed simp

lemma tmap_filter [simp]: "tmap (filter (\<lambda>t. t_id t \<noteq> tid) ts) = (tmap ts)(tid := None)"
proof
  fix x show "tmap (filter (\<lambda>t. t_id t \<noteq> tid) ts) x = ((tmap ts)(tid := None)) x"
    by (induction ts) (auto simp: tmap_Cons)
qed

lemma tmap_append: "tmap (ts @ [t]) = (\<lambda>tid. case tmap ts tid of None \<Rightarrow> (if t_id t = tid then Some t else None) | s \<Rightarrow> s)"
proof
  fix x show "tmap (ts @ [t]) x = (case tmap ts x of None \<Rightarrow> (if t_id t = x then Some t else None) | s \<Rightarrow> s)"
    by (induction ts) (auto simp: tmap_Cons split: option.splits)
qed

lemma tmap_snoc: "t_id t \<notin> t_id ` set ts \<Longrightarrow> tmap (ts @ [t]) = (tmap ts)(t_id t \<mapsto> t)"
  by (auto simp: tmap_append fun_eq_iff tmap_None [symmetric] split: option.splits)

lemma find_tmap:
  assumes "distinct (map t_id ts)"
  shows "find p ts = Some w \<Longrightarrow> tmap ts (t_id w) = Some w \<and> p w"
    and "find p ts = None \<Longrightarrow> tmap ts x = Some t \<Longrightarrow> \<not> p t"
  using assms by (auto simp: tmap_mem find_None_iff dest: find_SomeD)

lemma list_ex_tmap:
  "distinct (map t_id ts) \<Longrightarrow> list_ex p ts \<longleftrightarrow> (\<exists>tid t. tmap ts tid = Some t \<and> p t)"
  by (auto simp: list_ex_iff tmap_mem)

lemma is_ready_tmap:
  "distinct (map t_id (k_tasks k)) \<Longrightarrow>
   is_ready k tid \<longleftrightarrow> (\<exists>t. tmap (k_tasks k) tid = Some t \<and> t_state t = Ready)"
  by (auto simp: is_ready_def list_ex_tmap dest: tmap_id)

lemma remove_first_tmap:
  assumes "distinct (map t_id ts)"
  shows "remove_first (\<lambda>t. t_id t = tid) ts = filter (\<lambda>t. t_id t \<noteq> tid) ts"
  using assms
proof (induction ts)
  case Nil
  then show ?case by (simp add: remove_first_def)
next
  case (Cons t ts)
  show ?case
  proof (cases "t_id t = tid")
    case True
    then have "filter (\<lambda>t. t_id t \<noteq> tid) ts = ts"
      using Cons.prems True by (auto simp: filter_id_conv image_iff)
    with True show ?thesis by (simp add: remove_first_def)
  next
    case False
    then have "remove_first (\<lambda>t. t_id t = tid) (t # ts) = t # remove_first (\<lambda>t. t_id t = tid) ts"
      by (auto simp: remove_first_def split: option.splits)
    with Cons False show ?thesis by simp
  qed
qed

definition emap :: "endpoint list \<Rightarrow> u64 \<Rightarrow> endpoint option" where
  "emap eps ep = (if unat ep < length eps then Some (eps ! unat ep) else None)"

lemma get_ep_emap: "get_ep ep k = emap (k_endpoints k) ep"
  by (simp add: get_ep_def emap_def)

lemma emap_update [simp]:
  "emap eps ep = Some e0 \<Longrightarrow> emap (eps[unat ep := e]) = (emap eps)(ep \<mapsto> e)"
  by (auto simp: emap_def fun_eq_iff nth_list_update word_unat_eq_iff)

section \<open>The invariant\<close>

definition queue_ok :: "usize option \<Rightarrow> (usize \<rightharpoonup> task) \<Rightarrow> usize list \<Rightarrow> bool" where
  "queue_ok picked tm q \<longleftrightarrow>
     (\<forall>tid t. tm tid = Some t \<longrightarrow> \<not> is_zombie (t_state t) \<longrightarrow>
        count_list q tid = (if t_state t = Ready \<and> picked \<noteq> Some tid then 1 else 0))"

definition ep_ok :: "(usize \<rightharpoonup> task) \<Rightarrow> u64 \<Rightarrow> endpoint \<Rightarrow> bool" where
  "ep_ok tm ep e \<longleftrightarrow>
     (ep_active_caller e = None \<longleftrightarrow> ep_active_server e = None) \<and>
     (\<forall>c. ep_active_caller e = Some c \<longrightarrow> (\<exists>t. tm c = Some t \<and> t_state t = BlockedCall ep)) \<and>
     (\<forall>s. ep_active_server e = Some s \<longrightarrow> (\<exists>t. tm s = Some t \<and> \<not> is_zombie (t_state t))) \<and>
     distinct (map fst (ep_pending_callers e)) \<and>
     (\<forall>(c, m) \<in> set (ep_pending_callers e).
        length m = 6 \<and> (\<exists>t. tm c = Some t \<and> t_state t = BlockedSend ep))"

definition task_ipc_ok :: "(u64 \<rightharpoonup> endpoint) \<Rightarrow> usize \<Rightarrow> task_state \<Rightarrow> bool" where
  "task_ipc_ok em tid s \<longleftrightarrow>
     (case s of
        BlockedSend ep \<Rightarrow> (\<exists>e. em ep = Some e \<and> tid \<in> fst ` set (ep_pending_callers e))
      | BlockedCall ep \<Rightarrow> em ep \<noteq> None
      | BlockedRecv ep _ \<Rightarrow> (\<exists>e. em ep = Some e \<and> ep_pending_callers e = [])
      | _ \<Rightarrow> True)"

definition ipc_ok :: "(usize \<rightharpoonup> task) \<Rightarrow> (u64 \<rightharpoonup> endpoint) \<Rightarrow> bool" where
  "ipc_ok tm em \<longleftrightarrow>
     (\<forall>ep e. em ep = Some e \<longrightarrow> ep_ok tm ep e) \<and>
     (\<forall>tid t. tm tid = Some t \<longrightarrow> task_ipc_ok em tid (t_state t))"

definition fam_ok :: "(usize \<rightharpoonup> task) \<Rightarrow> bool" where
  "fam_ok tm \<longleftrightarrow>
     (\<forall>tid t p. tm tid = Some t \<longrightarrow> t_parent t = Some p \<longrightarrow>
        p \<noteq> tid \<and> (\<exists>pt. tm p = Some pt \<and> \<not> is_zombie (t_state pt))) \<and>
     (\<forall>tid t. tm tid = Some t \<longrightarrow> is_zombie (t_state t) \<longrightarrow> t_parent t \<noteq> None) \<and>
     (\<forall>tid t. tm tid = Some t \<longrightarrow> t_state t = BlockedWait \<longrightarrow>
        (\<exists>c ct. tm c = Some ct \<and> t_parent ct = Some tid \<and> \<not> is_zombie (t_state ct)) \<and>
        (\<forall>c ct. tm c = Some ct \<longrightarrow> t_parent ct = Some tid \<longrightarrow> \<not> is_zombie (t_state ct)))"

definition input_ok :: "(usize \<rightharpoonup> task) \<Rightarrow> waiter list \<Rightarrow> bool" where
  "input_ok tm ws \<longleftrightarrow>
     distinct (map w_tid ws) \<and>
     (\<forall>w \<in> set ws. user_range_valid (w_buf w) (w_len w) \<and>
        (\<forall>t. tm (w_tid w) = Some t \<longrightarrow>
           t_cr3 t = w_cr3 w \<and> (is_zombie (t_state t) \<or> t_state t = BlockedInput))) \<and>
     (\<forall>tid t. tm tid = Some t \<longrightarrow> t_state t = BlockedInput \<longrightarrow> tid \<in> w_tid ` set ws)"

definition run_ok :: "(usize \<rightharpoonup> task) \<Rightarrow> usize option \<Rightarrow> bool" where
  "run_ok tm cur \<longleftrightarrow>
     (\<forall>tid t. tm tid = Some t \<longrightarrow> (t_state t = Running \<longleftrightarrow> cur = Some tid)) \<and>
     (\<forall>c. cur = Some c \<longrightarrow> tm c \<noteq> None)"

definition cap_ok :: "(u64 \<rightharpoonup> endpoint) \<Rightarrow> cap \<Rightarrow> bool" where
  "cap_ok em c \<longleftrightarrow> (case c of Endpoint ep _ \<Rightarrow> em ep \<noteq> None | _ \<Rightarrow> True)"

definition caps_ok :: "(usize \<rightharpoonup> task) \<Rightarrow> (u64 \<rightharpoonup> endpoint) \<Rightarrow> bool" where
  "caps_ok tm em \<longleftrightarrow>
     (\<forall>tid t. tm tid = Some t \<longrightarrow>
        length (t_caps t) = CAP_TABLE_SIZE \<and> (\<forall>c. Some c \<in> set (t_caps t) \<longrightarrow> cap_ok em c))"

definition kstack_top :: "usize \<Rightarrow> u64" where
  "kstack_top slot = KSTACK_REGION_BASE + slot * KSTACK_SLOT_BYTES + KSTACK_GUARD_PAGES * 4096 + KSTACK_PAGES * 4096"

definition stack_ok :: "(usize \<rightharpoonup> task) \<Rightarrow> usize \<Rightarrow> bool" where
  "stack_ok tm next_slot \<longleftrightarrow>
     (\<forall>tid t. tm tid = Some t \<longrightarrow>
        t_saved_rsp t = t_kstack_top t - FRAME_BYTES \<and>
        (\<exists>s. 0 < s \<and> s < next_slot \<and> s < 4096 \<and> t_kstack_top t = kstack_top s)) \<and>
     (\<forall>tid tid' t t'. tm tid = Some t \<longrightarrow> tm tid' = Some t' \<longrightarrow>
        t_kstack_top t = t_kstack_top t' \<longrightarrow> tid = tid')"

definition ids_ok :: "kernel_state \<Rightarrow> bool" where
  "ids_ok k \<longleftrightarrow>
     distinct (map t_id (k_tasks k)) \<and>
     (\<forall>tid \<in> t_id ` set (k_tasks k) \<union> set (k_ready k) \<union> w_tid ` set (in_waiters (k_input k)).
        tid < k_next_tid k) \<and>
     0 < k_next_tid k \<and> k_next_tid k \<le> k_next_kslot k \<and> k_next_tid k \<le> 4096 \<and> length (k_endpoints k) < 2 ^ 64"

lemma ids_ok_frame [simp]:
  "ids_ok (k\<lparr>k_mm := m\<rparr>) = ids_ok k" "ids_ok (k\<lparr>k_rsp0 := r\<rparr>) = ids_ok k"
  "ids_ok (k\<lparr>k_current := c\<rparr>) = ids_ok k" "ids_ok (k\<lparr>k_frames := fs\<rparr>) = ids_ok k"
  "ids_ok (k\<lparr>k_out := out\<rparr>) = ids_ok k" "ids_ok (k\<lparr>k_ticks := n\<rparr>) = ids_ok k"
  "ids_ok (k\<lparr>k_since_switch := n\<rparr>) = ids_ok k"
  "ids_ok (k\<lparr>k_reap := rq\<rparr>) = ids_ok k" "ids_ok (k\<lparr>k_primary := d\<rparr>) = ids_ok k"
  "ids_ok (k\<lparr>k_secondary := d\<rparr>) = ids_ok k"
  by (simp_all add: ids_ok_def)

definition core :: "usize option \<Rightarrow> (usize \<rightharpoonup> task) \<Rightarrow> usize list \<Rightarrow> (u64 \<rightharpoonup> endpoint) \<Rightarrow> waiter list \<Rightarrow> usize \<Rightarrow> bool" where
  "core picked tm q em ws slots \<longleftrightarrow>
     queue_ok picked tm q \<and> ipc_ok tm em \<and> fam_ok tm \<and> input_ok tm ws \<and> caps_ok tm em \<and> stack_ok tm slots"

abbreviation core_ok :: "usize option \<Rightarrow> kernel_state \<Rightarrow> bool" where
  "core_ok picked k \<equiv>
     core picked (tmap (k_tasks k)) (k_ready k) (emap (k_endpoints k)) (in_waiters (k_input k)) (k_next_kslot k)"

text \<open>Traps from ring 3 land on the running task's kernel stack; without one, on the idle stack.\<close>

definition rsp0_ok :: "(usize \<rightharpoonup> task) \<Rightarrow> usize option \<Rightarrow> u64 \<Rightarrow> bool" where
  "rsp0_ok tm cur rsp0 \<longleftrightarrow>
     (cur = None \<longrightarrow> rsp0 = idle_stack_top) \<and>
     (\<forall>c t. cur = Some c \<longrightarrow> tm c = Some t \<longrightarrow> rsp0 = t_kstack_top t)"

definition at_rest :: "kernel_state \<Rightarrow> bool" where
  "at_rest k \<longleftrightarrow>
     ids_ok k \<and> core_ok None k \<and> run_ok (tmap (k_tasks k)) (k_current k) \<and>
     rsp0_ok (tmap (k_tasks k)) (k_current k) (k_rsp0 k)"

section \<open>One task changes\<close>

text \<open>\<open>t'\<close> differs from \<open>t\<close> at most in its state, its capabilities and its name.\<close>

definition same_place :: "task \<Rightarrow> task \<Rightarrow> bool" where
  "same_place t t' \<longleftrightarrow> t_id t' = t_id t \<and> t_cr3 t' = t_cr3 t \<and> t_kstack_top t' = t_kstack_top t \<and>
     t_saved_rsp t' = t_saved_rsp t \<and> t_parent t' = t_parent t"

text \<open>States that some other record refers to: a queue of callers, a reply slot, a reader.\<close>

fun referenced :: "task_state \<Rightarrow> bool" where
  "referenced (BlockedSend _) = True"
| "referenced (BlockedCall _) = True"
| "referenced BlockedInput = True"
| "referenced (Zombie _) = True"
| "referenced _ = False"

lemma not_referenced [simp]: "\<not> referenced s \<Longrightarrow> \<not> is_zombie s"
  by (cases s) auto

lemma ipc_ok_upd:
  assumes "ipc_ok tm em" and "tm tid = Some t" and "\<not> referenced (t_state t)"
    and "\<not> is_zombie (t_state t')" and "task_ipc_ok em tid (t_state t')"
  shows "ipc_ok (tm(tid \<mapsto> t')) em"
proof -
  have "ep_ok (tm(tid \<mapsto> t')) ep e" if "em ep = Some e" for ep e
  proof -
    have "ep_ok tm ep e" using assms(1) that by (simp add: ipc_ok_def)
    with assms(2-4) show ?thesis by (fastforce simp: ep_ok_def)
  qed
  with assms(1,5) show ?thesis by (simp add: ipc_ok_def)
qed

lemma fam_ok_upd:
  assumes "fam_ok tm" and "tm tid = Some t" and "t_parent t' = t_parent t"
    and "\<not> is_zombie (t_state t)" and "\<not> is_zombie (t_state t')"
    and "t_state t' = BlockedWait \<Longrightarrow>
      (\<exists>c ct. tm c = Some ct \<and> t_parent ct = Some tid \<and> \<not> is_zombie (t_state ct)) \<and>
      (\<forall>c ct. tm c = Some ct \<longrightarrow> t_parent ct = Some tid \<longrightarrow> \<not> is_zombie (t_state ct))"
  shows "fam_ok (tm(tid \<mapsto> t'))"
proof -
  have A: "p \<noteq> x \<and> (\<exists>pt. (tm(tid \<mapsto> t')) p = Some pt \<and> \<not> is_zombie (t_state pt))"
    if "(tm(tid \<mapsto> t')) x = Some u" "t_parent u = Some p" for x u p
    using assms that unfolding fam_ok_def by (auto split: if_splits)
  have B: "t_parent u \<noteq> None" if "(tm(tid \<mapsto> t')) x = Some u" "is_zombie (t_state u)" for x u
    using assms that unfolding fam_ok_def by (auto split: if_splits)
  have kids: "(\<exists>c ct. (tm(tid \<mapsto> t')) c = Some ct \<and> t_parent ct = Some x \<and> \<not> is_zombie (t_state ct)) \<and>
        (\<forall>c ct. (tm(tid \<mapsto> t')) c = Some ct \<longrightarrow> t_parent ct = Some x \<longrightarrow> \<not> is_zombie (t_state ct))"
    if "(\<exists>c ct. tm c = Some ct \<and> t_parent ct = Some x \<and> \<not> is_zombie (t_state ct))"
      "(\<forall>c ct. tm c = Some ct \<longrightarrow> t_parent ct = Some x \<longrightarrow> \<not> is_zombie (t_state ct))" for x
    using that assms(2,3,5) by (auto split: if_splits) (metis option.inject)
  have C: "(\<exists>c ct. (tm(tid \<mapsto> t')) c = Some ct \<and> t_parent ct = Some x \<and> \<not> is_zombie (t_state ct)) \<and>
        (\<forall>c ct. (tm(tid \<mapsto> t')) c = Some ct \<longrightarrow> t_parent ct = Some x \<longrightarrow> \<not> is_zombie (t_state ct))"
    if "(tm(tid \<mapsto> t')) x = Some u" "t_state u = BlockedWait" for x u
  proof (cases "x = tid")
    case True
    with that assms(6) show ?thesis by (intro kids) auto
  next
    case False
    with that assms(1) show ?thesis by (intro kids) (auto simp: fam_ok_def)
  qed
  from A B C show ?thesis unfolding fam_ok_def by blast
qed

lemma input_ok_upd:
  assumes "input_ok tm ws" and "tm tid = Some t" and "\<not> referenced (t_state t)"
    and "t_state t' \<noteq> BlockedInput"
  shows "input_ok (tm(tid \<mapsto> t')) ws"
  using assms unfolding input_ok_def by (cases "t_state t") (auto split: if_splits)

lemma caps_ok_upd:
  "caps_ok tm em \<Longrightarrow> tm tid = Some t \<Longrightarrow> t_caps t' = t_caps t \<Longrightarrow> caps_ok (tm(tid \<mapsto> t')) em"
  by (simp add: caps_ok_def)

lemma stack_ok_upd:
  assumes "stack_ok tm slots" and "tm tid = Some t"
    and "t_kstack_top t' = t_kstack_top t" and "t_saved_rsp t' = t_saved_rsp t"
  shows "stack_ok (tm(tid \<mapsto> t')) slots"
  using assms unfolding stack_ok_def by (auto split: if_splits)

lemma queue_ok_upd:
  assumes "queue_ok picked tm q" and "tm tid = Some t"
    and "\<And>x. x \<noteq> tid \<Longrightarrow> count_list q' x = count_list q x"
    and "\<And>x. x \<noteq> tid \<Longrightarrow> (picked' = Some x) = (picked = Some x)"
    and "\<not> is_zombie (t_state t') \<Longrightarrow>
      count_list q' tid = (if t_state t' = Ready \<and> picked' \<noteq> Some tid then 1 else 0)"
  shows "queue_ok picked' (tm(tid \<mapsto> t')) q'"
  using assms unfolding queue_ok_def by (auto split: if_splits)

text \<open>The general change of state of a task nobody else refers to.\<close>

lemma core_upd:
  assumes "core picked tm q em ws slots" and "tm tid = Some t" and "same_place t t'"
    and "caps_ok (tm(tid \<mapsto> t')) em" and "\<not> referenced (t_state t)" and "\<not> is_zombie (t_state t')" and "t_state t' \<noteq> BlockedInput"
    and "task_ipc_ok em tid (t_state t')"
    and "t_state t' = BlockedWait \<Longrightarrow>
      (\<exists>c ct. tm c = Some ct \<and> t_parent ct = Some tid \<and> \<not> is_zombie (t_state ct)) \<and>
      (\<forall>c ct. tm c = Some ct \<longrightarrow> t_parent ct = Some tid \<longrightarrow> \<not> is_zombie (t_state ct))"
    and "\<And>x. x \<noteq> tid \<Longrightarrow> count_list q' x = count_list q x"
    and "\<And>x. x \<noteq> tid \<Longrightarrow> (picked' = Some x) = (picked = Some x)"
    and "count_list q' tid = (if t_state t' = Ready \<and> picked' \<noteq> Some tid then 1 else 0)"
  shows "core picked' (tm(tid \<mapsto> t')) q' em ws slots"
proof -
  from assms(1) have c: "queue_ok picked tm q" "ipc_ok tm em" "fam_ok tm" "input_ok tm ws" "stack_ok tm slots"
    by (auto simp: core_def)
  from assms(3) have s: "t_parent t' = t_parent t" "t_kstack_top t' = t_kstack_top t"
    "t_saved_rsp t' = t_saved_rsp t" by (auto simp: same_place_def)
  have z: "\<not> is_zombie (t_state t)" using assms(5) by simp
  show ?thesis
    unfolding core_def
    using queue_ok_upd [OF c(1) assms(2,10,11)] assms(12)
      ipc_ok_upd [OF c(2) assms(2,5,6,8)] fam_ok_upd [OF c(3) assms(2) s(1) z assms(6,9)]
      input_ok_upd [OF c(4) assms(2,5,7)] assms(4)
      stack_ok_upd [OF c(5) assms(2) s(2,3)] by blast
qed

lemma core_caps: "core picked tm q em ws slots \<Longrightarrow> tm tid = Some t \<Longrightarrow> t_caps t' = t_caps t \<Longrightarrow>
    caps_ok (tm(tid \<mapsto> t')) em"
  by (auto simp: core_def intro: caps_ok_upd)

section \<open>Choosing and switching\<close>

lemma pick_loop_Some:
  "pick_loop ok ex q sk = (Some n, q') \<Longrightarrow>
   Some n \<noteq> ex \<and> ok n \<and> n \<in> set q \<and>
   (\<forall>x. count_list q' x = count_list q x + count_list sk x - (if x = n then 1 else 0))"
proof (induction q arbitrary: sk)
  case (Cons a q)
  show ?case
  proof (cases "Some a \<noteq> ex \<and> ok a")
    case True
    with Cons.prems show ?thesis by auto
  next
    case False
    with Cons.prems have "pick_loop ok ex q (sk @ [a]) = (Some n, q')" by auto
    from Cons.IH [OF this] show ?thesis by auto
  qed
qed simp

lemma pick_loop_None:
  "pick_loop ok ex q sk = (None, q') \<Longrightarrow> q' = [] \<and> (\<forall>x \<in> set q. Some x = ex \<or> \<not> ok x)"
  by (induction q arbitrary: sk) (auto split: if_splits)

lemma count_list_pos: "0 < count_list q x \<longleftrightarrow> x \<in> set q"
  by (induction q) auto

lemma queue_ok_pick:
  assumes "queue_ok None tm q" and "tm n = Some t" and "t_state t = Ready"
    and "\<And>x. count_list q' x = count_list q x - (if x = n then 1 else 0)"
  shows "queue_ok (Some n) tm q'"
  using assms unfolding queue_ok_def by auto

lemma pick_next_Some:
  assumes "pick_next ex k = (Some n, k')" and "ids_ok k" and "core_ok None k"
  shows "\<exists>q t. k' = k\<lparr>k_ready := q\<rparr> \<and> Some n \<noteq> ex \<and> tmap (k_tasks k) n = Some t \<and> t_state t = Ready \<and>
    ids_ok k' \<and> core_ok (Some n) k'"
proof -
  obtain q where q: "pick_loop (is_ready k) ex (k_ready k) [] = (Some n, q)" "k' = k\<lparr>k_ready := q\<rparr>"
    using assms(1) by (auto simp: pick_next_def split: prod.splits)
  have d: "distinct (map t_id (k_tasks k))" using assms(2) by (simp add: ids_ok_def)
  note p = pick_loop_Some [OF q(1)]
  then obtain t where t: "tmap (k_tasks k) n = Some t" "t_state t = Ready"
    by (auto simp: is_ready_tmap [OF d])
  have "set q \<subseteq> set (k_ready k)"
  proof
    fix x assume "x \<in> set q"
    then have "0 < count_list q x" by (simp add: count_list_pos)
    then have "0 < count_list (k_ready k) x" using p by (auto split: if_splits)
    then show "x \<in> set (k_ready k)" by (simp add: count_list_pos)
  qed
  then have "ids_ok k'" using assms(2) by (auto simp: q(2) ids_ok_def)
  moreover have "core_ok (Some n) k'"
    using assms(3) queue_ok_pick [where tm = "tmap (k_tasks k)" and n = n and q' = q and q = "k_ready k", OF _ t] p
    by (simp add: core_def q(2))
  ultimately show ?thesis using q(2) p t by blast
qed

lemma pick_next_None:
  assumes "pick_next ex k = (None, k')" and "ids_ok k" and "core_ok None k"
    and "\<And>c t. ex = Some c \<Longrightarrow> tmap (k_tasks k) c = Some t \<Longrightarrow> t_state t \<noteq> Ready"
  shows "k' = k\<lparr>k_ready := []\<rparr> \<and> ids_ok k' \<and> core_ok None k' \<and>
    (\<forall>tid t. tmap (k_tasks k) tid = Some t \<longrightarrow> t_state t \<noteq> Ready)"
proof -
  obtain q where q: "pick_loop (is_ready k) ex (k_ready k) [] = (None, q)" "k' = k\<lparr>k_ready := q\<rparr>"
    using assms(1) by (auto simp: pick_next_def split: prod.splits)
  have d: "distinct (map t_id (k_tasks k))" using assms(2) by (simp add: ids_ok_def)
  note p = pick_loop_None [OF q(1)]
  have nr: "t_state t \<noteq> Ready" if t: "tmap (k_tasks k) tid = Some t" for tid t
  proof
    assume r: "t_state t = Ready"
    then have "count_list (k_ready k) tid = 1"
      using assms(3) t by (auto simp: core_def queue_ok_def)
    then have "tid \<in> set (k_ready k)" by (simp add: count_list_pos [symmetric])
    with p have "Some tid = ex \<or> \<not> is_ready k tid" by blast
    with assms(4) [of tid t] t r show False by (auto simp: is_ready_tmap [OF d])
  qed
  then have "queue_ok None (tmap (k_tasks k)) []" by (auto simp: queue_ok_def)
  moreover have "ids_ok (k\<lparr>k_ready := []\<rparr>)" using assms(2) by (auto simp: ids_ok_def)
  ultimately show ?thesis
    using nr p assms(3) by (simp add: core_def q(2))
qed

lemma ids_ok_tasks:
  assumes "ids_ok k" and "map t_id (k_tasks k') = map t_id (k_tasks k)"
    and "set (k_ready k') \<subseteq> set (k_ready k) \<union> t_id ` set (k_tasks k)"
    and "w_tid ` set (in_waiters (k_input k')) \<subseteq> w_tid ` set (in_waiters (k_input k)) \<union> t_id ` set (k_tasks k)"
    and "k_next_tid k' = k_next_tid k" and "k_next_kslot k' = k_next_kslot k"
    and "length (k_endpoints k') = length (k_endpoints k)"
  shows "ids_ok k'"
proof -
  have "t_id ` set (k_tasks k') = t_id ` set (k_tasks k)"
    using arg_cong [OF assms(2), of set] by simp
  then have "t_id ` set (k_tasks k') \<union> set (k_ready k') \<union> w_tid ` set (in_waiters (k_input k'))
      \<subseteq> t_id ` set (k_tasks k) \<union> set (k_ready k) \<union> w_tid ` set (in_waiters (k_input k))"
    using assms(3,4) by blast
  with assms(1,5) have "\<forall>tid \<in> t_id ` set (k_tasks k') \<union> set (k_ready k') \<union> w_tid ` set (in_waiters (k_input k')).
      tid < k_next_tid k'"
    by (auto simp: ids_ok_def)
  with assms(1,2,5-7) show ?thesis by (simp add: ids_ok_def)
qed

lemma map_id_upd [simp]:
  assumes "\<And>t. t_id (f t) = t_id t"
  shows "map t_id (update_first p f ts) = map t_id ts"
  using assms by (rule map_update_first)

definition cpu_ok :: "cpu \<Rightarrow> kernel_state \<Rightarrow> bool" where
  "cpu_ok c k \<longleftrightarrow>
     (case c of
        Resume fp \<Rightarrow> (\<forall>tid. k_current k = Some tid \<longrightarrow> fp = k_rsp0 k - FRAME_BYTES)
      | Idle \<Rightarrow> k_current k = None
      | _ \<Rightarrow> True)"

lemma resume_ok:
  assumes "ids_ok k" and "core_ok (Some n) k" and "run_ok (tmap (k_tasks k)) None"
    and "tmap (k_tasks k) n = Some t" and "t_state t = Ready"
  shows "\<exists>k'. resume n k = Some (Resume (t_saved_rsp t), k') \<and> at_rest k' \<and> k_current k' = Some n \<and>
    cpu_ok (Resume (t_saved_rsp t)) k'"
proof -
  let ?t = "t\<lparr>t_state := Running\<rparr>"
  let ?tm = "tmap (k_tasks k)"
  have q: "count_list (k_ready k) n = 0"
    using assms(2,4,5) by (auto simp: core_def queue_ok_def)
  have c: "core None (?tm(n \<mapsto> ?t)) (k_ready k) (emap (k_endpoints k)) (in_waiters (k_input k)) (k_next_kslot k)"
    by (rule core_upd [OF assms(2,4)])
      (use assms(5) q core_caps [OF assms(2,4)] in \<open>auto simp: same_place_def task_ipc_ok_def\<close>)
  have st: "t_saved_rsp t = t_kstack_top t - FRAME_BYTES"
    using assms(2,4) by (auto simp: core_def stack_ok_def)
  define k' where "k' = (upd_task n (\<lambda>t. t\<lparr>t_state := Running\<rparr>) k)
    \<lparr>k_current := Some n, k_mm := (k_mm k)\<lparr>mm_cr3 := t_cr3 t\<rparr>, k_rsp0 := t_kstack_top t\<rparr>"
  have r: "resume n k = Some (Resume (t_saved_rsp t), k')"
    using assms(4) by (simp add: resume_def find_task_tmap Let_def k'_def set_current_def upd_task_def)
  have "ids_ok k'" using assms(1) by (rule ids_ok_tasks) (auto simp: k'_def upd_task_def)
  moreover have "run_ok (?tm(n \<mapsto> ?t)) (Some n)"
    using assms(3) by (auto simp: run_ok_def)
  ultimately show ?thesis
    using r c st assms(4) by (auto simp: at_rest_def k'_def upd_task_def cpu_ok_def rsp0_ok_def)
qed

lemma switch_away_ok:
  assumes "ids_ok k" and "core_ok None k" and "run_ok (tmap (k_tasks k)) None" and "k_current k = None"
  shows "\<exists>c k'. switch_away k = Some (c, k') \<and> at_rest k' \<and> cpu_ok c k'"
proof (cases "pick_next None k")
  case (Pair r k1)
  show ?thesis
  proof (cases r)
    case None
    with Pair have "pick_next None k = (None, k1)" by simp
    from pick_next_None [OF this assms(1,2)] have k1: "k1 = k\<lparr>k_ready := []\<rparr>" "ids_ok k1" "core_ok None k1"
      by auto
    with None Pair assms(3,4) show ?thesis by (simp add: switch_away_def park_idle_def at_rest_def cpu_ok_def rsp0_ok_def)
  next
    case (Some n)
    with Pair have "pick_next None k = (Some n, k1)" by simp
    from pick_next_Some [OF this assms(1,2)] obtain q t where
      k1: "k1 = k\<lparr>k_ready := q\<rparr>" "tmap (k_tasks k) n = Some t" "t_state t = Ready" "ids_ok k1" "core_ok (Some n) k1"
      by auto
    have "run_ok (tmap (k_tasks k1)) None" "tmap (k_tasks k1) n = Some t" using assms(3) k1 by simp_all
    from resume_ok [OF k1(4,5) this k1(3)] obtain k' where
      "resume n k1 = Some (Resume (t_saved_rsp t), k')" "at_rest k'" "cpu_ok (Resume (t_saved_rsp t)) k'" by blast
    with Some Pair show ?thesis by (simp add: switch_away_def)
  qed
qed

end
