(* ===== verification/Kernel_Steps.thy ===== *)
theory Kernel_Steps
  imports Kernel_Inv
begin

text \<open>
  The invariant through the scheduler, the timer, waiting, naming, derivation and the
  exchange of messages: one lemma per primitive change on the maps, then one per handler.
\<close>

section \<open>Changes the invariant does not see\<close>

definition quiet :: "kernel_state \<Rightarrow> kernel_state \<Rightarrow> bool" where
  "quiet k k' \<longleftrightarrow>
     k_tasks k' = k_tasks k \<and> k_ready k' = k_ready k \<and> k_endpoints k' = k_endpoints k \<and>
     in_waiters (k_input k') = in_waiters (k_input k) \<and> k_next_tid k' = k_next_tid k \<and>
     k_next_kslot k' = k_next_kslot k \<and> k_current k' = k_current k \<and> k_rsp0 k' = k_rsp0 k"

lemma at_rest_quiet: "quiet k k' \<Longrightarrow> at_rest k' \<longleftrightarrow> at_rest k"
  by (simp add: quiet_def at_rest_def ids_ok_def)

lemma cpu_ok_quiet: "quiet k k' \<Longrightarrow> cpu_ok c k' \<longleftrightarrow> cpu_ok c k"
  by (auto simp: quiet_def cpu_ok_def split: cpu.splits)

lemma quiet_refl [simp]: "quiet k k"
  by (simp add: quiet_def)

lemma quiet_trans: "quiet k k' \<Longrightarrow> quiet k' k'' \<Longrightarrow> quiet k k''"
  by (simp add: quiet_def)

lemma quiet_simps [simp]:
  "quiet k (k'\<lparr>k_frames := fs\<rparr>) = quiet k k'" "quiet k (k'\<lparr>k_mm := m\<rparr>) = quiet k k'"
  "quiet k (k'\<lparr>k_out := out\<rparr>) = quiet k k'" "quiet k (k'\<lparr>k_reap := rq\<rparr>) = quiet k k'"
  "quiet k (k'\<lparr>k_ticks := n\<rparr>) = quiet k k'" "quiet k (k'\<lparr>k_since_switch := n\<rparr>) = quiet k k'"
  "quiet k (k'\<lparr>k_primary := d\<rparr>) = quiet k k'" "quiet k (k'\<lparr>k_secondary := d\<rparr>) = quiet k k'"
  by (simp_all add: quiet_def)

lemma quiet_set [simp]:
  "quiet k (set_frame a f k') = quiet k k'" "quiet k (set_rax a v k') = quiet k k'"
  "quiet k (kprint_raw s k') = quiet k k'" "quiet k (set_mm m k') = quiet k k'"
  by (simp_all add: set_frame_def set_rax_def kprint_raw_def set_mm_def)

lemma quiet_fill: "fill_from_queue cr3 buf len k = (n, k') \<Longrightarrow> quiet k k'"
  by (auto simp: fill_from_queue_def quiet_def split: prod.splits)

lemma quiet_copy_to_user: "copy_to_user cr3 dst src k = (ok, k') \<Longrightarrow> quiet k k'"
  by (auto simp: copy_to_user_def split: if_splits prod.splits)

lemma quiet_write_sectors: "write_sectors h idx lba count buf k = (r, k') \<Longrightarrow> quiet k k'"
  by (auto simp: write_sectors_def split: option.splits prod.splits if_splits)

lemma quiet_drain: "drain_reaper k = Some k' \<Longrightarrow> quiet k k'"
  by (auto simp: drain_reaper_def)

lemma quiet_debug_write: "quiet k (sys_debug_write fp tid buf len raw k)"
  by (auto simp: sys_debug_write_def Let_def split: option.splits)

lemma quiet_stats: "quiet k (sys_stats pad fp tid buf len k)"
  by (auto simp: sys_stats_def split: prod.splits dest: quiet_copy_to_user)

text \<open>What a trap handler owes: it returns, the invariant holds again, the frame is the right one.\<close>

definition returns_ok :: "(cpu \<times> kernel_state) option \<Rightarrow> bool" where
  "returns_ok r \<longleftrightarrow> (\<exists>c k. r = Some (c, k) \<and> at_rest k \<and> cpu_ok c k)"

lemma returns_ok_stay:
  "at_rest k \<Longrightarrow> quiet k k' \<Longrightarrow> fp = k_rsp0 k - FRAME_BYTES \<Longrightarrow> returns_ok (Some (Resume fp, k'))"
  using at_rest_quiet [of k k'] by (auto simp: returns_ok_def cpu_ok_def quiet_def)

lemma returns_ok_ret:
  "at_rest k \<Longrightarrow> quiet k k' \<Longrightarrow> fp = k_rsp0 k - FRAME_BYTES \<Longrightarrow> returns_ok (ret fp v k')"
  by (auto simp: ret_def intro: returns_ok_stay)

lemma block_io_ok:
  assumes "at_rest k" and "fp = k_rsp0 k - FRAME_BYTES"
  shows "returns_ok (block_io h fp tid a write k)"
proof -
  have ret [simp]: "returns_ok (ret fp v k')" if "quiet k k'" for v k'
    using assms that by (intro returns_ok_ret)
  have [simp]: "quiet k (snd (write_sectors h idx lba count buf k))" for idx lba count buf
    by (rule quiet_write_sectors) (rule prod.collapse [symmetric])
  have [simp]: "quiet k (snd (copy_to_user cr3 dst src k))" for cr3 dst src
    by (rule quiet_copy_to_user) (rule prod.collapse [symmetric])
  show ?thesis
    unfolding block_io_def Let_def
    by (simp add: case_prod_beta split: sum.split option.split)
qed

section \<open>The running task\<close>

lemma running:
  assumes "at_rest k" and "k_current k = Some c"
  shows "\<exists>t. tmap (k_tasks k) c = Some t \<and> t_state t = Running \<and> k_rsp0 k = t_kstack_top t \<and>
    t_saved_rsp t = k_rsp0 k - FRAME_BYTES \<and> count_list (k_ready k) c = 0"
proof -
  from assms obtain t where t: "tmap (k_tasks k) c = Some t" by (auto simp: at_rest_def run_ok_def)
  with assms have r: "t_state t = Running" by (auto simp: at_rest_def run_ok_def)
  with assms t have "count_list (k_ready k) c = 0" by (auto simp: at_rest_def core_def queue_ok_def)
  moreover have "t_saved_rsp t = t_kstack_top t - FRAME_BYTES"
    using assms t by (auto simp: at_rest_def core_def stack_ok_def)
  ultimately show ?thesis using t r assms by (auto simp: at_rest_def rsp0_ok_def)
qed

lemma run_ok_leave:
  "run_ok tm (Some c) \<Longrightarrow> t_state t' \<noteq> Running \<Longrightarrow> run_ok (tm(c \<mapsto> t')) None"
  by (auto simp: run_ok_def)

text \<open>The running task blocks in a state nobody else refers to, and the processor moves on.\<close>

lemma block_current:
  assumes "at_rest k" and "k_current k = Some c" and "fp = k_rsp0 k - FRAME_BYTES"
    and "\<not> is_zombie s" and "s \<noteq> BlockedInput" and "s \<noteq> Ready" and "s \<noteq> Running"
    and "task_ipc_ok (emap (k_endpoints k)) c s"
    and "s = BlockedWait \<Longrightarrow>
      (\<exists>x ct. tmap (k_tasks k) x = Some ct \<and> t_parent ct = Some c \<and> \<not> is_zombie (t_state ct)) \<and>
      (\<forall>x ct. tmap (k_tasks k) x = Some ct \<longrightarrow> t_parent ct = Some c \<longrightarrow> \<not> is_zombie (t_state ct))"
  shows "returns_ok (with_task c (\<lambda>t. t\<lparr>t_saved_rsp := fp, t_state := s\<rparr>) k \<bind>
    (\<lambda>k. switch_away (set_current None k)))"
proof -
  obtain t where t: "tmap (k_tasks k) c = Some t" "t_state t = Running" "t_saved_rsp t = fp"
    "count_list (k_ready k) c = 0"
    using running [OF assms(1,2)] assms(3) by auto
  let ?t = "t\<lparr>t_saved_rsp := fp, t_state := s\<rparr>"
  let ?k = "set_current None (upd_task c (\<lambda>t. t\<lparr>t_saved_rsp := fp, t_state := s\<rparr>) k)"
  have co: "core_ok None k" and ids: "ids_ok k" and run: "run_ok (tmap (k_tasks k)) (Some c)"
    using assms(1,2) by (auto simp: at_rest_def)
  have core': "core None ((tmap (k_tasks k))(c \<mapsto> ?t)) (k_ready k) (emap (k_endpoints k))
      (in_waiters (k_input k)) (k_next_kslot k)"
    by (rule core_upd [OF co t(1)])
      (use t assms core_caps [OF co t(1)] in \<open>auto simp: same_place_def\<close>)
  have "ids_ok ?k" by (rule ids_ok_tasks [OF ids]) (auto simp: set_current_def upd_task_def)
  moreover have "core_ok None ?k" "run_ok (tmap (k_tasks ?k)) None"
    using core' run_ok_leave [OF run, of ?t] assms(7) t(1) by (auto simp: set_current_def upd_task_def)
  ultimately obtain c' k' where "switch_away ?k = Some (c', k')" "at_rest k'" "cpu_ok c' k'"
    using switch_away_ok [of ?k] by (auto simp: set_current_def)
  then show ?thesis
    using t(1) by (auto simp: returns_ok_def with_task_def find_task_tmap)
qed

text \<open>The running task goes to the back of the queue and a picked one runs.\<close>

lemma core_requeue:
  assumes "core (Some n) tm q em ws sl" and "tm c = Some t" and "t_state t = Running" and "c \<noteq> n"
  shows "core (Some n) (tm(c \<mapsto> t\<lparr>t_saved_rsp := t_saved_rsp t, t_state := Ready\<rparr>)) (q @ [c]) em ws sl"
proof -
  have "count_list q c = 0" using assms by (auto simp: core_def queue_ok_def)
  then show ?thesis
    using assms(3,4) core_caps [OF assms(1,2)]
    by (intro core_upd [OF assms(1,2)]) (auto simp: same_place_def task_ipc_ok_def)
qed

lemma requeue_ok:
  assumes "at_rest k0" and "k_current k0 = Some c" and "fp = k_rsp0 k0 - FRAME_BYTES"
    and "pick_next (Some c) k0 = (Some n, k)"
  shows "returns_ok (requeue_current c fp k \<bind> resume n)"
proof -
  obtain t where t: "tmap (k_tasks k0) c = Some t" "t_state t = Running" "t_saved_rsp t = fp"
    using running [OF assms(1,2)] assms(3) by blast
  have k0: "core_ok None k0" "ids_ok k0" and run: "run_ok (tmap (k_tasks k0)) (Some c)"
    using assms(1,2) by (auto simp: at_rest_def)
  obtain q u where k: "k = k0\<lparr>k_ready := q\<rparr>" "Some n \<noteq> Some c" "tmap (k_tasks k0) n = Some u"
    "t_state u = Ready" "ids_ok k" "core_ok (Some n) k"
    using pick_next_Some [OF assms(4) k0(2,1)] by blast
  have "tmap (k_tasks k) = tmap (k_tasks k0)" by (simp add: k(1))
  note tk = t(1) [folded this] and un = k(3) [folded this] and run = run [folded this]
  let ?k = "make_ready c False (upd_task c (\<lambda>t. t\<lparr>t_saved_rsp := fp, t_state := Ready\<rparr>) k)"
  have c_id: "c \<in> t_id ` set (k_tasks k)" using tk tmap_None [of "k_tasks k" c] by auto
  have "ids_ok ?k"
    by (rule ids_ok_tasks [OF k(5)]) (use c_id in \<open>auto simp: make_ready_def upd_task_def\<close>)
  moreover have "core_ok (Some n) ?k"
    using core_requeue [OF k(6) tk t(2)] k(2) t(3) tk by (simp add: make_ready_def upd_task_def)
  moreover have "run_ok (tmap (k_tasks ?k)) None"
    using run_ok_leave [OF run, of "t\<lparr>t_saved_rsp := fp, t_state := Ready\<rparr>"] tk
    by (simp add: make_ready_def upd_task_def)
  moreover have "tmap (k_tasks ?k) n = Some u" using un k(2) by (simp add: make_ready_def upd_task_def)
  ultimately obtain k' where "resume n ?k = Some (Resume (t_saved_rsp u), k')" "at_rest k'"
      "cpu_ok (Resume (t_saved_rsp u)) k'"
    using resume_ok [of ?k n u] k(4) by blast
  then show ?thesis using tk by (simp add: returns_ok_def requeue_current_def find_task_tmap)
qed

lemma pick_None_stay:
  assumes "at_rest k0" and "pick_next (k_current k0) k0 = (None, k)"
  shows "at_rest k \<and> k_rsp0 k = k_rsp0 k0 \<and> k_current k = k_current k0"
proof -
  have k0: "core_ok None k0" "ids_ok k0" and run: "run_ok (tmap (k_tasks k0)) (k_current k0)"
    using assms(1) by (auto simp: at_rest_def)
  have "t_state t \<noteq> Ready" if "k_current k0 = Some c" "tmap (k_tasks k0) c = Some t" for c t
    using run that by (fastforce simp: run_ok_def)
  with pick_next_None [OF assms(2) k0(2,1)]
  have "k = k0\<lparr>k_ready := []\<rparr>" "ids_ok k" "core_ok None k" by blast+
  with assms(1) show ?thesis by (simp add: at_rest_def)
qed

lemma yield_task_ok:
  assumes "at_rest k" and "k_current k = Some c" and "fp = k_rsp0 k - FRAME_BYTES"
  shows "returns_ok (yield_task c fp k)"
proof (cases "pick_next (Some c) k")
  case (Pair r k1)
  show ?thesis
  proof (cases r)
    case None
    with Pair pick_None_stay [OF assms(1), of k1] assms show ?thesis
      by (auto simp: yield_task_def returns_ok_def cpu_ok_def)
  next
    case (Some n)
    with Pair requeue_ok [OF assms, of n k1] show ?thesis by (simp add: yield_task_def)
  qed
qed

lemma at_rest_since [simp]:
  "at_rest (k\<lparr>k_since_switch := n\<rparr>) = at_rest k" "at_rest (k\<lparr>k_ticks := n\<rparr>) = at_rest k"
  "at_rest (k\<lparr>k_frames := fs\<rparr>) = at_rest k" "at_rest (k\<lparr>k_mm := m\<rparr>) = at_rest k"
  by (simp_all add: at_rest_def)

lemma maybe_preempt_ok:
  assumes "at_rest k" and "k_current k \<noteq> None \<Longrightarrow> fp = k_rsp0 k - FRAME_BYTES"
  shows "returns_ok (maybe_preempt fp k)"
proof (cases "k_since_switch k + 1 < QUANTUM_TICKS")
  case True
  with assms show ?thesis by (auto simp: maybe_preempt_def Let_def returns_ok_def cpu_ok_def)
next
  case False
  let ?k = "k\<lparr>k_since_switch := 0\<rparr>"
  have r: "at_rest ?k" "k_current ?k = k_current k" "k_rsp0 ?k = k_rsp0 k" using assms(1) by simp_all
  obtain n k1 where p: "pick_next (k_current k) ?k = (n, k1)" by fastforce
  show ?thesis
  proof (cases n)
    case None
    with p pick_None_stay [OF r(1), of k1] assms False show ?thesis
      by (cases "k_current k") (auto simp: maybe_preempt_def Let_def returns_ok_def cpu_ok_def)
  next
    case (Some m)
    show ?thesis
    proof (cases "k_current k")
      case None
      from r(1) have "core_ok None ?k" "ids_ok ?k" "run_ok (tmap (k_tasks ?k)) None"
        using None by (simp_all add: at_rest_def)
      with pick_next_Some [of None ?k m k1] p Some None obtain t where
        "tmap (k_tasks k1) m = Some t" "t_state t = Ready" "ids_ok k1" "core_ok (Some m) k1"
        "run_ok (tmap (k_tasks k1)) None" by auto
      from resume_ok [OF this(3-5,1,2)] p Some None False show ?thesis
        by (auto simp: maybe_preempt_def Let_def returns_ok_def)
    next
      case (Some c)
      with requeue_ok [of ?k c fp m k1] r p \<open>n = Some m\<close> assms(2) False show ?thesis
        by (simp add: maybe_preempt_def Let_def)
    qed
  qed
qed

section \<open>The timer\<close>

definition wake_map :: "u64 \<Rightarrow> (usize \<rightharpoonup> task) \<Rightarrow> usize \<rightharpoonup> task" where
  "wake_map now tm = (\<lambda>x. map_option (\<lambda>t. if expired now (t_state t) then t\<lparr>t_state := Ready\<rparr> else t) (tm x))"

lemma wake_loop_spec:
  "wake_loop now ts fs = (ts', fs', woke) \<Longrightarrow>
   tmap ts' = wake_map now (tmap ts) \<and> map t_id ts' = map t_id ts \<and>
   woke = map t_id (filter (\<lambda>t. expired now (t_state t)) ts)"
proof (induction ts arbitrary: fs ts' fs' woke)
  case (Cons t ts)
  obtain ts1 fs1 woke1 where w: "wake_loop now ts (if expired now (t_state t)
      then fs(t_saved_rsp t := (fs (t_saved_rsp t))\<lparr>tf_rax := wake_code (t_state t)\<rparr>) else fs) = (ts1, fs1, woke1)"
    by (metis prod_cases3)
  from Cons.IH [OF this] Cons.prems w show ?case
    by (auto simp: wake_map_def fun_eq_iff tmap_Cons split: if_splits)
qed (simp add: wake_map_def fun_eq_iff)

lemma expired_not_referenced: "expired now s \<Longrightarrow> \<not> referenced s \<and> s \<noteq> Ready \<and> s \<noteq> Running \<and> s \<noteq> BlockedWait"
  by (cases s) auto

definition upd1 :: "(task \<Rightarrow> task) \<Rightarrow> usize \<Rightarrow> (usize \<rightharpoonup> task) \<Rightarrow> usize \<rightharpoonup> task" where
  "upd1 f x tm = tm(x := map_option f (tm x))"

lemma fold_upd1:
  "distinct xs \<Longrightarrow> fold (upd1 f) xs tm = (\<lambda>x. if x \<in> set xs then map_option f (tm x) else tm x)"
  by (induction xs arbitrary: tm) (auto simp: fun_eq_iff upd1_def)

text \<open>Waking a list of tasks that are neither ready nor referred to.\<close>

lemma core_wake_list:
  assumes "core None tm q em ws sl" and "distinct xs"
    and "\<And>x. x \<in> set xs \<Longrightarrow> \<exists>t. tm x = Some t \<and> \<not> referenced (t_state t) \<and> t_state t \<noteq> Ready"
  shows "core None (fold (upd1 (\<lambda>t. t\<lparr>t_state := Ready\<rparr>)) xs tm) (rev xs @ q) em ws sl"
  using assms
proof (induction xs arbitrary: tm q)
  case (Cons x xs)
  from Cons.prems(3) [of x] obtain t where t: "tm x = Some t" "\<not> referenced (t_state t)" "t_state t \<noteq> Ready"
    by auto
  then have "count_list q x = 0" using Cons.prems(1) by (auto simp: core_def queue_ok_def)
  then have 1: "core None (tm(x \<mapsto> t\<lparr>t_state := Ready\<rparr>)) (x # q) em ws sl"
    using t core_caps [OF Cons.prems(1) t(1)]
    by (intro core_upd [OF Cons.prems(1) t(1)]) (auto simp: same_place_def task_ipc_ok_def)
  have 2: "\<exists>u. (tm(x \<mapsto> t\<lparr>t_state := Ready\<rparr>)) y = Some u \<and> \<not> referenced (t_state u) \<and> t_state u \<noteq> Ready"
    if "y \<in> set xs" for y
    using Cons.prems(2,3) that by fastforce
  have "distinct xs" using Cons.prems(2) by simp
  moreover have "upd1 (\<lambda>t. t\<lparr>t_state := Ready\<rparr>) x tm = tm(x \<mapsto> t\<lparr>t_state := Ready\<rparr>)"
    using t(1) by (simp add: upd1_def)
  ultimately show ?case using Cons.IH [where tm = "tm(x \<mapsto> t\<lparr>t_state := Ready\<rparr>)", OF 1] 2
    by (simp del: fun_upd_apply)
qed simp

lemma wake_map_fold:
  assumes "distinct (map t_id ts)"
  shows "wake_map now (tmap ts) = fold (upd1 (\<lambda>t. t\<lparr>t_state := Ready\<rparr>))
    (map t_id (filter (\<lambda>t. expired now (t_state t)) ts)) (tmap ts)"
proof -
  have d: "distinct (map t_id (filter (\<lambda>t. expired now (t_state t)) ts))"
    using assms by (simp add: distinct_map_filter)
  have m: "x \<in> t_id ` {t \<in> set ts. expired now (t_state t)} \<longleftrightarrow> expired now (t_state t)" if "tmap ts x = Some t" for x t
  proof -
    have "t' = t" if "t' \<in> set ts" "t_id t' = x" for t'
      using that \<open>tmap ts x = Some t\<close> tmap_mem [OF assms, of x t'] by simp
    with that tmap_mem [OF assms, of x t] show ?thesis by blast
  qed
  show ?thesis
    unfolding fold_upd1 [OF d]
  proof
    fix x show "wake_map now (tmap ts) x =
      (if x \<in> set (map t_id (filter (\<lambda>t. expired now (t_state t)) ts))
       then map_option (\<lambda>t. t\<lparr>t_state := Ready\<rparr>) (tmap ts x) else tmap ts x)"
      using m [of x] by (cases "tmap ts x") (simp_all add: wake_map_def)
  qed
qed

lemma fold_make_ready: "fold (\<lambda>tid. make_ready tid True) xs k = k\<lparr>k_ready := rev xs @ k_ready k\<rparr>"
  by (induction xs arbitrary: k) (auto simp: make_ready_def)

lemma wake_expired_ok:
  assumes "at_rest k"
  shows "at_rest (wake_expired k) \<and> k_rsp0 (wake_expired k) = k_rsp0 k \<and> k_current (wake_expired k) = k_current k"
proof -
  obtain ts fs woke where w: "wake_loop (k_ticks k) (k_tasks k) (k_frames k) = (ts, fs, woke)"
    by (metis prod_cases3)
  note ws = wake_loop_spec [OF w]
  have k': "wake_expired k = k\<lparr>k_tasks := ts, k_frames := fs, k_ready := rev woke @ k_ready k\<rparr>"
    by (simp add: wake_expired_def w fold_make_ready)
  have d: "distinct (map t_id (k_tasks k))" and co: "core_ok None k" and ids: "ids_ok k"
    and run: "run_ok (tmap (k_tasks k)) (k_current k)" and r0: "rsp0_ok (tmap (k_tasks k)) (k_current k) (k_rsp0 k)"
    using assms by (auto simp: at_rest_def ids_ok_def)
  have dw: "distinct woke" using ws d by (simp add: distinct_map_filter)
  have "\<exists>t. tmap (k_tasks k) x = Some t \<and> \<not> referenced (t_state t) \<and> t_state t \<noteq> Ready" if x: "x \<in> set woke" for x
  proof -
    obtain t where "t \<in> set (k_tasks k)" "t_id t = x" "expired (k_ticks k) (t_state t)" using x ws by auto
    then show ?thesis using tmap_mem [OF d, of x t] expired_not_referenced by blast
  qed
  from core_wake_list [OF co dw this] wake_map_fold [OF d] ws
  have co': "core_ok None (wake_expired k)" by (simp add: k')
  have "ids_ok (wake_expired k)"
    by (rule ids_ok_tasks [OF ids]) (use ws in \<open>auto simp: k'\<close>)
  moreover have "run_ok (wake_map (k_ticks k) (tmap (k_tasks k))) (k_current k)"
    using run unfolding run_ok_def wake_map_def
    by (auto simp: map_option_case split: option.splits if_splits dest: expired_not_referenced)
  moreover have "rsp0_ok (wake_map (k_ticks k) (tmap (k_tasks k))) (k_current k) (k_rsp0 k)"
    using r0 unfolding rsp0_ok_def wake_map_def by (auto split: option.splits if_splits)
  ultimately show ?thesis using co' ws by (simp add: at_rest_def k')
qed

lemma timer_trap_ok:
  assumes "at_rest k" and "k_current k \<noteq> None \<Longrightarrow> fp = k_rsp0 k - FRAME_BYTES"
  shows "returns_ok (timer_trap fp k)"
proof -
  have "at_rest (bump_tick k)" using assms(1) by (simp add: bump_tick_def)
  from wake_expired_ok [OF this] assms(2) show ?thesis
    unfolding timer_trap_def by (intro maybe_preempt_ok) (auto simp: bump_tick_def)
qed

section \<open>Sleeping and waiting\<close>

lemma sys_sleep_ok:
  assumes "at_rest k" and "k_current k = Some c" and "fp = k_rsp0 k - FRAME_BYTES"
  shows "returns_ok (sys_sleep c fp delta k)"
  unfolding sys_sleep_def Let_def
  using assms by (auto intro!: block_current returns_ok_ret simp: task_ipc_ok_def)

text \<open>A dead task leaves the table.\<close>

text \<open>The invariant without the family tree, which is only right again once the fate is settled.\<close>

definition tables_ok :: "usize option \<Rightarrow> (usize \<rightharpoonup> task) \<Rightarrow> usize list \<Rightarrow> (u64 \<rightharpoonup> endpoint) \<Rightarrow> waiter list \<Rightarrow> usize \<Rightarrow> bool" where
  "tables_ok picked tm q em ws sl \<longleftrightarrow> queue_ok picked tm q \<and> ipc_ok tm em \<and> input_ok tm ws \<and> caps_ok tm em \<and> stack_ok tm sl"

lemma core_rest: "core picked tm q em ws sl \<longleftrightarrow> tables_ok picked tm q em ws sl \<and> fam_ok tm"
  by (auto simp: core_def tables_ok_def)

lemma rest_remove_zombie:
  assumes "tables_ok picked tm q em ws sl" and "tm z = Some t" and "is_zombie (t_state t)"
  shows "tables_ok picked (tm(z := None)) q em ws sl"
proof -
  from assms(1) have c: "queue_ok picked tm q" "ipc_ok tm em" "input_ok tm ws" "caps_ok tm em"
    "stack_ok tm sl" by (auto simp: tables_ok_def)
  have keep: "\<exists>u. (tm(z := None)) x = Some u \<and> P (t_state u)"
    if "\<exists>u. tm x = Some u \<and> P (t_state u)" "\<And>s. P s \<Longrightarrow> \<not> is_zombie s" for x P
    using that assms(2,3) by auto
  have "ep_ok (tm(z := None)) ep e" if "em ep = Some e" for ep e
  proof -
    have "ep_ok tm ep e" using c(2) that by (simp add: ipc_ok_def)
    then show ?thesis
      unfolding ep_ok_def
      using keep [where P = "\<lambda>s. s = BlockedCall ep"] keep [where P = "\<lambda>s. s = BlockedSend ep"]
        keep [where P = "\<lambda>s. \<not> is_zombie s"] by fastforce
  qed
  then have "ipc_ok (tm(z := None)) em" using c(2) by (simp add: ipc_ok_def)
  moreover have "input_ok (tm(z := None)) ws"
    using c(3) unfolding input_ok_def by (auto split: if_splits)
  moreover have "queue_ok picked (tm(z := None)) q"
    using c(1) unfolding queue_ok_def by (auto split: if_splits)
  moreover have "caps_ok (tm(z := None)) em" "stack_ok (tm(z := None)) sl"
    using c(4,5) unfolding caps_ok_def stack_ok_def by (auto split: if_splits)
  ultimately show ?thesis by (simp add: tables_ok_def)
qed

lemma core_remove_zombie:
  assumes "core picked tm q em ws sl" and "tm z = Some t" and "is_zombie (t_state t)"
  shows "core picked (tm(z := None)) q em ws sl"
proof -
  from assms(1) have c: "tables_ok picked tm q em ws sl" "fam_ok tm" by (auto simp: core_rest)
  have nk: "t_parent u \<noteq> Some z" if "tm x = Some u" for x u
    using c(2) that assms(2,3) by (fastforce simp: fam_ok_def)
  have A: "p \<noteq> x \<and> (\<exists>pt. (tm(z := None)) p = Some pt \<and> \<not> is_zombie (t_state pt))"
    if "(tm(z := None)) x = Some u" "t_parent u = Some p" for x u p
    using that c(2) nk unfolding fam_ok_def by (auto split: if_splits)
  have C: "\<exists>y ct. (tm(z := None)) y = Some ct \<and> t_parent ct = Some x \<and> \<not> is_zombie (t_state ct)"
    if "(tm(z := None)) x = Some u" "t_state u = BlockedWait" for x u
  proof -
    have "tm x = Some u" using that(1) by (auto split: if_splits)
    with that(2) c(2) obtain y ct where y: "tm y = Some ct" "t_parent ct = Some x" "\<not> is_zombie (t_state ct)"
      unfolding fam_ok_def by blast
    with assms(2,3) have "y \<noteq> z" by auto
    with y show ?thesis by (intro exI [of _ y] exI [of _ ct]) simp
  qed
  have "fam_ok (tm(z := None))"
    using A C c(2) unfolding fam_ok_def by (auto split: if_splits)
  with rest_remove_zombie [OF c(1) assms(2,3)] show ?thesis by (simp add: core_rest)
qed

lemma ids_ok_filter: "ids_ok k \<Longrightarrow> ids_ok (k\<lparr>k_tasks := filter p (k_tasks k)\<rparr>)"
  by (auto simp: ids_ok_def distinct_map_filter)

lemma remove_zombie_ok:
  assumes "ids_ok k" and "core_ok picked k" and "tmap (k_tasks k) z = Some t" and "is_zombie (t_state t)"
  shows "ids_ok (k\<lparr>k_tasks := filter (\<lambda>t. t_id t \<noteq> z) (k_tasks k)\<rparr>) \<and>
    core_ok picked (k\<lparr>k_tasks := filter (\<lambda>t. t_id t \<noteq> z) (k_tasks k)\<rparr>)"
  using assms core_remove_zombie [OF assms(2-4)] by (simp add: ids_ok_filter)

lemma at_rest_remove_zombie:
  assumes "at_rest k" and "tmap (k_tasks k) z = Some t" and "is_zombie (t_state t)"
  shows "at_rest (k\<lparr>k_tasks := filter (\<lambda>t. t_id t \<noteq> z) (k_tasks k)\<rparr>)"
proof -
  have "t_state t \<noteq> Running" using assms(3) by auto
  then have "k_current k \<noteq> Some z" using assms(1,2) by (auto simp: at_rest_def run_ok_def)
  then have "run_ok ((tmap (k_tasks k))(z := None)) (k_current k)"
      "rsp0_ok ((tmap (k_tasks k))(z := None)) (k_current k) (k_rsp0 k)"
    using assms(1) unfolding at_rest_def run_ok_def rsp0_ok_def by auto
  moreover have "ids_ok k" "core_ok None k" using assms(1) by (auto simp: at_rest_def)
  ultimately show ?thesis using remove_zombie_ok [OF _ _ assms(2,3), of None] by (simp add: at_rest_def)
qed

lemma sys_wait_ok:
  assumes "at_rest k" and "k_current k = Some c" and "fp = k_rsp0 k - FRAME_BYTES"
    and "\<And>z. find (\<lambda>t. t_parent t = Some c \<and> is_zombie (t_state t)) (k_tasks k) = Some z \<Longrightarrow>
      reclaim (snapshot z) (k_mm k) \<noteq> None"
  shows "returns_ok (sys_wait c fp flags k)"
proof (cases "find (\<lambda>t. t_parent t = Some c \<and> is_zombie (t_state t)) (k_tasks k)")
  case (Some z)
  have d: "distinct (map t_id (k_tasks k))" using assms(1) by (simp add: at_rest_def ids_ok_def)
  from find_tmap(1) [OF d Some] have z: "tmap (k_tasks k) (t_id z) = Some z" "is_zombie (t_state z)" by auto
  then obtain code where code: "t_state z = Zombie code" by (cases "t_state z") auto
  obtain m where m: "reclaim (snapshot z) (k_mm k) = Some m" using assms(4) [OF Some] by auto
  define k1 where "k1 = k\<lparr>k_tasks := filter (\<lambda>t. t_id t \<noteq> t_id z) (k_tasks k)\<rparr>"
  have k1: "at_rest k1" "k_rsp0 k1 = k_rsp0 k"
    using at_rest_remove_zombie [OF assms(1) z] by (simp_all add: k1_def)
  have "reap_zombie (t_id z) k = Some (Some code, k1\<lparr>k_mm := m\<rparr>)"
    using z(1) code m by (simp add: reap_zombie_def find_task_tmap remove_first_tmap [OF d] k1_def)
  then have "sys_wait c fp flags k = Some (Resume fp, set_frame fp
      (\<lambda>f. f\<lparr>tf_rax := E_OK, tf_rdi := t_id z, tf_rsi := code\<rparr>) (k1\<lparr>k_mm := m\<rparr>))"
    using Some by (simp add: sys_wait_def)
  with k1 assms(3) show ?thesis by (simp add: returns_ok_stay [OF k1(1)])
next
  case None
  have d: "distinct (map t_id (k_tasks k))" using assms(1) by (simp add: at_rest_def ids_ok_def)
  have nz: "\<not> is_zombie (t_state t)" if "tmap (k_tasks k) x = Some t" "t_parent t = Some c" for x t
    using find_tmap(2) [OF d None that(1)] that(2) by blast
  show ?thesis
  proof (cases "\<exists>x t. tmap (k_tasks k) x = Some t \<and> t_parent t = Some c \<and> \<not> is_zombie (t_state t)")
    case True
    with nz assms(1-3) have "returns_ok (with_task c (\<lambda>t. t\<lparr>t_saved_rsp := fp, t_state := BlockedWait\<rparr>) k \<bind>
        (\<lambda>k. switch_away (set_current None k)))"
      by (intro block_current) (simp_all add: task_ipc_ok_def)
    with True assms(1-3) show ?thesis
      unfolding sys_wait_def None option.case list_ex_tmap [OF d] by (simp add: returns_ok_ret)
  next
    case False
    with assms(1-3) show ?thesis
      unfolding sys_wait_def None option.case list_ex_tmap [OF d] by (simp add: returns_ok_ret)
  qed
qed

section \<open>Names and capabilities\<close>

text \<open>The running task changes, but not its place in the tables.\<close>

lemma running_change_ok:
  assumes "at_rest k" and "k_current k = Some c" and "\<And>t. same_place t (f t) \<and> t_state (f t) = t_state t"
    and "tmap (k_tasks k) c = Some t"
    and "caps_ok ((tmap (k_tasks k))(c \<mapsto> f t)) (emap (k_endpoints k))"
  shows "at_rest (upd_task c f k)"
proof -
  have co: "core_ok None k" and ids: "ids_ok k" and run: "run_ok (tmap (k_tasks k)) (Some c)"
    and r0: "rsp0_ok (tmap (k_tasks k)) (Some c) (k_rsp0 k)" using assms(1,2) by (auto simp: at_rest_def)
  have st: "t_state t = Running" "count_list (k_ready k) c = 0" using running [OF assms(1,2)] assms(4) by auto
  have sp: "same_place t (f t)" "t_state (f t) = Running" and fid: "\<And>t. t_id (f t) = t_id t"
    using assms(3) st by (auto simp: same_place_def)
  have "core None ((tmap (k_tasks k))(c \<mapsto> f t)) (k_ready k) (emap (k_endpoints k))
      (in_waiters (k_input k)) (k_next_kslot k)"
    by (rule core_upd [OF co assms(4) sp(1) assms(5)]) (use st sp in \<open>auto simp: task_ipc_ok_def\<close>)
  moreover have "ids_ok (upd_task c f k)"
    by (rule ids_ok_tasks [OF ids]) (auto simp: upd_task_def fid)
  moreover have "run_ok ((tmap (k_tasks k))(c \<mapsto> f t)) (Some c)"
    "rsp0_ok ((tmap (k_tasks k))(c \<mapsto> f t)) (Some c) (k_rsp0 k)"
    using run r0 sp assms(4) by (auto simp: run_ok_def rsp0_ok_def same_place_def)
  ultimately show ?thesis
    using assms(2,4) fid by (simp add: at_rest_def upd_task_def)
qed

lemma sys_set_name_ok:
  assumes "at_rest k" and "k_current k = Some c"
  shows "at_rest (sys_set_name fp c buf len k) \<and> k_rsp0 (sys_set_name fp c buf len k) = k_rsp0 k"
proof -
  obtain t where t: "tmap (k_tasks k) c = Some t" using running [OF assms] by blast
  have co: "core_ok None k" using assms(1) by (simp add: at_rest_def)
  have "at_rest (upd_task c (set_name n) k)" for n
    by (rule running_change_ok [OF assms _ t])
      (auto simp: same_place_def set_name_def Let_def intro: core_caps [OF co t])
  then show ?thesis
    using assms(1) by (auto simp: sys_set_name_def set_rax_def set_frame_def upd_task_def split: option.splits)
qed

lemma cap_ok_attenuates: "attenuates d c \<Longrightarrow> cap_ok em c \<Longrightarrow> cap_ok em d"
  by (cases c; cases d) (auto simp: cap_ok_def)

lemma cap_at_Some: "cap_at t slot = Some (Some c) \<Longrightarrow> Some c \<in> set (t_caps t)"
  by (auto simp: cap_at_def split: if_splits) (metis nth_mem)

lemma sys_cap_derive_ok:
  assumes "at_rest k" and "k_current k = Some c"
  shows "at_rest (sys_cap_derive fp c a k) \<and> k_rsp0 (sys_cap_derive fp c a k) = k_rsp0 k"
proof (cases "cap_derive_result c a k")
  case (Inl e)
  then show ?thesis using assms by (simp add: sys_cap_derive_def set_frame_def)
next
  case (Inr p)
  obtain slot d where p: "p = (slot, d)" by (cases p)
  obtain t where t: "tmap (k_tasks k) c = Some t" using running [OF assms] by blast
  from Inr t p obtain src where src: "cap_at t (a ! 0) = Some (Some src)"
    "derive_cap src (a ! 1) (a ! 2) (a ! 3) = Inr d"
    by (auto simp: cap_derive_result_def find_task_tmap split: option.splits sum.splits)
  have cs: "caps_ok (tmap (k_tasks k)) (emap (k_endpoints k))"
    using assms(1) by (simp add: at_rest_def core_def)
  then have "cap_ok (emap (k_endpoints k)) d"
    using cap_at_Some [OF src(1)] derive_cap_attenuates [OF src(2)] cap_ok_attenuates t
    by (auto simp: caps_ok_def)
  then have "caps_ok ((tmap (k_tasks k))(c \<mapsto> t\<lparr>t_caps := (t_caps t)[slot := Some d]\<rparr>)) (emap (k_endpoints k))"
    using cs t by (auto simp: caps_ok_def dest!: subsetD [OF set_update_subset_insert])
  then have "at_rest (upd_task c (\<lambda>t. t\<lparr>t_caps := (t_caps t)[slot := Some d]\<rparr>) k)"
    by (intro running_change_ok [OF assms _ t]) (auto simp: same_place_def)
  then show ?thesis using Inr p by (simp add: sys_cap_derive_def set_frame_def upd_task_def)
qed

section \<open>IPC\<close>

lemma get_endpoint_cap_ok:
  assumes "at_rest k" and "get_endpoint_cap c slot need k = Inr ep"
  shows "\<exists>e. emap (k_endpoints k) ep = Some e"
proof -
  from assms(2) obtain t rights where t: "tmap (k_tasks k) c = Some t" "cap_at t slot = Some (Some (Endpoint ep rights))"
    by (auto simp: get_endpoint_cap_def find_task_tmap split: option.splits cap.splits if_splits)
  with assms(1) cap_at_Some [OF t(2)] have "cap_ok (emap (k_endpoints k)) (Endpoint ep rights)"
    by (auto simp: at_rest_def core_def caps_ok_def)
  then show ?thesis by (auto simp: cap_ok_def)
qed

lemma caps_ok_dom: "caps_ok tm em \<Longrightarrow> em ep = Some e0 \<Longrightarrow> caps_ok tm (em(ep \<mapsto> e))"
  unfolding caps_ok_def cap_ok_def by (fastforce split: cap.splits)

lemma input_ok_upd':
  assumes "input_ok tm ws" and "tm x = Some t" and "\<not> is_zombie (t_state t)"
    and "t_state t \<noteq> BlockedInput" and "t_state t' \<noteq> BlockedInput"
  shows "input_ok (tm(x \<mapsto> t')) ws"
  using assms unfolding input_ok_def by (auto split: if_splits)

text \<open>A task changes state together with the endpoint it is on.\<close>

lemma core_ipc:
  assumes "core picked tm q em ws sl" and "tm x = Some t" and "em ep = Some e0"
    and "\<not> is_zombie (t_state t)" and "t_state t \<noteq> BlockedInput"
    and "\<not> is_zombie s" and "s \<noteq> BlockedInput" and "s \<noteq> BlockedWait"
    and "ipc_ok (tm(x \<mapsto> t\<lparr>t_state := s\<rparr>)) (em(ep \<mapsto> e))"
    and "\<And>y. y \<noteq> x \<Longrightarrow> count_list q' y = count_list q y"
    and "count_list q' x = (if s = Ready \<and> picked \<noteq> Some x then 1 else 0)"
  shows "core picked (tm(x \<mapsto> t\<lparr>t_state := s\<rparr>)) q' (em(ep \<mapsto> e)) ws sl"
proof -
  let ?t = "t\<lparr>t_state := s\<rparr>"
  from assms(1) have c: "queue_ok picked tm q" "ipc_ok tm em" "fam_ok tm" "input_ok tm ws" "caps_ok tm em"
    "stack_ok tm sl" by (auto simp: core_def)
  have "queue_ok picked (tm(x \<mapsto> ?t)) q'"
    using assms(10,11) by (intro queue_ok_upd [OF c(1) assms(2)]) auto
  moreover have "fam_ok (tm(x \<mapsto> ?t))" using assms by (intro fam_ok_upd [OF c(3) assms(2)]) auto
  moreover have "input_ok (tm(x \<mapsto> ?t)) ws" using assms by (intro input_ok_upd' [OF c(4) assms(2)]) auto
  moreover have "caps_ok (tm(x \<mapsto> ?t)) (em(ep \<mapsto> e))"
    by (rule caps_ok_dom [OF caps_ok_upd [OF c(5) assms(2)] assms(3)]) simp
  moreover have "stack_ok (tm(x \<mapsto> ?t)) sl" by (rule stack_ok_upd [OF c(6) assms(2)]) simp_all
  ultimately show ?thesis using assms(9) by (simp add: core_def)
qed

text \<open>The running task's call reaches a receiver.\<close>

lemma core_call:
  assumes "core None tm q em ws sl" and "tm c = Some t" and "t_state t = Running"
    and "tm w = Some u" and "\<not> is_zombie (t_state u)" and "em ep = Some e"
  shows "core None (tm(c \<mapsto> t\<lparr>t_state := BlockedCall ep\<rparr>)) q
    (em(ep \<mapsto> e\<lparr>ep_active_caller := Some c, ep_active_server := Some w\<rparr>)) ws sl"
proof (rule core_ipc [OF assms(1,2,6)])
  have ipc: "ipc_ok tm em" and q: "count_list q c = 0"
    using assms(1-3) by (auto simp: core_def queue_ok_def)
  show "count_list q c = (if BlockedCall ep = Ready \<and> None \<noteq> Some c then 1 else 0)" using q by simp
  let ?tm = "tm(c \<mapsto> t\<lparr>t_state := BlockedCall ep\<rparr>)"
    and ?e = "e\<lparr>ep_active_caller := Some c, ep_active_server := Some w\<rparr>"
  have "ep_ok ?tm ep' e'" if "em ep' = Some e'" for ep' e'
  proof -
    have "ep_ok tm ep' e'" using ipc that by (simp add: ipc_ok_def)
    with assms(2,3) show ?thesis by (fastforce simp: ep_ok_def)
  qed
  with assms(4-6) have "ep_ok ?tm ep ?e" by (auto simp: ep_ok_def)
  moreover have "task_ipc_ok (em(ep \<mapsto> ?e)) x (t_state v)" if "?tm x = Some v" for x v
    using that ipc assms(6) by (fastforce simp: ipc_ok_def task_ipc_ok_def split: if_splits task_state.splits)
  ultimately show "ipc_ok ?tm (em(ep \<mapsto> ?e))"
    using \<open>\<And>e' ep'. em ep' = Some e' \<Longrightarrow> ep_ok ?tm ep' e'\<close> by (auto simp: ipc_ok_def)
qed (use assms(3) in auto)

text \<open>The running task's call waits for a receiver.\<close>

lemma core_send:
  assumes "core None tm q em ws sl" and "tm c = Some t" and "t_state t = Running" and "em ep = Some e"
    and "length msg = 6" and "\<And>x u. tm x = Some u \<Longrightarrow> \<not> recv_on ep (t_state u)"
  shows "core None (tm(c \<mapsto> t\<lparr>t_state := BlockedSend ep\<rparr>)) q
    (em(ep \<mapsto> e\<lparr>ep_pending_callers := ep_pending_callers e @ [(c, msg)]\<rparr>)) ws sl"
proof (rule core_ipc [OF assms(1,2,4)])
  have ipc: "ipc_ok tm em" and q: "count_list q c = 0"
    using assms(1-3) by (auto simp: core_def queue_ok_def)
  show "count_list q c = (if BlockedSend ep = Ready \<and> None \<noteq> Some c then 1 else 0)" using q by simp
  let ?tm = "tm(c \<mapsto> t\<lparr>t_state := BlockedSend ep\<rparr>)"
    and ?e = "e\<lparr>ep_pending_callers := ep_pending_callers e @ [(c, msg)]\<rparr>"
  have old: "ep_ok ?tm ep' e'" if "em ep' = Some e'" for ep' e'
  proof -
    have "ep_ok tm ep' e'" using ipc that by (simp add: ipc_ok_def)
    with assms(2,3) show ?thesis by (fastforce simp: ep_ok_def)
  qed
  have "c \<notin> fst ` set (ep_pending_callers e)"
  proof
    assume "c \<in> fst ` set (ep_pending_callers e)"
    moreover have "ep_ok tm ep e" using ipc assms(4) by (simp add: ipc_ok_def)
    ultimately have "t_state t = BlockedSend ep" using assms(2) by (fastforce simp: ep_ok_def)
    with assms(3) show False by simp
  qed
  with old [OF assms(4)] assms(5) have "ep_ok ?tm ep ?e" by (auto simp: ep_ok_def)
  moreover have "task_ipc_ok (em(ep \<mapsto> ?e)) x (t_state v)" if "?tm x = Some v" for x v
  proof (cases "x = c")
    case True
    with that show ?thesis by (auto simp: task_ipc_ok_def)
  next
    case False
    with that have v: "tm x = Some v" by simp
    then have "task_ipc_ok em x (t_state v)" using ipc by (simp add: ipc_ok_def)
    with assms(4) assms(6) [OF v] show ?thesis
      by (cases "t_state v") (auto simp: task_ipc_ok_def image_iff)
  qed
  ultimately show "ipc_ok ?tm (em(ep \<mapsto> ?e))" using old by (auto simp: ipc_ok_def)
qed (use assms(3) in auto)

text \<open>A receiver takes the first waiting call.\<close>

lemma core_accept:
  assumes "core None tm q em ws sl" and "tm s = Some u" and "\<not> is_zombie (t_state u)" and "em ep = Some e"
    and "ep_pending_callers e = (c, msg) # rest" and "tm c = Some t"
  shows "core None (tm(c \<mapsto> t\<lparr>t_state := BlockedCall ep\<rparr>)) q
    (em(ep \<mapsto> e\<lparr>ep_pending_callers := rest, ep_active_caller := Some c, ep_active_server := Some s\<rparr>)) ws sl"
proof (rule core_ipc [OF assms(1,6,4)])
  have ipc: "ipc_ok tm em" using assms(1) by (simp add: core_def)
  have ep: "ep_ok tm ep e" using ipc assms(4) by (simp add: ipc_ok_def)
  with assms(5,6) have st: "t_state t = BlockedSend ep" by (auto simp: ep_ok_def)
  then show "\<not> is_zombie (t_state t)" "t_state t \<noteq> BlockedInput" by auto
  have "count_list q c = 0" using assms(1,6) st by (auto simp: core_def queue_ok_def)
  then show "count_list q c = (if BlockedCall ep = Ready \<and> None \<noteq> Some c then 1 else 0)" by simp
  let ?tm = "tm(c \<mapsto> t\<lparr>t_state := BlockedCall ep\<rparr>)"
    and ?e = "e\<lparr>ep_pending_callers := rest, ep_active_caller := Some c, ep_active_server := Some s\<rparr>"
  have other: "ep_ok ?tm ep' e'" if "em ep' = Some e'" "ep' \<noteq> ep" for ep' e'
  proof -
    have "ep_ok tm ep' e'" using ipc that by (simp add: ipc_ok_def)
    with assms(6) st that(2) show ?thesis by (fastforce simp: ep_ok_def)
  qed
  have rest: "c' \<noteq> c" "length m = 6" "\<exists>v. tm c' = Some v \<and> t_state v = BlockedSend ep" if "(c', m) \<in> set rest" for c' m
    using ep assms(5) that by (force simp: ep_ok_def)+
  have "distinct (map fst rest)" using ep assms(5) by (simp add: ep_ok_def)
  moreover have "\<exists>v. ?tm s = Some v \<and> \<not> is_zombie (t_state v)" using assms(2,3) by auto
  ultimately have "ep_ok ?tm ep ?e" using rest unfolding ep_ok_def by auto
  moreover have "task_ipc_ok (em(ep \<mapsto> ?e)) x (t_state v)" if "?tm x = Some v" for x v
  proof (cases "x = c")
    case True
    with that show ?thesis by (auto simp: task_ipc_ok_def)
  next
    case False
    with that have "tm x = Some v" by simp
    then have "task_ipc_ok em x (t_state v)" using ipc by (simp add: ipc_ok_def)
    with assms(4,5) False show ?thesis by (cases "t_state v") (auto simp: task_ipc_ok_def)
  qed
  ultimately show "ipc_ok ?tm (em(ep \<mapsto> ?e))" using other by (auto simp: ipc_ok_def)
qed auto

text \<open>The server's reply wakes its caller.\<close>

lemma core_reply:
  assumes "core None tm q em ws sl" and "em ep = Some e" and "ep_active_caller e = Some c" and "tm c = Some t"
  shows "core None (tm(c \<mapsto> t\<lparr>t_state := Ready\<rparr>)) (c # q)
    (em(ep \<mapsto> e\<lparr>ep_active_server := None, ep_active_caller := None\<rparr>)) ws sl"
proof (rule core_ipc [OF assms(1,4,2)])
  have ipc: "ipc_ok tm em" using assms(1) by (simp add: core_def)
  have ep: "ep_ok tm ep e" using ipc assms(2) by (simp add: ipc_ok_def)
  with assms(3,4) have st: "t_state t = BlockedCall ep" by (auto simp: ep_ok_def)
  then show "\<not> is_zombie (t_state t)" "t_state t \<noteq> BlockedInput" by auto
  have "count_list q c = 0" using assms(1,4) st by (auto simp: core_def queue_ok_def)
  then show "count_list (c # q) c = (if Ready = Ready \<and> None \<noteq> Some c then 1 else 0)" by simp
  let ?tm = "tm(c \<mapsto> t\<lparr>t_state := Ready\<rparr>)"
    and ?e = "e\<lparr>ep_active_server := None, ep_active_caller := None\<rparr>"
  have other: "ep_ok ?tm ep' e'" if "em ep' = Some e'" "ep' \<noteq> ep" for ep' e'
  proof -
    have "ep_ok tm ep' e'" using ipc that by (simp add: ipc_ok_def)
    with assms(4) st that(2) show ?thesis by (fastforce simp: ep_ok_def)
  qed
  have "ep_ok ?tm ep ?e" using ep assms(4) st by (fastforce simp: ep_ok_def)
  moreover have "task_ipc_ok (em(ep \<mapsto> ?e)) x (t_state v)" if "?tm x = Some v" for x v
    using that ipc assms(2) by (fastforce simp: ipc_ok_def task_ipc_ok_def split: if_splits task_state.splits)
  ultimately show "ipc_ok ?tm (em(ep \<mapsto> ?e))" using other by (auto simp: ipc_ok_def)
qed auto

lemma with_task_Some: "tmap (k_tasks k) x = Some t \<Longrightarrow> with_task x f k = Some (upd_task x f k)"
  by (simp add: with_task_def find_task_tmap)

text \<open>The frame pointer a handler stores is the one the task has.\<close>

lemma update_first_idem: "find p xs = Some x \<Longrightarrow> f x = x \<Longrightarrow> update_first p f xs = xs"
  by (induction xs) (auto split: if_splits)

lemma stash_idem: "tmap (k_tasks k) c = Some t \<Longrightarrow> t_saved_rsp t = fp \<Longrightarrow> upd_task c (\<lambda>t. t\<lparr>t_saved_rsp := fp\<rparr>) k = k"
  using update_first_idem [of "\<lambda>t. t_id t = c" "k_tasks k" t] by (simp add: upd_task_def tmap_def)

text \<open>The common end of a blocking call.\<close>

lemma switch_returns:
  assumes "ids_ok k" and "core_ok None k" and "run_ok (tmap (k_tasks k)) None" and "k_current k = None"
  shows "returns_ok (switch_away k)"
  using switch_away_ok [OF assms] by (auto simp: returns_ok_def)

lemmas call_defs = set_current_def upd_task_def set_ep_def make_ready_def set_frame_def

lemma call_send_ok:
  assumes "at_rest k" and "k_current k = Some c" and "length msg = 6"
    and e: "emap (k_endpoints k) ep = Some e"
    and none: "find (\<lambda>t. recv_on ep (t_state t)) (k_tasks k) = None"
  shows "returns_ok (with_task c (\<lambda>t. t\<lparr>t_state := BlockedSend ep\<rparr>)
      (set_ep ep (e\<lparr>ep_pending_callers := ep_pending_callers e @ [(c, msg)]\<rparr>) k)
    \<bind> (\<lambda>k. switch_away (set_current None k)))"
proof -
  obtain t where t: "tmap (k_tasks k) c = Some t" "t_state t = Running" using running [OF assms(1,2)] by blast
  have d: "distinct (map t_id (k_tasks k))" and ids: "ids_ok k" and co: "core_ok None k"
    and run: "run_ok (tmap (k_tasks k)) (Some c)" using assms(1,2) by (auto simp: at_rest_def ids_ok_def)
  define k2 where "k2 = set_ep ep (e\<lparr>ep_pending_callers := ep_pending_callers e @ [(c, msg)]\<rparr>) k"
  define k3 where "k3 = set_current None (upd_task c (\<lambda>t. t\<lparr>t_state := BlockedSend ep\<rparr>) k2)"
  have "\<not> recv_on ep (t_state u)" if "tmap (k_tasks k) x = Some u" for x u
    using find_tmap(2) [OF d none that] by simp
  from core_send [OF co t e assms(3) this] have "core_ok None k3"
    using t(1) e by (simp add: k3_def k2_def call_defs)
  moreover have "ids_ok k3"
    by (rule ids_ok_tasks [OF ids]) (auto simp: k3_def k2_def call_defs)
  moreover have "run_ok (tmap (k_tasks k3)) None"
    using run_ok_leave [OF run, of "t\<lparr>t_state := BlockedSend ep\<rparr>"] t(1)
    by (simp add: k3_def k2_def call_defs)
  ultimately have "returns_ok (switch_away k3)"
    by (intro switch_returns) (simp_all add: k3_def set_current_def)
  moreover have "tmap (k_tasks k2) c = Some t" using t(1) by (simp add: k2_def set_ep_def)
  ultimately show ?thesis by (simp add: with_task_Some k3_def k2_def)
qed

lemma call_meet_ok:
  assumes "at_rest k" and "k_current k = Some c"
    and e: "emap (k_endpoints k) ep = Some e"
    and some: "find (\<lambda>t. recv_on ep (t_state t)) (k_tasks k) = Some w"
    and k2: "k2 = make_ready (t_id w) True ((set_frame (t_saved_rsp w) (message_frame c msg) k)
      \<lparr>k_tasks := update_first (\<lambda>t. recv_on ep (t_state t)) (\<lambda>t. t\<lparr>t_state := Ready\<rparr>) (k_tasks k)\<rparr>)"
  shows "returns_ok (with_task c (\<lambda>t. t\<lparr>t_state := BlockedCall ep\<rparr>)
      (set_ep ep (e\<lparr>ep_active_caller := Some c, ep_active_server := Some (t_id w)\<rparr>) k2)
    \<bind> (\<lambda>k. switch_away (set_current None k)))"
proof -
  obtain t where t: "tmap (k_tasks k) c = Some t" "t_state t = Running" using running [OF assms(1,2)] by blast
  have d: "distinct (map t_id (k_tasks k))" and ids: "ids_ok k" and co: "core_ok None k"
    and run: "run_ok (tmap (k_tasks k)) (Some c)" using assms(1,2) by (auto simp: at_rest_def ids_ok_def)
  have w: "tmap (k_tasks k) (t_id w) = Some w" "recv_on ep (t_state w)" using find_tmap(1) [OF d some] by auto
  then have wr: "\<not> referenced (t_state w)" "t_state w \<noteq> Ready" "t_state w \<noteq> Running" by (cases "t_state w"; simp)+
  then have wc: "t_id w \<noteq> c" using w t by auto
  define tm where "tm = (tmap (k_tasks k))(t_id w \<mapsto> w\<lparr>t_state := Ready\<rparr>)"
  have tm2: "tmap (k_tasks k2) = tm"
    using w(1) by (simp add: k2 call_defs update_first_at [OF d some] tm_def)
  have c1: "core None tm (t_id w # k_ready k) (emap (k_endpoints k)) (in_waiters (k_input k)) (k_next_kslot k)"
    using core_wake_list [OF co, of "[t_id w]"] w(1) wr by (simp add: upd1_def tm_def)
  have tc: "tm c = Some t" "tm (t_id w) = Some (w\<lparr>t_state := Ready\<rparr>)" using t(1) wc by (simp_all add: tm_def)
  define k3 where "k3 = set_ep ep (e\<lparr>ep_active_caller := Some c, ep_active_server := Some (t_id w)\<rparr>) k2"
  define k4 where "k4 = set_current None (upd_task c (\<lambda>t. t\<lparr>t_state := BlockedCall ep\<rparr>) k3)"
  have k2f: "k_endpoints k2 = k_endpoints k" "k_ready k2 = t_id w # k_ready k" "k_input k2 = k_input k"
    "k_next_kslot k2 = k_next_kslot k" "map t_id (k_tasks k2) = map t_id (k_tasks k)"
    "k_next_tid k2 = k_next_tid k" by (simp_all add: k2 call_defs)
  have k4f: "tmap (k_tasks k4) = tm(c \<mapsto> t\<lparr>t_state := BlockedCall ep\<rparr>)"
    using tc by (simp add: k4_def k3_def set_current_def upd_task_def set_ep_def tm2)
  have "core_ok None k4"
    unfolding k4f
    using core_call [OF c1 tc(1) t(2) tc(2) _ e] e
    by (simp add: k4_def k3_def set_current_def upd_task_def set_ep_def k2f)
  moreover have "ids_ok k4"
    by (rule ids_ok_tasks [OF ids])
      (use find_SomeD [OF some] in \<open>auto simp: k4_def k3_def set_current_def upd_task_def set_ep_def k2f\<close>)
  moreover have "run_ok tm (Some c)" using run wc by (auto simp: run_ok_def tm_def)
  then have "run_ok (tmap (k_tasks k4)) None" unfolding k4f by (rule run_ok_leave) simp
  ultimately have "returns_ok (switch_away k4)"
    by (intro switch_returns) (simp_all add: k4_def set_current_def)
  moreover have "tmap (k_tasks k3) c = Some t" using tc tm2 by (simp add: k3_def set_ep_def)
  ultimately show ?thesis by (simp add: with_task_Some k4_def k3_def)
qed

lemma ipc_call_ok:
  assumes "at_rest k" and "k_current k = Some c" and "fp = k_rsp0 k - FRAME_BYTES"
  shows "returns_ok (ipc_call c fp a k)"
proof (cases "get_endpoint_cap c (a ! 0) R_WRITE k")
  case (Inl e)
  with assms show ?thesis by (simp add: ipc_call_def Let_def returns_ok_ret)
next
  case (Inr ep)
  obtain e where e: "emap (k_endpoints k) ep = Some e" using get_endpoint_cap_ok [OF assms(1) Inr] by blast
  obtain t where t: "tmap (k_tasks k) c = Some t" "t_saved_rsp t = fp"
    using running [OF assms(1,2)] assms(3) by blast
  have k: "with_task c (\<lambda>t. t\<lparr>t_saved_rsp := fp\<rparr>) k = Some k"
    using with_task_Some [OF t(1)] stash_idem [OF t] by simp
  show ?thesis
  proof (cases "find (\<lambda>t. recv_on ep (t_state t)) (k_tasks k)")
    case None
    with call_send_ok [OF assms(1,2) _ e None] Inr k e show ?thesis
      by (simp add: ipc_call_def Let_def get_ep_emap)
  next
    case (Some w)
    from call_meet_ok [OF assms(1,2) e Some refl] Inr k e Some show ?thesis
      by (simp add: ipc_call_def Let_def get_ep_emap set_frame_def)
  qed
qed

lemma ipc_recv_ok:
  assumes "at_rest k" and "k_current k = Some c" and "fp = k_rsp0 k - FRAME_BYTES"
  shows "returns_ok (ipc_recv c fp slot deadline k)"
proof (cases "get_endpoint_cap c slot R_READ k")
  case (Inl e)
  with assms show ?thesis by (simp add: ipc_recv_def returns_ok_ret)
next
  case (Inr ep)
  obtain e where e: "emap (k_endpoints k) ep = Some e" using get_endpoint_cap_ok [OF assms(1) Inr] by blast
  obtain u where u: "tmap (k_tasks k) c = Some u" "t_state u = Running" using running [OF assms(1,2)] by blast
  have co: "core_ok None k" and ids: "ids_ok k" and run: "run_ok (tmap (k_tasks k)) (Some c)"
    and r0: "rsp0_ok (tmap (k_tasks k)) (Some c) (k_rsp0 k)" using assms(1,2) by (auto simp: at_rest_def)
  show ?thesis
  proof (cases "ep_pending_callers e")
    case Nil
    have "returns_ok (with_task c (\<lambda>t. t\<lparr>t_saved_rsp := fp, t_state := BlockedRecv ep deadline\<rparr>) k \<bind>
      (\<lambda>k. switch_away (set_current None k)))"
      using e Nil by (intro block_current [OF assms]) (auto simp: task_ipc_ok_def)
    with Nil Inr e assms show ?thesis
      by (simp add: ipc_recv_def get_ep_emap returns_ok_ret)
  next
    case (Cons p rest)
    obtain caller msg where p: "p = (caller, msg)" by (cases p)
    have "ep_ok (tmap (k_tasks k)) ep e" using co e by (simp add: core_def ipc_ok_def)
    with Cons p obtain t where t: "tmap (k_tasks k) caller = Some t" "t_state t = BlockedSend ep"
      by (auto simp: ep_ok_def)
    with u have cc: "caller \<noteq> c" by auto
    define k2 where "k2 = upd_task caller (\<lambda>t. t\<lparr>t_state := BlockedCall ep\<rparr>)
      (set_ep ep (e\<lparr>ep_pending_callers := rest, ep_active_caller := Some caller, ep_active_server := Some c\<rparr>) k)"
    have "core_ok None k2"
      using core_accept [OF co u(1) _ e Cons [unfolded p] t(1)] u(2) t(1) e
      by (simp add: k2_def upd_task_def set_ep_def)
    moreover have "ids_ok k2" by (rule ids_ok_tasks [OF ids]) (auto simp: k2_def upd_task_def set_ep_def)
    moreover have "run_ok (tmap (k_tasks k2)) (Some c)" "rsp0_ok (tmap (k_tasks k2)) (Some c) (k_rsp0 k)"
      using run r0 t cc by (auto simp: k2_def upd_task_def set_ep_def run_ok_def rsp0_ok_def)
    ultimately have "at_rest k2" "k_rsp0 k2 = k_rsp0 k"
      using assms(2) by (simp_all add: at_rest_def k2_def upd_task_def set_ep_def)
    then show ?thesis
      using Inr e Cons p assms by (simp add: ipc_recv_def get_ep_emap returns_ok_ret returns_ok_stay k2_def [symmetric])
  qed
qed

lemma ipc_reply_ok:
  assumes "at_rest k" and "k_current k = Some c" and "fp = k_rsp0 k - FRAME_BYTES"
  shows "returns_ok (ipc_reply c fp a k)"
proof (cases "get_endpoint_cap c (a ! 0) R_WRITE k")
  case (Inl e)
  with assms show ?thesis by (simp add: ipc_reply_def Let_def returns_ok_ret)
next
  case (Inr ep)
  obtain e where e: "emap (k_endpoints k) ep = Some e" using get_endpoint_cap_ok [OF assms(1) Inr] by blast
  obtain u where u: "tmap (k_tasks k) c = Some u" "t_state u = Running" using running [OF assms(1,2)] by blast
  have co: "core_ok None k" and ids: "ids_ok k" and run: "run_ok (tmap (k_tasks k)) (Some c)"
    and r0: "rsp0_ok (tmap (k_tasks k)) (Some c) (k_rsp0 k)" using assms(1,2) by (auto simp: at_rest_def)
  show ?thesis
  proof (cases "ep_active_server e = Some c")
    case False
    with Inr e assms show ?thesis by (simp add: ipc_reply_def Let_def get_ep_emap returns_ok_ret)
  next
    case True
    have "ep_ok (tmap (k_tasks k)) ep e" using co e by (simp add: core_def ipc_ok_def)
    with True obtain cid t where cid: "ep_active_caller e = Some cid" "tmap (k_tasks k) cid = Some t"
      "t_state t = BlockedCall ep" by (auto simp: ep_ok_def)
    with u have cc: "cid \<noteq> c" by auto
    define k2 where "k2 = make_ready cid True (upd_task cid (\<lambda>t. t\<lparr>t_state := Ready\<rparr>)
      (set_frame (t_saved_rsp t) (reply_frame [a ! 1, a ! 2, a ! 3, a ! 4, a ! 5])
        (set_ep ep (e\<lparr>ep_active_server := None, ep_active_caller := None\<rparr>) k)))"
    have "core_ok None k2"
      using core_reply [OF co e cid(1,2)] cid(2) e by (simp add: k2_def call_defs)
    moreover have "cid \<in> t_id ` set (k_tasks k)" using cid(2) tmap_None [of "k_tasks k" cid] by auto
    then have "ids_ok k2" by (intro ids_ok_tasks [OF ids]) (auto simp: k2_def call_defs)
    moreover have "run_ok (tmap (k_tasks k2)) (Some c)" "rsp0_ok (tmap (k_tasks k2)) (Some c) (k_rsp0 k)"
      using run r0 cid cc by (auto simp: k2_def call_defs run_ok_def rsp0_ok_def)
    ultimately have "at_rest k2" "k_rsp0 k2 = k_rsp0 k"
      using assms(2) by (simp_all add: at_rest_def k2_def call_defs)
    moreover have "ipc_reply c fp a k = ret fp E_OK k2"
      using Inr e True cid by (simp add: ipc_reply_def Let_def get_ep_emap find_task_tmap set_ep_def k2_def)
    ultimately show ?thesis using assms(3) by (simp add: returns_ok_ret)
  qed
qed

end
