(* ===== verification/Kernel_Life.thy ===== *)
theory Kernel_Life
  imports Kernel_Steps
begin

text \<open>
  The invariant through the keyboard path, the death of a task and the birth of one.
\<close>

section \<open>Input\<close>

lemma core_park:
  assumes "core None tm q em ws sl" and "tm c = Some t" and "t_state t = Running"
    and "w_tid w = c" and "w_cr3 w = t_cr3 t" and "user_range_valid (w_buf w) (w_len w)"
  shows "core None (tm(c \<mapsto> t\<lparr>t_state := BlockedInput\<rparr>)) q em (ws @ [w]) sl"
proof -
  let ?t = "t\<lparr>t_state := BlockedInput\<rparr>"
  from assms(1) have c: "queue_ok None tm q" "ipc_ok tm em" "fam_ok tm" "input_ok tm ws" "caps_ok tm em"
    "stack_ok tm sl" by (auto simp: core_def)
  have "count_list q c = 0" using c(1) assms(2,3) by (auto simp: queue_ok_def)
  then have "queue_ok None (tm(c \<mapsto> ?t)) q" by (intro queue_ok_upd [OF c(1) assms(2)]) auto
  moreover have "ipc_ok (tm(c \<mapsto> ?t)) em"
    using assms(3) by (intro ipc_ok_upd [OF c(2) assms(2)]) (auto simp: task_ipc_ok_def)
  moreover have "fam_ok (tm(c \<mapsto> ?t))" using assms(3) by (intro fam_ok_upd [OF c(3) assms(2)]) auto
  moreover have "caps_ok (tm(c \<mapsto> ?t)) em" by (rule caps_ok_upd [OF c(5) assms(2)]) simp
  moreover have "stack_ok (tm(c \<mapsto> ?t)) sl" by (rule stack_ok_upd [OF c(6) assms(2)]) simp_all
  moreover have "input_ok (tm(c \<mapsto> ?t)) (ws @ [w])"
    using c(4) assms(2-6) unfolding input_ok_def by (auto split: if_splits)
  ultimately show ?thesis by (simp add: core_def)
qed

lemma sys_input_read_ok:
  assumes "at_rest k" and "k_current k = Some c" and "fp = k_rsp0 k - FRAME_BYTES"
  shows "returns_ok (sys_input_read c fp a k)"
proof -
  obtain t where t: "tmap (k_tasks k) c = Some t" "t_state t = Running" "t_saved_rsp t = fp"
    using running [OF assms(1,2)] assms(3) by blast
  let ?len = "min (a ! 1) 512"
  have ret: "returns_ok (ret fp v k')" if "quiet k k'" for v k' using assms that by (intro returns_ok_ret)
  have qf: "quiet k (snd (fill_from_queue cr3 buf len k))" for cr3 buf len
    by (rule quiet_fill) (rule prod.collapse [symmetric])
  have parked: "returns_ok (with_task c (\<lambda>t. t\<lparr>t_saved_rsp := fp, t_state := BlockedInput\<rparr>) k1 \<bind>
      (\<lambda>k. switch_away (set_current None k)))"
    if v: "user_range_valid (a ! 0) ?len" and k1: "k1 = k\<lparr>k_input := (k_input k)\<lparr>in_waiters := in_waiters (k_input k) @
      [\<lparr>w_tid = c, w_buf = a ! 0, w_len = ?len, w_cr3 = t_cr3 t\<rparr>]\<rparr>\<rparr>" for k1
  proof -
    have co: "core_ok None k" and ids: "ids_ok k" and run: "run_ok (tmap (k_tasks k)) (Some c)"
      using assms(1,2) by (auto simp: at_rest_def)
    have sr: "t\<lparr>t_saved_rsp := fp, t_state := BlockedInput\<rparr> = t\<lparr>t_state := BlockedInput\<rparr>" using t(3) by simp
    define k2 where "k2 = set_current None (upd_task c (\<lambda>t. t\<lparr>t_saved_rsp := fp, t_state := BlockedInput\<rparr>) k1)"
    have "core_ok None k2"
      using core_park [OF co t(1,2), of "\<lparr>w_tid = c, w_buf = a ! 0, w_len = ?len, w_cr3 = t_cr3 t\<rparr>"] v t(1) sr
      by (simp add: k2_def k1 call_defs)
    moreover have "c \<in> t_id ` set (k_tasks k)" using t(1) tmap_None [of "k_tasks k" c] by auto
    then have "ids_ok k2" by (intro ids_ok_tasks [OF ids]) (auto simp: k2_def k1 call_defs)
    moreover have "run_ok (tmap (k_tasks k2)) None"
      using run_ok_leave [OF run, of "t\<lparr>t_state := BlockedInput\<rparr>"] t(1) sr by (simp add: k2_def k1 call_defs)
    ultimately have "returns_ok (switch_away k2)"
      by (intro switch_returns) (simp_all add: k2_def set_current_def)
    then show ?thesis using t(1) by (simp add: with_task_def find_task_tmap k1 k2_def)
  qed
  show ?thesis
    unfolding sys_input_read_def Let_def find_task_tmap t(1) option.case
      try_read_def request_read_def case_prod_beta
    using ret qf parked by simp
qed

lemma core_deliver:
  assumes "core None tm q em (w # ws) sl" and "tm (w_tid w) = Some t" and "t_state t = BlockedInput"
  shows "core None (tm(w_tid w \<mapsto> t\<lparr>t_state := Ready\<rparr>)) (w_tid w # q) em ws sl"
proof -
  let ?t = "t\<lparr>t_state := Ready\<rparr>"
  from assms(1) have c: "queue_ok None tm q" "ipc_ok tm em" "fam_ok tm" "input_ok tm (w # ws)" "caps_ok tm em"
    "stack_ok tm sl" by (auto simp: core_def)
  have "count_list q (w_tid w) = 0" using c(1) assms(2,3) by (auto simp: queue_ok_def)
  then have "queue_ok None (tm(w_tid w \<mapsto> ?t)) (w_tid w # q)" by (intro queue_ok_upd [OF c(1) assms(2)]) auto
  moreover have "ipc_ok (tm(w_tid w \<mapsto> ?t)) em"
  proof -
    have "ep_ok (tm(w_tid w \<mapsto> ?t)) ep e" if "em ep = Some e" for ep e
    proof -
      have "ep_ok tm ep e" using c(2) that by (simp add: ipc_ok_def)
      with assms(2,3) show ?thesis by (fastforce simp: ep_ok_def)
    qed
    with c(2) show ?thesis by (simp add: ipc_ok_def task_ipc_ok_def)
  qed
  moreover have "fam_ok (tm(w_tid w \<mapsto> ?t))" using assms(3) by (intro fam_ok_upd [OF c(3) assms(2)]) auto
  moreover have "caps_ok (tm(w_tid w \<mapsto> ?t)) em" by (rule caps_ok_upd [OF c(5) assms(2)]) simp
  moreover have "stack_ok (tm(w_tid w \<mapsto> ?t)) sl" by (rule stack_ok_upd [OF c(6) assms(2)]) simp_all
  moreover have "input_ok (tm(w_tid w \<mapsto> ?t)) ws"
    using c(4) unfolding input_ok_def by (auto simp: image_iff split: if_splits)
  ultimately show ?thesis by (simp add: core_def)
qed

lemma core_deliver_stale:
  assumes "core None tm q em (w # ws) sl" and "\<And>t. tm (w_tid w) = Some t \<Longrightarrow> is_zombie (t_state t)"
  shows "core None tm (w_tid w # q) em ws sl"
proof -
  from assms(1) have c: "queue_ok None tm q" "input_ok tm (w # ws)" by (auto simp: core_def)
  have "queue_ok None tm (w_tid w # q)" using c(1) assms(2) by (auto simp: queue_ok_def)
  moreover have "input_ok tm ws" using c(2) assms(2) unfolding input_ok_def by fastforce
  ultimately show ?thesis using assms(1) by (simp add: core_def)
qed

lemma deliver_to_ok:
  assumes "ids_ok k" and "core None (tmap (k_tasks k)) (k_ready k) (emap (k_endpoints k)) (w # in_waiters (k_input k)) (k_next_kslot k)"
    and "run_ok (tmap (k_tasks k)) (k_current k)" and "rsp0_ok (tmap (k_tasks k)) (k_current k) (k_rsp0 k)"
    and "w_tid w < k_next_tid k"
  shows "at_rest (deliver_to w k) \<and> k_current (deliver_to w k) = k_current k \<and> k_rsp0 (deliver_to w k) = k_rsp0 k"
proof -
  obtain n k1 where f: "fill_from_queue (w_cr3 w) (w_buf w) (w_len w) k = (n, k1)" by fastforce
  then have q: "k_tasks k1 = k_tasks k" "k_ready k1 = k_ready k" "k_endpoints k1 = k_endpoints k"
    "in_waiters (k_input k1) = in_waiters (k_input k)" "k_next_kslot k1 = k_next_kslot k"
    "k_next_tid k1 = k_next_tid k" "k_current k1 = k_current k" "k_rsp0 k1 = k_rsp0 k"
    using quiet_fill [OF f] by (auto simp: quiet_def)
  have io: "input_ok (tmap (k_tasks k)) (w # in_waiters (k_input k))" using assms(2) by (simp add: core_def)
  show ?thesis
  proof (cases "\<exists>t. tmap (k_tasks k) (w_tid w) = Some t \<and> t_state t = BlockedInput")
    case True
    then obtain t where t: "tmap (k_tasks k) (w_tid w) = Some t" "t_state t = BlockedInput" by blast
    have nc: "k_current k \<noteq> Some (w_tid w)" using assms(3) t by (fastforce simp: run_ok_def)
    have d: "deliver_to w k = make_ready (w_tid w) True (upd_task (w_tid w) (\<lambda>t. t\<lparr>t_state := Ready\<rparr>)
        (set_frame (t_saved_rsp t) (\<lambda>f. f\<lparr>tf_rax := n\<rparr>) k1))"
      using t q(1) by (simp add: deliver_to_def f find_task_tmap Let_def)
    have "w_tid w \<in> t_id ` set (k_tasks k)" using t(1) tmap_None [of "k_tasks k" "w_tid w"] by auto
    then have "ids_ok (deliver_to w k)" by (intro ids_ok_tasks [OF assms(1)]) (auto simp: d call_defs q)
    moreover have "run_ok ((tmap (k_tasks k))(w_tid w \<mapsto> t\<lparr>t_state := Ready\<rparr>)) (k_current k)"
      "rsp0_ok ((tmap (k_tasks k))(w_tid w \<mapsto> t\<lparr>t_state := Ready\<rparr>)) (k_current k) (k_rsp0 k)"
      using assms(3,4) nc t by (auto simp: run_ok_def rsp0_ok_def)
    ultimately show ?thesis
      using core_deliver [OF assms(2) t] t(1) by (simp add: at_rest_def d call_defs q)
  next
    case False
    then have d: "deliver_to w k = make_ready (w_tid w) True k1"
      using q(1) by (auto simp: deliver_to_def f find_task_tmap Let_def split: option.splits)
    have "is_zombie (t_state t)" if "tmap (k_tasks k) (w_tid w) = Some t" for t
      using io False that by (auto simp: input_ok_def)
    from core_deliver_stale [OF assms(2) this] assms
    have "core_ok None (deliver_to w k)" by (simp add: d call_defs q)
    moreover have "ids_ok (deliver_to w k)" using assms(1,5) by (auto simp: d call_defs q ids_ok_def)
    ultimately show ?thesis using assms(3,4) by (simp add: at_rest_def d call_defs q)
  qed
qed

lemma at_rest_input [simp]:
  "in_waiters i = in_waiters (k_input k) \<Longrightarrow> at_rest (k\<lparr>k_input := i\<rparr>) = at_rest k"
  by (simp add: at_rest_def ids_ok_def)

lemma on_scancode_ok:
  assumes "at_rest k"
  shows "at_rest (on_scancode sc k) \<and> k_current (on_scancode sc k) = k_current k \<and>
    k_rsp0 (on_scancode sc k) = k_rsp0 k"
proof -
  have enq: "at_rest (enqueue b k) \<and> k_current (enqueue b k) = k_current k \<and> k_rsp0 (enqueue b k) = k_rsp0 k" for b
  proof (cases "in_waiters (k_input k)")
    case Nil
    with assms show ?thesis by (simp add: enqueue_def Let_def)
  next
    case (Cons w ws)
    have "ids_ok k" "core_ok None k" "run_ok (tmap (k_tasks k)) (k_current k)"
      "rsp0_ok (tmap (k_tasks k)) (k_current k) (k_rsp0 k)" using assms by (auto simp: at_rest_def)
    moreover from this(1) Cons have "w_tid w < k_next_tid k"
      "ids_ok (k\<lparr>k_input := (k_input k)\<lparr>in_queue := q, in_waiters := ws\<rparr>\<rparr>)" for q
      by (auto simp: ids_ok_def)
    ultimately show ?thesis
      using Cons deliver_to_ok [of "k\<lparr>k_input := (k_input k)\<lparr>in_queue := q, in_waiters := ws\<rparr>\<rparr>" w for q]
      by (simp add: enqueue_def Let_def)
  qed
  with assms show ?thesis by (simp add: on_scancode_def Let_def split: option.split)
qed

end
