(* ===== verification/Kernel_Death.thy ===== *)
theory Kernel_Death
  imports Kernel_Life
begin

text \<open>
  The death of a task: \<^verbatim>\<open>terminate_lifecycle\<close>, \<^verbatim>\<open>exit_task\<close> and \<^verbatim>\<open>sys_kill\<close> keep
  the kernel invariant. The orphaning of children, the reaping of dead children, the waking
  of stranded callers and the delivery of the exit code are described on the views of the
  tables first.
\<close>

section \<open>Death\<close>

text \<open>The first critical section on maps: the victim is dead, its children have no parent.\<close>

definition orphan :: "usize \<Rightarrow> task \<Rightarrow> task" where
  "orphan tid u = (if t_parent u = Some tid then u\<lparr>t_parent := None\<rparr> else u)"

lemma orphan_simps [simp]:
  "t_id (orphan tid u) = t_id u" "t_state (orphan tid u) = t_state u" "t_caps (orphan tid u) = t_caps u"
  "t_cr3 (orphan tid u) = t_cr3 u" "t_kstack_top (orphan tid u) = t_kstack_top u"
  "t_saved_rsp (orphan tid u) = t_saved_rsp u" "t_parent (orphan tid u) \<noteq> Some tid"
  by (auto simp: orphan_def)

lemma orphan_parent: "t_parent (orphan tid t) = Some p \<longleftrightarrow> t_parent t = Some p \<and> p \<noteq> tid"
  by (auto simp: orphan_def)

definition dead_map :: "usize \<Rightarrow> u64 \<Rightarrow> (usize \<rightharpoonup> task) \<Rightarrow> usize \<rightharpoonup> task" where
  "dead_map tid code tm =
     (\<lambda>x. map_option (orphan tid) ((tm(tid := map_option (\<lambda>t. t\<lparr>t_state := Zombie code\<rparr>) (tm tid))) x))"

definition dead_kids :: "usize \<Rightarrow> (usize \<rightharpoonup> task) \<Rightarrow> usize set" where
  "dead_kids tid tm = {x. \<exists>u. tm x = Some u \<and> t_parent u = Some tid \<and> is_zombie (t_state u)}"

lemma tmap_fold_orphan:
  "tmap (fold orphan_child kids ts) = (\<lambda>x. if x \<in> set kids then map_option (\<lambda>u. u\<lparr>t_parent := None\<rparr>) (tmap ts x) else tmap ts x)"
proof (induction kids arbitrary: ts)
  case (Cons a kids)
  show ?case
    unfolding fold_simps o_apply Cons.IH
    by (auto simp: orphan_child_def fun_eq_iff option.map_comp o_def)
qed (simp add: fun_eq_iff)

lemma kids_of_mem:
  "distinct (map t_id ts) \<Longrightarrow> x \<in> set (kids_of tid ts) \<longleftrightarrow> (\<exists>u. tmap ts x = Some u \<and> t_parent u = Some tid)"
  by (auto simp: kids_of_def tmap_mem)

lemma kids_of_distinct: "distinct (map t_id ts) \<Longrightarrow> distinct (kids_of tid ts)"
  by (simp add: kids_of_def distinct_map_filter)

lemma map_id_orphan: "map t_id (fold orphan_child kids ts) = map t_id ts"
  by (induction kids arbitrary: ts) (auto simp: orphan_child_def)

lemma die_spec:
  assumes "distinct (map t_id ts)" and "tmap ts tid = Some me" and "t_parent me \<noteq> Some tid"
    and "die tid code ts = (fate, dead, ts')"
  shows "tmap ts' = dead_map tid code (tmap ts) \<and> map t_id ts' = map t_id ts \<and>
    set dead = dead_kids tid (tmap ts) \<and> distinct dead \<and> fate = fate_of (t_parent me) ts'"
proof -
  define ts1 where "ts1 = update_first (\<lambda>t. t_id t = tid) (\<lambda>t. t\<lparr>t_state := Zombie code\<rparr>) ts"
  have d1: "distinct (map t_id ts1)" using assms(1) by (simp add: ts1_def)
  have tm1: "tmap ts1 = (tmap ts)(tid \<mapsto> me\<lparr>t_state := Zombie code\<rparr>)" using assms(2) by (simp add: ts1_def)
  have r: "ts' = fold orphan_child (kids_of tid ts1) ts1" "dead = filter (zombie_id ts1) (kids_of tid ts1)"
    "fate = fate_of (t_parent me) ts'"
    using assms(2,4) by (auto simp: die_def ts1_def tmap_def Let_def)
  have "tmap ts' = dead_map tid code (tmap ts)"
    unfolding r(1) tmap_fold_orphan
    using assms(2,3) kids_of_mem [OF d1, of _ tid] tm1
    by (auto simp: fun_eq_iff dead_map_def orphan_def map_option_case split: option.splits)
  moreover have "set dead = dead_kids tid (tmap ts)"
    unfolding r(2) dead_kids_def
    using assms(3) kids_of_mem [OF d1, of _ tid] tm1 assms(2)
    by (auto simp: zombie_id_def tmap_def [symmetric] split: if_splits)
  moreover have "distinct dead" using kids_of_distinct [OF d1] by (simp add: r(2))
  ultimately show ?thesis using r by (simp add: map_id_orphan ts1_def)
qed

text \<open>The endpoints after the victim has been taken out, and the callers it leaves stranded.\<close>

definition abort_map :: "usize \<Rightarrow> (u64 \<rightharpoonup> endpoint) \<Rightarrow> u64 \<rightharpoonup> endpoint" where
  "abort_map tid em = (\<lambda>ep. map_option (\<lambda>e. snd (abort_endpoint tid e)) (em ep))"

definition stranded :: "usize \<Rightarrow> (u64 \<rightharpoonup> endpoint) \<Rightarrow> usize set" where
  "stranded tid em = {c. c \<noteq> tid \<and> (\<exists>ep e. em ep = Some e \<and> ep_active_server e = Some tid \<and> ep_active_caller e = Some c)}"

lemma abort_endpoint_sel:
  "ep_pending_callers (snd (abort_endpoint tid e)) = filter (\<lambda>(caller, _). caller \<noteq> tid) (ep_pending_callers e)"
  "ep_active_caller (snd (abort_endpoint tid e)) =
     (if ep_active_caller e = Some tid \<or> ep_active_server e = Some tid then None else ep_active_caller e)"
  "ep_active_server (snd (abort_endpoint tid e)) =
     (if ep_active_caller e = Some tid \<or> ep_active_server e = Some tid then None else ep_active_server e)"
  "set (fst (abort_endpoint tid e)) =
     {c. c \<noteq> tid \<and> ep_active_server e = Some tid \<and> ep_active_caller e = Some c}"
  by (auto simp: abort_endpoint_def Let_def split: option.splits)

lemma abort_endpoint_list:
  "fst (abort_endpoint tid e) = [] \<or> (\<exists>c. fst (abort_endpoint tid e) = [c] \<and> ep_active_caller e = Some c)"
  by (auto simp: abort_endpoint_def Let_def split: option.splits)

lemma emap_map: "emap (map f eps) = (\<lambda>ep. map_option f (emap eps ep))"
  by (auto simp: emap_def fun_eq_iff)

lemma emap_ex:
  assumes "length eps < 2 ^ 64"
  shows "e \<in> set eps \<longleftrightarrow> (\<exists>ep. emap eps ep = Some e)"
proof
  assume "e \<in> set eps"
  then obtain i where i: "i < length eps" "eps ! i = e" by (auto simp: in_set_conv_nth)
  have "unat (of_nat i :: u64) = i" using i(1) assms by (simp add: unat_of_nat)
  with i show "\<exists>ep. emap eps ep = Some e" by (intro exI [of _ "of_nat i"]) (simp add: emap_def)
qed (auto simp: emap_def split: if_splits)

lemma stranded_mem:
  "c \<in> set (concat (map (\<lambda>e. fst (abort_endpoint tid e)) es)) \<Longrightarrow> \<exists>e \<in> set es. ep_active_caller e = Some c"
  by (auto simp: abort_endpoint_sel(4))

lemma stranded_distinct:
  assumes "\<And>i j c. i < length es \<Longrightarrow> j < length es \<Longrightarrow> ep_active_caller (es ! i) = Some c \<Longrightarrow>
      ep_active_caller (es ! j) = Some c \<Longrightarrow> i = j"
  shows "distinct (concat (map (\<lambda>e. fst (abort_endpoint tid e)) es))"
  using assms
proof (induction es)
  case (Cons e es)
  have inj: "i = j" if "i < length es" "j < length es" "ep_active_caller (es ! i) = Some c"
      "ep_active_caller (es ! j) = Some c" for i j c
    using Cons.prems [of "Suc i" "Suc j" c] that by simp
  have new: "c \<notin> set (concat (map (\<lambda>e. fst (abort_endpoint tid e)) es))" if "ep_active_caller e = Some c" for c
  proof
    assume "c \<in> set (concat (map (\<lambda>e. fst (abort_endpoint tid e)) es))"
    then obtain i where "i < length es" "ep_active_caller (es ! i) = Some c"
      using stranded_mem by (metis in_set_conv_nth)
    with Cons.prems [of 0 "Suc i" c] that show False by simp
  qed
  show ?case using abort_endpoint_list [of tid e]
  proof
    assume "fst (abort_endpoint tid e) = []"
    with Cons.IH [OF inj] show ?thesis by simp
  next
    assume "\<exists>c. fst (abort_endpoint tid e) = [c] \<and> ep_active_caller e = Some c"
    then obtain c where c: "fst (abort_endpoint tid e) = [c]" "ep_active_caller e = Some c" by blast
    show ?thesis using Cons.IH [OF inj] new [OF c(2)] c(1) by simp
  qed
qed simp

lemma stranded_list:
  assumes "length eps < 2 ^ 64" and "ipc_ok tm (emap eps)"
  shows "set (concat (map (\<lambda>e. fst (abort_endpoint tid e)) eps)) = stranded tid (emap eps)"
    and "distinct (concat (map (\<lambda>e. fst (abort_endpoint tid e)) eps))"
proof -
  show "set (concat (map (\<lambda>e. fst (abort_endpoint tid e)) eps)) = stranded tid (emap eps)"
    unfolding stranded_def using emap_ex [OF assms(1)] by (simp add: abort_endpoint_sel(4) set_eq_iff) blast
  show "distinct (concat (map (\<lambda>e. fst (abort_endpoint tid e)) eps))"
  proof (rule stranded_distinct)
    fix i j c
    assume ij: "i < length eps" "j < length eps" and c: "ep_active_caller (eps ! i) = Some c"
      "ep_active_caller (eps ! j) = Some c"
    have u: "unat (of_nat i :: u64) = i" "unat (of_nat j :: u64) = j" using ij assms(1) by (simp_all add: unat_of_nat)
    have "emap eps (of_nat i) = Some (eps ! i)" "emap eps (of_nat j) = Some (eps ! j)"
      using ij u by (simp_all add: emap_def)
    with assms(2) c have "\<exists>t. tm c = Some t \<and> t_state t = BlockedCall (of_nat i)"
      "\<exists>t. tm c = Some t \<and> t_state t = BlockedCall (of_nat j)"
      unfolding ipc_ok_def ep_ok_def by blast+
    then have "(of_nat i :: u64) = of_nat j" by auto
    with u show "i = j" by metis
  qed
qed

text \<open>
  The task table after the victim is dead, its dead children are gone and the callers it left
  stranded are awake.
\<close>

definition after_death :: "usize \<Rightarrow> u64 \<Rightarrow> (usize \<rightharpoonup> task) \<Rightarrow> (u64 \<rightharpoonup> endpoint) \<Rightarrow> usize \<rightharpoonup> task" where
  "after_death tid code tm em =
     (\<lambda>x. if x \<in> dead_kids tid tm then None
          else if x \<in> stranded tid em then map_option (\<lambda>t. (orphan tid t)\<lparr>t_state := Ready\<rparr>) (tm x)
          else dead_map tid code tm x)"

lemma stranded_state:
  assumes "ipc_ok tm em" and "x \<in> stranded tid em"
  shows "x \<noteq> tid \<and> (\<exists>ep e t. em ep = Some e \<and> ep_active_server e = Some tid \<and> ep_active_caller e = Some x \<and>
    tm x = Some t \<and> t_state t = BlockedCall ep)"
  using assms unfolding stranded_def ipc_ok_def ep_ok_def by blast

lemma after_death_Some:
  assumes "ipc_ok tm em" and "after_death tid code tm em x = Some u"
  shows "\<exists>t. tm x = Some t \<and> x \<notin> dead_kids tid tm \<and> t_id u = t_id t \<and> t_cr3 u = t_cr3 t \<and> t_caps u = t_caps t \<and>
    t_kstack_top u = t_kstack_top t \<and> t_saved_rsp u = t_saved_rsp t \<and>
    t_parent u = t_parent (orphan tid t) \<and>
    (if x \<in> stranded tid em then t_state u = Ready \<and> (\<exists>ep. t_state t = BlockedCall ep)
     else t_state u = (if x = tid then Zombie code else t_state t))"
proof (cases "tm x")
  case None
  with assms(2) show ?thesis by (auto simp: after_death_def dead_map_def split: if_splits)
next
  case (Some t)
  have d: "x \<notin> dead_kids tid tm" using assms(2) by (auto simp: after_death_def split: if_splits)
  show ?thesis
  proof (cases "x \<in> stranded tid em")
    case True
    with stranded_state [OF assms(1) True] obtain ep where "t_state t = BlockedCall ep" using Some by auto
    with True d Some assms(2) show ?thesis by (intro exI [of _ t]) (auto simp: after_death_def)
  next
    case False
    with d Some assms(2) show ?thesis
      by (intro exI [of _ t]) (auto simp: after_death_def dead_map_def orphan_def split: if_splits)
  qed
qed

lemma after_death_keep:
  assumes "ipc_ok tm em" and "tm x = Some t" and "x \<noteq> tid" and "\<not> is_zombie (t_state t)" and "x \<notin> stranded tid em"
  shows "\<exists>u. after_death tid code tm em x = Some u \<and> t_state u = t_state t \<and> t_kstack_top u = t_kstack_top t \<and> t_parent u = t_parent (orphan tid t)"
  using assms by (auto simp: after_death_def dead_map_def dead_kids_def orphan_def)

lemma after_death_live:
  assumes "ipc_ok tm em" and "tm x = Some t" and "x \<noteq> tid" and "\<not> is_zombie (t_state t)"
  shows "\<exists>u. after_death tid code tm em x = Some u \<and> \<not> is_zombie (t_state u)"
  using assms by (auto simp: after_death_def dead_map_def dead_kids_def orphan_def)

lemma stranded_unique:
  assumes "ipc_ok tm em" and "em ep = Some e" and "tm c = Some t" and "t_state t = BlockedCall ep"
    and "c \<in> stranded tid em"
  shows "ep_active_server e = Some tid"
  using stranded_state [OF assms(1,5)] assms(2-4) by auto

lemma ipc_ok_death:
  assumes "ipc_ok tm em"
  shows "ipc_ok (after_death tid code tm em) (abort_map tid em)"
proof -
  let ?F = "after_death tid code tm em"
  have blk: "\<exists>u. ?F c = Some u \<and> t_state u = s"
    if "tm c = Some t" "t_state t = s" "c \<noteq> tid" "\<not> is_zombie s" "c \<notin> stranded tid em" for c t s
    using after_death_keep [OF assms that(1,3)] that by auto
  have "ep_ok ?F ep e'" if "abort_map tid em ep = Some e'" for ep e'
  proof -
    from that obtain e where e: "em ep = Some e" "e' = snd (abort_endpoint tid e)"
      by (auto simp: abort_map_def)
    have ok: "ep_ok tm ep e" using assms e(1) by (simp add: ipc_ok_def)
    have caller: "\<exists>u. ?F c = Some u \<and> t_state u = BlockedCall ep" if c: "ep_active_caller e' = Some c" for c
    proof -
      from c e(2) have c': "ep_active_caller e = Some c" "c \<noteq> tid" "ep_active_server e \<noteq> Some tid"
        by (auto simp: abort_endpoint_sel split: if_splits)
      with ok obtain t where t: "tm c = Some t" "t_state t = BlockedCall ep" by (auto simp: ep_ok_def)
      with stranded_unique [OF assms e(1)] c' have "c \<notin> stranded tid em" by blast
      with blk [OF t c'(2)] show ?thesis by simp
    qed
    have sender: "\<exists>u. ?F c = Some u \<and> t_state u = BlockedSend ep" if c: "(c, m) \<in> set (ep_pending_callers e')" for c m
    proof -
      from c e(2) have c': "(c, m) \<in> set (ep_pending_callers e)" "c \<noteq> tid" by (auto simp: abort_endpoint_sel)
      with ok obtain t where t: "tm c = Some t" "t_state t = BlockedSend ep" by (auto simp: ep_ok_def)
      with stranded_state [OF assms, of c tid] have "c \<notin> stranded tid em" by auto
      with blk [OF t c'(2)] show ?thesis by simp
    qed
    have server: "\<exists>u. ?F c = Some u \<and> \<not> is_zombie (t_state u)" if c: "ep_active_server e' = Some c" for c
    proof -
      from c e(2) have c': "ep_active_server e = Some c" "c \<noteq> tid" by (auto simp: abort_endpoint_sel split: if_splits)
      with ok obtain t where t: "tm c = Some t" "\<not> is_zombie (t_state t)" by (auto simp: ep_ok_def)
      with after_death_live [OF assms t(1) c'(2) t(2)] show ?thesis by blast
    qed
    have "distinct (map fst (ep_pending_callers e'))" "\<forall>(c, m) \<in> set (ep_pending_callers e'). length m = 6"
      "(ep_active_caller e' = None) = (ep_active_server e' = None)"
      using ok e(2) by (auto simp: ep_ok_def abort_endpoint_sel distinct_map_filter)
    with caller sender server show ?thesis unfolding ep_ok_def by blast
  qed
  moreover have "task_ipc_ok (abort_map tid em) x (t_state u)" if "?F x = Some u" for x u
  proof -
    from after_death_Some [OF assms that] obtain t where t: "tm x = Some t"
      "t_state u = Ready \<or> (if x = tid then t_state u = Zombie code else t_state u = t_state t)" by (auto split: if_splits)
    have "task_ipc_ok em x (t_state t)" using assms t(1) by (simp add: ipc_ok_def)
    with t(2) show ?thesis
      by (cases "t_state t") (force simp: task_ipc_ok_def abort_map_def abort_endpoint_sel split: if_splits)+
  qed
  ultimately show ?thesis by (simp add: ipc_ok_def)
qed

lemma count_list_distinct: "distinct xs \<Longrightarrow> count_list xs x = (if x \<in> set xs then 1 else 0)"
  by (induction xs) auto

lemma rest_death:
  assumes "tables_ok None tm q em ws sl" and "set ss = stranded tid em" and "distinct ss"
  shows "tables_ok None (after_death tid code tm em) (rev ss @ q) (abort_map tid em) ws sl"
proof -
  let ?F = "after_death tid code tm em"
  have r: "queue_ok None tm q" "ipc_ok tm em" "input_ok tm ws" "caps_ok tm em" "stack_ok tm sl"
    using assms(1) by (auto simp: tables_ok_def)
  note S = after_death_Some [OF r(2)]
  have "count_list (rev ss @ q) x = (if t_state u = Ready then 1 else 0)"
    if x: "?F x = Some u" "\<not> is_zombie (t_state u)" for x u
  proof -
    from S [OF x(1)] x(2) obtain t where t: "tm x = Some t" "\<not> is_zombie (t_state t)"
      "if x \<in> stranded tid em then t_state u = Ready \<and> (\<exists>ep. t_state t = BlockedCall ep) else t_state u = t_state t"
      by (auto split: if_splits)
    have "count_list q x = (if t_state t = Ready then 1 else 0)" using r(1) t(1,2) by (simp add: queue_ok_def)
    with t(3) assms(2,3) show ?thesis by (auto simp: count_list_distinct split: if_splits)
  qed
  then have "queue_ok None ?F (rev ss @ q)" by (simp add: queue_ok_def)
  moreover have "input_ok ?F ws"
  proof -
    have "t_cr3 u = w_cr3 w \<and> (is_zombie (t_state u) \<or> t_state u = BlockedInput)"
      if w: "w \<in> set ws" "?F (w_tid w) = Some u" for w u
    proof -
      from S [OF w(2)] obtain t where t: "tm (w_tid w) = Some t" "t_cr3 u = t_cr3 t"
        "if w_tid w \<in> stranded tid em then \<exists>ep. t_state t = BlockedCall ep
         else t_state u = (if w_tid w = tid then Zombie code else t_state t)" by (auto split: if_splits)
      moreover have "t_cr3 t = w_cr3 w \<and> (is_zombie (t_state t) \<or> t_state t = BlockedInput)"
        using r(3) w(1) t(1) by (auto simp: input_ok_def)
      ultimately show ?thesis by (auto split: if_splits)
    qed
    moreover have "x \<in> w_tid ` set ws" if "?F x = Some u" "t_state u = BlockedInput" for x u
      using S [OF that(1)] that(2) r(3) by (auto simp: input_ok_def split: if_splits)
    ultimately show ?thesis using r(3) unfolding input_ok_def by blast
  qed
  moreover have "cap_ok (abort_map tid em) c" if "cap_ok em c" for c
    using that by (auto simp: cap_ok_def abort_map_def split: cap.splits)
  then have "caps_ok ?F (abort_map tid em)"
    using S r(4) unfolding caps_ok_def by metis
  moreover have "stack_ok ?F sl"
    using S r(5) unfolding stack_ok_def by metis
  ultimately show ?thesis using ipc_ok_death [OF r(2)] by (simp add: tables_ok_def)
qed

lemma rest_wake_parent:
  assumes "tables_ok None tm q em ws sl" and "tm p = Some t" and "t_state t = BlockedWait"
  shows "tables_ok None (tm(p \<mapsto> t\<lparr>t_state := Ready\<rparr>)) (p # q) em ws sl"
proof -
  from assms(1) have c: "queue_ok None tm q" "ipc_ok tm em" "input_ok tm ws" "caps_ok tm em"
    "stack_ok tm sl" by (auto simp: tables_ok_def)
  have "count_list q p = 0" using c(1) assms(2,3) by (simp add: queue_ok_def)
  then have "queue_ok None (tm(p \<mapsto> t\<lparr>t_state := Ready\<rparr>)) (p # q)"
    by (intro queue_ok_upd [OF c(1) assms(2)]) auto
  moreover have "ipc_ok (tm(p \<mapsto> t\<lparr>t_state := Ready\<rparr>)) em"
    by (rule ipc_ok_upd [OF c(2) assms(2)]) (simp_all add: assms(3) task_ipc_ok_def)
  moreover have "input_ok (tm(p \<mapsto> t\<lparr>t_state := Ready\<rparr>)) ws"
    by (rule input_ok_upd [OF c(3) assms(2)]) (simp_all add: assms(3))
  moreover have "caps_ok (tm(p \<mapsto> t\<lparr>t_state := Ready\<rparr>)) em" by (rule caps_ok_upd [OF c(4) assms(2)]) simp
  moreover have "stack_ok (tm(p \<mapsto> t\<lparr>t_state := Ready\<rparr>)) sl" by (rule stack_ok_upd [OF c(5) assms(2)]) simp_all
  ultimately show ?thesis by (simp add: tables_ok_def)
qed

text \<open>
  The family tree at the end: the victim is gone or still has its parent, and the parent no
  longer waits.
\<close>

lemma fam_ok_death:
  assumes "fam_ok tm" and "ipc_ok tm em" and "tm tid = Some me"
    and dom: "\<And>x. x \<noteq> tid \<Longrightarrow> G x = None \<longleftrightarrow> after_death tid code tm em x = None"
    and same: "\<And>x u. x \<noteq> tid \<Longrightarrow> G x = Some u \<Longrightarrow> \<exists>v. after_death tid code tm em x = Some v \<and>
      t_parent u = t_parent v \<and> (t_state u = t_state v \<or> t_state u = Ready \<and> \<not> is_zombie (t_state v))"
    and vic: "G tid = None \<or> (\<exists>u p. G tid = Some u \<and> is_zombie (t_state u) \<and> t_parent u = t_parent me \<and> t_parent me = Some p)"
    and par: "\<And>p u. t_parent me = Some p \<Longrightarrow> G p = Some u \<Longrightarrow> t_state u \<noteq> BlockedWait"
  shows "fam_ok G"
proof -
  have fam: "p \<noteq> x \<and> (\<exists>pt. tm p = Some pt \<and> \<not> is_zombie (t_state pt))"
    if "tm x = Some t" "t_parent t = Some p" for x t p
    using assms(1) that unfolding fam_ok_def by blast
  have live: "\<exists>u. G x = Some u \<and> \<not> is_zombie (t_state u)"
    if x: "tm x = Some t" "\<not> is_zombie (t_state t)" "x \<noteq> tid" for x t
  proof -
    obtain v where v: "after_death tid code tm em x = Some v" "\<not> is_zombie (t_state v)"
      using after_death_live [OF assms(2) x(1,3,2)] by blast
    with dom [OF x(3)] obtain u where u: "G x = Some u" by auto
    with same [OF x(3) u] v show ?thesis by auto
  qed
  have orig: "\<exists>t. tm x = Some t \<and> x \<notin> dead_kids tid tm \<and> t_parent u = t_parent (orphan tid t) \<and>
      (t_state u = t_state t \<or> t_state u = Ready \<and> \<not> is_zombie (t_state t))"
    if x: "G x = Some u" "x \<noteq> tid" for x u
  proof -
    obtain v where v: "after_death tid code tm em x = Some v" "t_parent u = t_parent v"
      "t_state u = t_state v \<or> t_state u = Ready \<and> \<not> is_zombie (t_state v)"
      using same [OF x(2,1)] by blast
    from after_death_Some [OF assms(2) v(1)] v(2,3) x(2) show ?thesis by (auto split: if_splits)
  qed
  have A: "p \<noteq> x \<and> (\<exists>pt. G p = Some pt \<and> \<not> is_zombie (t_state pt))" if "G x = Some u" "t_parent u = Some p" for x u p
  proof (cases "x = tid")
    case True
    with vic that have "t_parent me = Some p" by auto
    from fam [OF assms(3) this] True obtain pt where "p \<noteq> x" "tm p = Some pt" "\<not> is_zombie (t_state pt)" by blast
    with live [of p pt] True show ?thesis by blast
  next
    case False
    from orig [OF that(1) False] that(2) obtain t where t: "tm x = Some t" "t_parent t = Some p" "p \<noteq> tid"
      by (metis orphan_parent)
    from fam [OF t(1,2)] obtain pt where "p \<noteq> x" "tm p = Some pt" "\<not> is_zombie (t_state pt)" by blast
    with live [of p pt] t(3) show ?thesis by blast
  qed
  have B: "t_parent u \<noteq> None" if "G x = Some u" "is_zombie (t_state u)" for x u
  proof (cases "x = tid")
    case True
    with vic that show ?thesis by auto
  next
    case False
    from orig [OF that(1) False] that(2) obtain t where t: "tm x = Some t" "is_zombie (t_state t)"
      "x \<notin> dead_kids tid tm" "t_parent u = t_parent (orphan tid t)" by auto
    then have "t_parent t \<noteq> None" using assms(1) unfolding fam_ok_def by blast
    moreover have "t_parent t \<noteq> Some tid" using t by (auto simp: dead_kids_def)
    ultimately show ?thesis using t(4) by (simp add: orphan_def)
  qed
  have C: "(\<exists>c ct. G c = Some ct \<and> t_parent ct = Some x \<and> \<not> is_zombie (t_state ct)) \<and>
      (\<forall>c ct. G c = Some ct \<longrightarrow> t_parent ct = Some x \<longrightarrow> \<not> is_zombie (t_state ct))"
    if x: "G x = Some u" "t_state u = BlockedWait" "x \<noteq> tid" for x u
  proof -
    from orig [OF x(1,3)] x(2) obtain t where t: "tm x = Some t" "t_state t = BlockedWait" by auto
    with assms(1) obtain c ct where c: "tm c = Some ct" "t_parent ct = Some x" "\<not> is_zombie (t_state ct)"
      unfolding fam_ok_def by blast
    have nx: "t_parent me \<noteq> Some x" using par [OF _ x(1)] x(2) by auto
    then have "c \<noteq> tid" using c(1,2) assms(3) by auto
    from live [OF c(1,3) this] obtain cu where cu: "G c = Some cu" "\<not> is_zombie (t_state cu)" by blast
    from orig [OF cu(1) \<open>c \<noteq> tid\<close>] c(1,2) x(3) have "t_parent cu = Some x" by (metis orphan_parent option.inject)
    moreover have "\<not> is_zombie (t_state dt)" if d: "G d = Some dt" "t_parent dt = Some x" for d dt
    proof (cases "d = tid")
      case True
      with vic d nx show ?thesis by auto
    next
      case False
      from orig [OF d(1) False] d(2) x(3) obtain t' where t': "tm d = Some t'" "t_parent t' = Some x"
        "t_state dt = t_state t' \<or> t_state dt = Ready" by (metis orphan_parent)
      have "\<not> is_zombie (t_state t')" using assms(1) t t'(1,2) unfolding fam_ok_def by blast
      with t'(3) show ?thesis by auto
    qed
    ultimately show ?thesis using cu by blast
  qed
  have "t_state u \<noteq> BlockedWait" if "G tid = Some u" for u
    using vic that by auto
  then have ntid: "x \<noteq> tid" if "G x = Some u" "t_state u = BlockedWait" for x u using that by auto
  show ?thesis
    unfolding fam_ok_def
    by (intro conjI allI impI; (elim conjE)?) (use A B C [OF _ _ ntid] in blast)+
qed

text \<open>The two loops of the lifecycle on the kernel state.\<close>

lemma schedule_reap_eq:
  "schedule_reap x k = k\<lparr>k_tasks := filter (\<lambda>t. t_id t \<noteq> x) (k_tasks k),
     k_reap := k_reap k @ (case tmap (k_tasks k) x of None \<Rightarrow> [] | Some t \<Rightarrow> [snapshot t])\<rparr>"
proof (cases "tmap (k_tasks k) x")
  case None
  then have "filter (\<lambda>t. t_id t \<noteq> x) (k_tasks k) = k_tasks k" by (auto simp: tmap_None filter_id_conv)
  with None show ?thesis by (simp add: schedule_reap_def find_task_tmap)
qed (simp add: schedule_reap_def find_task_tmap)

lemma ids_ok_schedule_reap: "ids_ok k \<Longrightarrow> ids_ok (schedule_reap x k)"
  by (auto simp: schedule_reap_eq ids_ok_def distinct_map_filter)

lemma fold_schedule_reap:
  "\<exists>rq. fold schedule_reap xs k = k\<lparr>k_tasks := filter (\<lambda>t. t_id t \<notin> set xs) (k_tasks k), k_reap := rq\<rparr>"
proof (induction xs arbitrary: k)
  case Nil
  show ?case by (intro exI [of _ "k_reap k"]) simp
next
  case (Cons x xs)
  from Cons [of "schedule_reap x k"] show ?case by (auto simp: schedule_reap_eq conj_commute)
qed

lemma tmap_filter_set: "tmap (filter (\<lambda>t. t_id t \<notin> S) ts) = (\<lambda>x. if x \<in> S then None else tmap ts x)"
proof
  fix x show "tmap (filter (\<lambda>t. t_id t \<notin> S) ts) x = (if x \<in> S then None else tmap ts x)"
    by (induction ts) (auto simp: tmap_Cons)
qed

lemma fold_wake_stranded:
  assumes "distinct xs" and "\<And>x. x \<in> set xs \<Longrightarrow> \<exists>t ep. tmap (k_tasks k) x = Some t \<and> t_state t = BlockedCall ep"
  shows "\<exists>ts fs. fold wake_stranded xs k = k\<lparr>k_tasks := ts, k_frames := fs, k_ready := rev xs @ k_ready k\<rparr> \<and>
    tmap ts = fold (upd1 (\<lambda>t. t\<lparr>t_state := Ready\<rparr>)) xs (tmap (k_tasks k)) \<and> map t_id ts = map t_id (k_tasks k)"
  using assms
proof (induction xs arbitrary: k)
  case Nil
  show ?case by (intro exI [of _ "k_tasks k"] exI [of _ "k_frames k"]) simp
next
  case (Cons x xs)
  from Cons.prems(2) [of x] obtain t ep where t: "tmap (k_tasks k) x = Some t" "t_state t = BlockedCall ep" by auto
  define k1 where "k1 = wake_stranded x k"
  have k1: "k1 = make_ready x True (upd_task x (\<lambda>t. t\<lparr>t_state := Ready\<rparr>) (set_rax (t_saved_rsp t) E_PEER_DIED k))"
    using t by (simp add: k1_def wake_stranded_def find_task_tmap)
  have tm1: "tmap (k_tasks k1) = upd1 (\<lambda>t. t\<lparr>t_state := Ready\<rparr>) x (tmap (k_tasks k))"
    "map t_id (k_tasks k1) = map t_id (k_tasks k)" "k_ready k1 = x # k_ready k"
    by (simp_all add: k1 make_ready_def upd_task_def set_rax_def set_frame_def upd1_def)
  have "\<exists>t ep. tmap (k_tasks k1) y = Some t \<and> t_state t = BlockedCall ep" if "y \<in> set xs" for y
    using Cons.prems that by (auto simp: tm1 upd1_def)
  with Cons.IH [of k1] Cons.prems(1) obtain ts fs where
    "fold wake_stranded xs k1 = k1\<lparr>k_tasks := ts, k_frames := fs, k_ready := rev xs @ k_ready k1\<rparr>"
    "tmap ts = fold (upd1 (\<lambda>t. t\<lparr>t_state := Ready\<rparr>)) xs (tmap (k_tasks k1))" "map t_id ts = map t_id (k_tasks k1)"
    by auto
  moreover have "k1\<lparr>k_tasks := ts, k_frames := fs, k_ready := rev xs @ k_ready k1\<rparr> =
      k\<lparr>k_tasks := ts, k_frames := fs, k_ready := rev xs @ k_ready k1\<rparr>" for ts fs
    by (simp add: k1 make_ready_def upd_task_def set_rax_def set_frame_def)
  ultimately show ?case by (auto simp: k1_def [symmetric] tm1)
qed

text \<open>Everything up to the settling of the fate.\<close>

lemma die_abort_spec:
  assumes "ids_ok k" and "core_ok None k" and "tmap (k_tasks k) tid = Some me"
    and "die tid code (k_tasks k) = (fate, dead, ts)"
  shows "\<exists>ts' fs q rq eps. abort_ipc tid (fold schedule_reap dead (k\<lparr>k_tasks := ts\<rparr>)) =
      k\<lparr>k_tasks := ts', k_frames := fs, k_ready := q, k_reap := rq, k_endpoints := eps\<rparr> \<and>
    tmap ts' = after_death tid code (tmap (k_tasks k)) (emap (k_endpoints k)) \<and>
    emap eps = abort_map tid (emap (k_endpoints k)) \<and> length eps = length (k_endpoints k) \<and>
    set q \<subseteq> set (k_ready k) \<union> t_id ` set (k_tasks k) \<and> set (map t_id ts') \<subseteq> set (map t_id (k_tasks k)) \<and> distinct (map t_id ts') \<and>
    tables_ok None (tmap ts') q (emap eps) (in_waiters (k_input k)) (k_next_kslot k) \<and>
    fate = fate_of (t_parent me) ts \<and> tmap ts = dead_map tid code (tmap (k_tasks k))"
proof -
  let ?tm = "tmap (k_tasks k)" and ?em = "emap (k_endpoints k)"
  have d: "distinct (map t_id (k_tasks k))" and le: "length (k_endpoints k) < 2 ^ 64"
    using assms(1) by (auto simp: ids_ok_def)
  have r: "tables_ok None ?tm (k_ready k) ?em (in_waiters (k_input k)) (k_next_kslot k)" "fam_ok ?tm" and ipc: "ipc_ok ?tm ?em"
    using assms(2) by (auto simp: core_rest tables_ok_def)
  have "t_parent me \<noteq> Some tid" using r(2) assms(3) unfolding fam_ok_def by blast
  note D = die_spec [OF d assms(3) this assms(4)]
  obtain rq where rq: "fold schedule_reap dead (k\<lparr>k_tasks := ts\<rparr>) =
      k\<lparr>k_tasks := filter (\<lambda>t. t_id t \<notin> set dead) ts, k_reap := rq\<rparr>"
    using fold_schedule_reap [of dead "k\<lparr>k_tasks := ts\<rparr>"] by auto
  define ts2 where "ts2 = filter (\<lambda>t. t_id t \<notin> set dead) ts"
  define ss where "ss = concat (map (\<lambda>e. fst (abort_endpoint tid e)) (k_endpoints k))"
  define eps where "eps = map (\<lambda>e. snd (abort_endpoint tid e)) (k_endpoints k)"
  define k2 where "k2 = k\<lparr>k_tasks := ts2, k_reap := rq, k_endpoints := eps\<rparr>"
  have ss: "set ss = stranded tid ?em" "distinct ss" using stranded_list [OF le ipc] by (simp_all add: ss_def)
  have tm2: "tmap ts2 = (\<lambda>x. if x \<in> dead_kids tid ?tm then None else dead_map tid code ?tm x)"
    unfolding ts2_def tmap_filter_set using D by (auto simp: fun_eq_iff)
  have ids2: "set (map t_id ts2) \<subseteq> set (map t_id (k_tasks k))" "distinct (map t_id ts2)"
  proof -
    have "set (map t_id ts) = set (map t_id (k_tasks k))" using D by metis
    then show "set (map t_id ts2) \<subseteq> set (map t_id (k_tasks k))" by (auto simp: ts2_def)
    show "distinct (map t_id ts2)" using D d by (simp add: ts2_def distinct_map_filter)
  qed
  have st: "\<exists>t ep. tmap ts2 x = Some t \<and> t_state t = BlockedCall ep" if "x \<in> set ss" for x
    using stranded_state [OF ipc] that ss(1)
    by (fastforce simp: tm2 dead_map_def dead_kids_def)
  have ab: "abort_ipc tid (fold schedule_reap dead (k\<lparr>k_tasks := ts\<rparr>)) = fold wake_stranded ss k2"
    by (simp add: rq abort_ipc_def Let_def ss_def k2_def eps_def ts2_def o_def)
  obtain ts' fs where w: "fold wake_stranded ss k2 = k2\<lparr>k_tasks := ts', k_frames := fs, k_ready := rev ss @ k_ready k2\<rparr>"
    "tmap ts' = fold (upd1 (\<lambda>t. t\<lparr>t_state := Ready\<rparr>)) ss (tmap ts2)" "map t_id ts' = map t_id ts2"
    using fold_wake_stranded [OF ss(2), of k2] st by (auto simp: k2_def)
  have tm': "tmap ts' = after_death tid code ?tm ?em"
    unfolding w(2) fold_upd1 [OF ss(2)] ss(1) tm2
    using stranded_state [OF ipc] by (fastforce simp: fun_eq_iff after_death_def dead_map_def stranded_def option.map_comp o_def)
  have em': "emap eps = abort_map tid ?em" by (simp add: eps_def emap_map abort_map_def)
  have sub: "set ss \<subseteq> set (map t_id (k_tasks k))"
  proof
    fix x assume "x \<in> set ss"
    with stranded_state [OF ipc] ss(1) have "?tm x \<noteq> None" by blast
    then show "x \<in> set (map t_id (k_tasks k))" by (simp add: tmap_None)
  qed
  show ?thesis
    using rest_death [OF r(1) ss, of code] sub ids2 w(3) D ab w(1) tm' em'
    by (intro exI [of _ ts'] exI [of _ fs] exI [of _ "rev ss @ k_ready k"] exI [of _ rq] exI [of _ eps])
      (auto simp: k2_def eps_def)
qed

text \<open>Who runs is not touched, except that the victim does not.\<close>

definition runners :: "usize \<Rightarrow> (usize \<rightharpoonup> task) \<Rightarrow> (usize \<rightharpoonup> task) \<Rightarrow> bool" where
  "runners tid tm tm' \<longleftrightarrow>
     (\<forall>x t. tm' x = Some t \<longrightarrow> t_state t = Running \<longrightarrow> x \<noteq> tid \<and> (\<exists>u. tm x = Some u \<and> t_state u = Running)) \<and>
     (\<forall>x u. x \<noteq> tid \<longrightarrow> tm x = Some u \<longrightarrow> t_state u = Running \<longrightarrow>
        (\<exists>t. tm' x = Some t \<and> t_state t = Running \<and> t_kstack_top t = t_kstack_top u))"

lemma runners_death:
  assumes "ipc_ok tm em"
  shows "runners tid tm (after_death tid code tm em)"
proof -
  have "x \<noteq> tid \<and> (\<exists>u. tm x = Some u \<and> t_state u = Running)"
    if "after_death tid code tm em x = Some t" "t_state t = Running" for x t
    using after_death_Some [OF assms that(1)] that(2) by (auto split: if_splits)
  moreover have "\<exists>t. after_death tid code tm em x = Some t \<and> t_state t = Running \<and> t_kstack_top t = t_kstack_top u"
    if x: "x \<noteq> tid" "tm x = Some u" "t_state u = Running" for x u
  proof -
    have "x \<notin> stranded tid em" using stranded_state [OF assms, of x tid] x by auto
    with after_death_keep [OF assms x(2,1)] x(3) show ?thesis by auto
  qed
  ultimately show ?thesis by (auto simp: runners_def)
qed

lemma runners_remove: "runners tid tm tm' \<Longrightarrow> runners tid tm (tm'(tid := None))"
  by (auto simp: runners_def)

lemma runners_wake:
  assumes "runners tid tm tm'" and "tm' p = Some t" and "t_state t = BlockedWait"
  shows "runners tid tm (tm'(p \<mapsto> t\<lparr>t_state := Ready\<rparr>))"
proof -
  have "tm' x = Some u \<Longrightarrow> t_state u = Running \<Longrightarrow> x \<noteq> p" for x u using assms(2,3) by auto
  with assms(1) show ?thesis unfolding runners_def by (simp split: if_splits) metis
qed

lemma after_death_victim:
  assumes "ipc_ok tm em" and "tm tid = Some me" and "t_parent me \<noteq> Some tid"
  shows "after_death tid code tm em tid = Some (me\<lparr>t_state := Zombie code\<rparr>)"
  using assms stranded_state [OF assms(1), of tid tid]
  by (auto simp: after_death_def dead_map_def dead_kids_def orphan_def)

lemma fate_cases:
  assumes "fam_ok tm" and "tm tid = Some me" and "tmap ts = dead_map tid code tm" and "fate = fate_of (t_parent me) ts"
  obtains (orphan) "t_parent me = None" "fate = Orphan"
  | (linger) p pt where "t_parent me = Some p" "p \<noteq> tid" "tm p = Some pt" "\<not> is_zombie (t_state pt)" "t_state pt \<noteq> BlockedWait" "fate = Linger"
  | (deliver) p pt where "t_parent me = Some p" "p \<noteq> tid" "tm p = Some pt" "t_state pt = BlockedWait" "fate = Deliver p"
proof (cases "t_parent me")
  case None
  with orphan assms(4) show ?thesis by (simp add: fate_of_def)
next
  case (Some p)
  with assms(1,2) obtain pt where p: "p \<noteq> tid" "tm p = Some pt" "\<not> is_zombie (t_state pt)"
    unfolding fam_ok_def by blast
  then have "tmap ts p = Some (orphan tid pt)" using assms(3) by (simp add: dead_map_def)
  then have "fate = (if t_state pt = BlockedWait then Deliver p else Linger)"
    using assms(4) Some by (simp add: fate_of_def tmap_def)
  with linger deliver Some p show ?thesis by (cases "t_state pt = BlockedWait") auto
qed

lemma terminate_ok:
  assumes "ids_ok k" and "core_ok None k" and "tmap (k_tasks k) tid = Some me"
  shows "\<exists>k'. terminate_lifecycle tid code k = Some k' \<and> ids_ok k' \<and> core_ok None k' \<and>
    k_current k' = k_current k \<and> k_rsp0 k' = k_rsp0 k \<and> runners tid (tmap (k_tasks k)) (tmap (k_tasks k'))"
proof -
  let ?tm = "tmap (k_tasks k)" and ?em = "emap (k_endpoints k)"
  obtain fate dead ts where die: "die tid code (k_tasks k) = (fate, dead, ts)" by (metis prod_cases3)
  from die_abort_spec [OF assms die] obtain ts' fs q rq eps where
    ab: "abort_ipc tid (fold schedule_reap dead (k\<lparr>k_tasks := ts\<rparr>)) =
      k\<lparr>k_tasks := ts', k_frames := fs, k_ready := q, k_reap := rq, k_endpoints := eps\<rparr>"
    and tm': "tmap ts' = after_death tid code ?tm ?em"
    and eps: "emap eps = abort_map tid ?em" "length eps = length (k_endpoints k)"
    and q: "set q \<subseteq> set (k_ready k) \<union> t_id ` set (k_tasks k)" "set (map t_id ts') \<subseteq> set (map t_id (k_tasks k))" "distinct (map t_id ts')"
    and rest: "tables_ok None (tmap ts') q (emap eps) (in_waiters (k_input k)) (k_next_kslot k)"
    and fate: "fate = fate_of (t_parent me) ts" "tmap ts = dead_map tid code ?tm" by blast
  define k1 where "k1 = k\<lparr>k_tasks := ts', k_frames := fs, k_ready := q, k_reap := rq, k_endpoints := eps\<rparr>"
  have fam: "fam_ok ?tm" and ipc: "ipc_ok ?tm ?em" using assms(2) by (auto simp: core_def)
  have np: "t_parent me \<noteq> Some tid" using fam assms(3) unfolding fam_ok_def by blast
  note vic = after_death_victim [OF ipc assms(3) np, of code]
  note fd = fam_ok_death [OF fam ipc assms(3), where code = code]
  have ids: "ids_ok k1" using assms(1) q eps(2) by (auto simp: ids_ok_def k1_def)
  have run: "runners tid ?tm (tmap ts')" using runners_death [OF ipc] by (simp add: tm')
  from fam assms(3) fate(2,1) show ?thesis
  proof (cases rule: fate_cases)
    case orphan
    have "fam_ok ((tmap ts')(tid := None))" by (rule fd) (auto simp: tm' orphan)
    with rest_remove_zombie [OF rest, of tid] vic tm'
    have "core None ((tmap ts')(tid := None)) q (emap eps) (in_waiters (k_input k)) (k_next_kslot k)"
      by (simp add: core_rest)
    moreover have "terminate_lifecycle tid code k = Some (schedule_reap tid k1)"
      using die ab orphan by (simp add: terminate_lifecycle_def k1_def)
    moreover have "tmap (k_tasks (schedule_reap tid k1)) = (tmap ts')(tid := None)" "k_ready (schedule_reap tid k1) = q"
      "k_endpoints (schedule_reap tid k1) = eps" "k_input (schedule_reap tid k1) = k_input k"
      "k_next_kslot (schedule_reap tid k1) = k_next_kslot k" "k_current (schedule_reap tid k1) = k_current k"
      "k_rsp0 (schedule_reap tid k1) = k_rsp0 k"
      by (simp_all add: schedule_reap_eq k1_def)
    ultimately show ?thesis using runners_remove [OF run] ids_ok_schedule_reap [OF ids] by simp
  next
    case (linger p pt)
    have "t_state u \<noteq> BlockedWait" if "tmap ts' p = Some u" for u
      using after_death_Some [OF ipc, of tid code p u] that tm' linger by (auto split: if_splits)
    then have "fam_ok (tmap ts')" by (intro fd) (auto simp: tm' linger vic)
    with rest have "core None (tmap ts') q (emap eps) (in_waiters (k_input k)) (k_next_kslot k)" by (simp add: core_rest)
    moreover have "terminate_lifecycle tid code k = Some k1"
      using die ab linger by (simp add: terminate_lifecycle_def k1_def)
    ultimately show ?thesis using run ids by (simp add: k1_def)
  next
    case (deliver p pt)
    have "p \<notin> stranded tid ?em" using stranded_state [OF ipc, of p tid] deliver by auto
    with after_death_keep [OF ipc deliver(3,2)] deliver(4) obtain u where
      u: "tmap ts' p = Some u" "t_state u = BlockedWait" by (auto simp: tm')
    let ?F = "(tmap ts')(p \<mapsto> u\<lparr>t_state := Ready\<rparr>)"
    have "fam_ok (?F(tid := None))" using u by (intro fd) (auto simp: tm' deliver split: if_splits)
    moreover have "?F tid = Some (me\<lparr>t_state := Zombie code\<rparr>)" using vic tm' deliver(2) by simp
    with rest_remove_zombie [OF rest_wake_parent [OF rest u], of tid]
    have "tables_ok None (?F(tid := None)) (p # q) (emap eps) (in_waiters (k_input k)) (k_next_kslot k)" by simp
    ultimately have "core None (?F(tid := None)) (p # q) (emap eps) (in_waiters (k_input k)) (k_next_kslot k)"
      by (simp add: core_rest)
    moreover have "terminate_lifecycle tid code k = Some (schedule_reap tid (make_ready p True (upd_task p (\<lambda>p. p\<lparr>t_state := Ready\<rparr>)
        (set_frame (t_saved_rsp u) (\<lambda>f. f\<lparr>tf_rax := E_OK, tf_rdi := tid, tf_rsi := code\<rparr>) k1))))" (is "_ = Some ?k")
      using die ab deliver u by (simp add: terminate_lifecycle_def k1_def deliver_exit_def find_task_tmap Let_def set_frame_def)
    moreover have "tmap (k_tasks ?k) = ?F(tid := None)" "k_ready ?k = p # q" "k_endpoints ?k = eps" "k_input ?k = k_input k"
      "k_next_kslot ?k = k_next_kslot k" "k_current ?k = k_current k" "k_rsp0 ?k = k_rsp0 k"
      using u by (simp_all add: schedule_reap_eq make_ready_def upd_task_def set_frame_def k1_def)
    moreover have "ids_ok ?k"
    proof -
      have "p \<in> t_id ` set ts'" using u(1) tmap_None [of ts' p] by simp
      then have "ids_ok (make_ready p True (upd_task p (\<lambda>p. p\<lparr>t_state := Ready\<rparr>)
        (set_frame (t_saved_rsp u) (\<lambda>f. f\<lparr>tf_rax := E_OK, tf_rdi := tid, tf_rsi := code\<rparr>) k1)))"
        by (intro ids_ok_tasks [OF ids]) (auto simp: make_ready_def upd_task_def set_frame_def k1_def)
      then show ?thesis by (rule ids_ok_schedule_reap)
    qed
    ultimately show ?thesis using runners_remove [OF runners_wake [OF run u]] by simp
  qed
qed

text \<open>Exit, kill and fault.\<close>

lemma exit_task_ok:
  assumes "at_rest k" and "k_current k = Some c"
  shows "returns_ok (exit_task c code k)"
proof -
  have k: "ids_ok k" "core_ok None k" "run_ok (tmap (k_tasks k)) (Some c)" using assms by (auto simp: at_rest_def)
  then obtain me where me: "tmap (k_tasks k) c = Some me" by (auto simp: run_ok_def)
  from terminate_ok [OF k(1,2) me] obtain k' where k': "terminate_lifecycle c code k = Some k'" "ids_ok k'" "core_ok None k'"
    "runners c (tmap (k_tasks k)) (tmap (k_tasks k'))" by blast
  have "run_ok (tmap (k_tasks k')) None"
    using k(3) k'(4) unfolding run_ok_def runners_def by fastforce
  with k'(2,3) have "\<exists>c' k''. switch_away (set_current None k') = Some (c', k'') \<and> at_rest k'' \<and> cpu_ok c' k''"
    by (intro switch_away_ok) (simp_all add: set_current_def)
  with k'(1) show ?thesis by (simp add: exit_task_def returns_ok_def)
qed

lemma sys_kill_ok:
  assumes "at_rest k" and "k_current k = Some c" and "fp = k_rsp0 k - FRAME_BYTES"
  shows "returns_ok (sys_kill fp c victim k)"
proof (cases "list_ex (\<lambda>t. t_id t = victim \<and> t_parent t = Some c) (k_tasks k)")
  case False
  with assms show ?thesis by (simp add: sys_kill_def returns_ok_ret)
next
  case True
  have k: "ids_ok k" "core_ok None k" "run_ok (tmap (k_tasks k)) (Some c)" "rsp0_ok (tmap (k_tasks k)) (Some c) (k_rsp0 k)"
    using assms by (auto simp: at_rest_def)
  have d: "distinct (map t_id (k_tasks k))" using k(1) by (simp add: ids_ok_def)
  from True obtain me where me: "tmap (k_tasks k) victim = Some me" "t_parent me = Some c"
    unfolding list_ex_tmap [OF d] by (metis tmap_id)
  then have ne: "c \<noteq> victim" using k(2) by (auto simp: core_def fam_ok_def)
  from terminate_ok [OF k(1,2) me(1)] obtain k' where k': "terminate_lifecycle victim 0x200 k = Some k'" "ids_ok k'" "core_ok None k'"
    "k_current k' = k_current k" "k_rsp0 k' = k_rsp0 k" "runners victim (tmap (k_tasks k)) (tmap (k_tasks k'))" by blast
  obtain ct where ct: "tmap (k_tasks k) c = Some ct" "t_state ct = Running" using k(3) by (auto simp: run_ok_def)
  with k'(6) ne obtain ct' where ct': "tmap (k_tasks k') c = Some ct'" "t_state ct' = Running" "t_kstack_top ct' = t_kstack_top ct"
    unfolding runners_def by blast
  have "run_ok (tmap (k_tasks k')) (Some c)"
    unfolding run_ok_def
  proof (intro conjI allI impI)
    fix x t assume x: "tmap (k_tasks k') x = Some t"
    show "(t_state t = Running) = (Some c = Some x)"
    proof
      assume "t_state t = Running"
      with x k'(6) obtain u where "tmap (k_tasks k) x = Some u" "t_state u = Running" unfolding runners_def by blast
      with k(3) show "Some c = Some x" unfolding run_ok_def by blast
    qed (use x ct' in auto)
  qed (use ct' in auto)
  moreover have "rsp0_ok (tmap (k_tasks k')) (Some c) (k_rsp0 k)" using k(4) ct ct' by (simp add: rsp0_ok_def)
  ultimately have "at_rest k'" using k' assms(2) by (simp add: at_rest_def)
  moreover have "victim \<noteq> c" using ne by blast
  ultimately show ?thesis using k'(1,5) True assms(3) by (simp add: sys_kill_def returns_ok_ret)
qed

end
