(* ===== verification/Kernel_Trap.thy ===== *)
theory Kernel_Trap
  imports Kernel_Death
begin

text \<open>
  Spawning keeps the kernel invariant, and so does every trap: the system calls, the timer and
  user faults, given that the memory operations they run do not panic.
\<close>

section \<open>Spawning\<close>

lemma kstack_top_inj:
  assumes "s < 4096" and "s' < 4096" and "kstack_top s = kstack_top s'"
  shows "s = s'"
proof -
  have u: "unat (x * 36864) = unat x * 36864" if "x < 4096" for x :: u64
    using that by (simp add: unat_word_ariths word_less_nat_alt)
  have "s * 36864 = s' * 36864" using assms(3) by (simp add: kstack_top_def consts_def)
  from arg_cong [OF this, of unat] u [OF assms(1)] u [OF assms(2)] show ?thesis by (simp add: word_unat_eq_iff)
qed

text \<open>A new task enters the tables under a fresh id, on a fresh kernel stack.\<close>

lemma core_spawn:
  assumes "core None tm q em ws sl" and "tm n = None" and "n \<notin> set q" and "n \<notin> w_tid ` set ws"
    and "t_state t = Ready" and "length (t_caps t) = CAP_TABLE_SIZE" and "\<forall>c. Some c \<in> set (t_caps t) \<longrightarrow> cap_ok em c"
    and "t_saved_rsp t = t_kstack_top t - FRAME_BYTES" and "t_kstack_top t = kstack_top sl" and "0 < sl" and "sl < 4096"
    and "\<forall>p. t_parent t = Some p \<longrightarrow> (\<exists>pt. tm p = Some pt \<and> t_state pt = Running)"
  shows "core None (tm(n \<mapsto> t)) (q @ [n]) em ws (sl + 1)"
proof -
  let ?tm = "tm(n \<mapsto> t)"
  have c: "queue_ok None tm q" "ipc_ok tm em" "fam_ok tm" "input_ok tm ws" "caps_ok tm em" "stack_ok tm sl"
    using assms(1) by (auto simp: core_def)
  have ne: "x \<noteq> n" if "tm x = Some u" for x u using that assms(2) by auto
  have "count_list q n = 0" using assms(3) count_list_pos [of q n] by simp
  then have "queue_ok None ?tm (q @ [n])" using c(1) assms(5) by (simp add: queue_ok_def)
  moreover have "ipc_ok ?tm em"
  proof -
    have "ep_ok ?tm ep e" if "em ep = Some e" for ep e
    proof -
      have "ep_ok tm ep e" using c(2) that by (simp add: ipc_ok_def)
      with ne show ?thesis unfolding ep_ok_def by fastforce
    qed
    with c(2) assms(5) show ?thesis by (simp add: ipc_ok_def task_ipc_ok_def)
  qed
  moreover have "fam_ok ?tm"
  proof -
    have A: "p \<noteq> x \<and> (\<exists>pt. ?tm p = Some pt \<and> \<not> is_zombie (t_state pt))" if "?tm x = Some u" "t_parent u = Some p" for x u p
    proof (cases "x = n")
      case True
      with that assms(12) obtain pt where "tm p = Some pt" "t_state pt = Running" by auto
      with ne True show ?thesis by auto
    next
      case False
      then have "tm x = Some u" using that(1) by simp
      with that(2) c(3) obtain pt where "p \<noteq> x" "tm p = Some pt" "\<not> is_zombie (t_state pt)" unfolding fam_ok_def by blast
      with ne show ?thesis by auto
    qed
    have B: "t_parent u \<noteq> None" if "?tm x = Some u" "is_zombie (t_state u)" for x u
      using that c(3) assms(5) unfolding fam_ok_def by (auto split: if_splits)
    have C: "(\<exists>y ct. ?tm y = Some ct \<and> t_parent ct = Some x \<and> \<not> is_zombie (t_state ct)) \<and>
        (\<forall>y ct. ?tm y = Some ct \<longrightarrow> t_parent ct = Some x \<longrightarrow> \<not> is_zombie (t_state ct))"
      if "?tm x = Some u" "t_state u = BlockedWait" for x u
    proof -
      have x: "tm x = Some u" using that assms(5) by (auto split: if_splits)
      with that(2) c(3) obtain y ct where "tm y = Some ct" "t_parent ct = Some x" "\<not> is_zombie (t_state ct)"
        "\<forall>y ct. tm y = Some ct \<longrightarrow> t_parent ct = Some x \<longrightarrow> \<not> is_zombie (t_state ct)" unfolding fam_ok_def by blast
      with ne assms(5) show ?thesis by (auto split: if_splits intro!: exI [of _ y] exI [of _ ct])
    qed
    show ?thesis unfolding fam_ok_def by (intro conjI allI impI) (use A B C in blast)+
  qed
  moreover have "input_ok ?tm ws" using c(4) assms(4,5) unfolding input_ok_def by (auto split: if_splits)
  moreover have "caps_ok ?tm em" using c(5) assms(6,7) by (simp add: caps_ok_def)
  moreover have "stack_ok ?tm (sl + 1)"
  proof -
    have lt: "s < sl + 1" if "s \<le> sl" for s
      using that assms(11) by (simp add: word_less_nat_alt word_le_nat_alt unat_word_ariths)
    have old: "t_saved_rsp u = t_kstack_top u - FRAME_BYTES" "\<exists>s. 0 < s \<and> s < sl \<and> s < 4096 \<and> t_kstack_top u = kstack_top s"
      if "tm x = Some u" for x u using c(6) that unfolding stack_ok_def by blast+
    have nt: "t_kstack_top u \<noteq> t_kstack_top t" if "tm x = Some u" for x u
    proof -
      from old(2) [OF that] obtain s where "s < sl" "s < 4096" "t_kstack_top u = kstack_top s" by blast
      with kstack_top_inj [of s sl] assms(9,11) show ?thesis by auto
    qed
    have oinj: "x = y" if "tm x = Some u" "tm y = Some v" "t_kstack_top u = t_kstack_top v" for x y u v
      using c(6) that unfolding stack_ok_def by blast
    have inj: "x = y" if "?tm x = Some u" "?tm y = Some v" "t_kstack_top u = t_kstack_top v" for x y u v
      using that nt [of x u] nt [of y v] oinj [of x u y v] by (auto split: if_splits)
    have top: "\<exists>s. 0 < s \<and> s < sl + 1 \<and> s < 4096 \<and> t_kstack_top u = kstack_top s" if "?tm x = Some u" for x u
    proof (cases "x = n")
      case True
      with that lt [of sl] assms(9-11) show ?thesis by (intro exI [of _ sl]) auto
    next
      case False
      with that old(2) [of x u] lt show ?thesis by (auto simp: order.strict_implies_order)
    qed
    have sav: "t_saved_rsp u = t_kstack_top u - FRAME_BYTES" if "?tm x = Some u" for x u
      using that old(1) [of x u] assms(8) by (auto split: if_splits)
    show ?thesis unfolding stack_ok_def by (intro conjI allI impI) (use sav top inj in blast)+
  qed
  ultimately show ?thesis by (simp add: core_def)
qed

lemma core_slots:
  assumes "core None tm q em ws sl" and "sl \<le> sl'"
  shows "core None tm q em ws sl'"
proof -
  have "stack_ok tm sl" using assms(1) by (simp add: core_def)
  then have "stack_ok tm sl'" using assms(2) unfolding stack_ok_def by (meson order.strict_trans2)
  with assms(1) show ?thesis by (simp add: core_def)
qed

lemma set_install_caps: "Some c \<in> set (install_caps cs) \<Longrightarrow> c \<in> set cs"
  by (auto simp: install_caps_def dest: in_set_takeD)

lemma length_install_caps [simp]: "length (install_caps cs) = CAP_TABLE_SIZE"
  by (simp add: install_caps_def)

text \<open>The kernel stack counter moves on success and on failure; the stack is the counter's slot.\<close>

lemma alloc_kstack_spec:
  assumes "alloc_kstack k = Some (r, k')"
  shows "\<exists>m. k' = k\<lparr>k_next_kslot := k_next_kslot k + 1, k_mm := m\<rparr> \<and>
    (\<forall>top fb. r = Some (top, fb) \<longrightarrow> k_next_kslot k < 4096 \<and> top = kstack_top (k_next_kslot k))"
proof (cases "k_next_kslot k \<ge> 4096")
  case True
  with assms show ?thesis by (intro exI [of _ "k_mm k"]) (auto simp: alloc_kstack_def)
next
  case False
  with assms obtain m where m: "kstack_slot (k_next_kslot k) (k_mm k) = Some (r, m)"
    "k' = k\<lparr>k_next_kslot := k_next_kslot k + 1, k_mm := m\<rparr>"
    by (auto simp: alloc_kstack_def Let_def set_mm_def)
  have "top = kstack_top (k_next_kslot k)" if "r = Some (top, fb)" for top fb
    using m(1) that False
    by (auto simp: kstack_slot_def Let_def kstack_top_def split: prod.splits option.splits bool.splits)
  with m(2) False show ?thesis by auto
qed

lemma at_rest_mm: "at_rest (k\<lparr>k_mm := m\<rparr>) \<longleftrightarrow> at_rest k"
  by (simp add: at_rest_def)

lemma at_rest_kslot:
  assumes "at_rest k" and "k_next_kslot k < 2 ^ 64 - 1"
  shows "at_rest (k\<lparr>k_next_kslot := k_next_kslot k + 1\<rparr>)"
proof -
  have le: "k_next_kslot k \<le> k_next_kslot k + 1"
    using assms(2) by (simp add: word_le_nat_alt word_less_nat_alt unat_word_ariths)
  have "ids_ok (k\<lparr>k_next_kslot := k_next_kslot k + 1\<rparr>)"
    using assms(1) le by (auto simp: at_rest_def ids_ok_def)
  with assms(1) core_slots [OF _ le] show ?thesis by (simp add: at_rest_def)
qed

lemma spawn_user_ok:
  assumes "at_rest k" and "k_next_kslot k < 2 ^ 64 - 1"
    and "\<forall>c \<in> set cs. cap_ok (emap (k_endpoints k)) c"
    and "\<forall>p. parent = Some p \<longrightarrow> k_current k = Some p"
    and "spawn_user elf name cs parent k = Some (r, k')"
  shows "at_rest k' \<and> k_current k' = k_current k \<and> k_rsp0 k' = k_rsp0 k"
proof -
  obtain sp m where sp: "spawn_space elf (k_mm k) = Some (sp, m)" using assms(5) by (auto simp: spawn_user_def bind_eq_Some_conv)
  show ?thesis
  proof (cases sp)
    case None
    with sp assms(1,5) show ?thesis by (auto simp: spawn_user_def set_mm_def at_rest_mm)
  next
    case (Some a)
    then obtain cr3 entry pages where a: "sp = Some (cr3, entry, pages)" by (cases a) auto
    obtain al k1 where al: "alloc_kstack (set_mm m k) = Some (al, k1)"
      using assms(5) sp a by (auto simp: spawn_user_def bind_eq_Some_conv)
    from alloc_kstack_spec [OF al] obtain m1 where k1: "k1 = k\<lparr>k_next_kslot := k_next_kslot k + 1, k_mm := m1\<rparr>"
      and top: "\<And>top fb. al = Some (top, fb) \<Longrightarrow> k_next_kslot k < 4096 \<and> top = kstack_top (k_next_kslot k)"
      by (auto simp: set_mm_def)
    have r1: "at_rest k1" using at_rest_kslot [OF assms(1,2)] at_rest_mm by (simp add: k1)
    show ?thesis
    proof (cases al)
      case None
      with sp a al assms(5) r1 k1 show ?thesis by (auto simp: spawn_user_def set_mm_def at_rest_mm)
    next
      case (Some tf)
      then obtain tp fb where tf: "al = Some (tp, fb)" by (cases tf) auto
      let ?n = "k_next_tid k"
      define t where "t = \<lparr>t_id = ?n, t_name = name, t_state = Ready, t_cr3 = cr3,
         t_kstack_top = tp, t_saved_rsp = tp - FRAME_BYTES, t_caps = install_caps cs, t_parent = parent,
         t_kstack_base_va = tp - KSTACK_PAGES * 4096, t_kstack_frames_base = fb, t_pages = pages\<rparr>"
      have k': "k' = (set_frame (tp - FRAME_BYTES) (\<lambda>_. new_user entry USER_STACK_TOP USER_CS USER_SS) k1)
          \<lparr>k_next_tid := ?n + 1, k_tasks := k_tasks k @ [t], k_ready := k_ready k @ [?n]\<rparr>"
        using assms(5) sp a al tf by (simp add: spawn_user_def k1 t_def Let_def set_frame_def)
      from assms(1) have ids: "ids_ok k" and co: "core_ok None k" and run: "run_ok (tmap (k_tasks k)) (k_current k)"
        and r0: "rsp0_ok (tmap (k_tasks k)) (k_current k) (k_rsp0 k)" by (auto simp: at_rest_def)
      have fresh: "?n \<notin> t_id ` set (k_tasks k)" "?n \<notin> set (k_ready k)" "?n \<notin> w_tid ` set (in_waiters (k_input k))"
        using ids by (auto simp: ids_ok_def)
      have tm: "tmap (k_tasks k @ [t]) = (tmap (k_tasks k))(?n \<mapsto> t)"
        using fresh(1) tmap_snoc [of t "k_tasks k"] by (simp add: t_def)
      have n0: "tmap (k_tasks k) ?n = None" using fresh(1) by (simp add: tmap_None)
      have sl: "0 < k_next_kslot k" "k_next_kslot k < 4096" "tp = kstack_top (k_next_kslot k)"
        using ids top [OF tf] by (auto simp: ids_ok_def)
      have par: "\<exists>pt. tmap (k_tasks k) p = Some pt \<and> t_state pt = Running" if "parent = Some p" for p
        using run assms(4) that by (auto simp: run_ok_def)
      have "core None ((tmap (k_tasks k))(?n \<mapsto> t)) (k_ready k @ [?n]) (emap (k_endpoints k)) (in_waiters (k_input k)) (k_next_kslot k + 1)"
        using core_spawn [OF co n0 fresh(2,3), of t] sl assms(3) par set_install_caps by (auto simp: t_def)
      moreover have "ids_ok k'"
      proof -
        have nx: "?n \<le> k_next_kslot k" "?n < 4096" using ids sl(2) by (auto simp: ids_ok_def)
        have up: "x < ?n + 1" if "x \<le> ?n" for x
          using that nx(2) by (simp add: word_less_nat_alt word_le_nat_alt unat_word_ariths)
        have "?n + 1 \<le> k_next_kslot k + 1" "?n + 1 \<le> 4096" "0 < ?n + 1"
          using nx sl(2) by (simp_all add: word_less_nat_alt word_le_nat_alt unat_word_ariths)
        moreover have "\<forall>x \<in> t_id ` set (k_tasks k) \<union> set (k_ready k) \<union> w_tid ` set (in_waiters (k_input k)). x < ?n + 1"
          using ids up unfolding ids_ok_def by (meson order.strict_implies_order)
        ultimately show ?thesis using ids fresh(1) up [of ?n]
          by (auto simp: ids_ok_def k' k1 t_def set_frame_def)
      qed
      moreover have "run_ok ((tmap (k_tasks k))(?n \<mapsto> t)) (k_current k)"
        using run n0 by (auto simp: run_ok_def t_def)
      moreover have "rsp0_ok ((tmap (k_tasks k))(?n \<mapsto> t)) (k_current k) (k_rsp0 k)"
        using r0 run n0 by (auto simp: rsp0_ok_def run_ok_def)
      ultimately show ?thesis by (simp add: at_rest_def k' k1 tm set_frame_def)
    qed
  qed
qed

text \<open>The capabilities a parent hands down are its own, narrowed.\<close>

lemma derive_for_child_held:
  assumes "derive_for_child tid slot m k = Inr c"
  shows "\<exists>t src. tmap (k_tasks k) tid = Some t \<and> Some src \<in> set (t_caps t) \<and> derive_child_cap src m = Inr c"
  using assms by (auto simp: derive_for_child_def find_task_tmap split: option.splits dest: cap_at_Some)

lemma derive_children_held:
  assumes "derive_children tid ps k = Inr cs" and "c \<in> set cs"
  shows "\<exists>t src m. tmap (k_tasks k) tid = Some t \<and> Some src \<in> set (t_caps t) \<and> derive_child_cap src m = Inr c"
  using assms
proof (induction tid ps k arbitrary: cs rule: derive_children.induct)
  case (2 tid slot m ps k)
  from 2(2) obtain d ds where d: "derive_for_child tid slot m k = Inr d" "derive_children tid ps k = Inr ds" "cs = d # ds"
    by (auto split: sum.splits)
  show ?case
  proof (cases "c = d")
    case True
    with derive_for_child_held [OF d(1)] show ?thesis by blast
  next
    case False
    with 2(1) [OF d(1) d(2)] 2(3) d(3) show ?thesis by simp
  qed
qed simp

lemma sys_task_spawn_cases:
  assumes "sys_task_spawn fp c a k = Some k'"
  shows "(\<exists>e. k' = set_rax fp e k) \<or>
    (\<exists>elf spec cs r k1. derive_children c (spec_pairs spec) k = Inr cs \<and>
       spawn_user elf [0x75, 0x73, 0x65, 0x72] cs (Some c) k = Some (r, k1) \<and>
       k' = (case r of Inr child \<Rightarrow> set_frame fp (\<lambda>f. f\<lparr>tf_rax := E_OK, tf_rdi := child\<rparr>) k1 | Inl _ \<Rightarrow> set_rax fp E_BAD_ARG k1))"
proof -
  define B where "B elf cs = (spawn_user elf [0x75, 0x73, 0x65, 0x72] cs (Some c) k \<bind>
    (\<lambda>r. Some (case r of
       (Inr child, k) \<Rightarrow> set_frame fp (\<lambda>f. f\<lparr>tf_rax := E_OK, tf_rdi := child\<rparr>) k
     | (Inl _, k) \<Rightarrow> set_rax fp E_BAD_ARG k)))" for elf cs
  have "(\<exists>e. k' = set_rax fp e k) \<or> (\<exists>elf spec cs. derive_children c (spec_pairs spec) k = Inr cs \<and> B elf cs = Some k')"
    using assms unfolding sys_task_spawn_def Let_def B_def [symmetric]
    by (simp split: if_splits option.splits sum.splits) blast+
  then show ?thesis
  proof (elim disjE exE conjE)
    fix elf spec cs
    assume d: "derive_children c (spec_pairs spec) k = Inr cs" and b: "B elf cs = Some k'"
    obtain r k1 where "spawn_user elf [0x75, 0x73, 0x65, 0x72] cs (Some c) k = Some (r, k1)"
      using b by (auto simp: B_def bind_eq_Some_conv)
    with d b show ?thesis by (intro disjI2 exI conjI) (auto simp: B_def split: sum.splits)
  qed blast
qed

lemma sys_task_spawn_ok:
  assumes "at_rest k" and "k_current k = Some c" and "k_next_kslot k < 2 ^ 64 - 1"
    and "sys_task_spawn fp c a k = Some k'"
  shows "at_rest k' \<and> k_current k' = k_current k \<and> k_rsp0 k' = k_rsp0 k"
proof -
  have q: ?thesis if "k' = set_rax fp e k" for e
    using that assms(1) by (simp add: at_rest_def set_rax_def set_frame_def)
  consider (refused) e where "k' = set_rax fp e k"
    | (spawn) elf spec cs r k1 where "derive_children c (spec_pairs spec) k = Inr cs"
        "spawn_user elf [0x75, 0x73, 0x65, 0x72] cs (Some c) k = Some (r, k1)"
        "k' = (case r of Inr child \<Rightarrow> set_frame fp (\<lambda>f. f\<lparr>tf_rax := E_OK, tf_rdi := child\<rparr>) k1 | Inl _ \<Rightarrow> set_rax fp E_BAD_ARG k1)"
    using sys_task_spawn_cases [OF assms(4)] by metis
  then show ?thesis
  proof cases
    case spawn
    have "cap_ok (emap (k_endpoints k)) d" if d: "d \<in> set cs" for d
    proof -
      obtain t src m where t: "tmap (k_tasks k) c = Some t" "Some src \<in> set (t_caps t)" "derive_child_cap src m = Inr d"
        using derive_children_held [OF spawn(1) d] by blast
      then have "cap_ok (emap (k_endpoints k)) src" using assms(1) by (auto simp: at_rest_def core_def caps_ok_def)
      with derive_child_cap_attenuates [OF t(3)] show ?thesis by (auto intro: cap_ok_attenuates)
    qed
    from spawn_user_ok [OF assms(1,3) _ _ spawn(2)] this assms(2)
    have "at_rest k1" "k_current k1 = k_current k" "k_rsp0 k1 = k_rsp0 k" by auto
    then show ?thesis by (auto simp: spawn(3) at_rest_def set_rax_def set_frame_def split: sum.splits)
  qed (use q in blast)
qed

section \<open>Every trap\<close>

text \<open>
  A trap is handled and leaves the kernel at rest, given that the memory operations it may
  run do not panic: spawning, and reclaiming a dead child.
\<close>

lemma returns_ok_same: "at_rest k' \<Longrightarrow> k_rsp0 k' = k_rsp0 k \<Longrightarrow> fp = k_rsp0 k - FRAME_BYTES \<Longrightarrow> returns_ok (stay fp k')"
  by (simp add: stay_def returns_ok_stay)

lemma dispatch_ok:
  assumes "at_rest k" and "k_current k \<noteq> None \<Longrightarrow> fp = k_rsp0 k - FRAME_BYTES" and "k_next_kslot k < 2 ^ 64 - 1"
    and "\<And>c a. k_current k = Some c \<Longrightarrow> sys_task_spawn fp c a k \<noteq> None"
    and "\<And>z. z \<in> set (k_tasks k) \<Longrightarrow> is_zombie (t_state z) \<Longrightarrow> reclaim (snapshot z) (k_mm k) \<noteq> None"
  shows "returns_ok (dispatch env fp k)"
proof (cases "k_current k")
  case None
  with assms(1) show ?thesis by (simp add: dispatch_def stay_def returns_ok_def cpu_ok_def)
next
  case (Some c)
  then have fp: "fp = k_rsp0 k - FRAME_BYTES" using assms(2) by simp
  define a where "a = args_of (k_frames k fp)"
  define num where "num = tf_rax (k_frames k fp)"
  have reb: "returns_ok (Some (Reboot, k))" using assms(1) by (simp add: returns_ok_def cpu_ok_def)
  have spawn: "returns_ok (sys_task_spawn fp c a k \<bind> stay fp)"
  proof -
    obtain k' where k': "sys_task_spawn fp c a k = Some k'" using assms(4) [OF Some] by blast
    with sys_task_spawn_ok [OF assms(1) Some assms(3) k'] fp show ?thesis by (simp add: returns_ok_same)
  qed
  have wait: "returns_ok (sys_wait c fp flags k)" for flags
    by (rule sys_wait_ok [OF assms(1) Some fp]) (use assms(5) in \<open>auto dest!: find_SomeD\<close>)
  have quiets: "returns_ok (stay fp (sys_debug_write fp c x y z k))" "returns_ok (stay fp (sys_stats pad fp c x y k))"
      "returns_ok (ret fp v k)" for x y z v pad
    using assms(1) fp by (simp_all add: stay_def returns_ok_stay quiet_debug_write quiet_stats returns_ok_ret)
  have tab: "returns_ok (stay fp (sys_cap_derive fp c a k))" "returns_ok (stay fp (sys_set_name fp c x y k))" for x y
    using sys_cap_derive_ok [OF assms(1) Some] sys_set_name_ok [OF assms(1) Some] fp by (simp_all add: returns_ok_same)
  note sw = yield_task_ok [OF assms(1) Some fp] exit_task_ok [OF assms(1) Some] ipc_call_ok [OF assms(1) Some fp]
    ipc_recv_ok [OF assms(1) Some fp] ipc_reply_ok [OF assms(1) Some fp] sys_input_read_ok [OF assms(1) Some fp]
    sys_sleep_ok [OF assms(1) Some fp] sys_kill_ok [OF assms(1) Some fp] block_io_ok [OF assms(1) fp]
  show ?thesis
    unfolding dispatch_def Some option.case Let_def a_def [symmetric] num_def [symmetric]
    by (simp only: if_split reb spawn wait quiets tab sw simp_thms)
qed

lemma handle_user_fault_ok:
  assumes "at_rest k"
  shows "returns_ok (handle_user_fault fp v k)"
  using assms exit_task_ok [OF assms]
  by (auto simp: handle_user_fault_def returns_ok_def cpu_ok_def split: option.splits)

lemma handle_trap_ok:
  assumes "at_rest k" and "k_current k \<noteq> None \<Longrightarrow> fp = k_rsp0 k - FRAME_BYTES" and "k_next_kslot k < 2 ^ 64 - 1"
    and "drain_reaper k = Some k1"
    and "\<And>c a. k_current k = Some c \<Longrightarrow> sys_task_spawn fp c a k1 \<noteq> None"
    and "\<And>z. z \<in> set (k_tasks k) \<Longrightarrow> is_zombie (t_state z) \<Longrightarrow> reclaim (snapshot z) (k_mm k1) \<noteq> None"
  shows "returns_ok (handle_trap env fp v k)"
proof -
  from assms(4) obtain m where k1: "k1 = k\<lparr>k_mm := m, k_reap := []\<rparr>" by (auto simp: drain_reaper_def)
  have r1: "at_rest k1" using assms(1) by (simp add: k1 at_rest_def)
  have "returns_ok (timer_trap fp k1)" by (rule timer_trap_ok [OF r1]) (use assms(2) in \<open>simp add: k1\<close>)
  moreover have "returns_ok (dispatch env fp k1)"
    by (rule dispatch_ok [OF r1]) (use assms(2,3,5,6) in \<open>simp_all add: k1\<close>)
  moreover have "returns_ok (stay fp k1)"
    using r1 assms(2) by (cases "k_current k") (simp_all add: k1 stay_def returns_ok_def cpu_ok_def)
  ultimately show ?thesis by (simp add: handle_trap_def assms(4))
qed

end
