(* ===== verification/Digest.thy ===== *)
theory Digest
  imports Prelude
begin

text \<open>
  The streaming part that \<^verbatim>\<open>crypto/src/sha256.rs\<close> and \<^verbatim>\<open>crypto/src/sha512.rs\<close> share: a chaining
  value, a block buffer that may be partly filled, and the padding at the end. The two files
  differ in the block size, the width of the length field and the compression function,
  which are arguments here.
\<close>

record 'h hasher =
  hs_state :: 'h
  hs_buf :: bytes
  hs_buf_len :: nat
  hs_total_len :: u64

text \<open>The first \<^verbatim>\<open>if\<close> of \<^verbatim>\<open>absorb\<close>: top up a partly filled buffer; what is left of the data.\<close>

definition top_up :: "nat \<Rightarrow> ('h \<Rightarrow> bytes \<Rightarrow> 'h) \<Rightarrow> bytes \<Rightarrow> 'h hasher \<Rightarrow> bytes \<times> 'h hasher" where
  "top_up blk cmp data s =
     (if hs_buf_len s > 0 then
        let n = min (blk - hs_buf_len s) (length data);
            s = s\<lparr>hs_buf := copy_at (hs_buf s) (hs_buf_len s) (take n data), hs_buf_len := hs_buf_len s + n\<rparr>;
            s = (if hs_buf_len s = blk then s\<lparr>hs_state := cmp (hs_state s) (hs_buf s), hs_buf_len := 0\<rparr> else s)
        in (drop n data, s)
      else (data, s))"

text \<open>The \<^verbatim>\<open>while\<close> loop over whole blocks; the block size is a positive constant.\<close>

function absorb_blocks :: "nat \<Rightarrow> ('h \<Rightarrow> bytes \<Rightarrow> 'h) \<Rightarrow> 'h \<Rightarrow> bytes \<Rightarrow> 'h \<times> bytes" where
  "absorb_blocks blk cmp st data =
     (if 0 < blk \<and> blk \<le> length data
      then absorb_blocks blk cmp (cmp st (take blk data)) (drop blk data) else (st, data))"
  by pat_completeness auto
termination by (relation "measure (\<lambda>(_, _, _, data). length data)") auto

declare absorb_blocks.simps [simp del]

definition absorb :: "nat \<Rightarrow> ('h \<Rightarrow> bytes \<Rightarrow> 'h) \<Rightarrow> bytes \<Rightarrow> 'h hasher \<Rightarrow> 'h hasher" where
  "absorb blk cmp data s =
     (case top_up blk cmp data s of
        (data, s) \<Rightarrow>
          (case absorb_blocks blk cmp (hs_state s) data of
             (st, data) \<Rightarrow>
               (let s = s\<lparr>hs_state := st\<rparr> in
                if data \<noteq> [] then s\<lparr>hs_buf := copy_at (hs_buf s) 0 data, hs_buf_len := length data\<rparr> else s)))"

definition hash_update :: "nat \<Rightarrow> ('h \<Rightarrow> bytes \<Rightarrow> 'h) \<Rightarrow> bytes \<Rightarrow> 'h hasher \<Rightarrow> 'h hasher" where
  "hash_update blk cmp data s =
     absorb blk cmp data (s\<lparr>hs_total_len := hs_total_len s + of_nat (length data)\<rparr>)"

text \<open>The padding loop; not returning is \<open>None\<close>.\<close>

partial_function (option) pad_zeros :: "nat \<Rightarrow> nat \<Rightarrow> ('h \<Rightarrow> bytes \<Rightarrow> 'h) \<Rightarrow> 'h hasher \<Rightarrow> 'h hasher option" where
  "pad_zeros blk ll cmp s =
     (if hs_buf_len s = blk - ll then Some s else pad_zeros blk ll cmp (absorb blk cmp [0] s))"

text \<open>\<^verbatim>\<open>finalize\<close> up to the serialisation of the chaining value: \<open>ll\<close> bytes of length.\<close>

definition hash_finish :: "nat \<Rightarrow> nat \<Rightarrow> ('h \<Rightarrow> bytes \<Rightarrow> 'h) \<Rightarrow> 'h hasher \<Rightarrow> 'h option" where
  "hash_finish blk ll cmp s =
     (let bit_len = hs_total_len s * 8 in
      do {
        s \<leftarrow> pad_zeros blk ll cmp (absorb blk cmp [0x80] s);
        Some (hs_state (absorb blk cmp (replicate (ll - 8) 0 @ to_be 8 bit_len) s))
      })"

section \<open>Reference: padding and iteration of FIPS 180-4\<close>

definition blocks_of :: "nat \<Rightarrow> bytes \<Rightarrow> bytes list" where
  "blocks_of blk xs = map (\<lambda>i. rslice xs (i * blk) (i * blk + blk)) [0..<length xs div blk]"

text \<open>One 1 bit, the least number of 0 bits that makes room for the length, the length in bits.\<close>

definition md_pad :: "nat \<Rightarrow> nat \<Rightarrow> bytes \<Rightarrow> bytes" where
  "md_pad blk ll msg =
     msg @ [0x80] @ replicate ((2 * blk - ll - (length msg + 1) mod blk) mod blk) 0 @
     replicate (ll - 8) 0 @ to_be 8 (of_nat (8 * length msg) :: u64)"

definition md_hash :: "nat \<Rightarrow> nat \<Rightarrow> ('h \<Rightarrow> bytes \<Rightarrow> 'h) \<Rightarrow> 'h \<Rightarrow> bytes \<Rightarrow> 'h" where
  "md_hash blk ll cmp iv msg = foldl cmp iv (blocks_of blk (md_pad blk ll msg))"

section \<open>The buffer is invisible\<close>

text \<open>The bytes waiting in the buffer.\<close>

definition pending :: "'h hasher \<Rightarrow> bytes" where
  "pending s = take (hs_buf_len s) (hs_buf s)"

definition hasher_ok :: "nat \<Rightarrow> 'h hasher \<Rightarrow> bool" where
  "hasher_ok blk s \<longleftrightarrow> length (hs_buf s) = blk \<and> hs_buf_len s < blk"

lemma absorb_blocks_more:
  "0 < blk \<Longrightarrow> blk \<le> length data \<Longrightarrow>
   absorb_blocks blk cmp st data = absorb_blocks blk cmp (cmp st (take blk data)) (drop blk data)"
  by (subst absorb_blocks.simps) simp

lemma absorb_blocks_stop: "length data < blk \<Longrightarrow> absorb_blocks blk cmp st data = (st, data)"
  by (subst absorb_blocks.simps) simp

lemma absorb_blocks_rest: "0 < blk \<Longrightarrow> length (snd (absorb_blocks blk cmp st data)) < blk"
proof (induction blk cmp st data rule: absorb_blocks.induct)
  case (1 blk cmp st data)
  show ?case
  proof (cases "blk \<le> length data")
    case True
    with 1 show ?thesis using absorb_blocks_more [of blk data cmp st] by simp
  next
    case False
    then show ?thesis by (simp add: absorb_blocks_stop)
  qed
qed

lemma absorb_blocks_append:
  "0 < blk \<Longrightarrow> absorb_blocks blk cmp st (xs @ ys) =
     (case absorb_blocks blk cmp st xs of (st', r) \<Rightarrow> absorb_blocks blk cmp st' (r @ ys))"
proof (induction blk cmp st xs rule: absorb_blocks.induct)
  case (1 blk cmp st xs)
  show ?case
  proof (cases "blk \<le> length xs")
    case True
    with 1 show ?thesis using absorb_blocks_more [of blk xs cmp st] absorb_blocks_more [of blk "xs @ ys" cmp st] by simp
  next
    case False
    then show ?thesis by (simp add: absorb_blocks_stop)
  qed
qed

text \<open>The tail of \<^verbatim>\<open>absorb\<close> on an empty buffer.\<close>

lemma absorb_empty:
  assumes "hasher_ok blk s" and "hs_buf_len s = 0" and "absorb_blocks blk cmp (hs_state s) data = (st, r)"
  shows "absorb blk cmp data s = (if r \<noteq> [] then s\<lparr>hs_state := st, hs_buf := copy_at (hs_buf s) 0 r, hs_buf_len := length r\<rparr>
    else s\<lparr>hs_state := st\<rparr>)"
  using assms by (simp add: absorb_def top_up_def Let_def)

lemma absorb_spec_empty:
  assumes "hasher_ok blk s" and "hs_buf_len s = 0"
  shows "hasher_ok blk (absorb blk cmp data s) \<and> hs_total_len (absorb blk cmp data s) = hs_total_len s \<and>
    absorb_blocks blk cmp (hs_state s) data = (hs_state (absorb blk cmp data s), pending (absorb blk cmp data s))"
proof -
  obtain st r where r: "absorb_blocks blk cmp (hs_state s) data = (st, r)" by (metis prod.exhaust)
  have "length r < blk" using absorb_blocks_rest [of blk cmp "hs_state s" data] assms r by (auto simp: hasher_ok_def)
  with assms r show ?thesis
    by (auto simp: absorb_empty [OF assms r] hasher_ok_def pending_def copy_at_def)
qed

lemma absorb_spec:
  assumes "hasher_ok blk s"
  shows "hasher_ok blk (absorb blk cmp data s) \<and> hs_total_len (absorb blk cmp data s) = hs_total_len s \<and>
    absorb_blocks blk cmp (hs_state s) (pending s @ data) =
      (hs_state (absorb blk cmp data s), pending (absorb blk cmp data s))"
proof (cases "hs_buf_len s = 0")
  case True
  with absorb_spec_empty [OF assms True, of cmp data] show ?thesis by (simp add: pending_def)
next
  case False
  let ?b = "hs_buf_len s"
  define n where "n = min (blk - ?b) (length data)"
  have len: "length (hs_buf s) = blk" "?b < blk" "length (pending s) = ?b" using assms by (auto simp: hasher_ok_def pending_def)
  show ?thesis
  proof (cases "?b + n = blk")
    case True
    define s1 where "s1 = s\<lparr>hs_buf := pending s @ take n data, hs_state := cmp (hs_state s) (pending s @ take n data), hs_buf_len := 0\<rparr>"
    have n: "length (take n data) = n" by (simp add: n_def)
    have "copy_at (hs_buf s) ?b (take n data) = pending s @ take n data"
      using True n len by (simp add: copy_at_def pending_def)
    then have tu: "top_up blk cmp data s = (drop n data, s1)"
      using True False by (simp add: top_up_def Let_def n_def [symmetric] s1_def)
    have ok1: "hasher_ok blk s1" "hs_buf_len s1 = 0" using True n len by (auto simp: hasher_ok_def s1_def)
    have ab: "absorb blk cmp data s = absorb blk cmp (drop n data) s1"
      using tu ok1 by (simp add: absorb_def top_up_def)
    have t: "take blk (pending s @ data) = pending s @ take n data" "drop blk (pending s @ data) = drop n data" "blk \<le> length (pending s @ data)"
      using True len n_def by (auto simp: take_append drop_append)
    have "absorb_blocks blk cmp (hs_state s) (pending s @ data) = absorb_blocks blk cmp (hs_state s1) (drop n data)"
      using absorb_blocks_more [OF _ t(3), of cmp "hs_state s"] len(2) by (simp only: t s1_def) simp
    with absorb_spec_empty [OF ok1, of cmp "drop n data"] show ?thesis by (simp add: ab s1_def)
  next
    case nb: False
    then have n: "n = length data" "?b + length data < blk" using len by (auto simp: n_def)
    have "absorb blk cmp data s = s\<lparr>hs_buf := copy_at (hs_buf s) ?b data, hs_buf_len := ?b + length data\<rparr>"
      using nb False n len by (simp add: absorb_def top_up_def Let_def n_def [symmetric] absorb_blocks_stop)
    with n len show ?thesis by (simp add: hasher_ok_def pending_def copy_at_def absorb_blocks_stop)
  qed
qed

lemmas absorb_ok [simp] = absorb_spec [THEN conjunct1]
lemmas absorb_total [simp] = absorb_spec [THEN conjunct2, THEN conjunct1]
lemmas absorb_obs = absorb_spec [THEN conjunct2, THEN conjunct2]

lemma pending_len: "hasher_ok blk s \<Longrightarrow> length (pending s) = hs_buf_len s"
  by (simp add: hasher_ok_def pending_def)

section \<open>Padding\<close>

text \<open>The least number of zero bytes the loop adds when the buffer holds \<open>n\<close> bytes.\<close>

definition zeros_needed :: "nat \<Rightarrow> nat \<Rightarrow> nat \<Rightarrow> nat" where
  "zeros_needed blk ll n = (2 * blk - ll - n) mod blk"

lemma absorb_byte_len:
  assumes "hasher_ok blk s"
  shows "hs_buf_len (absorb blk cmp [b] s) = (if hs_buf_len s + 1 = blk then 0 else hs_buf_len s + 1)"
proof -
  let ?s = "absorb blk cmp [b] s"
  have l: "length (pending s @ [b]) = hs_buf_len s + 1" "hs_buf_len s < blk"
    using assms pending_len [OF assms] by (auto simp: hasher_ok_def)
  have "length (pending ?s) = (if hs_buf_len s + 1 = blk then 0 else hs_buf_len s + 1)"
  proof (cases "hs_buf_len s + 1 = blk")
    case True
    then have "absorb_blocks blk cmp (hs_state s) (pending s @ [b]) = (cmp (hs_state s) (pending s @ [b]), [])"
      using l absorb_blocks_more [of blk "pending s @ [b]" cmp "hs_state s"] by (simp add: absorb_blocks_stop)
    with absorb_obs [OF assms, of cmp "[b]"] True show ?thesis by simp
  next
    case False
    then have "absorb_blocks blk cmp (hs_state s) (pending s @ [b]) = (hs_state s, pending s @ [b])"
      using l by (intro absorb_blocks_stop) simp
    with absorb_obs [OF assms, of cmp "[b]"] False l show ?thesis by simp
  qed
  then show ?thesis using pending_len [of blk ?s] assms by simp
qed

lemma zeros_needed_eq:
  "n < blk \<Longrightarrow> 0 < ll \<Longrightarrow> ll < blk \<Longrightarrow> zeros_needed blk ll n = (if n \<le> blk - ll then blk - ll - n else 2 * blk - ll - n)"
proof (cases "n \<le> blk - ll")
  case True
  assume "n < blk" "0 < ll" "ll < blk"
  with True have "2 * blk - ll - n = (blk - ll - n) + blk" "blk - ll - n < blk" by linarith+
  then show ?thesis using True unfolding zeros_needed_def by (simp only: mod_add_self2 mod_less if_True)
qed (simp add: zeros_needed_def)

text \<open>Cutting a string into blocks one at a time and all at once.\<close>

lemma blocks_of_Cons:
  assumes "0 < blk" and "blk \<le> length xs"
  shows "blocks_of blk xs = take blk xs # blocks_of blk (drop blk xs)"
proof -
  have d: "length xs div blk = Suc ((length xs - blk) div blk)"
    using assms by (metis add_diff_inverse_nat div_add_self1 leD le_add_diff_inverse less_irrefl_nat plus_1_eq_Suc add.commute Suc_eq_plus1)
  have "rslice xs (Suc i * blk) (Suc i * blk + blk) = rslice (drop blk xs) (i * blk) (i * blk + blk)" for i
    by (simp add: rslice_def add.commute)
  then show ?thesis
    by (simp add: blocks_of_def d upt_rec [of 0] map_Suc_upt [symmetric] o_def rslice_def del: upt_Suc)
qed

lemma absorb_blocks_fold:
  "0 < blk \<Longrightarrow> absorb_blocks blk cmp st xs = (foldl cmp st (blocks_of blk xs), drop (length xs div blk * blk) xs)"
proof (induction blk cmp st xs rule: absorb_blocks.induct)
  case (1 blk cmp st xs)
  show ?case
  proof (cases "blk \<le> length xs")
    case True
    have "length xs div blk * blk = blk + (length xs - blk) div blk * blk"
      using True 1(2) by (simp add: le_div_geq)
    with True 1 show ?thesis
      by (simp add: absorb_blocks_more [of blk xs] blocks_of_Cons [of blk xs] add.commute)
  next
    case False
    then show ?thesis by (simp add: absorb_blocks_stop blocks_of_def)
  qed
qed

text \<open>What a hasher that was fed \<open>msg\<close> in any pieces looks like.\<close>

definition fed :: "nat \<Rightarrow> ('h \<Rightarrow> bytes \<Rightarrow> 'h) \<Rightarrow> 'h \<Rightarrow> bytes \<Rightarrow> 'h hasher \<Rightarrow> bool" where
  "fed blk cmp iv msg s \<longleftrightarrow> hasher_ok blk s \<and> absorb_blocks blk cmp iv msg = (hs_state s, pending s) \<and>
     hs_total_len s = of_nat (length msg)"

text \<open>
  The contract a streaming hash needs: room for the 64-bit length after the padding byte.
\<close>

locale md_iteration =
  fixes blk ll :: nat and cmp :: "'h \<Rightarrow> bytes \<Rightarrow> 'h"
  assumes length_field: "8 \<le> ll" "ll < blk"
begin

lemma blk_pos: "0 < blk"
  using length_field by simp

text \<open>The padding loop ends, having added the least number of zeros.\<close>

lemma pad_zeros_spec:
  "hasher_ok blk s \<Longrightarrow> \<exists>s'. pad_zeros blk ll cmp s = Some s' \<and> hasher_ok blk s' \<and> hs_buf_len s' = blk - ll \<and>
     absorb_blocks blk cmp (hs_state s) (pending s @ replicate (zeros_needed blk ll (hs_buf_len s)) 0) = (hs_state s', pending s')"
proof (induction "zeros_needed blk ll (hs_buf_len s)" arbitrary: s)
  case 0
  then have n: "hs_buf_len s < blk" by (simp add: hasher_ok_def)
  from 0 n length_field have "hs_buf_len s = blk - ll" by (simp add: zeros_needed_eq split: if_splits)
  moreover from 0 n have "absorb_blocks blk cmp (hs_state s) (pending s) = (hs_state s, pending s)"
    by (intro absorb_blocks_stop) (simp add: pending_len)
  ultimately show ?case using 0 by (subst pad_zeros.simps) simp
next
  case (Suc z)
  let ?s1 = "absorb blk cmp [0] s"
  from Suc.prems have n: "hs_buf_len s < blk" and ok1: "hasher_ok blk ?s1" by (simp_all add: hasher_ok_def [of blk s])
  from Suc(2) n length_field have ne: "hs_buf_len s \<noteq> blk - ll" by (simp add: zeros_needed_eq split: if_splits)
  have z: "z = zeros_needed blk ll (hs_buf_len ?s1)"
    using Suc(2) n length_field absorb_byte_len [OF Suc.prems, of cmp 0]
    by (auto simp: zeros_needed_eq split: if_splits)
  from Suc(1) [OF z ok1] obtain s' where s': "pad_zeros blk ll cmp ?s1 = Some s'" "hasher_ok blk s'" "hs_buf_len s' = blk - ll"
    "absorb_blocks blk cmp (hs_state ?s1) (pending ?s1 @ replicate z 0) = (hs_state s', pending s')" using z by auto
  have "replicate (Suc z) (0 :: u8) = [0] @ replicate z 0" by simp
  with absorb_blocks_append [OF blk_pos, of cmp "hs_state s" "pending s @ [0]" "replicate z 0"]
    absorb_obs [OF Suc.prems, of cmp "[0]"] s'(4)
  have "absorb_blocks blk cmp (hs_state s) (pending s @ replicate (Suc z) 0) = (hs_state s', pending s')" by simp
  moreover have "pad_zeros blk ll cmp s = Some s'" using ne s'(1) by (subst pad_zeros.simps) simp
  ultimately show ?case using s'(2,3) by (auto simp: Suc(2) [symmetric])
qed

lemma fed_update:
  assumes "fed blk cmp iv msg s"
  shows "fed blk cmp iv (msg @ data) (hash_update blk cmp data s)"
proof -
  let ?s = "s\<lparr>hs_total_len := hs_total_len s + of_nat (length data)\<rparr>"
  have s: "hasher_ok blk ?s" "hs_state ?s = hs_state s" "pending ?s = pending s"
    using assms by (auto simp: fed_def hasher_ok_def pending_def)
  then show ?thesis
    using assms absorb_obs [OF s(1), of cmp data] absorb_blocks_append [OF blk_pos, of cmp iv msg data]
    by (simp add: fed_def hash_update_def)
qed

lemma fed_updates: "fed blk cmp iv msg s \<Longrightarrow> fed blk cmp iv (msg @ concat chunks) (fold (hash_update blk cmp) chunks s)"
proof (induction chunks arbitrary: msg s)
  case (Cons c cs)
  from Cons.IH [OF fed_update [OF Cons.prems, of c]] show ?case by simp
qed simp

lemma fed_finish:
  assumes "fed blk cmp iv msg s"
  shows "hash_finish blk ll cmp s = Some (md_hash blk ll cmp iv msg)"
proof -
  let ?s1 = "absorb blk cmp [0x80] s" and ?L = "replicate (ll - 8) 0 @ to_be 8 (hs_total_len s * 8)"
  have ok: "hasher_ok blk s" and obs: "absorb_blocks blk cmp iv msg = (hs_state s, pending s)"
    and tot: "hs_total_len s = of_nat (length msg)" using assms by (auto simp: fed_def)
  define z where "z = zeros_needed blk ll (hs_buf_len ?s1)"
  from pad_zeros_spec [of ?s1] ok obtain s2 where s2: "pad_zeros blk ll cmp ?s1 = Some s2" "hasher_ok blk s2"
    "hs_buf_len s2 = blk - ll" "absorb_blocks blk cmp (hs_state ?s1) (pending ?s1 @ replicate z 0) = (hs_state s2, pending s2)"
    by (auto simp: z_def)
  have r1: "absorb_blocks blk cmp iv (msg @ [0x80]) = (hs_state ?s1, pending ?s1)"
    using absorb_blocks_append [OF blk_pos, of cmp iv msg "[0x80]"] obs absorb_obs [OF ok, of cmp "[0x80]"] by simp
  have r2: "absorb_blocks blk cmp iv (msg @ [0x80] @ replicate z 0) = (hs_state s2, pending s2)"
    using absorb_blocks_append [OF blk_pos, of cmp iv "msg @ [0x80]" "replicate z 0"] r1 s2(4) by simp
  have r3: "absorb_blocks blk cmp iv (msg @ [0x80] @ replicate z 0 @ ?L) = (hs_state (absorb blk cmp ?L s2), pending (absorb blk cmp ?L s2))"
    using absorb_blocks_append [OF blk_pos, of cmp iv "msg @ [0x80] @ replicate z 0" ?L] r2 absorb_obs [OF s2(2), of cmp ?L] by simp
  have "hs_buf_len ?s1 = (length msg + 1) mod blk"
  proof -
    have "length (pending ?s1) = length (drop ((length msg + 1) div blk * blk) (msg @ [0x80 :: u8]))"
      using r1 absorb_blocks_fold [OF blk_pos, of cmp iv "msg @ [0x80]"] by simp
    also have "\<dots> = (length msg + 1) - (length msg + 1) div blk * blk" by (simp only: length_drop length_append list.size)
    also have "\<dots> = (length msg + 1) mod blk" by (rule minus_div_mult_eq_mod)
    finally show ?thesis using pending_len [of blk ?s1] ok by simp
  qed
  then have pad: "msg @ [0x80] @ replicate z 0 @ ?L = md_pad blk ll msg"
    by (simp add: md_pad_def z_def zeros_needed_def tot mult.commute)
  have "hs_state (absorb blk cmp ?L s2) = md_hash blk ll cmp iv msg"
    using r3 absorb_blocks_fold [OF blk_pos, of cmp iv "md_pad blk ll msg"] unfolding pad md_hash_def by simp
  with s2(1) show ?thesis by (simp add: hash_finish_def Let_def)
qed

end

end
