(* ===== verification/Sha.thy ===== *)
theory Sha
  imports Digest
begin

text \<open>
  SHA-256 and SHA-512, \<^verbatim>\<open>crypto/src/sha256.rs\<close> and \<^verbatim>\<open>crypto/src/sha512.rs\<close>: constants, message
  schedule, rounds, and the streaming interface. Feeding a message in any pieces gives the
  digest of the standard's padded message.
\<close>

unbundle bit_operations_syntax

type_synonym 'w sha_vars = "'w \<times> 'w \<times> 'w \<times> 'w \<times> 'w \<times> 'w \<times> 'w \<times> 'w"

section \<open>SHA-256\<close>

definition K256 :: "u32 list" where
  "K256 = concat [
    [0x428a2f98, 0x71374491, 0xb5c0fbcf, 0xe9b5dba5, 0x3956c25b, 0x59f111f1, 0x923f82a4, 0xab1c5ed5],
    [0xd807aa98, 0x12835b01, 0x243185be, 0x550c7dc3, 0x72be5d74, 0x80deb1fe, 0x9bdc06a7, 0xc19bf174],
    [0xe49b69c1, 0xefbe4786, 0x0fc19dc6, 0x240ca1cc, 0x2de92c6f, 0x4a7484aa, 0x5cb0a9dc, 0x76f988da],
    [0x983e5152, 0xa831c66d, 0xb00327c8, 0xbf597fc7, 0xc6e00bf3, 0xd5a79147, 0x06ca6351, 0x14292967],
    [0x27b70a85, 0x2e1b2138, 0x4d2c6dfc, 0x53380d13, 0x650a7354, 0x766a0abb, 0x81c2c92e, 0x92722c85],
    [0xa2bfe8a1, 0xa81a664b, 0xc24b8b70, 0xc76c51a3, 0xd192e819, 0xd6990624, 0xf40e3585, 0x106aa070],
    [0x19a4c116, 0x1e376c08, 0x2748774c, 0x34b0bcb5, 0x391c0cb3, 0x4ed8aa4a, 0x5b9cca4f, 0x682e6ff3],
    [0x748f82ee, 0x78a5636f, 0x84c87814, 0x8cc70208, 0x90befffa, 0xa4506ceb, 0xbef9a3f7, 0xc67178f2]]"

definition SHA256_IV :: "u32 list" where
  "SHA256_IV = [
    0x6a09e667, 0xbb67ae85, 0x3c6ef372, 0xa54ff53a,
    0x510e527f, 0x9b05688c, 0x1f83d9ab, 0x5be0cd19]"

definition sha256_new :: "u32 list hasher" where
  "sha256_new = \<lparr>hs_state = SHA256_IV, hs_buf = replicate 64 0, hs_buf_len = 0, hs_total_len = 0\<rparr>"

definition schedule256_step :: "nat \<Rightarrow> u32 list \<Rightarrow> u32 list" where
  "schedule256_step i w =
     (let s0 = word_rotr 7 (w ! (i - 15)) XOR word_rotr 18 (w ! (i - 15)) XOR drop_bit 3 (w ! (i - 15));
          s1 = word_rotr 17 (w ! (i - 2)) XOR word_rotr 19 (w ! (i - 2)) XOR drop_bit 10 (w ! (i - 2))
      in w @ [w ! (i - 16) + s0 + w ! (i - 7) + s1])"

definition schedule256 :: "bytes \<Rightarrow> u32 list" where
  "schedule256 block =
     fold schedule256_step [16..<64] (map (\<lambda>i. from_be (rslice block (i * 4) (i * 4 + 4))) [0..<16])"

definition round256 :: "u32 \<Rightarrow> u32 \<Rightarrow> u32 sha_vars \<Rightarrow> u32 sha_vars" where
  "round256 kt wt = (\<lambda>(a, b, c, d, e, f, g, h).
     let s1 = word_rotr 6 e XOR word_rotr 11 e XOR word_rotr 25 e;
         ch = (e AND f) XOR (NOT e AND g);
         t1 = h + s1 + ch + kt + wt;
         s0 = word_rotr 2 a XOR word_rotr 13 a XOR word_rotr 22 a;
         maj = (a AND b) XOR (a AND c) XOR (b AND c);
         t2 = s0 + maj
     in (t1 + t2, a, b, c, d + t1, e, f, g))"

definition compress256 :: "u32 list \<Rightarrow> bytes \<Rightarrow> u32 list" where
  "compress256 state block =
     (let w = schedule256 block in
      case fold (\<lambda>i. round256 (K256 ! i) (w ! i)) [0..<64]
             (state ! 0, state ! 1, state ! 2, state ! 3, state ! 4, state ! 5, state ! 6, state ! 7) of
        (a, b, c, d, e, f, g, h) \<Rightarrow> map2 (+) state [a, b, c, d, e, f, g, h])"

definition sha256_update :: "bytes \<Rightarrow> u32 list hasher \<Rightarrow> u32 list hasher" where
  "sha256_update = hash_update 64 compress256"

definition sha256_finalize :: "u32 list hasher \<Rightarrow> bytes option" where
  "sha256_finalize s = map_option (\<lambda>st. concat (map (to_be 4) st)) (hash_finish 64 8 compress256 s)"

definition sha256 :: "bytes \<Rightarrow> bytes option" where
  "sha256 data = sha256_finalize (sha256_update data sha256_new)"

section \<open>SHA-512\<close>

definition K512 :: "u64 list" where
  "K512 = concat [
    [0x428a2f98d728ae22, 0x7137449123ef65cd, 0xb5c0fbcfec4d3b2f, 0xe9b5dba58189dbbc],
    [0x3956c25bf348b538, 0x59f111f1b605d019, 0x923f82a4af194f9b, 0xab1c5ed5da6d8118],
    [0xd807aa98a3030242, 0x12835b0145706fbe, 0x243185be4ee4b28c, 0x550c7dc3d5ffb4e2],
    [0x72be5d74f27b896f, 0x80deb1fe3b1696b1, 0x9bdc06a725c71235, 0xc19bf174cf692694],
    [0xe49b69c19ef14ad2, 0xefbe4786384f25e3, 0x0fc19dc68b8cd5b5, 0x240ca1cc77ac9c65],
    [0x2de92c6f592b0275, 0x4a7484aa6ea6e483, 0x5cb0a9dcbd41fbd4, 0x76f988da831153b5],
    [0x983e5152ee66dfab, 0xa831c66d2db43210, 0xb00327c898fb213f, 0xbf597fc7beef0ee4],
    [0xc6e00bf33da88fc2, 0xd5a79147930aa725, 0x06ca6351e003826f, 0x142929670a0e6e70],
    [0x27b70a8546d22ffc, 0x2e1b21385c26c926, 0x4d2c6dfc5ac42aed, 0x53380d139d95b3df],
    [0x650a73548baf63de, 0x766a0abb3c77b2a8, 0x81c2c92e47edaee6, 0x92722c851482353b],
    [0xa2bfe8a14cf10364, 0xa81a664bbc423001, 0xc24b8b70d0f89791, 0xc76c51a30654be30],
    [0xd192e819d6ef5218, 0xd69906245565a910, 0xf40e35855771202a, 0x106aa07032bbd1b8],
    [0x19a4c116b8d2d0c8, 0x1e376c085141ab53, 0x2748774cdf8eeb99, 0x34b0bcb5e19b48a8],
    [0x391c0cb3c5c95a63, 0x4ed8aa4ae3418acb, 0x5b9cca4f7763e373, 0x682e6ff3d6b2b8a3],
    [0x748f82ee5defb2fc, 0x78a5636f43172f60, 0x84c87814a1f0ab72, 0x8cc702081a6439ec],
    [0x90befffa23631e28, 0xa4506cebde82bde9, 0xbef9a3f7b2c67915, 0xc67178f2e372532b],
    [0xca273eceea26619c, 0xd186b8c721c0c207, 0xeada7dd6cde0eb1e, 0xf57d4f7fee6ed178],
    [0x06f067aa72176fba, 0x0a637dc5a2c898a6, 0x113f9804bef90dae, 0x1b710b35131c471b],
    [0x28db77f523047d84, 0x32caab7b40c72493, 0x3c9ebe0a15c9bebc, 0x431d67c49c100d4c],
    [0x4cc5d4becb3e42b6, 0x597f299cfc657e2a, 0x5fcb6fab3ad6faec, 0x6c44198c4a475817]]"

definition SHA512_IV :: "u64 list" where
  "SHA512_IV = [
    0x6a09e667f3bcc908, 0xbb67ae8584caa73b, 0x3c6ef372fe94f82b, 0xa54ff53a5f1d36f1,
    0x510e527fade682d1, 0x9b05688c2b3e6c1f, 0x1f83d9abfb41bd6b, 0x5be0cd19137e2179]"

definition sha512_new :: "u64 list hasher" where
  "sha512_new = \<lparr>hs_state = SHA512_IV, hs_buf = replicate 128 0, hs_buf_len = 0, hs_total_len = 0\<rparr>"

definition schedule512_step :: "nat \<Rightarrow> u64 list \<Rightarrow> u64 list" where
  "schedule512_step i w =
     (let s0 = word_rotr 1 (w ! (i - 15)) XOR word_rotr 8 (w ! (i - 15)) XOR drop_bit 7 (w ! (i - 15));
          s1 = word_rotr 19 (w ! (i - 2)) XOR word_rotr 61 (w ! (i - 2)) XOR drop_bit 6 (w ! (i - 2))
      in w @ [w ! (i - 16) + s0 + w ! (i - 7) + s1])"

definition schedule512 :: "bytes \<Rightarrow> u64 list" where
  "schedule512 block =
     fold schedule512_step [16..<80] (map (\<lambda>i. from_be (rslice block (i * 8) (i * 8 + 8))) [0..<16])"

definition round512 :: "u64 \<Rightarrow> u64 \<Rightarrow> u64 sha_vars \<Rightarrow> u64 sha_vars" where
  "round512 kt wt = (\<lambda>(a, b, c, d, e, f, g, h).
     let s1 = word_rotr 14 e XOR word_rotr 18 e XOR word_rotr 41 e;
         ch = (e AND f) XOR (NOT e AND g);
         t1 = h + s1 + ch + kt + wt;
         s0 = word_rotr 28 a XOR word_rotr 34 a XOR word_rotr 39 a;
         maj = (a AND b) XOR (a AND c) XOR (b AND c);
         t2 = s0 + maj
     in (t1 + t2, a, b, c, d + t1, e, f, g))"

definition compress512 :: "u64 list \<Rightarrow> bytes \<Rightarrow> u64 list" where
  "compress512 state block =
     (let w = schedule512 block in
      case fold (\<lambda>i. round512 (K512 ! i) (w ! i)) [0..<80]
             (state ! 0, state ! 1, state ! 2, state ! 3, state ! 4, state ! 5, state ! 6, state ! 7) of
        (a, b, c, d, e, f, g, h) \<Rightarrow> map2 (+) state [a, b, c, d, e, f, g, h])"

definition sha512_update :: "bytes \<Rightarrow> u64 list hasher \<Rightarrow> u64 list hasher" where
  "sha512_update = hash_update 128 compress512"

definition sha512_finalize :: "u64 list hasher \<Rightarrow> bytes option" where
  "sha512_finalize s = map_option (\<lambda>st. concat (map (to_be 8) st)) (hash_finish 128 16 compress512 s)"

definition sha512 :: "bytes \<Rightarrow> bytes option" where
  "sha512 data = sha512_finalize (sha512_update data sha512_new)"

section \<open>Streaming\<close>

interpretation sha256_md: md_iteration 64 8 compress256
  by unfold_locales simp_all

lemma length_compress256 [simp]: "length st = 8 \<Longrightarrow> length (compress256 st block) = 8"
  by (simp add: compress256_def Let_def split: prod.splits)

lemma sha256_fresh: "fed 64 compress256 SHA256_IV [] sha256_new"
  by (simp add: fed_def sha256_new_def hasher_ok_def pending_def absorb_blocks_stop)

text \<open>The digest of the standard: big-endian serialisation of the iterated compression.\<close>

definition sha256_spec :: "bytes \<Rightarrow> bytes" where
  "sha256_spec msg = concat (map (to_be 4) (md_hash 64 8 compress256 SHA256_IV msg))"

lemma sha256_stream:
  "sha256_finalize (fold sha256_update chunks sha256_new) = Some (sha256_spec (concat chunks))"
  using sha256_md.fed_finish [OF sha256_md.fed_updates [OF sha256_fresh, of chunks]]
  by (simp add: sha256_finalize_def sha256_update_def sha256_spec_def)

lemma sha256_eq: "sha256 msg = Some (sha256_spec msg)"
  using sha256_stream [of "[msg]"] by (simp add: sha256_def)

lemma length_sha256_spec [simp]: "length (sha256_spec msg) = 32"
proof -
  have "length (foldl compress256 st bs) = 8" if "length st = 8" for st bs
    using that by (induction bs arbitrary: st) auto
  then have "length (md_hash 64 8 compress256 SHA256_IV msg) = 8"
    by (simp add: md_hash_def SHA256_IV_def)
  then show ?thesis
    by (simp add: sha256_spec_def length_concat o_def sum_list_triv)
qed

interpretation sha512_md: md_iteration 128 16 compress512
  by unfold_locales simp_all

lemma length_compress512 [simp]: "length st = 8 \<Longrightarrow> length (compress512 st block) = 8"
  by (simp add: compress512_def Let_def split: prod.splits)

lemma sha512_fresh: "fed 128 compress512 SHA512_IV [] sha512_new"
  by (simp add: fed_def sha512_new_def hasher_ok_def pending_def absorb_blocks_stop)

text \<open>The digest of the standard: big-endian serialisation of the iterated compression.\<close>

definition sha512_spec :: "bytes \<Rightarrow> bytes" where
  "sha512_spec msg = concat (map (to_be 8) (md_hash 128 16 compress512 SHA512_IV msg))"

lemma sha512_stream:
  "sha512_finalize (fold sha512_update chunks sha512_new) = Some (sha512_spec (concat chunks))"
  using sha512_md.fed_finish [OF sha512_md.fed_updates [OF sha512_fresh, of chunks]]
  by (simp add: sha512_finalize_def sha512_update_def sha512_spec_def)

lemma sha512_eq: "sha512 msg = Some (sha512_spec msg)"
  using sha512_stream [of "[msg]"] by (simp add: sha512_def)

lemma length_sha512_spec [simp]: "length (sha512_spec msg) = 64"
proof -
  have "length (foldl compress512 st bs) = 8" if "length st = 8" for st bs
    using that by (induction bs arbitrary: st) auto
  then have "length (md_hash 128 16 compress512 SHA512_IV msg) = 8"
    by (simp add: md_hash_def SHA512_IV_def)
  then show ?thesis
    by (simp add: sha512_spec_def length_concat o_def sum_list_triv)
qed

section \<open>Properties\<close>

text \<open>C14: hashing is independent of how the message is cut: \<^verbatim>\<open>finalize\<close> after any sequence of
  \<^verbatim>\<open>update\<close> calls returns (its padding loop ends) and gives the one-shot digest of the
  concatenated pieces, which is the digest of the standard's padded message.\<close>

theorem sha_streaming:
  "sha256_finalize (fold sha256_update chunks sha256_new) = sha256 (concat chunks) \<and>
   sha256 msg = Some (concat (map (to_be 4) (md_hash 64 8 compress256 SHA256_IV msg))) \<and>
   sha512_finalize (fold sha512_update chunks sha512_new) = sha512 (concat chunks) \<and>
   sha512 msg = Some (concat (map (to_be 8) (md_hash 128 16 compress512 SHA512_IV msg)))"
  by (simp add: sha256_stream sha256_eq sha512_stream sha512_eq sha256_spec_def sha512_spec_def)

lemma sha256_spec_abc:
  "sha256_spec [0x61, 0x62, 0x63] =
     [0xba, 0x78, 0x16, 0xbf, 0x8f, 0x01, 0xcf, 0xea, 0x41, 0x41, 0x40, 0xde, 0x5d, 0xae, 0x22, 0x23,
      0xb0, 0x03, 0x61, 0xa3, 0x96, 0x17, 0x7a, 0x9c, 0xb4, 0x10, 0xff, 0x61, 0xf2, 0x00, 0x15, 0xad]"
  by code_simp

text \<open>The known answer of FIPS 180-4 that the unit tests of the file use: the digest of
  \<^verbatim>\<open>"abc"\<close>.\<close>

theorem sha256_known_answer:
  "sha256 [0x61, 0x62, 0x63] = Some
     [0xba, 0x78, 0x16, 0xbf, 0x8f, 0x01, 0xcf, 0xea, 0x41, 0x41, 0x40, 0xde, 0x5d, 0xae, 0x22, 0x23,
      0xb0, 0x03, 0x61, 0xa3, 0x96, 0x17, 0x7a, 0x9c, 0xb4, 0x10, 0xff, 0x61, 0xf2, 0x00, 0x15, 0xad]"
  by (simp add: sha256_eq sha256_spec_abc)

end
