(* ===== verification/Hmac.thy ===== *)
theory Hmac
  imports Sha
begin

text \<open>
  HMAC-SHA-256, \<^verbatim>\<open>crypto/src/hmac.rs\<close>: the key block, the two hashers, the streaming
  interface, and that it computes the function of RFC 2104.
\<close>

record hmac =
  hm_inner :: "u32 list hasher"
  hm_outer :: "u32 list hasher"

text \<open>The zero-padded key block; a long key is hashed first.\<close>

definition hmac_key :: "bytes \<Rightarrow> bytes option" where
  "hmac_key key =
     (if length key > 64 then map_option (copy_at (replicate 64 0) 0) (sha256 key)
      else Some (copy_at (replicate 64 0) 0 key))"

definition hmac_new :: "bytes \<Rightarrow> hmac option" where
  "hmac_new key =
     do {
       k \<leftarrow> hmac_key key;
       Some \<lparr>hm_inner = sha256_update (map2 (XOR) (replicate 64 0x36) k) sha256_new,
             hm_outer = sha256_update (map2 (XOR) (replicate 64 0x5c) k) sha256_new\<rparr>
     }"

definition hmac_update :: "bytes \<Rightarrow> hmac \<Rightarrow> hmac" where
  "hmac_update data m = m\<lparr>hm_inner := sha256_update data (hm_inner m)\<rparr>"

definition hmac_finalize :: "hmac \<Rightarrow> bytes option" where
  "hmac_finalize m =
     do {
       inner_tag \<leftarrow> sha256_finalize (hm_inner m);
       sha256_finalize (sha256_update inner_tag (hm_outer m))
     }"

definition hmac_oneshot :: "bytes \<Rightarrow> bytes \<Rightarrow> bytes option" where
  "hmac_oneshot key data = do { m \<leftarrow> hmac_new key; hmac_finalize (hmac_update data m) }"

section \<open>The function of RFC 2104\<close>

definition hmac_block_key :: "bytes \<Rightarrow> bytes" where
  "hmac_block_key key =
     (let k = (if length key > 64 then sha256_spec key else key) in k @ replicate (64 - length k) 0)"

definition hmac_spec :: "bytes \<Rightarrow> bytes \<Rightarrow> bytes" where
  "hmac_spec key msg =
     (let k = hmac_block_key key
      in sha256_spec (map ((XOR) 0x5c) k @ sha256_spec (map ((XOR) 0x36) k @ msg)))"

lemma length_hmac_spec [simp]: "length (hmac_spec key msg) = 32"
  by (simp add: hmac_spec_def Let_def)

lemma length_hmac_block_key [simp]: "length (hmac_block_key key) = 64"
  by (simp add: hmac_block_key_def Let_def)

lemma hmac_key_eq: "hmac_key key = Some (hmac_block_key key)"
  by (simp add: hmac_key_def hmac_block_key_def sha256_eq copy_at_def)

lemma map2_replicate: "length xs = n \<Longrightarrow> map2 f (replicate n c) xs = map (f c) xs"
  by (induction xs arbitrary: n) auto

lemma hmac_stream:
  "(hmac_new key \<bind> (\<lambda>m. hmac_finalize (fold hmac_update chunks m))) = Some (hmac_spec key (concat chunks))"
proof -
  let ?i = "map ((XOR) 0x36) (hmac_block_key key)" and ?o = "map ((XOR) 0x5c) (hmac_block_key key)"
  have fold_hm: "fold hmac_update cs m = m\<lparr>hm_inner := fold sha256_update cs (hm_inner m)\<rparr>" for cs m
    by (induction cs arbitrary: m) (auto simp: hmac_update_def)
  have i: "sha256_finalize (fold sha256_update chunks (sha256_update ?i sha256_new)) = Some (sha256_spec (?i @ concat chunks))"
    using sha256_stream [of "?i # chunks"] by simp
  have o: "sha256_finalize (sha256_update t (sha256_update ?o sha256_new)) = Some (sha256_spec (?o @ t))" for t
    using sha256_stream [of "[?o, t]"] by simp
  show ?thesis
    by (simp add: hmac_new_def hmac_key_eq map2_replicate hmac_finalize_def fold_hm i o hmac_spec_def Let_def)
qed

lemma hmac_oneshot_eq: "hmac_oneshot key data = Some (hmac_spec key data)"
  using hmac_stream [of key "[data]"] by (simp add: hmac_oneshot_def)

text \<open>C15: the MAC is the function of RFC 2104 over the one-shot hash, whatever the key length and
  however the message is cut into \<^verbatim>\<open>update\<close> calls, and computing it always returns.\<close>

theorem hmac_rfc2104:
  "(hmac_new key \<bind> (\<lambda>m. hmac_finalize (fold hmac_update chunks m))) = hmac_oneshot key (concat chunks) \<and>
   hmac_oneshot key msg = Some (hmac_spec key msg)"
  by (simp add: hmac_stream hmac_oneshot_eq)

end
