(* ===== verification/Chacha20.thy ===== *)
theory Chacha20
  imports Prelude
begin

text \<open>
  ChaCha20, \<^verbatim>\<open>crypto/src/chacha20.rs\<close>: the block function and the stream cipher. Encryption is its
  own inverse, and a message may be processed in pieces of whole blocks.
\<close>

unbundle bit_operations_syntax

text \<open>The statements of \<^verbatim>\<open>quarter_round\<close>: an addition, and an exclusive or with the rotation.\<close>

definition add_at :: "nat \<Rightarrow> nat \<Rightarrow> u32 list \<Rightarrow> u32 list" where
  "add_at a b s = s[a := s ! a + s ! b]"

definition xor_rot_at :: "nat \<Rightarrow> nat \<Rightarrow> nat \<Rightarrow> u32 list \<Rightarrow> u32 list" where
  "xor_rot_at d a n s = s[d := word_rotl n (s ! d XOR s ! a)]"

definition quarter_round :: "nat \<Rightarrow> nat \<Rightarrow> nat \<Rightarrow> nat \<Rightarrow> u32 list \<Rightarrow> u32 list" where
  "quarter_round a b c d s =
     xor_rot_at b c 7 (add_at c d (xor_rot_at d a 8 (add_at a b
       (xor_rot_at b c 12 (add_at c d (xor_rot_at d a 16 (add_at a b s)))))))"

definition double_round :: "u32 list \<Rightarrow> u32 list" where
  "double_round s =
     quarter_round 3 4 9 14 (quarter_round 2 7 8 13 (quarter_round 1 6 11 12 (quarter_round 0 5 10 15
       (quarter_round 3 7 11 15 (quarter_round 2 6 10 14 (quarter_round 1 5 9 13 (quarter_round 0 4 8 12 s)))))))"

definition chacha_state :: "bytes \<Rightarrow> u32 \<Rightarrow> bytes \<Rightarrow> u32 list" where
  "chacha_state key counter nonce =
     [0x61707865, 0x3320646e, 0x79622d32, 0x6b206574] @
     map (\<lambda>i. from_le (rslice key (i * 4) (i * 4 + 4))) [0..<8] @ [counter] @
     map (\<lambda>i. from_le (rslice nonce (i * 4) (i * 4 + 4))) [0..<3]"

definition chacha_block :: "bytes \<Rightarrow> u32 \<Rightarrow> bytes \<Rightarrow> bytes" where
  "chacha_block key counter nonce =
     (let working = chacha_state key counter nonce;
          state = fold (\<lambda>_. double_round) [0..<10] working
      in concat (map (\<lambda>i. to_le 4 (state ! i + working ! i)) [0..<16]))"

text \<open>\<^verbatim>\<open>chunks_mut(64)\<close>: full chunks and a shorter last one, the counter wrapping.\<close>

function xor_stream :: "bytes \<Rightarrow> u32 \<Rightarrow> bytes \<Rightarrow> bytes \<Rightarrow> bytes" where
  "xor_stream key ctr nonce data =
     (if data = [] then []
      else map2 (XOR) (take 64 data) (chacha_block key ctr nonce) @
           xor_stream key (ctr + 1) nonce (drop 64 data))"
  by pat_completeness auto
termination by (relation "measure (\<lambda>(_, _, _, data). length data)") auto

declare xor_stream.simps [simp del]

section \<open>Lemmas\<close>

lemma length_chacha_block [simp]: "length (chacha_block key ctr nonce) = 64"
  by (simp add: chacha_block_def Let_def length_concat o_def sum_list_triv)

lemma xor_stream_Nil [simp]: "xor_stream key ctr nonce [] = []"
  by (simp add: xor_stream.simps)

lemma xor_stream_step:
  "data \<noteq> [] \<Longrightarrow> xor_stream key ctr nonce data =
     map2 (XOR) (take 64 data) (chacha_block key ctr nonce) @ xor_stream key (ctr + 1) nonce (drop 64 data)"
  by (subst xor_stream.simps) simp

lemma length_xor_stream [simp]: "length (xor_stream key ctr nonce data) = length data"
proof (induction key ctr nonce data rule: xor_stream.induct)
  case (1 key ctr nonce data)
  then show ?case by (cases "data = []") (auto simp: xor_stream_step [of data])
qed

lemma map2_xor_cancel:
  "length xs \<le> length ks \<Longrightarrow> map2 (XOR) (map2 (XOR) xs ks) ks = xs" for xs ks :: bytes
proof (rule nth_equalityI)
  fix i assume "length xs \<le> length ks" "i < length (map2 (XOR) (map2 (XOR) xs ks) ks)"
  then show "map2 (XOR) (map2 (XOR) xs ks) ks ! i = xs ! i" by (simp add: xor.assoc)
qed simp

lemma xor_stream_involution: "xor_stream key ctr nonce (xor_stream key ctr nonce data) = data"
proof (induction key ctr nonce data rule: xor_stream.induct)
  case (1 key ctr nonce data)
  show ?case
  proof (cases "data = []")
    case False
    define c where "c = map2 (XOR) (take 64 data) (chacha_block key ctr nonce)"
    define r where "r = xor_stream key (ctr + 1) nonce (drop 64 data)"
    have e: "xor_stream key ctr nonce data = c @ r" unfolding c_def r_def by (rule xor_stream_step [OF False])
    have l: "length c = min 64 (length data)" "length r = length data - 64" by (simp_all add: c_def r_def)
    have t: "take 64 (c @ r) = c" "drop 64 (c @ r) = r"
      using l by (cases "64 \<le> length data"; simp add: min_def)+
    have ne: "c @ r \<noteq> []" using l False by (cases "64 \<le> length data") (auto simp: min_def)
    have "xor_stream key ctr nonce (c @ r) = map2 (XOR) c (chacha_block key ctr nonce) @ xor_stream key (ctr + 1) nonce r"
      using xor_stream_step [OF ne, of key ctr nonce] unfolding t .
    also have "map2 (XOR) c (chacha_block key ctr nonce) = take 64 data" unfolding c_def by (rule map2_xor_cancel) simp
    also have "xor_stream key (ctr + 1) nonce r = drop 64 data" unfolding r_def by (rule 1 [OF False])
    finally show ?thesis by (simp only: e append_take_drop_id)
  qed simp
qed

lemma xor_stream_append:
  "length xs = 64 * n \<Longrightarrow>
   xor_stream key ctr nonce (xs @ ys) = xor_stream key ctr nonce xs @ xor_stream key (ctr + of_nat n) nonce ys"
proof (induction n arbitrary: xs ctr)
  case (Suc n)
  then have ne: "xs \<noteq> []" by auto
  have l: "take 64 (xs @ ys) = take 64 xs" "drop 64 (xs @ ys) = drop 64 xs @ ys" "length (drop 64 xs) = 64 * n"
    using Suc.prems by auto
  have "xor_stream key ctr nonce (xs @ ys) =
      map2 (XOR) (take 64 xs) (chacha_block key ctr nonce) @ xor_stream key (ctr + 1) nonce (drop 64 xs @ ys)"
    using xor_stream_step [of "xs @ ys" key ctr nonce] ne unfolding l(1,2) by simp
  with Suc.IH [OF l(3), of "ctr + 1"] ne show ?case
    by (simp add: xor_stream_step [of xs] add.assoc)
qed simp

text \<open>C16: the cipher is its own inverse and keeps the length, and a message may be processed in
  pieces: after \<open>n\<close> whole blocks the rest is processed with the counter advanced by \<open>n\<close>.\<close>

theorem xor_stream_correct:
  "xor_stream key ctr nonce (xor_stream key ctr nonce data) = data \<and>
   length (xor_stream key ctr nonce data) = length data \<and>
   (length xs = 64 * n \<longrightarrow>
      xor_stream key ctr nonce (xs @ ys) =
        xor_stream key ctr nonce xs @ xor_stream key (ctr + of_nat n) nonce ys)"
  by (simp add: xor_stream_involution xor_stream_append)

theorem xor_stream_correct_witness:
  "length (replicate 64 0 :: bytes) = 64 * 1 \<and>
   xor_stream [] 0 [] (replicate 64 0 @ [1]) = xor_stream [] 0 [] (replicate 64 0) @ xor_stream [] 1 [] [1]"
  using xor_stream_correct [of "[]" 0 "[]" "[]" "replicate 64 0" 1 "[1]"] by simp

text \<open>For evaluation only: adding zero makes the simplifier compute the word.\<close>

lemma xor_rot_at_code [code]: "xor_rot_at d a n s = s[d := word_rotl n (s ! d XOR s ! a) + 0]"
  by (simp add: xor_rot_at_def)

text \<open>The block function test vector of RFC 8439, section 2.3.2.\<close>

theorem chacha_known_answer:
  "take 16 (chacha_block (map of_nat [0..<32]) 1 [0, 0, 0, 0x09, 0, 0, 0, 0x4a, 0, 0, 0, 0]) =
     [0x10, 0xf1, 0xe7, 0xe4, 0xd1, 0x3b, 0x59, 0x15, 0x50, 0x0f, 0xdd, 0x1f, 0xa3, 0x20, 0x71, 0xc4]"
  by code_simp

end
