(* ===== verification/Layout.thy ===== *)
theory Layout
  imports Hmac Chacha20
begin

text \<open>
  The on-disk formats of the volume, \<^verbatim>\<open>crypto/src/layout.rs\<close>: superblock, runtime configuration,
  slot headers and sealed images, update and application packages, audit records. A writer
  fills a slice of given length; \<open>None\<close> is a panic (an assertion or a slice out of range).
\<close>

section \<open>Geometry\<close>

definition SECTOR :: nat where [consts_def]: "SECTOR = 512"
definition SUPERBLOCK_LBA :: u64 where [consts_def]: "SUPERBLOCK_LBA = 0"
definition CONFIG_LBA :: u64 where [consts_def]: "CONFIG_LBA = 1"
definition SLOT_A_HDR_LBA :: u64 where [consts_def]: "SLOT_A_HDR_LBA = 2"
definition SLOT_A_PAYLOAD_LBA :: u64 where [consts_def]: "SLOT_A_PAYLOAD_LBA = 4"
definition SLOT_B_HDR_LBA :: u64 where [consts_def]: "SLOT_B_HDR_LBA = 1034"
definition SLOT_B_PAYLOAD_LBA :: u64 where [consts_def]: "SLOT_B_PAYLOAD_LBA = 1036"
definition AUDIT_START_LBA :: u64 where [consts_def]: "AUDIT_START_LBA = 3072"
definition AUDIT_END_LBA :: u64 where [consts_def]: "AUDIT_END_LBA = 16383"
definition APP_START_LBA :: u64 where [consts_def]: "APP_START_LBA = 16384"
definition APP_SLOT_SECTORS :: u64 where [consts_def]: "APP_SLOT_SECTORS = 512"
definition APP_SLOTS :: nat where [consts_def]: "APP_SLOTS = 8"
definition STAGING_LBA :: u64 where [consts_def]: "STAGING_LBA = 20480"
definition STAGING_SECTORS :: u64 where [consts_def]: "STAGING_SECTORS = 256"
definition PAYLOAD_CAP :: nat where [consts_def]: "PAYLOAD_CAP = 1000 * SECTOR"
definition APP_PAYLOAD_CAP :: nat where [consts_def]: "APP_PAYLOAD_CAP = (unat APP_SLOT_SECTORS - 1) * SECTOR"
definition AUDIT_RECORDS :: nat where [consts_def]: "AUDIT_RECORDS = unat (AUDIT_END_LBA - AUDIT_START_LBA)"

definition SB_MAGIC :: bytes where [consts_def]: "SB_MAGIC = [0x41, 0x45, 0x47, 0x53, 0x56, 0x4f, 0x4c, 0]"
definition CFG_MAGIC :: bytes where [consts_def]: "CFG_MAGIC = [0x41, 0x45, 0x47, 0x53, 0x43, 0x46, 0x47, 0]"
definition SLOT_MAGIC :: bytes where [consts_def]: "SLOT_MAGIC = [0x41, 0x45, 0x47, 0x53, 0x4c, 0x4f, 0x54, 0]"
definition PKG_MAGIC :: bytes where [consts_def]: "PKG_MAGIC = [0x41, 0x45, 0x47, 0x55, 0x50, 0x4b, 0x47]"
definition APP_MAGIC :: bytes where [consts_def]: "APP_MAGIC = [0x41, 0x45, 0x47, 0x53, 0x41, 0x50, 0x50, 0]"
definition APP_PKG_MAGIC :: bytes where [consts_def]: "APP_PKG_MAGIC = [0x41, 0x45, 0x47, 0x41, 0x50, 0x4b, 0x47, 0]"
definition VOL_FORMAT_VERSION :: u32 where [consts_def]: "VOL_FORMAT_VERSION = 1"

text \<open>\<^verbatim>\<open>xs[off..off + ys.len()].copy_from_slice(ys)\<close> with its bounds check.\<close>

definition put :: "nat \<Rightarrow> bytes \<Rightarrow> bytes \<Rightarrow> bytes option" where
  "put off ys xs = (if off + length ys \<le> length xs then Some (copy_at xs off ys) else None)"

section \<open>Slots\<close>

datatype slot_id = SlotA | SlotB

fun slot_other :: "slot_id \<Rightarrow> slot_id" where
  "slot_other SlotA = SlotB"
| "slot_other SlotB = SlotA"

fun slot_num :: "slot_id \<Rightarrow> u32" where
  "slot_num SlotA = 1"
| "slot_num SlotB = 2"

definition slot_from_num :: "u32 \<Rightarrow> slot_id option" where
  "slot_from_num n = (if n = 1 then Some SlotA else if n = 2 then Some SlotB else None)"

fun hdr_lba :: "slot_id \<Rightarrow> u64" where
  "hdr_lba SlotA = SLOT_A_HDR_LBA"
| "hdr_lba SlotB = SLOT_B_HDR_LBA"

fun payload_lba :: "slot_id \<Rightarrow> u64" where
  "payload_lba SlotA = SLOT_A_PAYLOAD_LBA"
| "payload_lba SlotB = SLOT_B_PAYLOAD_LBA"

text \<open>The nonces: \<^verbatim>\<open>data_nonce\<close> ignores its slot.\<close>

definition data_nonce :: "slot_id \<Rightarrow> u8 \<Rightarrow> u64 \<Rightarrow> bytes" where
  "data_nonce slot purpose gen = copy_at ((replicate 12 0)[0 := purpose]) 2 (to_le 8 gen)"

definition seal_nonce :: "u64 \<Rightarrow> bytes" where
  "seal_nonce gen = copy_at ((replicate 12 0)[0 := 0x53]) 2 (to_le 8 gen)"

section \<open>Superblock\<close>

definition SB_KEY_OFF :: nat where [consts_def]: "SB_KEY_OFF = 0x28"
definition SB_MAC_OFF :: nat where [consts_def]: "SB_MAC_OFF = 0x48"

definition parse_superblock :: "bytes \<Rightarrow> (slot_id option \<times> u64 \<times> u64) option" where
  "parse_superblock sb =
     (if length sb < SECTOR \<or> rslice sb 0 8 \<noteq> SB_MAGIC then None
      else if from_le (rslice sb 8 12) \<noteq> VOL_FORMAT_VERSION then None
      else Some (slot_from_num (from_le (rslice sb 16 20)), from_le (rslice sb 24 32), from_le (rslice sb 32 40)))"

definition write_superblock :: "bytes \<Rightarrow> slot_id option \<Rightarrow> u64 \<Rightarrow> u64 \<Rightarrow> bytes \<Rightarrow> bytes option" where
  "write_superblock sb active gen_a gen_b key =
     do {
       sb \<leftarrow> put 0 SB_MAGIC (replicate (length sb) 0);
       sb \<leftarrow> put 8 (to_le 4 VOL_FORMAT_VERSION) sb;
       sb \<leftarrow> put 16 (to_le 4 (case active of None \<Rightarrow> 0 | Some s \<Rightarrow> slot_num s)) sb;
       sb \<leftarrow> put 24 (to_le 8 gen_a) sb;
       sb \<leftarrow> put 32 (to_le 8 gen_b) sb;
       sb \<leftarrow> put SB_KEY_OFF key sb;
       pre \<leftarrow> slice_chk sb 0 SB_MAC_OFF;
       mac \<leftarrow> hmac_oneshot key pre;
       put SB_MAC_OFF mac sb
     }"

definition superblock_mac :: "bytes \<Rightarrow> bytes \<Rightarrow> bytes option" where
  "superblock_mac key sb = slice_chk sb 0 SB_MAC_OFF \<bind> hmac_oneshot key"

text \<open>The accumulating comparison; a difference in length is answered first.\<close>

definition constant_time_eq :: "bytes \<Rightarrow> bytes \<Rightarrow> bool" where
  "constant_time_eq a b =
     (if length a \<noteq> length b then False
      else fold (\<lambda>i acc. acc OR (a ! i XOR b ! i)) [0..<length a] 0 = 0)"

definition superblock_valid :: "bytes \<Rightarrow> bytes \<Rightarrow> bool option" where
  "superblock_valid key sb =
     do {
       expect \<leftarrow> superblock_mac key sb;
       got \<leftarrow> slice_chk sb SB_MAC_OFF (SB_MAC_OFF + 32);
       Some (constant_time_eq expect got)
     }"

section \<open>Runtime configuration\<close>

definition CFG_TEXT_MAX :: nat where [consts_def]: "CFG_TEXT_MAX = 400"

text \<open>The MAC, the generation and the text.\<close>

definition parse_config :: "bytes \<Rightarrow> (bytes \<times> u64 \<times> bytes) option" where
  "parse_config sec =
     (if length sec < SECTOR \<or> rslice sec 0 8 \<noteq> CFG_MAGIC then None
      else let len = unat (from_le (rslice sec 16 18) :: u16) in
        if len > CFG_TEXT_MAX then None
        else Some (rslice sec 448 480, from_le (rslice sec 8 16), rslice sec 32 (32 + len)))"

definition write_config :: "bytes \<Rightarrow> u64 \<Rightarrow> bytes \<Rightarrow> bytes \<Rightarrow> bytes option" where
  "write_config sec gen txt key =
     (if length txt > CFG_TEXT_MAX then None
      else do {
        sec \<leftarrow> put 0 CFG_MAGIC (replicate (length sec) 0);
        sec \<leftarrow> put 8 (to_le 8 gen) sec;
        sec \<leftarrow> put 16 (to_le 2 (of_nat (length txt) :: u16)) sec;
        sec \<leftarrow> put 32 txt sec;
        pre \<leftarrow> slice_chk sec 0 448;
        mac \<leftarrow> hmac_oneshot key pre;
        put 448 mac sec
      })"

definition config_mac :: "bytes \<Rightarrow> bytes \<Rightarrow> bytes option" where
  "config_mac key sec = slice_chk sec 0 448 \<bind> hmac_oneshot key"

section \<open>Slot headers\<close>

definition SLOT_STATE_EMPTY :: u8 where [consts_def]: "SLOT_STATE_EMPTY = 0"
definition SLOT_STATE_VALID :: u8 where [consts_def]: "SLOT_STATE_VALID = 1"
definition SLOT_STATE_BAD :: u8 where [consts_def]: "SLOT_STATE_BAD = 2"
definition HDR_SIG_OFF :: nat where [consts_def]: "HDR_SIG_OFF = 0x40"
definition HDR_MAC_OFF :: nat where [consts_def]: "HDR_MAC_OFF = 0x80"
definition HDR_MAC_END :: nat where [consts_def]: "HDR_MAC_END = 0xA0"

record slot_header =
  sh_slot :: slot_id
  sh_state :: u8
  sh_generation :: u64
  sh_payload_len :: u32
  sh_payload_sha :: bytes
  sh_signature :: bytes

definition parse_slot_header :: "bytes \<Rightarrow> slot_header option" where
  "parse_slot_header hdr =
     (if length hdr < SECTOR \<or> rslice hdr 0 8 \<noteq> SLOT_MAGIC then None
      else case slot_from_num (ucast (hdr ! 8)) of
          None \<Rightarrow> None
        | Some slot \<Rightarrow>
            if hdr ! 9 > SLOT_STATE_BAD then None
            else Some \<lparr>sh_slot = slot, sh_state = hdr ! 9,
                       sh_generation = from_le (rslice hdr 16 24),
                       sh_payload_len = from_le (rslice hdr 24 28),
                       sh_payload_sha = rslice hdr 32 64,
                       sh_signature = rslice hdr HDR_SIG_OFF (HDR_SIG_OFF + 64)\<rparr>)"

definition write_slot_header :: "bytes \<Rightarrow> slot_id \<Rightarrow> u8 \<Rightarrow> u64 \<Rightarrow> bytes \<Rightarrow> bytes \<Rightarrow> bytes option" where
  "write_slot_header hdr slot state generation payload signature =
     (if length payload > PAYLOAD_CAP then None
      else do {
        hdr \<leftarrow> put 0 SLOT_MAGIC (replicate (length hdr) 0);
        hdr \<leftarrow> put 8 [case slot of SlotA \<Rightarrow> 1 | SlotB \<Rightarrow> 2] hdr;
        hdr \<leftarrow> put 9 [state] hdr;
        hdr \<leftarrow> put 16 (to_le 8 generation) hdr;
        hdr \<leftarrow> put 24 (to_le 4 (of_nat (length payload) :: u32)) hdr;
        sha \<leftarrow> sha256 payload;
        hdr \<leftarrow> put 32 sha hdr;
        put HDR_SIG_OFF signature hdr
      })"

definition slot_mac :: "bytes \<Rightarrow> bytes \<Rightarrow> bytes \<Rightarrow> bytes option" where
  "slot_mac key hdr ciphertext =
     do {
       h \<leftarrow> hmac_new key;
       pre \<leftarrow> slice_chk hdr 0 HDR_MAC_OFF;
       hmac_finalize (hmac_update ciphertext (hmac_update pre h))
     }"

definition slot_mac_ok :: "bytes \<Rightarrow> bytes \<Rightarrow> bytes \<Rightarrow> bool option" where
  "slot_mac_ok key hdr ciphertext =
     do {
       expect \<leftarrow> slot_mac key hdr ciphertext;
       got \<leftarrow> slice_chk hdr HDR_MAC_OFF (HDR_MAC_OFF + 32);
       Some (constant_time_eq expect got)
     }"

section \<open>Sealed images and update packages\<close>

definition PKG_IMAGE_OFF :: nat where [consts_def]: "PKG_IMAGE_OFF = 0x80"
definition PKG_LEN_OFF :: nat where [consts_def]: "PKG_LEN_OFF = 0x10"
definition PKG_SHA_OFF :: nat where [consts_def]: "PKG_SHA_OFF = 0x18"
definition PKG_SIG_OFF :: nat where [consts_def]: "PKG_SIG_OFF = 0x38"
definition SLOT_IMAGE_MAX :: nat where [consts_def]: "SLOT_IMAGE_MAX = SECTOR * (2 + PAYLOAD_CAP div SECTOR)"

definition xor_in_place :: "bytes \<Rightarrow> bytes \<Rightarrow> bytes \<Rightarrow> bytes" where
  "xor_in_place key nonce data = xor_stream key 0 nonce data"

text \<open>The filled buffer and the image length.\<close>

definition build_slot_image :: "bytes \<Rightarrow> u64 \<Rightarrow> bytes \<Rightarrow> bytes \<Rightarrow> bytes \<Rightarrow> (bytes \<times> nat) option" where
  "build_slot_image img generation payload payload_signature key =
     (if length img < SLOT_IMAGE_MAX then None
      else do {
        let img = replicate (length img) 0;
        hdr \<leftarrow> write_slot_header (take SECTOR img) SlotA SLOT_STATE_VALID generation payload payload_signature;
        let img = copy_at img 0 hdr;
        let ct = xor_in_place key (seal_nonce generation) payload;
        mac \<leftarrow> slot_mac key (take SECTOR img) ct;
        let img = take SECTOR img @ replicate (length img - SECTOR) 0;
        img \<leftarrow> put HDR_MAC_OFF mac img;
        img \<leftarrow> put (2 * SECTOR) ct img;
        Some (img, 2 * SECTOR + length ct)
      })"

definition write_stage_package :: "bytes \<Rightarrow> bytes \<Rightarrow> bytes \<Rightarrow> (bytes \<times> nat) option" where
  "write_stage_package out img image_sig =
     (if length out < PKG_IMAGE_OFF + length img then None
      else do {
        out \<leftarrow> put 0 PKG_MAGIC (replicate (length out) 0);
        out \<leftarrow> put 7 [2] out;
        out \<leftarrow> put PKG_LEN_OFF (to_le 8 (of_nat (length img) :: u64)) out;
        sha \<leftarrow> sha256 img;
        out \<leftarrow> put PKG_SHA_OFF sha out;
        out \<leftarrow> put PKG_SIG_OFF image_sig out;
        out \<leftarrow> put PKG_IMAGE_OFF img out;
        Some (out, PKG_IMAGE_OFF + length img)
      })"

definition parse_stage_package :: "bytes \<Rightarrow> (bytes \<times> bytes) option" where
  "parse_stage_package buf =
     (if length buf < PKG_IMAGE_OFF \<or> rslice buf 0 7 \<noteq> PKG_MAGIC \<or> buf ! 7 \<noteq> 2 then None
      else let len = unat (from_le (rslice buf PKG_LEN_OFF (PKG_LEN_OFF + 8)) :: u64) in
        if len = 0 \<or> len > SLOT_IMAGE_MAX \<or> length buf < PKG_IMAGE_OFF + len then None
        else Some (rslice buf PKG_IMAGE_OFF (PKG_IMAGE_OFF + len), rslice buf PKG_SIG_OFF (PKG_SIG_OFF + 64)))"

section \<open>Applications\<close>

definition APP_FORMAT_VERSION :: u8 where [consts_def]: "APP_FORMAT_VERSION = 1"
definition APP_STATE_VALID :: u8 where [consts_def]: "APP_STATE_VALID = 1"
definition APP_NAME_MAX :: nat where [consts_def]: "APP_NAME_MAX = 24"
definition APP_HDR_NAME_OFF :: nat where [consts_def]: "APP_HDR_NAME_OFF = 32"
definition APP_HDR_SHA_OFF :: nat where [consts_def]: "APP_HDR_SHA_OFF = 64"
definition APP_HDR_SIG_OFF :: nat where [consts_def]: "APP_HDR_SIG_OFF = 96"
definition APP_HDR_MAC_OFF :: nat where [consts_def]: "APP_HDR_MAC_OFF = 160"
definition APP_HDR_MAC_END :: nat where [consts_def]: "APP_HDR_MAC_END = 192"
definition APP_PKG_HEADER :: nat where [consts_def]: "APP_PKG_HEADER = 192"
definition APP_STAGE_CAP :: nat where [consts_def]: "APP_STAGE_CAP = unat STAGING_SECTORS * SECTOR - APP_PKG_HEADER"
definition APP_SIGN_BYTES :: nat where [consts_def]: "APP_SIGN_BYTES = 80"

record app_header =
  ah_slot :: u8
  ah_name :: bytes
  ah_name_len :: nat
  ah_payload_len :: nat
  ah_version :: u64
  ah_payload_sha :: bytes
  ah_signature :: bytes

record app_package =
  ap_name :: bytes
  ap_name_len :: nat
  ap_payload :: bytes
  ap_version :: u64
  ap_payload_sha :: bytes
  ap_signature :: bytes

definition app_slot_lba :: "u8 \<Rightarrow> u64 option" where
  "app_slot_lba slot = (if unat slot < APP_SLOTS then Some (APP_START_LBA + ucast slot * APP_SLOT_SECTORS) else None)"

definition app_peer_slot :: "u8 \<Rightarrow> u8 option" where
  "app_peer_slot slot = (if unat slot < APP_SLOTS then Some (slot XOR 1) else None)"

definition app_nonce :: "u8 \<Rightarrow> u64 \<Rightarrow> bytes" where
  "app_nonce slot version = copy_at ((replicate 12 0)[0 := 0x41, 1 := slot]) 2 (to_le 8 version)"

text \<open>The eighty bytes that are signed; a name longer than the field is cut.\<close>

definition app_signing_message :: "bytes \<Rightarrow> u64 \<Rightarrow> nat \<Rightarrow> bytes \<Rightarrow> bytes" where
  "app_signing_message name version payload_len payload_sha =
     (let n = min (length name) APP_NAME_MAX;
          out = copy_at (replicate APP_SIGN_BYTES 0) 0 [0x41, 0x45, 0x47, 0x41, 0x50, 0x50, 0x56, 0x31];
          out = out[8 := of_nat n];
          out = copy_at out 9 (take n name);
          out = copy_at out 33 (to_le 8 version);
          out = copy_at out 41 (to_le 4 (of_nat payload_len :: u32))
      in copy_at out 45 payload_sha)"

definition app_header_mac :: "bytes \<Rightarrow> bytes \<Rightarrow> bytes \<Rightarrow> bytes option" where
  "app_header_mac key hdr ciphertext =
     do {
       h \<leftarrow> hmac_new key;
       pre \<leftarrow> slice_chk hdr 0 APP_HDR_MAC_OFF;
       hmac_finalize (hmac_update ciphertext (hmac_update pre h))
     }"

definition app_header_mac_ok :: "bytes \<Rightarrow> bytes \<Rightarrow> bytes \<Rightarrow> bool option" where
  "app_header_mac_ok key hdr ciphertext =
     do {
       expect \<leftarrow> app_header_mac key hdr ciphertext;
       got \<leftarrow> slice_chk hdr APP_HDR_MAC_OFF APP_HDR_MAC_END;
       Some (constant_time_eq expect got)
     }"

text \<open>The result is \<^verbatim>\<open>false\<close> and the slice untouched, or \<^verbatim>\<open>true\<close> and the slice filled.\<close>

definition write_app_header :: "bytes \<Rightarrow> u8 \<Rightarrow> bytes \<Rightarrow> u64 \<Rightarrow> bytes \<Rightarrow> bytes \<Rightarrow> (bool \<times> bytes) option" where
  "write_app_header hdr slot name version payload signature =
     (if length hdr < SECTOR \<or> unat slot \<ge> APP_SLOTS \<or> name = [] \<or> length name > APP_NAME_MAX \<or>
         length payload > APP_PAYLOAD_CAP
      then Some (False, hdr)
      else do {
        hdr \<leftarrow> put 0 APP_MAGIC (replicate (length hdr) 0);
        hdr \<leftarrow> put 8 [APP_FORMAT_VERSION] hdr;
        hdr \<leftarrow> put 9 [APP_STATE_VALID] hdr;
        hdr \<leftarrow> put 10 [slot] hdr;
        hdr \<leftarrow> put 11 [of_nat (length name)] hdr;
        hdr \<leftarrow> put 12 (to_le 4 (of_nat (length payload) :: u32)) hdr;
        hdr \<leftarrow> put 16 (to_le 8 version) hdr;
        hdr \<leftarrow> put APP_HDR_NAME_OFF name hdr;
        sha \<leftarrow> sha256 payload;
        hdr \<leftarrow> put APP_HDR_SHA_OFF sha hdr;
        hdr \<leftarrow> put APP_HDR_SIG_OFF signature hdr;
        Some (True, hdr)
      })"

definition parse_app_header :: "bytes \<Rightarrow> app_header option" where
  "parse_app_header hdr =
     (if length hdr < SECTOR \<or> rslice hdr 0 8 \<noteq> APP_MAGIC \<or> hdr ! 8 \<noteq> APP_FORMAT_VERSION then None
      else if hdr ! 9 \<noteq> APP_STATE_VALID \<or> unat (hdr ! 10) \<ge> APP_SLOTS then None
      else let name_len = unat (hdr ! 11); payload_len = unat (from_le (rslice hdr 12 16) :: u32) in
        if name_len = 0 \<or> name_len > APP_NAME_MAX \<or> payload_len = 0 \<or> payload_len > APP_PAYLOAD_CAP then None
        else Some \<lparr>ah_slot = hdr ! 10,
                   ah_name = rslice hdr APP_HDR_NAME_OFF (APP_HDR_NAME_OFF + APP_NAME_MAX),
                   ah_name_len = name_len, ah_payload_len = payload_len,
                   ah_version = from_le (rslice hdr 16 24),
                   ah_payload_sha = rslice hdr APP_HDR_SHA_OFF (APP_HDR_SHA_OFF + 32),
                   ah_signature = rslice hdr APP_HDR_SIG_OFF (APP_HDR_SIG_OFF + 64)\<rparr>)"

text \<open>The outer option is a panic, the inner one the refusal.\<close>

definition write_app_stage_package :: "bytes \<Rightarrow> bytes \<Rightarrow> u64 \<Rightarrow> bytes \<Rightarrow> bytes \<Rightarrow> (nat option \<times> bytes) option" where
  "write_app_stage_package out name version payload signature =
     (if length out < APP_PKG_HEADER + length payload \<or> name = [] \<or> length name > APP_NAME_MAX \<or>
         payload = [] \<or> length payload > APP_STAGE_CAP
      then Some (None, out)
      else do {
        out \<leftarrow> put 0 APP_PKG_MAGIC (replicate (length out) 0);
        out \<leftarrow> put 8 [APP_FORMAT_VERSION] out;
        out \<leftarrow> put 9 [of_nat (length name)] out;
        out \<leftarrow> put 12 (to_le 4 (of_nat (length payload) :: u32)) out;
        out \<leftarrow> put 16 (to_le 8 version) out;
        out \<leftarrow> put APP_HDR_NAME_OFF name out;
        sha \<leftarrow> sha256 payload;
        out \<leftarrow> put APP_HDR_SHA_OFF sha out;
        out \<leftarrow> put APP_HDR_SIG_OFF signature out;
        out \<leftarrow> put APP_PKG_HEADER payload out;
        Some (Some (APP_PKG_HEADER + length payload), out)
      })"

definition parse_app_stage_package :: "bytes \<Rightarrow> app_package option" where
  "parse_app_stage_package buf =
     (if length buf < APP_PKG_HEADER \<or> rslice buf 0 8 \<noteq> APP_PKG_MAGIC \<or> buf ! 8 \<noteq> APP_FORMAT_VERSION then None
      else let name_len = unat (buf ! 9); payload_len = unat (from_le (rslice buf 12 16) :: u32) in
        if name_len = 0 \<or> name_len > APP_NAME_MAX \<or> payload_len = 0 \<or> payload_len > APP_STAGE_CAP then None
        else let end' = APP_PKG_HEADER + payload_len in
          if end' > length buf then None
          else Some \<lparr>ap_name = rslice buf APP_HDR_NAME_OFF (APP_HDR_NAME_OFF + APP_NAME_MAX),
                     ap_name_len = name_len, ap_payload = rslice buf APP_PKG_HEADER end',
                     ap_version = from_le (rslice buf 16 24),
                     ap_payload_sha = rslice buf APP_HDR_SHA_OFF (APP_HDR_SHA_OFF + 32),
                     ap_signature = rslice buf APP_HDR_SIG_OFF (APP_HDR_SIG_OFF + 64)\<rparr>)"

section \<open>Audit records\<close>

definition AUD_MAGIC :: u32 where [consts_def]: "AUD_MAGIC = 0x31445541"
definition AUD_DATA_MAX :: nat where [consts_def]: "AUD_DATA_MAX = 424"
definition AUD_DIGEST_OFF :: nat where [consts_def]: "AUD_DIGEST_OFF = 0x1E0"

text \<open>The filled record and its digest.\<close>

definition write_audit_record :: "bytes \<Rightarrow> u64 \<Rightarrow> u64 \<Rightarrow> u8 \<Rightarrow> u8 \<Rightarrow> bytes \<Rightarrow> bytes \<Rightarrow> (bytes \<times> bytes) option" where
  "write_audit_record rec seq tick event aux data prev =
     (if length data > AUD_DATA_MAX then None
      else do {
        rec \<leftarrow> put 0 (to_le 4 AUD_MAGIC) (replicate (length rec) 0);
        rec \<leftarrow> put 4 (to_le 8 seq) rec;
        rec \<leftarrow> put 12 (to_le 8 tick) rec;
        rec \<leftarrow> put 20 [event] rec;
        rec \<leftarrow> put 21 [aux] rec;
        rec \<leftarrow> put 22 (to_le 2 (of_nat (length data) :: u16)) rec;
        rec \<leftarrow> put 24 prev rec;
        rec \<leftarrow> put 56 data rec;
        pre \<leftarrow> slice_chk rec 0 AUD_DIGEST_OFF;
        digest \<leftarrow> sha256 pre;
        rec \<leftarrow> put AUD_DIGEST_OFF digest rec;
        Some (rec, digest)
      })"

datatype audit_check = AuditValid u64 | AuditEnd | AuditBroken

definition check_audit_record :: "bytes \<Rightarrow> u64 \<Rightarrow> bytes \<Rightarrow> audit_check option" where
  "check_audit_record rec expected_seq expected_prev =
     (if length rec < SECTOR then Some AuditBroken
      else if (from_le (rslice rec 0 4) :: u32) = 0 then Some AuditEnd
      else if from_le (rslice rec 0 4) \<noteq> AUD_MAGIC then Some AuditBroken
      else if from_le (rslice rec 4 12) \<noteq> expected_seq then Some AuditBroken
      else if \<not> constant_time_eq (rslice rec 24 56) expected_prev then Some AuditBroken
      else do {
        digest \<leftarrow> sha256 (rslice rec 0 AUD_DIGEST_OFF);
        if \<not> constant_time_eq digest (rslice rec AUD_DIGEST_OFF (AUD_DIGEST_OFF + 32)) then Some AuditBroken
        else Some (AuditValid (from_le (rslice rec 4 12)))
      })"

end
