(* ===== verification/Layout_Props.thy ===== *)
theory Layout_Props
  imports Layout
begin

text \<open>
  What the formats of the volume promise: every writer is undone by its parser, its own
  integrity check accepts what it wrote, and the audit chain fixes its history.
\<close>

section \<open>Reading back\<close>

text \<open>A write in range, as a total function: its laws have no side condition on the length of what is
  written over, so that reading a chain of writes stays linear.\<close>

definition patch :: "bytes \<Rightarrow> nat \<Rightarrow> bytes \<Rightarrow> bytes" where
  "patch xs off ys = (if off + length ys \<le> length xs then copy_at xs off ys else xs)"

lemma put_ok: "off + length ys \<le> length xs \<Longrightarrow> put off ys xs = Some (copy_at xs off ys)"
  by (simp add: put_def)

lemma put_patch [simp]: "off + length ys \<le> length xs \<Longrightarrow> put off ys xs = Some (patch xs off ys)"
  by (simp add: put_def patch_def)

lemma copy_at_patch: "off + length ys \<le> length xs \<Longrightarrow> copy_at xs off ys = patch xs off ys"
  by (simp add: patch_def)

lemma length_patch [simp]: "length (patch xs off ys) = length xs"
  by (simp add: patch_def)

lemma rslice_patch_same [simp]:
  "off + length ys \<le> length xs \<Longrightarrow> j = off + length ys \<Longrightarrow> rslice (patch xs off ys) off j = ys"
  by (simp add: patch_def)

lemma rslice_patch_other [simp]:
  "j \<le> off \<or> off + length ys \<le> i \<Longrightarrow> rslice (patch xs off ys) i j = rslice xs i j"
  by (cases "off + length ys \<le> length xs") (auto simp: patch_def intro: rslice_copy_at_other)

lemma nth_patch [simp]:
  "off + length ys \<le> length xs \<Longrightarrow> k < length xs \<Longrightarrow>
   patch xs off ys ! k = (if off \<le> k \<and> k < off + length ys then ys ! (k - off) else xs ! k)"
  by (simp add: patch_def nth_copy_at)

lemma put_None: "length xs < off + length ys \<Longrightarrow> put off ys xs = None"
  by (simp add: put_def)

lemma slice_chk_ok [simp]: "i \<le> j \<Longrightarrow> j \<le> length xs \<Longrightarrow> slice_chk xs i j = Some (rslice xs i j)"
  by (simp add: slice_chk_def)

lemma rslice_copy_at_prefix:
  assumes "off + length ys \<le> j" and "j \<le> length xs"
  shows "rslice (copy_at xs off ys) off j = ys @ rslice xs (off + length ys) j"
proof (rule nth_equalityI)
  show "length (rslice (copy_at xs off ys) off j) = length (ys @ rslice xs (off + length ys) j)"
    using assms by simp
  fix k assume "k < length (rslice (copy_at xs off ys) off j)"
  with assms show "rslice (copy_at xs off ys) off j ! k = (ys @ rslice xs (off + length ys) j) ! k"
    by (auto simp: nth_copy_at nth_append)
qed

lemma rslice_patch_prefix:
  "off + length ys \<le> j \<Longrightarrow> j \<le> length xs \<Longrightarrow> rslice (patch xs off ys) off j = ys @ rslice xs (off + length ys) j"
  by (simp add: patch_def rslice_copy_at_prefix)

lemma rslice_replicate [simp]: "rslice (replicate n c) i j = replicate (min (j - i) (n - i)) c"
  by (simp add: rslice_def)

lemma fold_or_zero:
  "fold (\<lambda>i acc. acc OR f i) xs a = 0 \<longleftrightarrow> a = 0 \<and> (\<forall>i \<in> set xs. f i = 0)" for f :: "nat \<Rightarrow> u8"
proof (induction xs arbitrary: a)
  case (Cons x xs)
  show ?case unfolding fold_simps o_apply Cons.IH [of "a OR f x"] by (simp add: or_eq_0_iff)
qed simp

lemma xor_eq_zero_iff: "x XOR y = 0 \<longleftrightarrow> x = y" for x y :: u8
  by (simp add: bit_eq_iff bit_xor_iff)

lemma constant_time_eq_iff [simp]: "constant_time_eq a b \<longleftrightarrow> a = b"
proof (cases "length a = length b")
  case True
  then have "constant_time_eq a b \<longleftrightarrow> (\<forall>i < length a. a ! i = b ! i)"
    by (simp add: constant_time_eq_def fold_or_zero xor_eq_zero_iff Ball_def)
  with True show ?thesis by (auto intro: nth_equalityI)
qed (auto simp: constant_time_eq_def)

lemma slot_from_num_num [simp]: "slot_from_num (slot_num s) = Some s"
  by (cases s) (simp_all add: slot_from_num_def)

lemma slot_from_num_zero [simp]: "slot_from_num 0 = None"
  by (simp add: slot_from_num_def)

section \<open>Superblock and configuration\<close>

text \<open>C21: a superblock that was written parses to the same active slot and generations, carries the
  key, and passes its own MAC check; the writer does not panic on a sector.\<close>

theorem superblock_roundtrip:
  assumes "length sb = SECTOR" and "length key = 32"
  shows "\<exists>sb'. write_superblock sb active gen_a gen_b key = Some sb' \<and> length sb' = SECTOR \<and>
    parse_superblock sb' = Some (active, gen_a, gen_b) \<and>
    rslice sb' SB_KEY_OFF (SB_KEY_OFF + 32) = key \<and> superblock_valid key sb' = Some True"
proof -
  have a: "slot_from_num (case active of None \<Rightarrow> 0 | Some s \<Rightarrow> slot_num s) = active" by (cases active) simp_all
  show ?thesis
    using assms a
    by (simp add: write_superblock_def parse_superblock_def superblock_valid_def superblock_mac_def
      consts_def hmac_oneshot_eq)
qed

theorem superblock_roundtrip_witness:
  "length (replicate SECTOR 0 :: bytes) = SECTOR \<and> length (replicate 32 7 :: bytes) = 32 \<and>
   (\<exists>sb'. write_superblock (replicate SECTOR 0) (Some SlotB) 3 4 (replicate 32 7) = Some sb' \<and>
     parse_superblock sb' = Some (Some SlotB, 3, 4) \<and> superblock_valid (replicate 32 7) sb' = Some True)"
  using superblock_roundtrip [of "replicate SECTOR 0" "replicate 32 7" "Some SlotB" 3 4] by auto

text \<open>C22: a configuration of at most 400 bytes that was written parses to the same generation and
  text, and its stored MAC is the one a reader computes; a longer text trips the assertion.\<close>

theorem config_roundtrip:
  assumes "length sec = SECTOR"
  shows "(length txt \<le> CFG_TEXT_MAX \<longrightarrow>
      (\<exists>sec' mac. write_config sec gen txt key = Some sec' \<and> parse_config sec' = Some (mac, gen, txt) \<and>
         config_mac key sec' = Some mac)) \<and>
    (CFG_TEXT_MAX < length txt \<longrightarrow> write_config sec gen txt key = None)"
proof -
  have "unat (of_nat (length txt) :: u16) = length txt" if "length txt \<le> 400"
    using that by (simp add: unat_of_nat take_bit_nat_eq_self)
  then show ?thesis
    using assms
    by (auto simp: write_config_def parse_config_def config_mac_def consts_def hmac_oneshot_eq)
qed

theorem config_roundtrip_witness:
  "(\<exists>sec' mac. write_config (replicate SECTOR 0) 5 [0x61, 0x3d, 0x62] [1] = Some sec' \<and>
     parse_config sec' = Some (mac, 5, [0x61, 0x3d, 0x62]) \<and> config_mac [1] sec' = Some mac) \<and>
   write_config (replicate SECTOR 0) 5 (replicate 401 0) [1] = None"
  using config_roundtrip [of "replicate SECTOR 0" "[0x61, 0x3d, 0x62]" 5 "[1]"]
    config_roundtrip [of "replicate SECTOR 0" "replicate 401 0" 5 "[1]"] by (auto simp: CFG_TEXT_MAX_def)

section \<open>Slots and packages\<close>

lemma slot_mac_eq: "HDR_MAC_OFF \<le> length hdr \<Longrightarrow> slot_mac key hdr ct = Some (hmac_spec key (rslice hdr 0 HDR_MAC_OFF @ ct))"
  using hmac_stream [of key "[rslice hdr 0 HDR_MAC_OFF, ct]"]
  by (cases "hmac_new key") (simp_all add: slot_mac_def)

lemma rslice_take_eq: "take n xs = take n ys \<Longrightarrow> j \<le> n \<Longrightarrow> rslice xs i j = rslice ys i j"
proof (cases "i \<le> j")
  case True
  assume "take n xs = take n ys" "j \<le> n"
  then have "drop i (take j (take n xs)) = drop i (take j (take n ys))" by simp
  with True \<open>j \<le> n\<close> show ?thesis by (simp add: rslice_def take_drop min_def)
qed (simp add: rslice_def)

lemma nth_take_eq: "take n xs = take n ys \<Longrightarrow> k < n \<Longrightarrow> xs ! k = ys ! k"
  by (metis nth_take)

lemma take_copy_at: "n \<le> off \<Longrightarrow> off \<le> length xs \<Longrightarrow> take n (copy_at xs off ys) = take n xs"
  by (simp add: copy_at_def min_def)

text \<open>Everything a slot header holds lies before its MAC.\<close>

lemma slot_header_written:
  assumes "HDR_MAC_OFF \<le> length hdr" and "length payload \<le> PAYLOAD_CAP" and "length sig = 64"
  obtains h where "write_slot_header hdr slot state generation payload sig = Some h" and "length h = length hdr"
    and "\<And>h'. take HDR_MAC_OFF h' = take HDR_MAC_OFF h \<Longrightarrow> SECTOR \<le> length h' \<Longrightarrow> state \<le> SLOT_STATE_BAD \<Longrightarrow>
      parse_slot_header h' = Some \<lparr>sh_slot = slot, sh_state = state, sh_generation = generation,
        sh_payload_len = of_nat (length payload), sh_payload_sha = sha256_spec payload, sh_signature = sig\<rparr>"
proof -
  obtain h where h: "write_slot_header hdr slot state generation payload sig = Some h" and len: "length h = length hdr"
    and f: "rslice h 0 8 = SLOT_MAGIC" "h ! 8 = (case slot of SlotA \<Rightarrow> 1 | SlotB \<Rightarrow> 2)" "h ! 9 = state"
      "rslice h 16 24 = to_le 8 generation" "rslice h 24 28 = to_le 4 (of_nat (length payload) :: u32)"
      "rslice h 32 64 = sha256_spec payload" "rslice h HDR_SIG_OFF (HDR_SIG_OFF + 64) = sig"
    using assms by (simp add: write_slot_header_def consts_def sha256_eq)
  show ?thesis
  proof (rule that [OF h len])
    fix h' :: bytes
    assume t: "take HDR_MAC_OFF h' = take HDR_MAC_OFF h" and l: "SECTOR \<le> length h'" and st: "state \<le> SLOT_STATE_BAD"
    have rs: "rslice h' i j = rslice h i j" if "j \<le> HDR_MAC_OFF" for i j using rslice_take_eq [OF t that] .
    have nt: "h' ! k = h ! k" if "k < HDR_MAC_OFF" for k using nth_take_eq [OF t that] .
    have sl: "slot_from_num (ucast (case slot of SlotA \<Rightarrow> 1 :: u8 | SlotB \<Rightarrow> 2)) = Some slot"
      by (cases slot) (simp_all add: slot_from_num_def)
    show "parse_slot_header h' = Some \<lparr>sh_slot = slot, sh_state = state, sh_generation = generation,
        sh_payload_len = of_nat (length payload), sh_payload_sha = sha256_spec payload, sh_signature = sig\<rparr>"
      using l st f sl by (simp add: parse_slot_header_def rs nt consts_def)
  qed
qed

text \<open>C23: a slot image that was sealed parses to its generation, payload length, digest and signature;
  its MAC check accepts, and decrypting its payload region gives the payload back.\<close>

theorem sealed_image_roundtrip:
  assumes "SLOT_IMAGE_MAX \<le> length img" and "length payload \<le> PAYLOAD_CAP" and "length sig = 64"
  shows "\<exists>img'. build_slot_image img generation payload sig key = Some (img', 2 * SECTOR + length payload) \<and>
    length img' = length img \<and>
    parse_slot_header (take SECTOR img') = Some \<lparr>sh_slot = SlotA, sh_state = SLOT_STATE_VALID,
      sh_generation = generation, sh_payload_len = of_nat (length payload),
      sh_payload_sha = sha256_spec payload, sh_signature = sig\<rparr> \<and>
    slot_mac_ok key (take SECTOR img') (rslice img' (2 * SECTOR) (2 * SECTOR + length payload)) = Some True \<and>
    xor_in_place key (seal_nonce generation) (rslice img' (2 * SECTOR) (2 * SECTOR + length payload)) = payload"
proof -
  have sz: "SLOT_IMAGE_MAX = 513024" "PAYLOAD_CAP = 512000" by (simp_all add: consts_def)
  define n where "n = length img"
  have n: "513024 \<le> n" using assms(1) by (simp add: n_def sz)
  obtain h where h: "write_slot_header (replicate SECTOR 0) SlotA SLOT_STATE_VALID generation payload sig = Some h"
    and hl: "length h = SECTOR"
    and hp: "\<And>h'. take HDR_MAC_OFF h' = take HDR_MAC_OFF h \<Longrightarrow> SECTOR \<le> length h' \<Longrightarrow>
      parse_slot_header h' = Some \<lparr>sh_slot = SlotA, sh_state = SLOT_STATE_VALID, sh_generation = generation,
        sh_payload_len = of_nat (length payload), sh_payload_sha = sha256_spec payload, sh_signature = sig\<rparr>"
  proof (rule slot_header_written [of "replicate SECTOR 0" payload sig SlotA SLOT_STATE_VALID generation])
    show "HDR_MAC_OFF \<le> length (replicate SECTOR 0)" by (simp add: consts_def)
  qed (use assms in \<open>simp_all add: consts_def\<close>)
  define ct where "ct = xor_in_place key (seal_nonce generation) payload"
  define mac where "mac = hmac_spec key (rslice h 0 HDR_MAC_OFF @ ct)"
  define img' where "img' = copy_at (copy_at (h @ replicate (n - SECTOR) 0) HDR_MAC_OFF mac) (2 * SECTOR) ct"
  have ctl: "length ct = length payload" and macl: "length mac = 32" by (simp_all add: ct_def xor_in_place_def mac_def)
  have tk: "take SECTOR (copy_at (replicate n 0) 0 h) = h" and tk2: "min SECTOR n = SECTOR"
    using hl n by (simp_all add: copy_at_def consts_def)
  have sm: "slot_mac key h ct = Some mac" using hl by (simp add: slot_mac_eq mac_def consts_def)
  have b: "build_slot_image img generation payload sig key = Some (img', 2 * SECTOR + length payload)"
    using assms n h hl ctl macl
    by (simp add: build_slot_image_def n_def [symmetric] tk tk2 sz ct_def [symmetric] sm img'_def put_ok del: put_patch)
      (simp add: consts_def put_ok del: put_patch)
  have l: "length img' = n" using n hl ctl macl assms(2) by (simp add: img'_def consts_def)
  have hd: "take HDR_MAC_OFF (take SECTOR img') = take HDR_MAC_OFF h"
    using n hl macl by (simp add: img'_def take_copy_at consts_def)
  have c: "rslice img' (2 * SECTOR) (2 * SECTOR + length payload) = ct"
    using n hl macl ctl assms(2) by (simp add: img'_def consts_def)
  have m: "rslice (take SECTOR img') HDR_MAC_OFF (HDR_MAC_OFF + 32) = mac"
    using n hl macl ctl assms(2) by (simp add: img'_def consts_def take_copy_at take_eq_rslice rslice_copy_at_other)
      (simp add: rslice_def copy_at_def)
  have ok: "slot_mac_ok key (take SECTOR img') ct = Some True"
    using l n m rslice_take_eq [OF hd order.refl]
    by (simp add: slot_mac_ok_def slot_mac_eq mac_def consts_def)
  show ?thesis
    using b l n hp [OF hd] ok c by (simp add: n_def ct_def xor_in_place_def xor_stream_involution consts_def)
qed

theorem sealed_image_roundtrip_witness:
  "\<exists>img'. build_slot_image (replicate SLOT_IMAGE_MAX 0) 9 [1, 2, 3] (replicate 64 0) (replicate 32 7) =
      Some (img', 2 * SECTOR + 3) \<and>
    slot_mac_ok (replicate 32 7) (take SECTOR img') (rslice img' (2 * SECTOR) (2 * SECTOR + 3)) = Some True \<and>
    xor_in_place (replicate 32 7) (seal_nonce 9) (rslice img' (2 * SECTOR) (2 * SECTOR + 3)) = [1, 2, 3]"
proof -
  have "length ([1, 2, 3] :: bytes) = 3" "length ([1, 2, 3] :: bytes) \<le> PAYLOAD_CAP"
    by (simp_all add: PAYLOAD_CAP_def SECTOR_def)
  then show ?thesis
    using sealed_image_roundtrip [of "replicate SLOT_IMAGE_MAX 0" "[1, 2, 3]" "replicate 64 0" 9 "replicate 32 7"]
    by (metis length_replicate order.refl)
qed

text \<open>C24: a staged update package that was written parses to its image and signature.\<close>

theorem stage_package_roundtrip:
  assumes "PKG_IMAGE_OFF + length img \<le> length out" and "length sig = 64" and "img \<noteq> []" and "length img \<le> SLOT_IMAGE_MAX"
  shows "\<exists>out'. write_stage_package out img sig = Some (out', PKG_IMAGE_OFF + length img) \<and>
    parse_stage_package out' = Some (img, sig)"
proof -
  have "unat (of_nat (length img) :: u64) = length img"
    using assms(4) by (simp add: unat_of_nat take_bit_nat_eq_self consts_def)
  with assms show ?thesis
    by (simp add: write_stage_package_def parse_stage_package_def consts_def sha256_eq)
qed

theorem stage_package_roundtrip_witness:
  "\<exists>out'. write_stage_package (replicate 200 0) [1, 2] (replicate 64 9) = Some (out', PKG_IMAGE_OFF + 2) \<and>
    parse_stage_package out' = Some ([1, 2], replicate 64 9)"
  using stage_package_roundtrip [of "[1, 2]" "replicate 200 0" "replicate 64 9"] by (simp add: consts_def)

text \<open>C25: a staged application package that was written parses to its name, payload, version,
  digest and signature.\<close>

theorem app_stage_package_roundtrip:
  assumes "APP_PKG_HEADER + length payload \<le> length out" and "name \<noteq> []" and "length name \<le> APP_NAME_MAX"
    and "payload \<noteq> []" and "length payload \<le> APP_STAGE_CAP" and "length sig = 64"
  shows "\<exists>out'. write_app_stage_package out name version payload sig =
      Some (Some (APP_PKG_HEADER + length payload), out') \<and>
    parse_app_stage_package out' = Some \<lparr>ap_name = name @ replicate (APP_NAME_MAX - length name) 0,
      ap_name_len = length name, ap_payload = payload, ap_version = version,
      ap_payload_sha = sha256_spec payload, ap_signature = sig\<rparr>"
proof -
  have u: "unat (of_nat (length payload) :: u32) = length payload" "unat (of_nat (length name) :: u8) = length name"
    using assms by (simp_all add: unat_of_nat take_bit_nat_eq_self consts_def)
  obtain w where w: "write_app_stage_package out name version payload sig = Some (Some (APP_PKG_HEADER + length payload), w)"
      "length w = length out"
    and f: "rslice w 0 8 = APP_PKG_MAGIC" "w ! 8 = APP_FORMAT_VERSION" "w ! 9 = of_nat (length name)"
      "rslice w 12 16 = to_le 4 (of_nat (length payload) :: u32)" "rslice w 16 24 = to_le 8 version"
      "rslice w APP_HDR_NAME_OFF (APP_HDR_NAME_OFF + APP_NAME_MAX) = name @ replicate (APP_NAME_MAX - length name) 0"
      "rslice w APP_HDR_SHA_OFF (APP_HDR_SHA_OFF + 32) = sha256_spec payload"
      "rslice w APP_HDR_SIG_OFF (APP_HDR_SIG_OFF + 64) = sig"
      "rslice w APP_PKG_HEADER (APP_PKG_HEADER + length payload) = payload"
    using assms by (simp add: write_app_stage_package_def consts_def sha256_eq
        rslice_patch_prefix)
  have "parse_app_stage_package w = Some \<lparr>ap_name = name @ replicate (APP_NAME_MAX - length name) 0,
      ap_name_len = length name, ap_payload = payload, ap_version = version,
      ap_payload_sha = sha256_spec payload, ap_signature = sig\<rparr>"
    using assms w(2) unfolding parse_app_stage_package_def Let_def f from_to_le_u32 from_to_le_u64 u
    by (simp add: consts_def)
  with w show ?thesis by blast
qed

theorem app_stage_package_roundtrip_witness:
  "\<exists>out' p. write_app_stage_package (replicate 200 0) [0x61] 2 [1, 2] (replicate 64 9) =
      Some (Some (APP_PKG_HEADER + 2), out') \<and>
    parse_app_stage_package out' = Some p \<and> ap_payload p = [1, 2] \<and> ap_version p = 2"
proof -
  have "APP_PKG_HEADER + length ([1, 2] :: bytes) \<le> length (replicate 200 0 :: bytes)" "length ([0x61] :: bytes) \<le> APP_NAME_MAX"
    "length ([1, 2] :: bytes) \<le> APP_STAGE_CAP" by (simp_all add: consts_def)
  then show ?thesis
    using app_stage_package_roundtrip [of "[1, 2]" "replicate 200 0" "[0x61]" "replicate 64 9" 2] by auto
qed

lemma app_header_mac_eq:
  "APP_HDR_MAC_OFF \<le> length hdr \<Longrightarrow>
   app_header_mac key hdr ct = Some (hmac_spec key (rslice hdr 0 APP_HDR_MAC_OFF @ ct))"
  using hmac_stream [of key "[rslice hdr 0 APP_HDR_MAC_OFF, ct]"]
  by (cases "hmac_new key") (simp_all add: app_header_mac_def)

text \<open>C26: an application header that was written, and into which the MAC over it and the ciphertext
  was copied, parses to what was written and passes the MAC check with that ciphertext; every
  input the writer refuses leaves the sector as it was.\<close>

theorem app_header_roundtrip:
  assumes "SECTOR \<le> length hdr" and "payload \<noteq> []" and "length sig = 64"
  shows "(unat slot < APP_SLOTS \<and> name \<noteq> [] \<and> length name \<le> APP_NAME_MAX \<and> length payload \<le> APP_PAYLOAD_CAP \<longrightarrow>
      (\<exists>h mac h'. write_app_header hdr slot name version payload sig = Some (True, h) \<and>
        app_header_mac key h ct = Some mac \<and> put APP_HDR_MAC_OFF mac h = Some h' \<and>
        app_header_mac_ok key h' ct = Some True \<and>
        parse_app_header h' = Some \<lparr>ah_slot = slot, ah_name = name @ replicate (APP_NAME_MAX - length name) 0,
          ah_name_len = length name, ah_payload_len = length payload, ah_version = version,
          ah_payload_sha = sha256_spec payload, ah_signature = sig\<rparr>)) \<and>
    (\<not> (unat slot < APP_SLOTS \<and> name \<noteq> [] \<and> length name \<le> APP_NAME_MAX \<and> length payload \<le> APP_PAYLOAD_CAP) \<longrightarrow>
      write_app_header hdr slot name version payload sig = Some (False, hdr))"
proof (intro conjI impI)
  assume a: "unat slot < APP_SLOTS \<and> name \<noteq> [] \<and> length name \<le> APP_NAME_MAX \<and> length payload \<le> APP_PAYLOAD_CAP"
  then have u: "unat (of_nat (length payload) :: u32) = length payload" "unat (of_nat (length name) :: u8) = length name"
    by (simp_all add: unat_of_nat take_bit_nat_eq_self consts_def)
  obtain h where h: "write_app_header hdr slot name version payload sig = Some (True, h)" and l: "length h = length hdr"
    and f: "rslice h 0 8 = APP_MAGIC" "h ! 8 = APP_FORMAT_VERSION" "h ! 9 = APP_STATE_VALID" "h ! 10 = slot"
      "h ! 11 = of_nat (length name)" "rslice h 12 16 = to_le 4 (of_nat (length payload) :: u32)"
      "rslice h 16 24 = to_le 8 version"
      "rslice h APP_HDR_NAME_OFF (APP_HDR_NAME_OFF + APP_NAME_MAX) = name @ replicate (APP_NAME_MAX - length name) 0"
      "rslice h APP_HDR_SHA_OFF (APP_HDR_SHA_OFF + 32) = sha256_spec payload"
      "rslice h APP_HDR_SIG_OFF (APP_HDR_SIG_OFF + 64) = sig"
    using a assms by (simp add: write_app_header_def consts_def sha256_eq rslice_patch_prefix)
  define mac where "mac = hmac_spec key (rslice h 0 APP_HDR_MAC_OFF @ ct)"
  define h' where "h' = patch h APP_HDR_MAC_OFF mac"
  have ml: "length mac = 32" by (simp add: mac_def)
  have m: "app_header_mac key h ct = Some mac" using l assms(1) by (simp add: app_header_mac_eq mac_def consts_def)
  have p: "put APP_HDR_MAC_OFF mac h = Some h'" using l ml assms(1) by (simp add: h'_def consts_def)
  have ok: "app_header_mac_ok key h' ct = Some True"
    using l ml assms(1) by (simp add: app_header_mac_ok_def app_header_mac_eq h'_def consts_def)
      (simp add: mac_def consts_def)
  have "parse_app_header h' = Some \<lparr>ah_slot = slot, ah_name = name @ replicate (APP_NAME_MAX - length name) 0,
          ah_name_len = length name, ah_payload_len = length payload, ah_version = version,
          ah_payload_sha = sha256_spec payload, ah_signature = sig\<rparr>"
    using a f l ml u assms by (simp add: parse_app_header_def h'_def consts_def Let_def)
  with h m p ok show "\<exists>h mac h'. write_app_header hdr slot name version payload sig = Some (True, h) \<and>
        app_header_mac key h ct = Some mac \<and> put APP_HDR_MAC_OFF mac h = Some h' \<and>
        app_header_mac_ok key h' ct = Some True \<and>
        parse_app_header h' = Some \<lparr>ah_slot = slot, ah_name = name @ replicate (APP_NAME_MAX - length name) 0,
          ah_name_len = length name, ah_payload_len = length payload, ah_version = version,
          ah_payload_sha = sha256_spec payload, ah_signature = sig\<rparr>" by blast
qed (auto simp: write_app_header_def not_less not_le)

theorem app_header_roundtrip_witness:
  "(\<exists>h mac h' p. write_app_header (replicate 512 0) 3 [0x61] 2 [1, 2] (replicate 64 9) = Some (True, h) \<and>
      app_header_mac [1] h [5, 6] = Some mac \<and> put APP_HDR_MAC_OFF mac h = Some h' \<and>
      app_header_mac_ok [1] h' [5, 6] = Some True \<and> parse_app_header h' = Some p \<and> ah_slot p = 3) \<and>
   write_app_header (replicate 512 0) 8 [0x61] 2 [1, 2] (replicate 64 9) = Some (False, replicate 512 0)"
proof -
  have l: "SECTOR \<le> length (replicate 512 0 :: bytes)" by (simp add: consts_def)
  have a: "unat (3 :: u8) < APP_SLOTS \<and> [0x61 :: u8] \<noteq> [] \<and> length ([0x61] :: bytes) \<le> APP_NAME_MAX \<and>
    length ([1, 2] :: bytes) \<le> APP_PAYLOAD_CAP" "\<not> unat (8 :: u8) < APP_SLOTS" by (simp_all add: consts_def)
  show ?thesis
    using app_header_roundtrip [of "replicate 512 0" "[1, 2]" "replicate 64 9" 3 "[0x61]" 2 "[1]" "[5, 6]"]
      app_header_roundtrip [of "replicate 512 0" "[1, 2]" "replicate 64 9" 8 "[0x61]" 2 "[1]" "[5, 6]"] l a
    by fastforce
qed

text \<open>C27: what is signed for an application determines its name, version, payload length and payload
  digest, as long as the name fits its field.\<close>

theorem app_signing_message_inj:
  assumes "app_signing_message name version len sha = app_signing_message name' version' len' sha'"
    and "length name \<le> APP_NAME_MAX" and "length name' \<le> APP_NAME_MAX"
    and "length sha = 32" and "length sha' = 32" and "len < 2 ^ 32" and "len' < 2 ^ 32"
  shows "name = name' \<and> version = version' \<and> len = len' \<and> sha = sha'"
proof -
  have f: "m ! 8 = of_nat (length nm) \<and> rslice m 9 (9 + length nm) = nm \<and> rslice m 33 41 = to_le 8 v \<and>
      rslice m 41 45 = to_le 4 (of_nat l :: u32) \<and> rslice m 45 77 = s"
    if m: "m = app_signing_message nm v l s" and "length nm \<le> 24" and "length s = 32" for m nm v l s
  proof -
    have "m = patch (patch (patch (patch ((patch (replicate 80 0) 0 [0x41, 0x45, 0x47, 0x41, 0x50, 0x50, 0x56, 0x31])
        [8 := of_nat (length nm)]) 9 nm) 33 (to_le 8 v)) 41 (to_le 4 (of_nat l :: u32))) 45 s"
      using that(2,3) by (simp add: m app_signing_message_def consts_def min_absorb1 copy_at_patch)
    then show ?thesis using that(2,3) by simp
  qed
  have u: "unat (of_nat (length nm) :: u8) = length nm" if "length nm \<le> APP_NAME_MAX" for nm :: bytes
    using that by (simp add: unat_of_nat take_bit_nat_eq_self consts_def)
  have u32: "unat (of_nat l :: u32) = l" if "l < 2 ^ 32" for l
    using that by (simp add: unat_of_nat take_bit_nat_eq_self)
  define m where "m = app_signing_message name version len sha"
  note F = f [OF m_def] and F' = f [OF m_def [unfolded assms(1)]]
  have "length name \<le> 24" "length name' \<le> 24" using assms(2,3) by (simp_all add: consts_def)
  note F = F [OF this(1) assms(4)] and F' = F' [OF this(2) assms(5)]
  have "(of_nat (length name) :: u8) = of_nat (length name')" using F F' by simp
  then have n: "length name = length name'" by (metis u [OF assms(2)] u [OF assms(3)])
  have "rslice m 9 (9 + length name) = name" using F by blast
  then have "name = name'" unfolding n using F' by blast
  moreover have "to_le 8 version = to_le 8 version'" using F F' by metis
  from arg_cong [OF this, of "from_le :: _ \<Rightarrow> u64"] have "version = version'" by simp
  moreover have "to_le 4 (of_nat len :: u32) = to_le 4 (of_nat len' :: u32)" using F F' by metis
  from arg_cong [OF this, of "from_le :: _ \<Rightarrow> u32"] have "(of_nat len :: u32) = of_nat len'" by simp
  then have "len = len'" by (metis u32 [OF assms(6)] u32 [OF assms(7)])
  moreover have "sha = sha'" using F F' by metis
  ultimately show ?thesis by blast
qed

theorem app_signing_message_inj_witness:
  "app_signing_message [0x61] 1 10 (replicate 32 0) \<noteq> app_signing_message [0x61] 2 10 (replicate 32 0)"
  using app_signing_message_inj [of "[0x61]" 1 10 "replicate 32 0" "[0x61]" 2 10 "replicate 32 0"]
  by (auto simp: APP_NAME_MAX_def)

section \<open>Audit log\<close>

definition audit_digest :: "bytes \<Rightarrow> bytes" where
  "audit_digest rec = rslice rec AUD_DIGEST_OFF (AUD_DIGEST_OFF + 32)"

text \<open>The records of a log that a replay from a sequence number and digest accepts, and the digest
  it ends with.\<close>

fun audit_chain :: "u64 \<Rightarrow> bytes \<Rightarrow> bytes list \<Rightarrow> bool" where
  "audit_chain seq prev [] \<longleftrightarrow> True"
| "audit_chain seq prev (r # rs) \<longleftrightarrow>
     length r = SECTOR \<and> check_audit_record r seq prev = Some (AuditValid seq) \<and> audit_chain (seq + 1) (audit_digest r) rs"

fun audit_head :: "bytes \<Rightarrow> bytes list \<Rightarrow> bytes" where
  "audit_head prev [] = prev"
| "audit_head prev (r # rs) = audit_head (audit_digest r) rs"

lemma audit_head_snoc [simp]: "audit_head prev (rs @ [r]) = audit_digest r"
  by (induction rs arbitrary: prev) auto

lemma audit_chain_snoc [simp]:
  "audit_chain seq prev (rs @ [r]) \<longleftrightarrow> audit_chain seq prev rs \<and> length r = SECTOR \<and>
     check_audit_record r (seq + of_nat (length rs)) (audit_head prev rs) = Some (AuditValid (seq + of_nat (length rs)))"
  by (induction rs arbitrary: seq prev) (auto simp: algebra_simps)

lemma check_audit_record_valid:
  "check_audit_record r seq prev = Some (AuditValid n) \<longleftrightarrow>
     SECTOR \<le> length r \<and> from_le (rslice r 0 4) = AUD_MAGIC \<and> from_le (rslice r 4 12) = seq \<and> n = seq \<and>
     rslice r 24 56 = prev \<and> sha256_spec (rslice r 0 AUD_DIGEST_OFF) = audit_digest r"
  by (auto simp: check_audit_record_def sha256_eq audit_digest_def AUD_MAGIC_def)

lemma audit_written:
  assumes "audit_chain seq prev rs" and "length buf = SECTOR" and "length data \<le> AUD_DATA_MAX" and "length prev = 32"
  shows "\<exists>rec digest. write_audit_record buf (seq + of_nat (length rs)) tick event aux data (audit_head prev rs) = Some (rec, digest) \<and>
    audit_chain seq prev (rs @ [rec]) \<and> audit_head prev (rs @ [rec]) = digest \<and>
    rslice rec 56 (56 + length data) = data"
proof -
  have l: "length (audit_head p rs) = 32" if "length p = 32" "audit_chain s p rs" for s p
    using that by (induction rs arbitrary: s p) (auto simp: audit_digest_def consts_def)
  have "length (audit_head prev rs) = 32" using l assms by blast
  with assms show ?thesis
    by (simp add: write_audit_record_def check_audit_record_valid audit_digest_def consts_def sha256_eq)
qed

text \<open>C28: the audit log is a hash chain: two logs of equal length that a replay accepts from the same
  start and that end with the same digest agree in every byte a digest covers, unless two of their
  records collide under SHA-256.\<close>

theorem audit_chain_fixed:
  assumes "audit_chain seq prev rs" and "audit_chain seq prev rs'" and "length rs = length rs'"
    and "audit_head prev rs = audit_head prev rs'"
  shows "map (\<lambda>r. rslice r 0 (AUD_DIGEST_OFF + 32)) rs = map (\<lambda>r. rslice r 0 (AUD_DIGEST_OFF + 32)) rs' \<or>
    (\<exists>r \<in> set rs. \<exists>r' \<in> set rs'. rslice r 0 AUD_DIGEST_OFF \<noteq> rslice r' 0 AUD_DIGEST_OFF \<and>
       sha256 (rslice r 0 AUD_DIGEST_OFF) = sha256 (rslice r' 0 AUD_DIGEST_OFF))"
  using assms
proof (induction rs arbitrary: rs' rule: rev_induct)
  case (snoc r rs)
  then obtain rs1 r1 where rs': "rs' = rs1 @ [r1]" and l: "length rs = length rs1"
    by (metis length_append_singleton length_0_conv nat.distinct(1) rev_exhaust nat.inject)
  have c: "audit_chain seq prev rs" "audit_chain seq prev rs1" using snoc.prems by (simp_all add: rs')
  have r: "rslice r 24 56 = audit_head prev rs" "rslice r1 24 56 = audit_head prev rs1"
      "sha256_spec (rslice r 0 AUD_DIGEST_OFF) = audit_digest r" "sha256_spec (rslice r1 0 AUD_DIGEST_OFF) = audit_digest r1"
      "audit_digest r = audit_digest r1" "length r = SECTOR" "length r1 = SECTOR"
    using snoc.prems by (simp_all add: rs' l check_audit_record_valid)
  show ?case
  proof (cases "rslice r 0 AUD_DIGEST_OFF = rslice r1 0 AUD_DIGEST_OFF")
    case True
    have "rslice r 24 56 = rslice (rslice r 0 AUD_DIGEST_OFF) 24 56" "rslice r1 24 56 = rslice (rslice r1 0 AUD_DIGEST_OFF) 24 56"
      by (simp_all add: rslice_def consts_def take_drop)
    with True r have h: "audit_head prev rs = audit_head prev rs1" by simp
    have spl: "rslice x 0 (AUD_DIGEST_OFF + 32) = rslice x 0 AUD_DIGEST_OFF @ audit_digest x" for x
      by (simp add: audit_digest_def rslice_def take_add)
    show ?thesis using snoc.IH [OF c l h] True r by (auto simp: rs' spl)
  next
    case False
    with r show ?thesis by (auto simp: rs' sha256_eq)
  qed
qed simp

theorem audit_chain_fixed_witness:
  "\<exists>rec. audit_chain 0 (replicate 32 0) [rec] \<and>
     (map (\<lambda>r. rslice r 0 (AUD_DIGEST_OFF + 32)) [rec] = map (\<lambda>r. rslice r 0 (AUD_DIGEST_OFF + 32)) [rec] \<or>
      (\<exists>r \<in> set [rec]. \<exists>r' \<in> set [rec]. rslice r 0 AUD_DIGEST_OFF \<noteq> rslice r' 0 AUD_DIGEST_OFF \<and>
         sha256 (rslice r 0 AUD_DIGEST_OFF) = sha256 (rslice r' 0 AUD_DIGEST_OFF)))"
proof -
  obtain rec where "audit_chain 0 (replicate 32 0) [rec]"
    using audit_written [of 0 "replicate 32 0" "[]" "replicate 512 0" "[0x62]" 7 1 0] by (auto simp: consts_def)
  from this audit_chain_fixed [OF this this refl refl] show ?thesis by blast
qed

text \<open>C29: appending keeps the chain: a record written over the head of a log is accepted next and
  becomes its head, and it leads the log to at most one sector more.\<close>

theorem audit_append:
  assumes "audit_chain seq prev rs" and "length buf = SECTOR" and "length data \<le> AUD_DATA_MAX" and "length prev = 32"
  shows "\<exists>rec digest. write_audit_record buf (seq + of_nat (length rs)) tick event aux data (audit_head prev rs) = Some (rec, digest) \<and>
    audit_chain seq prev (rs @ [rec]) \<and> audit_head prev (rs @ [rec]) = digest \<and>
    rslice rec 56 (56 + length data) = data"
  using assms by (rule audit_written)

theorem audit_append_witness:
  "\<exists>rec digest. write_audit_record (replicate 512 0) 0 7 1 0 [0x62] (replicate 32 0) = Some (rec, digest) \<and>
    audit_chain 0 (replicate 32 0) [rec] \<and> audit_head (replicate 32 0) [rec] = digest"
  using audit_append [of 0 "replicate 32 0" "[]" "replicate 512 0" "[0x62]" 7 1 0] by (auto simp: consts_def)

section \<open>Nonces and areas\<close>

lemma nonce_read:
  "rslice (copy_at ((replicate 12 0)[0 := p, 1 := q]) 2 (to_le 8 (g :: u64))) 2 10 = to_le 8 g"
  "copy_at ((replicate 12 0)[0 := p, 1 := q]) 2 (to_le 8 (g :: u64)) ! 0 = p"
  "copy_at ((replicate 12 0)[0 := p, 1 := q]) 2 (to_le 8 (g :: u64)) ! 1 = q"
  by (simp_all add: copy_at_patch)

lemma nonce_inj:
  "copy_at ((replicate 12 0)[0 := p, 1 := q]) 2 (to_le 8 (g :: u64)) =
   copy_at ((replicate 12 0)[0 := p', 1 := q']) 2 (to_le 8 g') \<longleftrightarrow> p = p' \<and> q = q' \<and> g = g'"
  by (metis nonce_read from_to_le_u64)

text \<open>C30: a stream-cipher nonce is used for one generation of the system image or for one version in
  one application slot, never for two of them.\<close>

theorem nonces_distinct:
  "(seal_nonce g = seal_nonce g' \<longleftrightarrow> g = g') \<and>
   (app_nonce s v = app_nonce s' v' \<longleftrightarrow> s = s' \<and> v = v') \<and>
   seal_nonce g \<noteq> app_nonce s v \<and>
   data_nonce a 0x53 g = seal_nonce g"
proof -
  have "seal_nonce g = copy_at ((replicate 12 0)[0 := 0x53, 1 := 0]) 2 (to_le 8 g)" for g
    by (simp add: seal_nonce_def numeral_eq_Suc)
  moreover have "data_nonce a 0x53 g = seal_nonce g" by (simp add: data_nonce_def seal_nonce_def)
  ultimately show ?thesis unfolding app_nonce_def by (simp only: nonce_inj) simp
qed

lemma app_slot_lba_Some:
  "app_slot_lba s = Some a \<longleftrightarrow> unat s < 8 \<and> unat a = 16384 + 512 * unat s"
proof -
  have "unat (16384 + ucast s * 512 :: u64) = 16384 + 512 * unat s" if "unat s < 8"
  proof -
    have "unat (ucast s * 512 :: u64) = 512 * unat s" using that
      by (subst unat_mult_lem [THEN iffD1]) (simp_all add: unsigned_ucast_eq take_bit_nat_eq_self)
    then show ?thesis using that by (subst unat_add_lem [THEN iffD1]) simp_all
  qed
  then show ?thesis by (auto simp: app_slot_lba_def consts_def word_unat_eq_iff)
qed

end
