(* ===== verification/Fe25519.thy ===== *)
theory Fe25519
  imports Prelude
begin

text \<open>
  Field arithmetic of \<^verbatim>\<open>crypto/src/ed25519.rs\<close>: integers modulo \<open>2 ^ 255 - 19\<close> in five limbs of 51
  bits, each held in 64 bits with room to spare. The loops over the limbs have a fixed length
  and are written out. Every operation computes in the field on limbs below \<open>2 ^ 52\<close> and
  returns such limbs, so no addition or multiplication wraps.
\<close>

unbundle bit_operations_syntax

type_synonym u128 = "128 word"

section \<open>Limbs\<close>

datatype fe = Fe u64 u64 u64 u64 u64

definition MASK51 :: u64 where "MASK51 = 0x7ffffffffffff"

definition FE_ZERO :: fe where "FE_ZERO = Fe 0 0 0 0 0"
definition FE_ONE :: fe where "FE_ONE = Fe 1 0 0 0 0"

definition fe_from_u64 :: "u64 \<Rightarrow> fe" where
  "fe_from_u64 v = Fe (v AND MASK51) (drop_bit 51 v) 0 0 0"

definition fe_from_bytes :: "bytes \<Rightarrow> fe" where
  "fe_from_bytes b =
     Fe (from_le (rslice b 0 8) AND MASK51)
        (drop_bit 3 (from_le (rslice b 6 14)) AND MASK51)
        (drop_bit 6 (from_le (rslice b 12 20)) AND MASK51)
        (drop_bit 1 (from_le (rslice b 19 27)) AND MASK51)
        (drop_bit 12 (from_le (rslice b 24 32)) AND MASK51)"

fun fe_weak_reduce :: "fe \<Rightarrow> fe" where
  "fe_weak_reduce (Fe l0 l1 l2 l3 l4) =
     (let l1 = l1 + drop_bit 51 l0; l0 = l0 AND MASK51;
          l2 = l2 + drop_bit 51 l1; l1 = l1 AND MASK51;
          l3 = l3 + drop_bit 51 l2; l2 = l2 AND MASK51;
          l4 = l4 + drop_bit 51 l3; l3 = l3 AND MASK51;
          c = drop_bit 51 l4; l4 = l4 AND MASK51
      in Fe (l0 + c * 19) l1 l2 l3 l4)"

section \<open>Canonical encoding\<close>

text \<open>One pass of the folding loop of \<^verbatim>\<open>to_bytes\<close>, the loop, and the packing into four words.\<close>

fun fe_carry :: "fe \<Rightarrow> fe" where
  "fe_carry (Fe l0 l1 l2 l3 l4) =
     (let c = drop_bit 51 l4; l4 = l4 AND MASK51; l0 = l0 + c * 19;
          l1 = l1 + drop_bit 51 l0; l0 = l0 AND MASK51;
          l2 = l2 + drop_bit 51 l1; l1 = l1 AND MASK51;
          l3 = l3 + drop_bit 51 l2; l2 = l2 AND MASK51;
          l4 = l4 + drop_bit 51 l3; l3 = l3 AND MASK51
      in Fe l0 l1 l2 l3 l4)"

fun fe_over :: "fe \<Rightarrow> bool" where
  "fe_over (Fe l0 l1 l2 l3 l4) \<longleftrightarrow> l0 > MASK51 \<or> l1 > MASK51 \<or> l2 > MASK51 \<or> l3 > MASK51 \<or> l4 > MASK51"

fun fe_val :: "fe \<Rightarrow> int" where
  "fe_val (Fe l0 l1 l2 l3 l4) = uint l0 + 2 ^ 51 * uint l1 + 2 ^ 102 * uint l2 + 2 ^ 153 * uint l3 + 2 ^ 204 * uint l4"

fun fe_ok :: "fe \<Rightarrow> bool" where
  "fe_ok (Fe l0 l1 l2 l3 l4) \<longleftrightarrow>
     uint l0 < 2 ^ 52 \<and> uint l1 < 2 ^ 52 \<and> uint l2 < 2 ^ 52 \<and> uint l3 < 2 ^ 52 \<and> uint l4 < 2 ^ 52"

definition P25519 :: int where "P25519 = 2 ^ 255 - 19"

lemma uint_hi: "uint (drop_bit n x) = uint x div 2 ^ n" for x :: "'a::len word"
  unfolding unsigned_drop_bit_eq unfolding drop_bit_eq_div by (simp add: take_bit_int_eq_self unsigned_less)

lemma uint_lo: "uint (x AND MASK51) = uint x mod 2 ^ 51"
proof -
  have "MASK51 = mask 51" by (simp add: MASK51_def mask_eq_exp_minus_1)
  then show ?thesis unfolding \<open>MASK51 = mask 51\<close> take_bit_eq_mask [symmetric] unsigned_take_bit_eq
    by (simp add: take_bit_eq_mod)
qed

lemma uint_add: "uint x + uint y < 2 ^ LENGTH('a) \<Longrightarrow> uint (x + y) = uint x + uint y" for x y :: "'a::len word"
  by (simp add: uint_word_ariths)

lemma uint_mul: "uint x * uint y < 2 ^ LENGTH('a) \<Longrightarrow> uint (x * y) = uint x * uint y" for x y :: "'a::len word"
  by (simp add: uint_word_ariths)

lemma uint_over: "MASK51 < x \<longleftrightarrow> 2 ^ 51 \<le> uint x"
  by (auto simp: MASK51_def word_less_def)

lemma uint_u64: "uint x < 2 ^ 64" for x :: u64
  using unsigned_less [of x] by simp

text \<open>A carry from one limb into the next.\<close>

lemma uint_carry: "uint x < 2 ^ 63 \<Longrightarrow> uint (x + drop_bit 51 y) = uint x + uint y div 2 ^ 51" for x y :: u64
proof -
  assume "uint x < 2 ^ 63"
  moreover have "uint y < 2 ^ 64" by (rule uint_u64)
  ultimately show ?thesis by (subst uint_add) (simp_all add: uint_hi)
qed

lemma uint_wrap: "uint x < 2 ^ 63 \<Longrightarrow> uint (x + drop_bit 51 y * 19) = uint x + uint y div 2 ^ 51 * 19" for x y :: u64
proof -
  assume x: "uint x < 2 ^ 63"
  have y: "uint y < 2 ^ 64" by (rule uint_u64)
  have "uint (drop_bit 51 y * 19) = uint y div 2 ^ 51 * 19" using y by (subst uint_mul) (simp_all add: uint_hi)
  with x y show ?thesis by (subst uint_add) simp_all
qed

lemma div_51_small: "n < 2 ^ 64 \<Longrightarrow> n div 2 ^ 51 < 2 ^ 13" for n :: int
  by simp

definition limbs_below :: "int \<Rightarrow> fe \<Rightarrow> bool" where
  "limbs_below b f \<longleftrightarrow> (case f of Fe l0 l1 l2 l3 l4 \<Rightarrow>
     uint l0 < b \<and> uint l1 < b \<and> uint l2 < b \<and> uint l3 < b \<and> uint l4 < b)"

text \<open>What the carries do to the value, with the radix and the quotients as variables.\<close>

lemma weak_reduce_sum:
  fixes B :: int
  assumes "l0 = B * q0 + r0" and "l1 + q0 = B * q1 + r1" and "l2 + q1 = B * q2 + r2" and "l3 + q2 = B * q3 + r3"
    and "l4 + q3 = B * q4 + r4"
  shows "r0 + q4 * 19 + B * r1 + B ^ 2 * r2 + B ^ 3 * r3 + B ^ 4 * r4 =
    l0 + B * l1 + B ^ 2 * l2 + B ^ 3 * l3 + B ^ 4 * l4 - q4 * (B ^ 5 - 19)"
  using assms by algebra

lemma fe_val_radix:
  "fe_val (Fe l0 l1 l2 l3 l4) = uint l0 + 2 ^ 51 * uint l1 + (2 ^ 51) ^ 2 * uint l2 + (2 ^ 51) ^ 3 * uint l3 + (2 ^ 51) ^ 4 * uint l4"
  by simp

lemma P25519_radix: "P25519 = (2 ^ 51) ^ 5 - 19"
  by (simp add: P25519_def)

declare fe_val.simps [simp del]

text \<open>What a weakly reduced operand of \<^verbatim>\<open>sub\<close> and \<^verbatim>\<open>mul\<close> is: less than \<open>2 ^ 51\<close> in every limb but the first.\<close>

fun fe_tight :: "fe \<Rightarrow> bool" where
  "fe_tight (Fe l0 l1 l2 l3 l4) \<longleftrightarrow>
     uint l0 < 2 ^ 51 + 19 * 2 ^ 13 \<and> uint l1 < 2 ^ 51 \<and> uint l2 < 2 ^ 51 \<and> uint l3 < 2 ^ 51 \<and> uint l4 < 2 ^ 51"

lemma fe_tight_ok: "fe_tight f \<Longrightarrow> fe_ok f"
  by (cases f) simp

lemma fe_weak_reduce_val:
  assumes "limbs_below (2 ^ 63) f"
  shows "(\<exists>c. fe_val (fe_weak_reduce f) = fe_val f - c * P25519) \<and> fe_tight (fe_weak_reduce f)"
proof -
  obtain l0 l1 l2 l3 l4 where f: "f = Fe l0 l1 l2 l3 l4" by (cases f)
  have b: "uint l0 < 2 ^ 63" "uint l1 < 2 ^ 63" "uint l2 < 2 ^ 63" "uint l3 < 2 ^ 63" "uint l4 < 2 ^ 63"
    using assms by (simp_all add: f limbs_below_def)
  define m1 m2 m3 m4 where m: "m1 = l1 + drop_bit 51 l0" "m2 = l2 + drop_bit 51 m1" "m3 = l3 + drop_bit 51 m2"
    "m4 = l4 + drop_bit 51 m3"
  have u: "uint m1 = uint l1 + uint l0 div 2 ^ 51" "uint m2 = uint l2 + uint m1 div 2 ^ 51"
      "uint m3 = uint l3 + uint m2 div 2 ^ 51" "uint m4 = uint l4 + uint m3 div 2 ^ 51"
    unfolding m by (rule uint_carry, rule b)+
  have w: "fe_weak_reduce f = Fe ((l0 AND MASK51) + drop_bit 51 m4 * 19) (m1 AND MASK51) (m2 AND MASK51) (m3 AND MASK51) (m4 AND MASK51)"
    by (simp add: f m Let_def)
  have lo: "uint (l0 AND MASK51) < 2 ^ 63" by (simp add: uint_lo)
  note z = uint_wrap [OF lo, of m4, unfolded uint_lo]
  have "fe_val (fe_weak_reduce f) = fe_val f - (uint m4 div 2 ^ 51) * P25519"
    unfolding w unfolding f fe_val_radix z uint_lo P25519_radix
    by (rule weak_reduce_sum [of _ _ "uint l0 div 2 ^ 51" _ _ "uint m1 div 2 ^ 51" _ _ "uint m2 div 2 ^ 51" _ _ "uint m3 div 2 ^ 51"])
      (simp_all only: u [symmetric] mult_div_mod_eq)
  moreover have "uint m4 div 2 ^ 51 < 2 ^ 13" by (rule div_51_small) (use unsigned_less [of m4] in simp)
  then have "fe_tight (fe_weak_reduce f)"
    unfolding w fe_tight.simps z uint_lo by simp
  ultimately show ?thesis by blast
qed

text \<open>Congruence in the field.\<close>

definition fe_is :: "fe \<Rightarrow> int \<Rightarrow> bool" where
  "fe_is f n \<longleftrightarrow> fe_ok f \<and> fe_val f mod P25519 = n mod P25519"

lemma limbs_below_ok: "fe_ok f \<Longrightarrow> limbs_below (2 ^ 63) f"
  by (cases f) (simp add: limbs_below_def)

lemma mod_sub_multiple: "(x - c * n) mod n = x mod n" for x c n :: int
  using mod_mult_self1 [of x "- c" n] by simp

lemma fe_is_weak_reduce: "limbs_below (2 ^ 63) f \<Longrightarrow> fe_is (fe_weak_reduce f) (fe_val f)"
  using fe_weak_reduce_val [of f] by (auto simp: fe_is_def mod_sub_multiple fe_tight_ok)

section \<open>Addition and subtraction\<close>

fun fe_add :: "fe \<Rightarrow> fe \<Rightarrow> fe" where
  "fe_add (Fe a0 a1 a2 a3 a4) (Fe b0 b1 b2 b3 b4) =
     fe_weak_reduce (Fe (a0 + b0) (a1 + b1) (a2 + b2) (a3 + b3) (a4 + b4))"

definition TWO_P0 :: u64 where "TWO_P0 = 2 * (MASK51 - 18)"
definition TWO_P1 :: u64 where "TWO_P1 = 2 * MASK51"

definition fe_sub :: "fe \<Rightarrow> fe \<Rightarrow> fe" where
  "fe_sub x y =
     (case (fe_weak_reduce x, fe_weak_reduce y) of
        (Fe a0 a1 a2 a3 a4, Fe b0 b1 b2 b3 b4) \<Rightarrow>
          fe_weak_reduce (Fe (a0 + TWO_P0 - b0) (a1 + TWO_P1 - b1) (a2 + TWO_P1 - b2) (a3 + TWO_P1 - b3) (a4 + TWO_P1 - b4)))"

definition fe_neg :: "fe \<Rightarrow> fe" where
  "fe_neg x = fe_sub FE_ZERO x"

lemma fe_is_add:
  assumes "fe_is a m" and "fe_is b n"
  shows "fe_is (fe_add a b) (m + n)"
proof -
  obtain a0 a1 a2 a3 a4 b0 b1 b2 b3 b4 where ab: "a = Fe a0 a1 a2 a3 a4" "b = Fe b0 b1 b2 b3 b4" by (cases a, cases b)
  let ?s = "Fe (a0 + b0) (a1 + b1) (a2 + b2) (a3 + b3) (a4 + b4)"
  have o: "fe_ok a" "fe_ok b" using assms by (simp_all add: fe_is_def)
  have u: "uint (a0 + b0) = uint a0 + uint b0" "uint (a1 + b1) = uint a1 + uint b1" "uint (a2 + b2) = uint a2 + uint b2"
    "uint (a3 + b3) = uint a3 + uint b3" "uint (a4 + b4) = uint a4 + uint b4"
    using o unfolding ab fe_ok.simps by (auto intro!: uint_add)
  have "limbs_below (2 ^ 63) ?s" using o unfolding ab fe_ok.simps limbs_below_def by (simp add: u)
  then have "fe_is (fe_add a b) (fe_val ?s)" unfolding ab fe_add.simps by (rule fe_is_weak_reduce)
  moreover have "fe_val ?s = fe_val a + fe_val b" by (simp add: ab fe_val.simps u)
  ultimately show ?thesis using assms by (simp add: fe_is_def) (metis mod_add_eq)
qed

lemma fe_is_sub:
  assumes "fe_is x m" and "fe_is y n"
  shows "fe_is (fe_sub x y) (m - n)"
proof -
  obtain a0 a1 a2 a3 a4 b0 b1 b2 b3 b4 where
    a: "fe_weak_reduce x = Fe a0 a1 a2 a3 a4" and b: "fe_weak_reduce y = Fe b0 b1 b2 b3 b4" by (metis fe.exhaust)
  have o: "limbs_below (2 ^ 63) x" "limbs_below (2 ^ 63) y" using assms unfolding fe_is_def by (blast intro: limbs_below_ok)+
  then have t: "fe_tight (Fe a0 a1 a2 a3 a4)" "fe_tight (Fe b0 b1 b2 b3 b4)"
    using fe_weak_reduce_val a b by metis+
  let ?s = "Fe (a0 + TWO_P0 - b0) (a1 + TWO_P1 - b1) (a2 + TWO_P1 - b2) (a3 + TWO_P1 - b3) (a4 + TWO_P1 - b4)"
  have tp: "uint TWO_P0 = 2 * (2 ^ 51 - 19)" "uint TWO_P1 = 2 * (2 ^ 51 - 1)" by (simp_all add: TWO_P0_def TWO_P1_def MASK51_def)
  have u: "uint (c + d - e) = uint c + uint d - uint e" if "uint c + uint d < 2 ^ 64" "uint e \<le> uint d" for c d e :: u64
  proof -
    have "uint (c + d) = uint c + uint d" using that by (intro uint_add) simp
    moreover have "0 \<le> uint c" by simp
    then have "uint e \<le> uint c + uint d" using that(2) by linarith
    ultimately show ?thesis using uint_sub_lem [of e "c + d"] by (simp add: word_le_def)
  qed
  have us: "uint (a0 + TWO_P0 - b0) = uint a0 + uint TWO_P0 - uint b0" "uint (a1 + TWO_P1 - b1) = uint a1 + uint TWO_P1 - uint b1"
    "uint (a2 + TWO_P1 - b2) = uint a2 + uint TWO_P1 - uint b2" "uint (a3 + TWO_P1 - b3) = uint a3 + uint TWO_P1 - uint b3"
    "uint (a4 + TWO_P1 - b4) = uint a4 + uint TWO_P1 - uint b4"
    using t unfolding fe_tight.simps by - ((rule u; simp add: tp))+
  have lt: "c + 2 * (2 ^ 51 - k) - d < 2 ^ 63" if "c < 2 ^ 51 + 19 * 2 ^ 13" "0 \<le> d" "0 \<le> k" for c d k :: int
    using that by simp
  have "limbs_below (2 ^ 63) ?s" using t unfolding fe_tight.simps limbs_below_def fe.case us tp
    by (intro conjI lt) simp_all
  then have "fe_is (fe_sub x y) (fe_val ?s)" unfolding fe_sub_def a b prod.case fe.case by (rule fe_is_weak_reduce)
  moreover have "fe_val ?s = fe_val (fe_weak_reduce x) - fe_val (fe_weak_reduce y) - (- 2) * P25519"
    unfolding a b fe_val.simps us tp P25519_def by simp
  ultimately have "fe_is (fe_sub x y) (fe_val (fe_weak_reduce x) - fe_val (fe_weak_reduce y))"
    by (simp add: fe_is_def mod_sub_multiple del: minus_minus mult_minus_left)
  then show ?thesis using fe_is_weak_reduce [OF o(1)] fe_is_weak_reduce [OF o(2)] assms
    by (simp add: fe_is_def) (metis mod_diff_eq)
qed

section \<open>Multiplication\<close>

text \<open>\<^verbatim>\<open>(t >> 51) as u64\<close>, and the mask of a 128-bit accumulator.\<close>

definition hi51 :: "u128 \<Rightarrow> u64" where
  "hi51 t = ucast (drop_bit 51 t)"

definition lo51 :: "u128 \<Rightarrow> u128" where
  "lo51 t = t AND ucast MASK51"

definition fe_fold :: "u128 \<Rightarrow> u128 \<Rightarrow> u128 \<Rightarrow> u128 \<Rightarrow> u128 \<Rightarrow> fe" where
  "fe_fold t0 t1 t2 t3 t4 =
     (let c = hi51 t0; t0 = lo51 t0; t1 = t1 + ucast c;
          c1 = hi51 t1; t1 = lo51 t1; t2 = t2 + ucast c1;
          c2 = hi51 t2; t2 = lo51 t2; t3 = t3 + ucast c2;
          c3 = hi51 t3; t3 = lo51 t3; t4 = t4 + ucast c3;
          c4 = hi51 t4; t4 = lo51 t4; t0 = t0 + ucast c4 * 19;
          c0 = hi51 t0; t0 = lo51 t0; t1 = t1 + ucast c0
      in Fe (ucast t0) (ucast t1) (ucast t2) (ucast t3) (ucast t4))"

definition fe_mul :: "fe \<Rightarrow> fe \<Rightarrow> fe" where
  "fe_mul x y =
     (case (fe_weak_reduce x, fe_weak_reduce y) of
        (Fe x0 x1 x2 x3 x4, Fe y0 y1 y2 y3 y4) \<Rightarrow>
          let b1_19 = ucast y1 * 19 :: u128; b2_19 = ucast y2 * 19; b3_19 = ucast y3 * 19; b4_19 = ucast y4 * 19;
              a0 = ucast x0; a1 = ucast x1; a2 = ucast x2; a3 = ucast x3; a4 = ucast x4;
              b0 = ucast y0; b1 = ucast y1; b2 = ucast y2; b3 = ucast y3; b4 = ucast y4
          in fe_fold
               (a0 * b0 + a1 * b4_19 + a2 * b3_19 + a3 * b2_19 + a4 * b1_19)
               (a0 * b1 + a1 * b0 + a2 * b4_19 + a3 * b3_19 + a4 * b2_19)
               (a0 * b2 + a1 * b1 + a2 * b0 + a3 * b4_19 + a4 * b3_19)
               (a0 * b3 + a1 * b2 + a2 * b1 + a3 * b0 + a4 * b4_19)
               (a0 * b4 + a1 * b3 + a2 * b2 + a3 * b1 + a4 * b0))"

definition fe_square :: "fe \<Rightarrow> fe" where
  "fe_square x = fe_mul x x"

lemma uint_wide: "uint (ucast x :: u128) = uint x" for x :: u64
  by (simp add: unsigned_ucast_eq take_bit_int_eq_self_iff) (use uint_u64 [of x] in simp)

lemma uint_lo51: "uint (lo51 t) = uint t mod 2 ^ 51"
proof -
  have "(ucast MASK51 :: u128) = mask 51" by (simp add: MASK51_def mask_eq_exp_minus_1)
  then show ?thesis unfolding lo51_def \<open>ucast MASK51 = mask 51\<close> take_bit_eq_mask [symmetric] unsigned_take_bit_eq
    by (simp add: take_bit_eq_mod)
qed

lemma uint_hi51: "uint t < 2 ^ 114 \<Longrightarrow> uint (hi51 t) = uint t div 2 ^ 51"
proof -
  assume t: "uint t < 2 ^ 114"
  have "uint (hi51 t) = (uint t div 2 ^ 51) mod 2 ^ 64" unfolding hi51_def by (simp add: unsigned_ucast_eq uint_hi take_bit_eq_mod)
  moreover have "uint t div 2 ^ 51 < 2 ^ 64" using t by simp
  moreover have "0 \<le> uint t div 2 ^ 51" by (simp add: pos_imp_zdiv_nonneg_iff)
  ultimately show ?thesis by (metis mod_pos_pos_trivial)
qed

lemma uint_narrow: "uint t < 2 ^ 64 \<Longrightarrow> uint (ucast t :: u64) = uint t" for t :: u128
  by (simp add: unsigned_ucast_eq take_bit_int_eq_self)

lemma uint_acc: "uint t < 2 ^ 113 \<Longrightarrow> uint (t + ucast c) = uint t + uint c" for t :: u128 and c :: u64
  using uint_u64 [of c] by (subst uint_add) (simp_all add: uint_wide)

lemma mod51_less: "n mod 2 ^ 51 < 2 ^ 52" for n :: int
  by (rule less_trans [OF pos_mod_bound]) simp_all

lemma fold_sum:
  fixes B :: int
  assumes "t0 = B * q0 + r0" and "t1 + q0 = B * q1 + r1" and "t2 + q1 = B * q2 + r2" and "t3 + q2 = B * q3 + r3"
    and "t4 + q3 = B * q4 + r4" and "r0 + q4 * 19 = B * q5 + s0"
  shows "s0 + B * (r1 + q5) + B ^ 2 * r2 + B ^ 3 * r3 + B ^ 4 * r4 =
    t0 + B * t1 + B ^ 2 * t2 + B ^ 3 * t3 + B ^ 4 * t4 - q4 * (B ^ 5 - 19)"
  using assms by algebra

lemma fe_is_fold:
  assumes "uint t0 < 2 ^ 110" and "uint t1 < 2 ^ 110" and "uint t2 < 2 ^ 110" and "uint t3 < 2 ^ 110" and "uint t4 < 2 ^ 106"
  shows "fe_is (fe_fold t0 t1 t2 t3 t4)
    (uint t0 + 2 ^ 51 * uint t1 + (2 ^ 51) ^ 2 * uint t2 + (2 ^ 51) ^ 3 * uint t3 + (2 ^ 51) ^ 4 * uint t4)"
proof -
  define m1 m2 m3 m4 where m: "m1 = t1 + ucast (hi51 t0)" "m2 = t2 + ucast (hi51 m1)" "m3 = t3 + ucast (hi51 m2)"
    "m4 = t4 + ucast (hi51 m3)"
  have h0: "uint (hi51 t0) = uint t0 div 2 ^ 51" using assms(1) by (intro uint_hi51) simp
  have u1: "uint m1 = uint t1 + uint t0 div 2 ^ 51" unfolding m h0 [symmetric] using assms(2) by (intro uint_acc) simp
  have b1: "uint m1 < 2 ^ 111" using assms(1,2) u1 by simp
  have h1: "uint (hi51 m1) = uint m1 div 2 ^ 51" using b1 by (intro uint_hi51) simp
  have u2: "uint m2 = uint t2 + uint m1 div 2 ^ 51" unfolding m(2) h1 [symmetric] using assms(3) by (intro uint_acc) simp
  have b2: "uint m2 < 2 ^ 111" using assms(3) b1 u2 by simp
  have h2: "uint (hi51 m2) = uint m2 div 2 ^ 51" using b2 by (intro uint_hi51) simp
  have u3: "uint m3 = uint t3 + uint m2 div 2 ^ 51" unfolding m(3) h2 [symmetric] using assms(4) by (intro uint_acc) simp
  have b3: "uint m3 < 2 ^ 111" using assms(4) b2 u3 by simp
  have h3: "uint (hi51 m3) = uint m3 div 2 ^ 51" using b3 by (intro uint_hi51) simp
  have u4: "uint m4 = uint t4 + uint m3 div 2 ^ 51" unfolding m(4) h3 [symmetric] using assms(5) by (intro uint_acc) simp
  have b4: "uint m4 < 2 ^ 107" using assms(5) b3 u4 by simp
  have h4: "uint (hi51 m4) = uint m4 div 2 ^ 51" using b4 by (intro uint_hi51) simp
  define n0 where "n0 = lo51 t0 + ucast (hi51 m4) * 19"
  have n0: "uint n0 = uint t0 mod 2 ^ 51 + uint m4 div 2 ^ 51 * 19"
  proof -
    have "uint (ucast (hi51 m4) * 19 :: u128) = uint m4 div 2 ^ 51 * 19"
      using b4 by (subst uint_mul) (simp_all add: uint_wide h4)
    then show ?thesis unfolding n0_def using b4 by (subst uint_add) (simp_all add: uint_lo51)
  qed
  have bn: "uint n0 < 2 ^ 62" unfolding n0 using b4 by simp
  have h5: "uint (hi51 n0) = uint n0 div 2 ^ 51" using bn by (intro uint_hi51) simp
  have u5: "uint (lo51 m1 + ucast (hi51 n0)) = uint m1 mod 2 ^ 51 + uint n0 div 2 ^ 51"
    unfolding h5 [symmetric] uint_lo51 [symmetric] by (rule uint_acc) (simp add: uint_lo51)
  have b5: "uint (lo51 m1 + ucast (hi51 n0)) < 2 ^ 52" unfolding u5 using bn by simp
  have f: "fe_fold t0 t1 t2 t3 t4 = Fe (ucast (lo51 n0)) (ucast (lo51 m1 + ucast (hi51 n0))) (ucast (lo51 m2)) (ucast (lo51 m3)) (ucast (lo51 m4))"
    by (simp add: fe_fold_def Let_def m n0_def)
  have nar: "uint (ucast (lo51 t) :: u64) = uint t mod 2 ^ 51" for t
    by (subst uint_narrow) (simp_all add: uint_lo51)
  have nar1: "uint (ucast (lo51 m1 + ucast (hi51 n0)) :: u64) = uint m1 mod 2 ^ 51 + uint n0 div 2 ^ 51"
    unfolding u5 [symmetric] using b5 by (intro uint_narrow) simp
  have "fe_val (fe_fold t0 t1 t2 t3 t4) =
    uint t0 + 2 ^ 51 * uint t1 + (2 ^ 51) ^ 2 * uint t2 + (2 ^ 51) ^ 3 * uint t3 + (2 ^ 51) ^ 4 * uint t4 - (uint m4 div 2 ^ 51) * P25519"
    unfolding f fe_val_radix nar nar1 P25519_radix
    by (rule fold_sum [of _ _ "uint t0 div 2 ^ 51" "uint t0 mod 2 ^ 51" _ "uint m1 div 2 ^ 51" _ _ "uint m2 div 2 ^ 51" _ _ "uint m3 div 2 ^ 51"])
      (simp_all only: u1 [symmetric] u2 [symmetric] u3 [symmetric] u4 [symmetric] n0 [symmetric] mult_div_mod_eq)
  moreover have "fe_ok (fe_fold t0 t1 t2 t3 t4)"
    unfolding f fe_ok.simps nar nar1 using b5 [unfolded u5] mod51_less by blast
  ultimately show ?thesis by (simp only: fe_is_def mod_sub_multiple)
qed

lemma mul_sum:
  fixes B :: int
  assumes "P = B ^ 5 - 19"
  shows "\<exists>k. (a0 * b0 + a1 * (b4 * 19) + a2 * (b3 * 19) + a3 * (b2 * 19) + a4 * (b1 * 19))
    + B * (a0 * b1 + a1 * b0 + a2 * (b4 * 19) + a3 * (b3 * 19) + a4 * (b2 * 19))
    + B ^ 2 * (a0 * b2 + a1 * b1 + a2 * b0 + a3 * (b4 * 19) + a4 * (b3 * 19))
    + B ^ 3 * (a0 * b3 + a1 * b2 + a2 * b1 + a3 * b0 + a4 * (b4 * 19))
    + B ^ 4 * (a0 * b4 + a1 * b3 + a2 * b2 + a3 * b1 + a4 * b0)
    = (a0 + B * a1 + B ^ 2 * a2 + B ^ 3 * a3 + B ^ 4 * a4) * (b0 + B * b1 + B ^ 2 * b2 + B ^ 3 * b3 + B ^ 4 * b4) - k * P"
proof
  show "(a0 * b0 + a1 * (b4 * 19) + a2 * (b3 * 19) + a3 * (b2 * 19) + a4 * (b1 * 19))
    + B * (a0 * b1 + a1 * b0 + a2 * (b4 * 19) + a3 * (b3 * 19) + a4 * (b2 * 19))
    + B ^ 2 * (a0 * b2 + a1 * b1 + a2 * b0 + a3 * (b4 * 19) + a4 * (b3 * 19))
    + B ^ 3 * (a0 * b3 + a1 * b2 + a2 * b1 + a3 * b0 + a4 * (b4 * 19))
    + B ^ 4 * (a0 * b4 + a1 * b3 + a2 * b2 + a3 * b1 + a4 * b0)
    = (a0 + B * a1 + B ^ 2 * a2 + B ^ 3 * a3 + B ^ 4 * a4) * (b0 + B * b1 + B ^ 2 * b2 + B ^ 3 * b3 + B ^ 4 * b4) -
      ((a1 * b4 + a2 * b3 + a3 * b2 + a4 * b1) + B * (a2 * b4 + a3 * b3 + a4 * b2) + B ^ 2 * (a3 * b4 + a4 * b3) + B ^ 3 * (a4 * b4)) * P"
    using assms by algebra
qed

text \<open>The products of tight limbs, and a sum of five of them.\<close>

lemma int_prod_le: "0 \<le> a \<Longrightarrow> a \<le> m \<Longrightarrow> 0 \<le> b \<Longrightarrow> b \<le> n \<Longrightarrow> a * b \<le> m * n" for a b m n :: int
  by (rule mult_mono) simp_all

lemma uint_prod:
  fixes a b :: u128
  assumes "uint a \<le> m" and "uint b \<le> n" and "m * n < 2 ^ 128"
  shows "uint (a * b) = uint a * uint b \<and> uint (a * b) \<le> m * n"
proof -
  have "uint a * uint b \<le> m * n" using assms(1,2) by (intro int_prod_le) simp_all
  moreover from this have "uint (a * b) = uint a * uint b" using assms(3) by (intro uint_mul) simp
  ultimately show ?thesis by simp
qed

lemma uint_add_le:
  fixes a b :: u128
  assumes "uint a \<le> m" and "uint b \<le> n" and "m + n < 2 ^ 128"
  shows "uint (a + b) = uint a + uint b \<and> uint (a + b) \<le> m + n"
proof -
  have "uint a + uint b \<le> m + n" using assms(1,2) by simp
  moreover from this have "uint (a + b) = uint a + uint b" using assms(3) by (intro uint_add) simp
  ultimately show ?thesis by simp
qed

lemma uint_dot5:
  fixes a0 a1 a2 a3 a4 b0 b1 b2 b3 b4 :: u128
  assumes "uint a0 \<le> M" "uint a1 \<le> M" "uint a2 \<le> M" "uint a3 \<le> M" "uint a4 \<le> M"
    and "uint b0 \<le> N" "uint b1 \<le> N" "uint b2 \<le> N" "uint b3 \<le> N" "uint b4 \<le> N"
    and "5 * (M * N) < 2 ^ 128" and "0 \<le> M * N"
  shows "uint (a0 * b0 + a1 * b1 + a2 * b2 + a3 * b3 + a4 * b4) =
      uint a0 * uint b0 + uint a1 * uint b1 + uint a2 * uint b2 + uint a3 * uint b3 + uint a4 * uint b4 \<and>
    uint (a0 * b0 + a1 * b1 + a2 * b2 + a3 * b3 + a4 * b4) \<le> 5 * (M * N)"
proof -
  define K where "K = M * N"
  have k: "5 * K < 2 ^ 128" "0 \<le> K" "M * N < 2 ^ 128" using assms(11,12) by (simp_all add: K_def)
  note p = uint_prod [OF assms(1,6) k(3), folded K_def] uint_prod [OF assms(2,7) k(3), folded K_def]
    uint_prod [OF assms(3,8) k(3), folded K_def] uint_prod [OF assms(4,9) k(3), folded K_def] uint_prod [OF assms(5,10) k(3), folded K_def]
  have ks: "K + K < 2 ^ 128" "K + K + K < 2 ^ 128" "K + K + K + K < 2 ^ 128" "K + K + K + K + K < 2 ^ 128" using k by simp_all
  note s1 = uint_add_le [OF p(1,2) [THEN conjunct2] ks(1)]
  note s2 = uint_add_le [OF s1 [THEN conjunct2] p(3) [THEN conjunct2] ks(2)]
  note s3 = uint_add_le [OF s2 [THEN conjunct2] p(4) [THEN conjunct2] ks(3)]
  note s4 = uint_add_le [OF s3 [THEN conjunct2] p(5) [THEN conjunct2] ks(4)]
  show ?thesis unfolding K_def [symmetric] using p s1 s2 s3 s4 by simp
qed

lemma fe_is_mul:
  assumes "fe_is x m" and "fe_is y n"
  shows "fe_is (fe_mul x y) (m * n)"
proof -
  obtain x0 x1 x2 x3 x4 y0 y1 y2 y3 y4 where
    x: "fe_weak_reduce x = Fe x0 x1 x2 x3 x4" and y: "fe_weak_reduce y = Fe y0 y1 y2 y3 y4" by (metis fe.exhaust)
  have o: "limbs_below (2 ^ 63) x" "limbs_below (2 ^ 63) y" using assms unfolding fe_is_def by (blast intro: limbs_below_ok)+
  then have t: "fe_tight (Fe x0 x1 x2 x3 x4)" "fe_tight (Fe y0 y1 y2 y3 y4)" using fe_weak_reduce_val x y by metis+
  define M N :: int where MN: "M = 2 ^ 51 + 2 ^ 18" "N = (2 ^ 51 + 2 ^ 18) * 19"
  have xb: "uint (ucast z :: u128) \<le> M" if "z \<in> {x0, x1, x2, x3, x4, y0, y1, y2, y3, y4}" for z
    using that t unfolding fe_tight.simps MN uint_wide by auto
  have n19: "uint (ucast z * 19 :: u128) = uint z * 19 \<and> uint (ucast z * 19 :: u128) \<le> N" if "z \<in> {y1, y2, y3, y4}" for z
    using uint_prod [of "ucast z" M 19 19] xb [of z] that by (auto simp: MN uint_wide)
  define a0 a1 a2 a3 a4 b0 b1 b2 b3 b4 :: u128 where ab: "a0 = ucast x0" "a1 = ucast x1" "a2 = ucast x2" "a3 = ucast x3" "a4 = ucast x4"
    "b0 = ucast y0" "b1 = ucast y1" "b2 = ucast y2" "b3 = ucast y3" "b4 = ucast y4"
  define c1 c2 c3 c4 where c: "c1 = b1 * 19" "c2 = b2 * 19" "c3 = b3 * 19" "c4 = b4 * 19"
  have ua: "uint a0 = uint x0" "uint a1 = uint x1" "uint a2 = uint x2" "uint a3 = uint x3" "uint a4 = uint x4"
    "uint b0 = uint y0" "uint b1 = uint y1" "uint b2 = uint y2" "uint b3 = uint y3" "uint b4 = uint y4"
    by (simp_all add: ab uint_wide)
  have uc: "uint c1 = uint y1 * 19" "uint c2 = uint y2 * 19" "uint c3 = uint y3 * 19" "uint c4 = uint y4 * 19"
    using n19 by (simp_all add: ab c)
  have am: "uint a0 \<le> M" "uint a1 \<le> M" "uint a2 \<le> M" "uint a3 \<le> M" "uint a4 \<le> M" using xb by (simp_all add: ab)
  have bm: "uint b0 \<le> M" "uint b1 \<le> M" "uint b2 \<le> M" "uint b3 \<le> M" "uint b4 \<le> M" using xb by (simp_all add: ab)
  have MN': "M \<le> N" "0 \<le> M * N" "0 \<le> M * M" "5 * (M * N) < 2 ^ 128" "5 * (M * M) < 2 ^ 128" by (simp_all add: MN)
  have bn: "uint b0 \<le> N" "uint b1 \<le> N" "uint b2 \<le> N" "uint b3 \<le> N" using bm MN'(1) by linarith+
  have cn: "uint c1 \<le> N" "uint c2 \<le> N" "uint c3 \<le> N" "uint c4 \<le> N" unfolding c ab using n19 by blast+
  define r0 r1 r2 r3 r4 where r:
    "r0 = a0 * b0 + a1 * c4 + a2 * c3 + a3 * c2 + a4 * c1" "r1 = a0 * b1 + a1 * b0 + a2 * c4 + a3 * c3 + a4 * c2"
    "r2 = a0 * b2 + a1 * b1 + a2 * b0 + a3 * c4 + a4 * c3" "r3 = a0 * b3 + a1 * b2 + a2 * b1 + a3 * b0 + a4 * c4"
    "r4 = a0 * b4 + a1 * b3 + a2 * b2 + a3 * b1 + a4 * b0"
  have K: "5 * (M * N) < 2 ^ 110" "5 * (M * M) < 2 ^ 106" by (simp_all add: MN)
  note e0 = uint_dot5 [OF am bn(1) cn(4,3,2,1) MN'(4,2), folded r]
  note e1 = uint_dot5 [OF am bn(2,1) cn(4,3,2) MN'(4,2), folded r]
  note e2 = uint_dot5 [OF am bn(3,2,1) cn(4,3) MN'(4,2), folded r]
  note e3 = uint_dot5 [OF am bn(4,3,2,1) cn(4) MN'(4,2), folded r]
  note e4 = uint_dot5 [OF am bm(5,4,3,2,1) MN'(5,3), folded r]
  have f: "fe_mul x y = fe_fold r0 r1 r2 r3 r4"
    unfolding fe_mul_def x y prod.case fe.case Let_def r c ab ..
  have "fe_is (fe_mul x y) (uint r0 + 2 ^ 51 * uint r1 + (2 ^ 51) ^ 2 * uint r2 + (2 ^ 51) ^ 3 * uint r3 + (2 ^ 51) ^ 4 * uint r4)"
    unfolding f by (rule fe_is_fold) (use e0 e1 e2 e3 e4 K in linarith)+
  moreover obtain k where "uint r0 + 2 ^ 51 * uint r1 + (2 ^ 51) ^ 2 * uint r2 + (2 ^ 51) ^ 3 * uint r3 + (2 ^ 51) ^ 4 * uint r4 =
      fe_val (fe_weak_reduce x) * fe_val (fe_weak_reduce y) - k * P25519"
    using mul_sum [OF P25519_radix, of "uint x0" "uint y0" "uint x1" "uint y4" "uint x2" "uint y3" "uint x3" "uint y2" "uint x4" "uint y1"]
    unfolding x y fe_val_radix e0 [THEN conjunct1] e1 [THEN conjunct1] e2 [THEN conjunct1] e3 [THEN conjunct1] e4 [THEN conjunct1] ua uc
    by blast
  ultimately have "fe_is (fe_mul x y) (fe_val (fe_weak_reduce x) * fe_val (fe_weak_reduce y))"
    by (simp add: fe_is_def mod_sub_multiple)
  then show ?thesis using fe_is_weak_reduce [OF o(1)] fe_is_weak_reduce [OF o(2)] assms
    by (simp add: fe_is_def) (metis mod_mult_eq)
qed

section \<open>Canonical encoding\<close>

lemma fe_carry_val:
  assumes "limbs_below (2 ^ 63) f"
  shows "fe_val (fe_carry f) = fe_val f - (case f of Fe _ _ _ _ l4 \<Rightarrow> uint l4 div 2 ^ 51) * P25519"
proof -
  obtain l0 l1 l2 l3 l4 where f: "f = Fe l0 l1 l2 l3 l4" by (cases f)
  have b: "uint l0 < 2 ^ 63" "uint l1 < 2 ^ 63" "uint l2 < 2 ^ 63" "uint l3 < 2 ^ 63" "uint l4 < 2 ^ 63"
    using assms by (simp_all add: f limbs_below_def)
  define m0 m1 m2 m3 where m: "m0 = l0 + drop_bit 51 l4 * 19" "m1 = l1 + drop_bit 51 m0" "m2 = l2 + drop_bit 51 m1"
    "m3 = l3 + drop_bit 51 m2"
  have u0: "uint m0 = uint l0 + uint l4 div 2 ^ 51 * 19" unfolding m by (rule uint_wrap, rule b)
  have u: "uint m1 = uint l1 + uint m0 div 2 ^ 51" "uint m2 = uint l2 + uint m1 div 2 ^ 51"
      "uint m3 = uint l3 + uint m2 div 2 ^ 51"
    unfolding m by (rule uint_carry, rule b)+
  have u4: "uint ((l4 AND MASK51) + drop_bit 51 m3) = uint l4 mod 2 ^ 51 + uint m3 div 2 ^ 51"
    unfolding uint_lo [symmetric] by (rule uint_carry) (simp add: uint_lo)
  have w: "fe_carry f = Fe (m0 AND MASK51) (m1 AND MASK51) (m2 AND MASK51) (m3 AND MASK51) ((l4 AND MASK51) + drop_bit 51 m3)"
    by (simp add: f m Let_def)
  have sum: "r0 + B * r1 + B ^ 2 * r2 + B ^ 3 * r3 + B ^ 4 * (r4 + q3) =
      l0 + B * l1 + B ^ 2 * l2 + B ^ 3 * l3 + B ^ 4 * l4 - q4 * (B ^ 5 - 19)"
    if "l4 = B * q4 + r4" "l0 + q4 * 19 = B * q0 + r0" "l1 + q0 = B * q1 + r1" "l2 + q1 = B * q2 + r2" "l3 + q2 = B * q3 + r3"
    for r0 r1 r2 r3 r4 q0 q1 q2 q3 q4 l0 l1 l2 l3 l4 B :: int
    using that by algebra
  show ?thesis unfolding w unfolding f fe.case fe_val_radix u4 uint_lo P25519_radix
    by (rule sum [of _ _ _ _ _ "uint m0 div 2 ^ 51" _ _ "uint m1 div 2 ^ 51" _ _ "uint m2 div 2 ^ 51"])
      (simp_all only: u0 [symmetric] u [symmetric] mult_div_mod_eq)
qed

lemma fe_carry_ok: "fe_ok (fe_carry f)"
proof -
  obtain l0 l1 l2 l3 l4 where f: "f = Fe l0 l1 l2 l3 l4" by (cases f)
  have u4: "uint ((l4 AND MASK51) + drop_bit 51 x) < 2 ^ 52" for x
  proof -
    have "uint ((l4 AND MASK51) + drop_bit 51 x) = uint l4 mod 2 ^ 51 + uint x div 2 ^ 51"
      unfolding uint_lo [symmetric] by (rule uint_carry) (simp add: uint_lo)
    then show ?thesis using uint_u64 [of x] by simp
  qed
  show ?thesis unfolding f fe_carry.simps Let_def fe_ok.simps uint_lo using u4 mod51_less by blast
qed

text \<open>The loop: the value falls with every carry out of the top limb, and a pass without one leaves only
  the top limb to settle.\<close>

fun fe_rank :: "fe \<Rightarrow> nat" where
  "fe_rank (Fe l0 l1 l2 l3 l4) = (if \<not> fe_over (Fe l0 l1 l2 l3 l4) then 0 else if l4 > MASK51 then 1 else 2)"

lemma fe_val_nonneg: "0 \<le> fe_val f"
  by (cases f) (simp add: fe_val.simps)

lemma fe_carry_falls:
  assumes "fe_over f" and "fe_ok f"
  shows "fe_val (fe_carry f) < fe_val f \<or> fe_val (fe_carry f) = fe_val f \<and> fe_rank (fe_carry f) < fe_rank f"
proof -
  obtain l0 l1 l2 l3 l4 where f: "f = Fe l0 l1 l2 l3 l4" by (cases f)
  have v: "fe_val (fe_carry f) = fe_val f - uint l4 div 2 ^ 51 * P25519"
    using fe_carry_val [OF limbs_below_ok [OF assms(2)]] by (simp add: f)
  show ?thesis
  proof (cases "l4 > MASK51")
    case True
    then have "0 < uint l4 div 2 ^ 51" by (simp add: uint_over pos_imp_zdiv_pos_iff)
    then have "0 < uint l4 div 2 ^ 51 * P25519" by (simp add: P25519_def)
    then show ?thesis using v by simp
  next
    case False
    then have "uint l4 div 2 ^ 51 = 0" by (simp add: uint_over not_le div_pos_pos_trivial)
    then have "fe_val (fe_carry f) = fe_val f" using v by simp
    moreover have le: "\<not> MASK51 < x AND MASK51" for x by (simp add: uint_over uint_lo not_le)
    have "fe_rank (fe_carry f) < 2" by (simp add: f Let_def le)
    ultimately show ?thesis using False assms(1) by (simp add: f)
  qed
qed

function fe_settle :: "fe \<Rightarrow> fe" where
  "fe_settle f = (if fe_over f then fe_settle (fe_carry f) else f)"
  by pat_completeness auto
termination
proof (relation "inv_image (less_than <*lex*> less_than <*lex*> less_than)
    (\<lambda>f. (if fe_ok f then 0 else 1, nat (fe_val f), fe_rank f))")
  fix f assume "fe_over f"
  then show "(fe_carry f, f) \<in> inv_image (less_than <*lex*> less_than <*lex*> less_than)
      (\<lambda>f. (if fe_ok f then 0 else 1, nat (fe_val f), fe_rank f))"
    using fe_carry_falls [of f] fe_carry_ok [of f] fe_val_nonneg [of "fe_carry f"] by auto
qed (auto intro: wf_inv_image wf_lex_prod)

declare fe_settle.simps [simp del]

lemma fe_is_settle: "fe_is f n \<Longrightarrow> fe_is (fe_settle f) n \<and> \<not> fe_over (fe_settle f)"
proof (induction f rule: fe_settle.induct)
  case (1 f)
  show ?case
  proof (cases "fe_over f")
    case True
    have "fe_is (fe_carry f) n"
      using 1(2) fe_carry_val [of f] fe_carry_ok [of f] unfolding fe_is_def by (metis limbs_below_ok mod_sub_multiple)
    with True 1(1) show ?thesis by (simp add: fe_settle.simps [of f])
  qed (use 1(2) in \<open>simp add: fe_settle.simps [of f]\<close>)
qed

text \<open>The four words, and the conditional subtraction of the modulus.\<close>

fun fe_words :: "fe \<Rightarrow> u64 list" where
  "fe_words (Fe l0 l1 l2 l3 l4) =
     [l0 OR push_bit 51 l1, drop_bit 13 l1 OR push_bit 38 l2, drop_bit 26 l2 OR push_bit 25 l3, drop_bit 39 l3 OR push_bit 12 l4]"

definition FE_PW :: "u64 list" where
  "FE_PW = [0xffffffffffffffed, 0xffffffffffffffff, 0xffffffffffffffff, 0x7fffffffffffffff]"

datatype ordering = Less | Equal | Greater

definition cmp_u64 :: "u64 \<Rightarrow> u64 \<Rightarrow> ordering" where
  "cmp_u64 a b = (if a < b then Less else if a = b then Equal else Greater)"

fun cmp_lanes :: "u64 list \<Rightarrow> u64 list \<Rightarrow> nat list \<Rightarrow> ordering" where
  "cmp_lanes ws ps [] = Equal"
| "cmp_lanes ws ps (i # is) = (case cmp_u64 (ws ! i) (ps ! i) of Equal \<Rightarrow> cmp_lanes ws ps is | other \<Rightarrow> other)"

text \<open>One lane of the subtraction; \<^verbatim>\<open>i128\<close> holds the difference exactly.\<close>

definition sub_lane :: "u64 list \<Rightarrow> nat \<Rightarrow> u64 list \<times> int \<Rightarrow> u64 list \<times> int" where
  "sub_lane ws i = (\<lambda>(rw, br).
     let cur = uint (ws ! i) - uint (FE_PW ! i) - br
     in if cur < 0 then (rw[i := of_int (cur + 2 ^ 64)], 1) else (rw[i := of_int cur], 0))"

definition fe_to_bytes :: "fe \<Rightarrow> bytes" where
  "fe_to_bytes f =
     (let ws = fe_words (fe_settle f);
          rw = (if cmp_lanes ws FE_PW (rev [0..<4]) \<noteq> Less then fst (fold (sub_lane ws) [0..<4] (ws, 0)) else ws)
      in to_le 8 (rw ! 0) @ to_le 8 (rw ! 1) @ to_le 8 (rw ! 2) @ to_le 8 (rw ! 3))"

lemma uint_or_push:
  fixes x y :: u64
  assumes "uint x < 2 ^ n" and "n < 64"
  shows "uint (x OR push_bit n y) = uint x + 2 ^ n * (uint y mod 2 ^ (64 - n))"
proof -
  have "uint (take_bit n x) = uint x" using assms(1) by (simp add: unsigned_take_bit_eq take_bit_int_eq_self)
  then have x: "x = take_bit n x" by (simp add: word_uint_eq_iff)
  have lo: "\<not> bit x k" if "n \<le> k" for k
    using that by (subst x) (simp add: bit_take_bit_iff)
  have e: "x OR push_bit n y = x + push_bit n y"
    by (rule disjunctive_add [symmetric]) (use lo in \<open>auto simp: bit_push_bit_iff not_le\<close>)
  have p: "uint (push_bit n y) = 2 ^ n * (uint y mod 2 ^ (64 - n))"
    unfolding unsigned_push_bit_eq by (simp add: take_bit_push_bit) (simp add: push_bit_eq_mult take_bit_eq_mod)
  have "uint y mod 2 ^ (64 - n) + 1 \<le> 2 ^ (64 - n)" by (simp add: add1_zle_eq)
  then have "2 ^ n * (uint y mod 2 ^ (64 - n) + 1) \<le> 2 ^ n * 2 ^ (64 - n)" by (rule mult_left_mono) simp
  also have "(2 :: int) ^ n * 2 ^ (64 - n) = 2 ^ 64" using assms(2) by (simp flip: power_add)
  finally have "uint x + 2 ^ n * (uint y mod 2 ^ (64 - n)) < 2 ^ 64" using assms(1) by (simp add: distrib_left)
  then show ?thesis unfolding e p [symmetric] by (intro uint_add) simp
qed

fun words_val :: "u64 list \<Rightarrow> int" where
  "words_val [] = 0"
| "words_val (w # ws) = uint w + 2 ^ 64 * words_val ws"

lemma fe_words_val:
  assumes "\<not> fe_over f"
  shows "words_val (fe_words f) = fe_val f"
proof -
  obtain l0 l1 l2 l3 l4 where f: "f = Fe l0 l1 l2 l3 l4" by (cases f)
  have b: "uint l0 < 2 ^ 51" "uint l1 < 2 ^ 51" "uint l2 < 2 ^ 51" "uint l3 < 2 ^ 51" "uint l4 < 2 ^ 51"
    using assms by (simp_all add: f uint_over not_le)
  have d: "uint l1 div 2 ^ 13 < 2 ^ 38" "uint l2 div 2 ^ 26 < 2 ^ 25" "uint l3 div 2 ^ 39 < 2 ^ 12" using b by simp_all
  have w: "uint (l0 OR push_bit 51 l1) = uint l0 + 2 ^ 51 * (uint l1 mod 2 ^ 13)"
    "uint (drop_bit 13 l1 OR push_bit 38 l2) = uint l1 div 2 ^ 13 + 2 ^ 38 * (uint l2 mod 2 ^ 26)"
    "uint (drop_bit 26 l2 OR push_bit 25 l3) = uint l2 div 2 ^ 26 + 2 ^ 25 * (uint l3 mod 2 ^ 39)"
    "uint (drop_bit 39 l3 OR push_bit 12 l4) = uint l3 div 2 ^ 39 + 2 ^ 12 * (uint l4 mod 2 ^ 52)"
    using b(1) d by (subst uint_or_push; simp add: uint_hi)+
  have l4: "uint l4 mod 2 ^ 52 = uint l4" using b(5) by (simp add: mod_pos_pos_trivial)
  have "l0 + 2 ^ 51 * r1 + 2 ^ 64 * (q1 + 2 ^ 38 * r2 + 2 ^ 64 * (q2 + 2 ^ 25 * r3 + 2 ^ 64 * (q3 + 2 ^ 12 * l4))) =
      l0 + 2 ^ 51 * l1 + 2 ^ 102 * l2 + 2 ^ 153 * l3 + 2 ^ 204 * l4"
    if "2 ^ 13 * q1 + r1 = l1" "2 ^ 26 * q2 + r2 = l2" "2 ^ 39 * q3 + r3 = l3" for l0 l1 l2 l3 l4 q1 q2 q3 r1 r2 r3 :: int
    using that by (simp add: algebra_simps flip: that)
  from this [OF mult_div_mod_eq mult_div_mod_eq mult_div_mod_eq]
  show ?thesis by (simp only: f fe_words.simps words_val.simps w l4 fe_val.simps mult_zero_right add_0_right)
qed

lemma words_val_bound: "0 \<le> words_val ws \<and> words_val ws < 2 ^ (64 * length ws)"
proof (induction ws)
  case (Cons w ws)
  have "words_val ws + 1 \<le> 2 ^ (64 * length ws)" using Cons by simp
  then have "2 ^ 64 * (words_val ws + 1) \<le> 2 ^ 64 * 2 ^ (64 * length ws)" by (rule mult_left_mono) simp
  also have "(2 :: int) ^ 64 * 2 ^ (64 * length ws) = 2 ^ (64 * length (w # ws))" by (simp add: power_add)
  finally show ?case using Cons uint_u64 [of w] by (simp add: distrib_left)
qed simp

lemma words_val_PW: "words_val FE_PW = P25519"
  by (simp add: FE_PW_def P25519_def)

lemma rev_upt4: "rev [0..<4] = [3, 2, 1, 0 :: nat]" "[0..<4] = [0, 1, 2, 3 :: nat]"
  by (simp_all add: upt_rec)

lemma lex_le:
  fixes W :: int
  assumes "0 \<le> x" and "x < W" and "0 \<le> y" and "y < W"
  shows "x + W * h \<le> y + W * k \<longleftrightarrow> h < k \<or> h = k \<and> x \<le> y"
proof -
  have gap: "x + W * h < y + W * k" if "h < k" "x < W" "0 \<le> y" for x y h k
  proof -
    have "W * (h + 1) \<le> W * k" using that assms by (intro mult_left_mono) simp_all
    with that show ?thesis by (simp add: distrib_left)
  qed
  show ?thesis using gap [of h k x y] gap [of k h y x] assms by (cases h k rule: linorder_cases) auto
qed

lemma cmp_lanes_val:
  "cmp_lanes [w0, w1, w2, w3] [p0, p1, p2, p3] (rev [0..<4]) \<noteq> Less \<longleftrightarrow> words_val [p0, p1, p2, p3] \<le> words_val [w0, w1, w2, w3]"
proof -
  define v1 v2 v3 where v: "v1 = (\<lambda>w0 :: u64. uint w0)" "v2 = (\<lambda>w0 w1. v1 w0 + 2 ^ 64 * uint (w1 :: u64))"
    "v3 = (\<lambda>w0 w1 w2. v2 w0 w1 + 2 ^ 128 * uint (w2 :: u64))"
  have b: "0 \<le> v1 w \<and> v1 w < 2 ^ 64" "0 \<le> v2 w x \<and> v2 w x < 2 ^ 128" "0 \<le> v3 w x y \<and> v3 w x y < 2 ^ 192" for w x y
    using words_val_bound [of "[w]"] words_val_bound [of "[w, x]"] words_val_bound [of "[w, x, y]"] by (simp_all add: v)
  have 4: "words_val [w, x, y, z] = v3 w x y + 2 ^ 192 * uint z" for w x y z by (simp add: v)
  have l2: "v2 w x \<le> v2 w' x' \<longleftrightarrow> uint x < uint x' \<or> uint x = uint x' \<and> v1 w \<le> v1 w'" for w x w' x'
    unfolding v(2) by (rule lex_le) (use b(1) in blast)+
  have l3: "v3 w x y \<le> v3 w' x' y' \<longleftrightarrow> uint y < uint y' \<or> uint y = uint y' \<and> v2 w x \<le> v2 w' x'" for w x y w' x' y'
    unfolding v(3) by (rule lex_le) (use b(2) in blast)+
  have l4: "v3 w x y + 2 ^ 192 * uint z \<le> v3 w' x' y' + 2 ^ 192 * uint z' \<longleftrightarrow>
      uint z < uint z' \<or> uint z = uint z' \<and> v3 w x y \<le> v3 w' x' y'" for w x y z w' x' y' z'
    by (rule lex_le) (use b(3) in blast)+
  show ?thesis unfolding 4 l4 l3 l2
    by (auto simp: rev_upt4 cmp_u64_def word_less_def word_uint_eq_iff v(1))
qed

lemma sub_lane_step:
  assumes "i < length rw" and "br \<in> {0, 1}"
  shows "\<exists>r br'. sub_lane ws i (rw, br) = (rw[i := r], br') \<and> br' \<in> {0, 1} \<and>
    uint r = uint (ws ! i) - uint (FE_PW ! i) - br + 2 ^ 64 * br'"
proof -
  define cur where "cur = uint (ws ! i) - uint (FE_PW ! i) - br"
  have "0 \<le> uint (ws ! i)" "0 \<le> uint (FE_PW ! i)" "0 \<le> br" "br \<le> 1" using assms(2) by auto
  then have c: "- (2 ^ 64) \<le> cur" "cur < 2 ^ 64"
    using uint_u64 [of "ws ! i"] uint_u64 [of "FE_PW ! i"] unfolding cur_def by linarith+
  have u: "uint (of_int n :: u64) = n" if "0 \<le> n" "n < 2 ^ 64" for n
    using that by (simp add: uint_word_of_int_eq take_bit_int_eq_self)
  show ?thesis
  proof (cases "cur < 0")
    case True
    then have "sub_lane ws i (rw, br) = (rw[i := of_int (cur + 2 ^ 64)], 1)"
      unfolding sub_lane_def prod.case Let_def cur_def [symmetric] by simp
    moreover have "uint (of_int (cur + 2 ^ 64) :: u64) = cur + 2 ^ 64 * 1" using True c by (simp only: u mult_1_right)
    ultimately show ?thesis unfolding cur_def by blast
  next
    case False
    then have "sub_lane ws i (rw, br) = (rw[i := of_int cur], 0)"
      unfolding sub_lane_def prod.case Let_def cur_def [symmetric] by simp
    moreover have "uint (of_int cur :: u64) = cur + 2 ^ 64 * 0" using False c u [of cur] by simp
    ultimately show ?thesis unfolding cur_def by blast
  qed
qed

lemma sub_p_val:
  assumes "words_val FE_PW \<le> words_val [w0, w1, w2, w3]"
  shows "\<exists>r0 r1 r2 r3. fst (fold (sub_lane [w0, w1, w2, w3]) [0..<4] ([w0, w1, w2, w3], 0)) = [r0, r1, r2, r3] \<and>
    words_val [r0, r1, r2, r3] = words_val [w0, w1, w2, w3] - words_val FE_PW"
proof -
  let ?ws = "[w0, w1, w2, w3]"
  obtain r0 b0 where 0: "sub_lane ?ws 0 (?ws, 0) = ([r0, w1, w2, w3], b0)" "b0 \<in> {0, 1}"
      "uint r0 = uint w0 - uint (FE_PW ! 0) - 0 + 2 ^ 64 * b0"
    using sub_lane_step [of 0 ?ws 0 ?ws] by auto
  obtain r1 b1 where 1: "sub_lane ?ws 1 ([r0, w1, w2, w3], b0) = ([r0, r1, w2, w3], b1)" "b1 \<in> {0, 1}"
      "uint r1 = uint w1 - uint (FE_PW ! 1) - b0 + 2 ^ 64 * b1"
    using sub_lane_step [of 1 "[r0, w1, w2, w3]" b0 ?ws] 0(2) by auto
  obtain r2 b2 where 2: "sub_lane ?ws 2 ([r0, r1, w2, w3], b1) = ([r0, r1, r2, w3], b2)" "b2 \<in> {0, 1}"
      "uint r2 = uint w2 - uint (FE_PW ! 2) - b1 + 2 ^ 64 * b2"
    using sub_lane_step [of 2 "[r0, r1, w2, w3]" b1 ?ws] 1(2) by auto
  obtain r3 b3 where 3: "sub_lane ?ws 3 ([r0, r1, r2, w3], b2) = ([r0, r1, r2, r3], b3)" "b3 \<in> {0, 1}"
      "uint r3 = uint w3 - uint (FE_PW ! 3) - b2 + 2 ^ 64 * b3"
    using sub_lane_step [of 3 "[r0, r1, r2, w3]" b2 ?ws] 2(2) by auto
  have pw: "words_val FE_PW = uint (FE_PW ! 0) + 2 ^ 64 * uint (FE_PW ! 1) + 2 ^ 128 * uint (FE_PW ! 2) + 2 ^ 192 * uint (FE_PW ! 3)"
    by (simp add: FE_PW_def)
  have e: "words_val [r0, r1, r2, r3] = words_val ?ws - words_val FE_PW + 2 ^ 256 * b3"
    unfolding pw words_val.simps 0(3) 1(3) 2(3) 3(3) by simp
  have "b3 = 0" using e assms words_val_bound [of "[r0, r1, r2, r3]"] 3(2) by auto
  moreover have "fst (fold (sub_lane ?ws) [0..<4] (?ws, 0)) = [r0, r1, r2, r3]"
    unfolding rev_upt4 by (simp add: 0(1) 1(1) [simplified] 2(1) 3(1))
  ultimately show ?thesis using e by simp
qed

section \<open>Byte strings as numbers\<close>

primrec le_val :: "bytes \<Rightarrow> int" where
  "le_val [] = 0"
| "le_val (b # bs) = uint b + 256 * le_val bs"

lemma le_val_append: "le_val (xs @ ys) = le_val xs + 256 ^ length xs * le_val ys"
  by (induction xs) (simp_all add: algebra_simps)

lemma to_le_Suc: "to_le (Suc n) w = ucast w # to_le n (drop_bit 8 w)"
  by (simp add: to_le_def upt_conv_Cons map_Suc_upt [symmetric] del: upt_Suc) (simp add: map_Suc_upt [symmetric] comp_def add.commute del: upt_Suc)

lemma le_val_to_le: "le_val (to_le n w) = uint w mod 256 ^ n"
proof (induction n arbitrary: w)
  case (Suc n)
  have "uint (ucast w :: u8) = uint w mod 256" by (simp add: unsigned_ucast_eq take_bit_eq_mod)
  moreover have "uint (drop_bit 8 w) = uint w div 256" by (simp add: uint_hi)
  ultimately show ?case unfolding to_le_Suc le_val.simps Suc.IH by (simp add: zmod_zmult2_eq)
qed (simp add: to_le_def)

lemma le_val_words: "le_val (to_le 8 w0 @ to_le 8 w1 @ to_le 8 w2 @ to_le 8 w3) = words_val [w0, w1, w2, w3]" for w0 w1 w2 w3 :: u64
proof -
  have "le_val (to_le 8 w) = uint w" for w :: u64
    unfolding le_val_to_le using uint_u64 [of w] by (simp add: mod_pos_pos_trivial)
  then show ?thesis by (simp add: le_val_append)
qed

lemma fe_to_bytes_val:
  assumes "fe_is f n"
  shows "le_val (fe_to_bytes f) = n mod P25519"
proof -
  obtain w0 w1 w2 w3 where w: "fe_words (fe_settle f) = [w0, w1, w2, w3]" by (cases "fe_settle f") simp
  have s: "fe_is (fe_settle f) n" "\<not> fe_over (fe_settle f)" using fe_is_settle [OF assms] by simp_all
  have v: "words_val [w0, w1, w2, w3] = fe_val (fe_settle f)" using fe_words_val [OF s(2)] w by simp
  have b: "fe_val (fe_settle f) < 2 ^ 255"
    using s(2) by (cases "fe_settle f") (simp add: fe_val.simps uint_over)
  obtain p0 p1 p2 p3 where pw: "FE_PW = [p0, p1, p2, p3]" by (simp add: FE_PW_def)
  note cmp = cmp_lanes_val [of w0 w1 w2 w3 p0 p1 p2 p3, folded pw]
  have n: "fe_val (fe_settle f) mod P25519 = n mod P25519" using s(1) by (simp add: fe_is_def)
  show ?thesis
  proof (cases "P25519 \<le> fe_val (fe_settle f)")
    case True
    then obtain r0 r1 r2 r3 where r: "fst (fold (sub_lane [w0, w1, w2, w3]) [0..<4] ([w0, w1, w2, w3], 0)) = [r0, r1, r2, r3]"
        "words_val [r0, r1, r2, r3] = fe_val (fe_settle f) - P25519"
      using sub_p_val [of w0 w1 w2 w3] v words_val_PW by metis
    have "fe_to_bytes f = to_le 8 r0 @ to_le 8 r1 @ to_le 8 r2 @ to_le 8 r3"
      using cmp True v words_val_PW by (simp add: fe_to_bytes_def w r(1) Let_def del: upt_Suc)
    then have "le_val (fe_to_bytes f) = fe_val (fe_settle f) - P25519" using r(2) by (simp only: le_val_words)
    also have "\<dots> = (fe_val (fe_settle f) - P25519) mod P25519"
      using True b by (intro mod_pos_pos_trivial [symmetric]) (simp_all add: P25519_def)
    also have "\<dots> = n mod P25519" using n mod_sub_multiple [of "fe_val (fe_settle f)" 1 P25519] by simp
    finally show ?thesis .
  next
    case False
    then have "fe_to_bytes f = to_le 8 w0 @ to_le 8 w1 @ to_le 8 w2 @ to_le 8 w3"
      using cmp v words_val_PW by (simp add: fe_to_bytes_def w Let_def del: upt_Suc)
    then have "le_val (fe_to_bytes f) = fe_val (fe_settle f)" using v by (simp only: le_val_words)
    also have "\<dots> = fe_val (fe_settle f) mod P25519"
      using False fe_val_nonneg by (intro mod_pos_pos_trivial [symmetric]) simp_all
    finally show ?thesis using n by simp
  qed
qed

section \<open>Powers, tests, constants\<close>

text \<open>One bit of the exponent, the bits of one byte from the top, the bytes from the top.\<close>

definition pow_bit :: "fe \<Rightarrow> u8 \<Rightarrow> nat \<Rightarrow> fe \<Rightarrow> fe" where
  "pow_bit x byte b result =
     (let result = fe_square result in if drop_bit b byte AND 1 = 1 then fe_mul result x else result)"

definition fe_pow_bytes_exp :: "fe \<Rightarrow> bytes \<Rightarrow> fe" where
  "fe_pow_bytes_exp x exp_le =
     fold (\<lambda>byte_idx result. fold (pow_bit x (exp_le ! byte_idx)) (rev [0..<8]) result) (rev [0..<32]) FE_ONE"

text \<open>The loop of \<^verbatim>\<open>exp_p_minus\<close> with its early exit.\<close>

fun sub_small :: "nat list \<Rightarrow> u64 \<Rightarrow> bytes \<Rightarrow> bytes" where
  "sub_small [] borrow e = e"
| "sub_small (i # is) borrow e =
     (let cur = uint (e ! i); sub = uint (borrow AND 0xff);
          (e, borrow) = (if cur \<ge> sub then (e[i := of_int (cur - sub)], drop_bit 8 borrow)
                         else (e[i := of_int (cur + 256 - sub)], drop_bit 8 borrow + 1))
      in if borrow = 0 then e else sub_small is borrow e)"

definition exp_p_minus :: "u64 \<Rightarrow> bytes" where
  "exp_p_minus k = sub_small [0..<32] k ((replicate 32 0xff)[0 := 0xed, 31 := 0x7f])"

definition exp_shr :: "bytes \<Rightarrow> nat \<Rightarrow> bytes" where
  "exp_shr e bits =
     fst (fold (\<lambda>i (e, carry). (e[i := drop_bit bits (e ! i) OR push_bit (8 - bits) carry], e ! i AND (2 ^ bits - 1)))
            (rev [0..<32]) (e, 0))"

definition fe_invert :: "fe \<Rightarrow> fe" where
  "fe_invert x = fe_pow_bytes_exp x (exp_p_minus 2)"

definition fe_is_negative :: "fe \<Rightarrow> bool" where
  "fe_is_negative x \<longleftrightarrow> fe_to_bytes x ! 0 AND 1 = 1"

definition fe_is_zero :: "fe \<Rightarrow> bool" where
  "fe_is_zero x \<longleftrightarrow> fold (\<lambda>b acc. acc OR b) (fe_to_bytes x) 0 = 0"

definition fe_eq :: "fe \<Rightarrow> fe \<Rightarrow> bool" where
  "fe_eq x y \<longleftrightarrow> fe_is_zero (fe_sub x y)"

definition fe_conditional_negate :: "fe \<Rightarrow> bool \<Rightarrow> fe" where
  "fe_conditional_negate x choice = (if choice then fe_neg x else x)"

definition d_constant :: fe where
  "d_constant = fe_mul (fe_invert (fe_from_u64 121666)) (fe_neg (fe_from_u64 121665))"

definition sqrt_m1 :: fe where
  "sqrt_m1 = fe_pow_bytes_exp (fe_from_u64 2) (exp_shr (exp_p_minus 1) 2)"

lemma fe_is_one: "fe_is FE_ONE 1"
  by (simp add: fe_is_def FE_ONE_def fe_val.simps)

lemma fe_is_zero_const: "fe_is FE_ZERO 0"
  by (simp add: fe_is_def FE_ZERO_def fe_val.simps)

lemma fe_is_neg: "fe_is x n \<Longrightarrow> fe_is (fe_neg x) (- n)"
  using fe_is_sub [OF fe_is_zero_const] by (simp add: fe_neg_def)

lemma fe_is_square: "fe_is x n \<Longrightarrow> fe_is (fe_square x) (n * n)"
  by (simp add: fe_square_def fe_is_mul)

lemma fe_is_from_u64: "fe_is (fe_from_u64 v) (uint v)"
proof -
  have "uint v div 2 ^ 51 < 2 ^ 52" using uint_u64 [of v] by simp
  moreover have "uint v mod 2 ^ 51 + 2 ^ 51 * (uint v div 2 ^ 51) = uint v" by (simp add: add.commute)
  ultimately show ?thesis unfolding fe_is_def fe_from_u64_def fe_ok.simps fe_val.simps uint_lo uint_hi
    using mod51_less [of "uint v"] by simp
qed

lemma bit_and_1: "drop_bit b byte AND 1 = 1 \<longleftrightarrow> bit byte b" for byte :: u8
  by (simp add: and_one_eq bit_iff_odd drop_bit_eq_div odd_iff_mod_2_eq_one)

text \<open>The exponent read so far, from the top.\<close>

lemma mod_Suc_bit: "n mod 2 ^ Suc k = (if bit n k then 2 ^ k else 0) + n mod 2 ^ k" for n :: nat
  using take_bit_Suc_from_most [of k n] by (simp add: take_bit_eq_mod add.commute)

lemma fe_is_pow_bits:
  assumes "fe_is x n"
  shows "fe_is r (n ^ e) \<Longrightarrow> fe_is (fold (pow_bit x byte) (rev [0..<k]) r) (n ^ (e * 2 ^ k + unat byte mod 2 ^ k))"
proof (induction k arbitrary: r e)
  case (Suc k)
  define e' where "e' = e + e + (if bit byte k then 1 else 0)"
  have sq: "fe_is (fe_square r) (n ^ (e + e))" using fe_is_square [OF Suc.prems] by (simp add: power_add)
  have "fe_is (pow_bit x byte k r) (n ^ e')"
    using sq fe_is_mul [OF sq assms] by (simp add: pow_bit_def Let_def bit_and_1 e'_def power_add mult.commute)
  from Suc.IH [OF this] have "fe_is (fold (pow_bit x byte) (rev [0..<Suc k]) r) (n ^ (e' * 2 ^ k + unat byte mod 2 ^ k))" by simp
  moreover have "e' * 2 ^ k + unat byte mod 2 ^ k = e * 2 ^ Suc k + unat byte mod 2 ^ Suc k"
    unfolding mod_Suc_bit by (simp add: e'_def bit_unsigned_iff add_mult_distrib)
  ultimately show ?case by simp
qed simp

primrec le_nat :: "bytes \<Rightarrow> nat" where
  "le_nat [] = 0"
| "le_nat (b # bs) = unat b + 256 * le_nat bs"

lemma le_nat_append: "le_nat (xs @ ys) = le_nat xs + 256 ^ length xs * le_nat ys"
  by (induction xs) (simp_all add: algebra_simps)

lemma le_val_nat: "le_val bs = int (le_nat bs)"
  by (induction bs) simp_all

lemma unat_u8: "unat x < 256" for x :: u8
  using unsigned_less [of x] by simp

lemma fe_is_pow_bytes:
  assumes "fe_is x n"
  shows "fe_is r (n ^ e) \<Longrightarrow> k \<le> length exp \<Longrightarrow>
    fe_is (fold (\<lambda>i result. fold (pow_bit x (exp ! i)) (rev [0..<8]) result) (rev [0..<k]) r) (n ^ (e * 256 ^ k + le_nat (take k exp)))"
proof (induction k arbitrary: r e)
  case (Suc k)
  let ?r = "fold (pow_bit x (exp ! k)) (rev [0..<8]) r"
  have lt: "unat (exp ! k) mod 2 ^ 8 = unat (exp ! k)" using unat_u8 [of "exp ! k"] by simp
  have "fe_is ?r (n ^ (e * 2 ^ 8 + unat (exp ! k)))" using fe_is_pow_bits [OF assms Suc.prems(1), of "exp ! k" 8] lt by (simp del: upt_Suc)
  from Suc.IH [OF this] Suc.prems(2)
  have "fe_is (fold (\<lambda>i result. fold (pow_bit x (exp ! i)) (rev [0..<8]) result) (rev [0..<Suc k]) r)
      (n ^ ((e * 2 ^ 8 + unat (exp ! k)) * 256 ^ k + le_nat (take k exp)))" by simp
  moreover have "(e * 2 ^ 8 + unat (exp ! k)) * 256 ^ k + le_nat (take k exp) = e * 256 ^ Suc k + le_nat (take (Suc k) exp)"
    using Suc.prems(2) by (simp add: take_Suc_conv_app_nth le_nat_append algebra_simps)
  ultimately show ?case by simp
qed simp

lemma fe_is_pow: "fe_is x n \<Longrightarrow> length exp = 32 \<Longrightarrow> fe_is (fe_pow_bytes_exp x exp) (n ^ le_nat exp)"
  using fe_is_pow_bytes [of x n FE_ONE 0 32 exp] fe_is_one by (simp add: fe_pow_bytes_exp_def del: upt_Suc)

text \<open>The exponents in use.\<close>

lemma exponent_bytes:
  "exp_p_minus 2 = 0xeb # replicate 30 0xff @ [0x7f]"
  "exp_shr (exp_p_minus 1) 2 = 0xfb # replicate 30 0xff @ [0x1f]"
  "exp_shr (exp_p_minus 5) 3 = 0xfd # replicate 30 0xff @ [0x0f]"
  by code_simp+

lemma le_nat_ones: "le_nat (replicate n 0xff) + 1 = 256 ^ n"
  by (induction n) simp_all

lemma exponents:
  "le_nat (exp_p_minus 2) = 2 ^ 255 - 21" "le_nat (exp_shr (exp_p_minus 1) 2) = (2 ^ 255 - 20) div 4"
  "le_nat (exp_shr (exp_p_minus 5) 3) = (2 ^ 255 - 24) div 8"
  using le_nat_ones [of 30] by (simp_all add: exponent_bytes le_nat_append)

lemma fe_is_invert: "fe_is x n \<Longrightarrow> fe_is (fe_invert x) (n ^ (2 ^ 255 - 21))"
  unfolding fe_invert_def exponents(1) [symmetric] by (rule fe_is_pow) (simp_all add: exponent_bytes(1))

text \<open>Tests read the canonical encoding.\<close>

lemma length_fe_to_bytes [simp]: "length (fe_to_bytes f) = 32"
  by (simp add: fe_to_bytes_def Let_def)

lemma le_val_zero: "le_val bs = 0 \<longleftrightarrow> (\<forall>b \<in> set bs. b = 0)"
proof (induction bs)
  case (Cons b bs)
  have "0 \<le> le_val bs" by (simp add: le_val_nat)
  then have "le_val (b # bs) = 0 \<longleftrightarrow> uint b = 0 \<and> le_val bs = 0" using uint_nonnegative [of b] unfolding le_val.simps by linarith
  then show ?case using Cons by (simp add: uint_0_iff)
qed simp

lemma fold_or_bytes: "fold (\<lambda>b acc. acc OR b) bs a = 0 \<longleftrightarrow> a = 0 \<and> (\<forall>b \<in> set bs. b = 0)" for a :: u8
proof (induction bs arbitrary: a)
  case (Cons b bs)
  show ?case unfolding fold_simps o_apply Cons.IH by (simp add: or_eq_0_iff)
qed simp

lemma fe_is_zero_iff: "fe_is x n \<Longrightarrow> fe_is_zero x \<longleftrightarrow> n mod P25519 = 0"
  by (simp add: fe_is_zero_def fold_or_bytes le_val_zero [symmetric] fe_to_bytes_val)

lemma fe_eq_iff: "fe_is x m \<Longrightarrow> fe_is y n \<Longrightarrow> fe_eq x y \<longleftrightarrow> m mod P25519 = n mod P25519"
  using fe_is_zero_iff [OF fe_is_sub] by (simp add: fe_eq_def mod_eq_dvd_iff dvd_eq_mod_eq_0)

lemma fe_is_negative_iff: "fe_is x n \<Longrightarrow> fe_is_negative x \<longleftrightarrow> odd (n mod P25519)"
proof -
  assume x: "fe_is x n"
  obtain b bs where b: "fe_to_bytes x = b # bs" using length_fe_to_bytes [of x] by (cases "fe_to_bytes x") auto
  have "fe_is_negative x \<longleftrightarrow> bit b 0" using bit_and_1 [of 0 b] by (simp add: fe_is_negative_def b)
  also have "\<dots> \<longleftrightarrow> bit (uint b) 0" unfolding bit_uint_iff by simp
  also have "\<dots> \<longleftrightarrow> odd (uint b)" by (simp only: bit_0)
  also have "\<dots> \<longleftrightarrow> odd (le_val (fe_to_bytes x))" by (simp add: b)
  finally show ?thesis by (simp add: fe_to_bytes_val [OF x])
qed

text \<open>Decoding.\<close>

lemma le_nat_less: "le_nat bs < 256 ^ length bs"
proof (induction bs)
  case (Cons b bs)
  then have "le_nat bs + 1 \<le> 256 ^ length bs" by simp
  with unat_u8 [of b] show ?case unfolding le_nat.simps length_Cons power_Suc by linarith
qed simp

lemma le_nat_split: "n \<le> length bs \<Longrightarrow> le_nat (take n bs) = le_nat bs mod 256 ^ n \<and> le_nat (drop n bs) = le_nat bs div 256 ^ n"
proof -
  assume "n \<le> length bs"
  then have l: "length (take n bs) = n" by simp
  have "le_nat bs = le_nat (take n bs) + 256 ^ n * le_nat (drop n bs)"
    using le_nat_append [of "take n bs" "drop n bs"] l by simp
  moreover have "le_nat (take n bs) < 256 ^ n" using le_nat_less [of "take n bs"] l by simp
  ultimately show ?thesis by simp
qed

lemma uint_from_le8: "length bs = 8 \<Longrightarrow> uint (from_le bs :: u64) = le_val bs"
proof -
  assume l: "length bs = 8"
  have "le_val (to_le 8 (from_le bs :: u64)) = uint (from_le bs :: u64)"
    unfolding le_val_to_le using uint_u64 [of "from_le bs"] by (simp add: mod_pos_pos_trivial)
  moreover have "to_le 8 (from_le bs :: u64) = bs" using to_from_le [of bs, where 'a = 64] l by simp
  ultimately show ?thesis by simp
qed

lemma le_val_rslice: "k + 8 \<le> length b \<Longrightarrow> le_val (rslice b k (k + 8)) = take_bit 64 (drop_bit (8 * k) (le_val b))"
proof -
  assume "k + 8 \<le> length b"
  then have "le_nat (rslice b k (k + 8)) = le_nat b div 256 ^ k mod 256 ^ 8"
    using le_nat_split [of 8 "drop k b"] le_nat_split [of k b] by (simp add: rslice_def)
  moreover have "(256 :: int) ^ k = 2 ^ (8 * k)" by (simp add: power_mult)
  ultimately show ?thesis by (simp add: le_val_nat take_bit_eq_mod drop_bit_eq_div zdiv_int zmod_int)
qed

lemma limb_bits: "s + 51 \<le> 64 \<Longrightarrow> take_bit 64 (drop_bit n v) div 2 ^ s mod 2 ^ 51 = take_bit 51 (drop_bit (n + s) v)" for v :: int
  by (simp only: take_bit_eq_mod [symmetric] drop_bit_eq_div [symmetric] drop_bit_take_bit) (simp add: add.commute)

lemma fe_is_from_bytes:
  assumes "length b = 32"
  shows "fe_is (fe_from_bytes b) (le_val b mod 2 ^ 255)"
proof -
  define V where "V = le_val b"
  have r: "uint (from_le (rslice b k (k + 8)) :: u64) = take_bit 64 (drop_bit (8 * k) V)" if "k + 8 \<le> 32" for k
    using le_val_rslice [of k b] uint_from_le8 [of "rslice b k (k + 8)"] assms that by (simp add: V_def)
  have rs: "uint (from_le (rslice b 0 8) :: u64) = take_bit 64 (drop_bit 0 V)" "uint (from_le (rslice b 6 14) :: u64) = take_bit 64 (drop_bit 48 V)"
    "uint (from_le (rslice b 12 20) :: u64) = take_bit 64 (drop_bit 96 V)" "uint (from_le (rslice b 19 27) :: u64) = take_bit 64 (drop_bit 152 V)"
    "uint (from_le (rslice b 24 32) :: u64) = take_bit 64 (drop_bit 192 V)"
    using r [of 0] r [of 6] r [of 12] r [of 19] r [of 24] by simp_all
  have l0: "uint (from_le (rslice b 0 8) AND MASK51) = take_bit 51 (drop_bit 0 V)"
    using limb_bits [of 0 0 V] by (simp add: uint_lo rs)
  have l: "uint (drop_bit 3 (from_le (rslice b 6 14)) AND MASK51) = take_bit 51 (drop_bit 51 V)"
    "uint (drop_bit 6 (from_le (rslice b 12 20)) AND MASK51) = take_bit 51 (drop_bit 102 V)"
    "uint (drop_bit 1 (from_le (rslice b 19 27)) AND MASK51) = take_bit 51 (drop_bit 153 V)"
    "uint (drop_bit 12 (from_le (rslice b 24 32)) AND MASK51) = take_bit 51 (drop_bit 204 V)"
    unfolding uint_lo uint_hi rs by (subst limb_bits; simp)+
  have split: "take_bit (51 + n) v = take_bit 51 v + 2 ^ 51 * take_bit n (drop_bit 51 v)" for n and v :: int
    by (simp add: take_bit_eq_mod drop_bit_eq_div power_add zmod_zmult2_eq)
  have "fe_val (fe_from_bytes b) = take_bit 255 V"
    unfolding fe_from_bytes_def fe_val.simps l0 l
    using split [of 204 V] split [of 153 "drop_bit 51 V"] split [of 102 "drop_bit 102 V"] split [of 51 "drop_bit 153 V"] by simp
  moreover have "fe_ok (fe_from_bytes b)"
    unfolding fe_from_bytes_def fe_ok.simps l0 l take_bit_eq_mod using mod51_less by blast
  ultimately show ?thesis by (simp add: fe_is_def V_def take_bit_eq_mod)
qed

section \<open>What the field operations compute\<close>

lemma fe_is_self: "fe_ok a \<Longrightarrow> fe_is a (fe_val a)"
  by (simp add: fe_is_def)

lemma fe_isD: "fe_is a n \<Longrightarrow> fe_ok a \<and> fe_val a mod P25519 = n mod P25519"
  by (simp add: fe_is_def)

text \<open>C17: on limbs below \<open>2 ^ 52\<close>, addition, subtraction and multiplication are those of the integers modulo
  \<open>2 ^ 255 - 19\<close> and give such limbs again, so nothing wraps; the encoding is the canonical one,
  the representative below the modulus.\<close>

theorem field_arithmetic:
  assumes "fe_ok a" and "fe_ok b"
  shows "fe_ok (fe_add a b) \<and> fe_val (fe_add a b) mod P25519 = (fe_val a + fe_val b) mod P25519 \<and>
    fe_ok (fe_sub a b) \<and> fe_val (fe_sub a b) mod P25519 = (fe_val a - fe_val b) mod P25519 \<and>
    fe_ok (fe_mul a b) \<and> fe_val (fe_mul a b) mod P25519 = fe_val a * fe_val b mod P25519 \<and>
    le_val (fe_to_bytes a) = fe_val a mod P25519 \<and>
    (fe_eq a b \<longleftrightarrow> fe_val a mod P25519 = fe_val b mod P25519)"
  using fe_is_self [OF assms(1)] fe_is_self [OF assms(2)]
  by (meson fe_isD fe_is_add fe_is_sub fe_is_mul fe_to_bytes_val fe_eq_iff)

theorem field_arithmetic_witness:
  "fe_ok (Fe 3 0 0 0 0) \<and> fe_ok (Fe 5 0 0 0 0) \<and>
   fe_val (fe_sub (Fe 3 0 0 0 0) (Fe 5 0 0 0 0)) mod P25519 = 2 ^ 255 - 21 \<and>
   fe_val (fe_mul (Fe 3 0 0 0 0) (Fe 5 0 0 0 0)) mod P25519 = 15"
  using field_arithmetic [of "Fe 3 0 0 0 0" "Fe 5 0 0 0 0"] by (simp add: fe_val.simps P25519_def)

end
