(* ===== verification/Scalar25519.thy ===== *)
theory Scalar25519
  imports Fe25519
begin

text \<open>
  Scalars modulo the group order \<open>L\<close>, \<^verbatim>\<open>crypto/src/ed25519.rs\<close>: comparison and subtraction of little-endian
  limbs, binary long division, and the multiply-and-add of a signature.
\<close>

section \<open>Operations\<close>

definition L_LIMBS :: "u32 list" where
  "L_LIMBS = [0x5cf5d3ed, 0x5812631a, 0xa2f79cd6, 0x14def9de, 0, 0, 0, 0x10000000]"

text \<open>The loops over limbs, from the top for the comparison and from the bottom for the subtraction.\<close>

fun geq_from :: "nat list \<Rightarrow> 'a::len word list \<Rightarrow> 'a word list \<Rightarrow> bool" where
  "geq_from [] a b \<longleftrightarrow> True"
| "geq_from (i # is) a b \<longleftrightarrow> (if a ! i \<noteq> b ! i then a ! i > b ! i else geq_from is a b)"

definition limbs_geq :: "u32 list \<Rightarrow> u32 list \<Rightarrow> bool" where
  "limbs_geq a b = geq_from (rev [0..<8]) a b"

definition sub_limb :: "u32 list \<Rightarrow> nat \<Rightarrow> u32 list \<times> u64 \<Rightarrow> u32 list \<times> u64" where
  "sub_limb b i = (\<lambda>(a, borrow).
     let cur = ucast (a ! i) :: u64; sub = ucast (b ! i) + borrow
     in (a[i := ucast (cur - sub)], if cur < sub then 1 else 0))"

definition limbs_sub :: "u32 list \<Rightarrow> u32 list \<Rightarrow> u32 list" where
  "limbs_sub a b = fst (fold (sub_limb b) [0..<8] (a, 0))"

text \<open>\<^verbatim>\<open>rem = rem << 1 | b\<close>, limb by limb.\<close>

fun shl_limbs :: "u32 \<Rightarrow> u32 list \<Rightarrow> u32 list" where
  "shl_limbs carry [] = []"
| "shl_limbs carry (limb # ls) = (push_bit 1 limb OR carry) # shl_limbs (drop_bit 31 limb) ls"

definition mod_l_bit :: "bytes \<Rightarrow> nat \<Rightarrow> u32 list \<Rightarrow> u32 list" where
  "mod_l_bit input b rem =
     (let byte = input ! (b div 8);
          rem = shl_limbs (ucast (drop_bit (b mod 8) byte AND 1)) rem
      in if limbs_geq rem L_LIMBS then limbs_sub rem L_LIMBS else rem)"

definition mod_l :: "bytes \<Rightarrow> bytes" where
  "mod_l input =
     (let rem = fold (mod_l_bit input) (rev [0..<length input * 8]) (replicate 9 0)
      in concat (map (\<lambda>i. to_le 4 (rem ! i)) [0..<8]))"

definition bytes_geq_l :: "bytes \<Rightarrow> bool" where
  "bytes_geq_l bs = geq_from (rev [0..<32]) bs (concat (map (to_le 4) L_LIMBS))"

text \<open>The schoolbook product: one step of the inner loop, one row.\<close>

definition mul_step :: "u32 list \<Rightarrow> u32 list \<Rightarrow> nat \<Rightarrow> nat \<Rightarrow> u32 list \<times> u64 \<Rightarrow> u32 list \<times> u64" where
  "mul_step aa bb i j = (\<lambda>(acc, carry).
     let cur = ucast (acc ! (i + j)) + ucast (aa ! i) * ucast (bb ! j) + carry
     in (acc[i + j := ucast cur], drop_bit 32 cur))"

definition mul_row :: "u32 list \<Rightarrow> u32 list \<Rightarrow> nat \<Rightarrow> u32 list \<Rightarrow> u32 list" where
  "mul_row aa bb i acc =
     (case fold (mul_step aa bb i) [0..<8] (acc, 0) of
        (acc, carry) \<Rightarrow> acc[i + 8 := acc ! (i + 8) + ucast carry])"

definition add_byte :: "bytes \<Rightarrow> nat \<Rightarrow> bytes \<times> u64 \<Rightarrow> bytes \<times> u64" where
  "add_byte c i = (\<lambda>(wide, carry).
     let sum = ucast (wide ! i) + ucast (c ! i) + carry in (wide[i := ucast sum], drop_bit 8 sum))"

function carry_on :: "nat \<Rightarrow> bytes \<Rightarrow> u64 \<Rightarrow> bytes" where
  "carry_on idx wide carry =
     (if carry > 0 \<and> idx < length wide
      then let sum = ucast (wide ! idx) + carry in carry_on (idx + 1) (wide[idx := ucast sum]) (drop_bit 8 sum)
      else wide)"
  by pat_completeness auto
termination by (relation "measure (\<lambda>(idx, wide, _). length wide - idx)") auto

definition mul_add_mod_l :: "bytes \<Rightarrow> bytes \<Rightarrow> bytes \<Rightarrow> bytes" where
  "mul_add_mod_l a b c =
     (let aa = map (\<lambda>i. from_le (rslice a (i * 4) (i * 4 + 4))) [0..<8];
          bb = map (\<lambda>i. from_le (rslice b (i * 4) (i * 4 + 4))) [0..<8];
          acc = fold (mul_row aa bb) [0..<8] (replicate 34 0);
          wide = copy_at (replicate 144 0) 0 (concat (map (to_le 4) acc))
      in case fold (add_byte c) [0..<32] (wide, 0) of
           (wide, carry) \<Rightarrow> mod_l (carry_on 32 wide carry))"

section \<open>Digits\<close>

primrec digits :: "'a::len word list \<Rightarrow> int" where
  "digits [] = 0"
| "digits (d # ds) = uint d + 2 ^ LENGTH('a) * digits ds"

lemma digits_append: "digits (xs @ ys) = digits xs + (2 ^ LENGTH('a)) ^ length xs * digits (ys :: 'a::len word list)"
  by (induction xs) (simp_all add: algebra_simps)

lemma digits_bytes: "digits bs = le_val bs"
  by (induction bs) simp_all

lemma digits_nonneg [simp]: "0 \<le> digits ds"
  by (induction ds) simp_all

lemma uint_word: "uint w < 2 ^ LENGTH('a)" for w :: "'a::len word"
  using unsigned_less [of w] by simp

lemma digits_less: "digits (ds :: 'a::len word list) < (2 ^ LENGTH('a)) ^ length ds"
proof (induction ds)
  case (Cons d ds)
  then have "digits ds + 1 \<le> (2 ^ LENGTH('a)) ^ length ds" by simp
  then have "2 ^ LENGTH('a) * (digits ds + 1) \<le> 2 ^ LENGTH('a) * (2 ^ LENGTH('a)) ^ length ds" by (rule mult_left_mono) simp
  then show ?case using uint_word [of d] unfolding digits.simps length_Cons power_Suc distrib_left mult_1_right by linarith
qed simp

lemma digits_take_Suc:
  "n < length ds \<Longrightarrow> digits (take (Suc n) ds) = digits (take n ds) + (2 ^ LENGTH('a)) ^ n * uint (ds ! n :: 'a::len word)"
  by (simp add: take_Suc_conv_app_nth digits_append)

lemma digits_update:
  "n < length ds \<Longrightarrow> digits (ds[n := v]) = digits ds + (2 ^ LENGTH('a)) ^ n * (uint v - uint (ds ! n :: 'a::len word))"
proof (induction ds arbitrary: n)
  case (Cons d ds)
  then show ?case by (cases n) (simp_all add: distrib_left mult.assoc)
qed simp

lemma geq_from_digits:
  "n \<le> length a \<Longrightarrow> n \<le> length b \<Longrightarrow> geq_from (rev [0..<n]) a b \<longleftrightarrow> digits (take n b) \<le> digits (take n (a :: 'a::len word list))"
proof (induction n)
  case (Suc n)
  have b: "0 \<le> digits (take n xs) \<and> digits (take n xs) < (2 ^ LENGTH('a)) ^ n" if "Suc n \<le> length xs" for xs :: "'a word list"
    using digits_less [of "take n xs"] that by simp
  have "digits (take (Suc n) b) \<le> digits (take (Suc n) a) \<longleftrightarrow>
      uint (b ! n) < uint (a ! n) \<or> uint (b ! n) = uint (a ! n) \<and> digits (take n b) \<le> digits (take n a)"
    using Suc.prems b [of a] b [of b] by (simp add: digits_take_Suc lex_le)
  then show ?case using Suc by (auto simp: word_less_def word_uint_eq_iff)
qed simp

lemma uint_ucast_up: "LENGTH('a) \<le> LENGTH('b) \<Longrightarrow> uint (ucast w :: 'b::len word) = uint w" for w :: "'a::len word"
proof -
  assume "LENGTH('a) \<le> LENGTH('b)"
  then have "(2 :: int) ^ LENGTH('a) \<le> 2 ^ LENGTH('b)" by (rule power_increasing) simp
  with uint_word [of w] have "uint w < 2 ^ LENGTH('b)" by linarith
  then show ?thesis by (simp add: unsigned_ucast_eq take_bit_int_eq_self)
qed

lemma mod_eqI: "0 \<le> x + m * k \<Longrightarrow> x + m * k < m \<Longrightarrow> x mod m = x + m * k" for x m k :: int
  by (metis mod_mult_self2 mod_pos_pos_trivial)

lemma uint_ucast_diff: "uint (ucast (x - y) :: u32) = (uint x - uint y) mod 2 ^ 32" for x y :: u64
proof -
  have "uint (ucast (x - y) :: u32) = (uint x - uint y) mod 2 ^ 64 mod 2 ^ 32"
    by (simp add: unsigned_ucast_eq take_bit_eq_mod uint_word_ariths)
  then show ?thesis by (simp add: mod_mod_cancel)
qed

lemma limbs_sub_digits:
  "n \<le> length a \<Longrightarrow> n \<le> length b \<Longrightarrow>
   \<exists>a' br. fold (sub_limb b) [0..<n] (a, 0) = (a', br) \<and> length a' = length a \<and> drop n a' = drop n a \<and> (br = 0 \<or> br = 1) \<and>
     digits (take n a') = digits (take n a) - digits (take n b) + (2 ^ 32) ^ n * uint br"
proof (induction n)
  case (Suc n)
  then obtain a' br where f: "fold (sub_limb b) [0..<n] (a, 0) = (a', br)" and l: "length a' = length a" and d: "drop n a' = drop n a"
    and br: "br = 0 \<or> br = 1" and v: "digits (take n a') = digits (take n a) - digits (take n b) + (2 ^ 32) ^ n * uint br" by auto
  define cur sub :: u64 where cs: "cur = ucast (a' ! n)" "sub = ucast (b ! n) + br"
  define br' :: u64 where "br' = (if cur < sub then 1 else 0)"
  have an: "a' ! n = a ! n" using Suc.prems l d by (metis Cons_nth_drop_Suc Suc_le_lessD nth_via_drop)
  have uc: "uint cur = uint (a ! n)" by (simp add: cs an uint_ucast_up)
  have us: "uint sub = uint (b ! n) + uint br" unfolding cs using br uint_word [of "b ! n"] by (subst uint_add) (auto simp: uint_ucast_up)
  have r: "uint (ucast (cur - sub) :: u32) = uint cur - uint sub + 2 ^ 32 * uint br'"
  proof -
    have nn: "0 \<le> uint (a ! n)" "uint (a ! n) < 2 ^ 32" "0 \<le> uint (b ! n)" "uint (b ! n) < 2 ^ 32" "0 \<le> uint br" "uint br \<le> 1"
      using uint_word [of "a ! n"] uint_word [of "b ! n"] br by auto
    show ?thesis
    proof (cases "uint (a ! n) < uint (b ! n) + uint br")
      case True
      then have b: "uint br' = 1" by (simp add: br'_def word_less_def uc us)
      show ?thesis unfolding uint_ucast_diff uc us b using True nn by (intro mod_eqI) linarith+
    next
      case False
      then have b: "uint br' = 0" by (simp add: br'_def word_less_def uc us)
      show ?thesis unfolding uint_ucast_diff uc us b using False nn by (intro mod_eqI) linarith+
    qed
  qed
  let ?a = "a'[n := ucast (cur - sub)]"
  have "fold (sub_limb b) [0..<Suc n] (a, 0) = (?a, br')" by (simp add: f sub_limb_def cs [symmetric] Let_def br'_def)
  moreover have "drop (Suc n) ?a = drop (Suc n) a" using d by (metis drop_Suc drop_update_cancel lessI tl_drop)
  moreover have "digits (take (Suc n) ?a) = digits (take (Suc n) a) - digits (take (Suc n) b) + (2 ^ 32) ^ Suc n * uint br'"
    using Suc.prems l by (simp add: digits_take_Suc v r uc us algebra_simps)
  ultimately show ?case using l by (auto simp: br'_def)
qed simp

lemma uint_shl_or:
  fixes x c :: u32
  assumes "c = 0 \<or> c = 1"
  shows "uint (push_bit 1 x OR c) = 2 * uint x + uint c - 2 ^ 32 * uint (drop_bit 31 x)"
proof -
  have "push_bit 1 x OR c = push_bit 1 x + c"
    by (rule disjunctive_add [symmetric]) (use assms in \<open>auto simp: bit_push_bit_iff bit_1_iff simp del: push_bit_of_1 push_bit_Suc_numeral push_bit_numeral push_bit_Suc\<close>)
  moreover have p: "uint (push_bit 1 x) = 2 * (uint x mod 2 ^ 31)"
    unfolding unsigned_push_bit_eq take_bit_push_bit unfolding push_bit_eq_mult take_bit_eq_mod by simp
  moreover have "uint (push_bit 1 x + c) = uint (push_bit 1 x) + uint c"
  proof (rule uint_add)
    have "uint x mod 2 ^ 31 < 2 ^ 31" by simp
    moreover have "uint c \<le> 1" using assms by auto
    ultimately show "uint (push_bit 1 x) + uint c < 2 ^ LENGTH(32)" unfolding p by simp
  qed
  ultimately show ?thesis by (simp add: uint_hi minus_mult_div_eq_mod [symmetric])
qed

lemma shl_digits:
  assumes "c = 0 \<or> c = 1"
  shows "length (shl_limbs c ls) = length ls \<and>
    (\<exists>k. (k = 0 \<or> k = 1) \<and> digits (shl_limbs c ls) + (2 ^ 32) ^ length ls * k = 2 * digits ls + uint c)"
  using assms
proof (induction ls arbitrary: c)
  case (Cons x ls)
  have d: "uint (drop_bit 31 x) = 0 \<or> uint (drop_bit 31 x) = 1"
  proof -
    have "uint x div 2 ^ 31 < 2" "0 \<le> uint x div 2 ^ 31" using uint_word [of x] by (simp_all add: pos_imp_zdiv_nonneg_iff)
    then show ?thesis unfolding uint_hi by linarith
  qed
  then have "drop_bit 31 x = 0 \<or> drop_bit 31 x = 1" by (simp add: word_uint_eq_iff)
  from Cons.IH [OF this] obtain k where k: "k = 0 \<or> k = 1" and l: "length (shl_limbs (drop_bit 31 x) ls) = length ls"
    and e: "digits (shl_limbs (drop_bit 31 x) ls) + (2 ^ 32) ^ length ls * k = 2 * digits ls + uint (drop_bit 31 x)" by blast
  have "digits (shl_limbs c (x # ls)) + (2 ^ 32) ^ length (x # ls) * k = 2 * digits (x # ls) + uint c"
    using uint_shl_or [OF Cons.prems, of x] e by (simp add: algebra_simps)
  with k l show ?case by auto
qed (use assms in auto)

section \<open>Reduction modulo the group order\<close>

definition L25519 :: int where
  "L25519 = 2 ^ 252 + 27742317777372353535851937790883648493"

lemma digits_L: "digits L_LIMBS = L25519"
  by (simp add: L_LIMBS_def L25519_def)

lemma length_L [simp]: "length L_LIMBS = 8"
  by (simp add: L_LIMBS_def)

lemma top_limb_zero: "length rem = 9 \<Longrightarrow> digits rem < 2 ^ 256 \<Longrightarrow> digits (take 8 rem) = digits (rem :: u32 list) \<and> uint (rem ! 8) = 0"
proof -
  assume l: "length rem = 9" and d: "digits rem < 2 ^ 256"
  have e: "digits rem = digits (take 8 rem) + 2 ^ 256 * uint (rem ! 8)"
    using digits_take_Suc [of 8 rem] l by simp
  have "uint (rem ! 8) < 1"
  proof (rule ccontr)
    assume "\<not> uint (rem ! 8) < 1"
    then have "2 ^ 256 * 1 \<le> 2 ^ 256 * uint (rem ! 8)" by (intro mult_left_mono) simp_all
    then show False using e d digits_nonneg [of "take 8 rem"] by linarith
  qed
  then have "uint (rem ! 8) = 0" using uint_nonnegative [of "rem ! 8"] by linarith
  with e show ?thesis by simp
qed

text \<open>One step of the long division.\<close>

lemma mod_l_bit_digits:
  assumes "length rem = 9" and "digits rem < L25519"
  shows "length (mod_l_bit input b rem) = 9 \<and> digits (mod_l_bit input b rem) < L25519 \<and>
    digits (mod_l_bit input b rem) mod L25519 = (2 * digits rem + (if bit (input ! (b div 8)) (b mod 8) then 1 else 0)) mod L25519"
proof -
  define c :: u32 where "c = ucast (drop_bit (b mod 8) (input ! (b div 8)) AND 1)"
  have "drop_bit (b mod 8) (input ! (b div 8)) AND 1 = (if bit (input ! (b div 8)) (b mod 8) then 1 else 0)"
    using bit_and_1 [of "b mod 8" "input ! (b div 8)"] by (auto simp: and_one_eq)
  then have c: "c = (if bit (input ! (b div 8)) (b mod 8) then 1 else 0)" by (simp add: c_def)
  have Lb: "L25519 < 2 ^ 253" "0 < L25519" by (simp_all add: L25519_def)
  obtain k where sl: "length (shl_limbs c rem) = 9" and k: "k = 0 \<or> k = 1"
    and e: "digits (shl_limbs c rem) + (2 ^ 32) ^ 9 * k = 2 * digits rem + uint c"
    using shl_digits [of c rem, unfolded assms(1)] c by metis
  have uc: "0 \<le> uint c" "uint c \<le> 1" by (auto simp: c)
  have k0: "k = 0"
  proof (rule ccontr)
    assume "k \<noteq> 0"
    with k e have "digits (shl_limbs c rem) + 2 ^ 288 = 2 * digits rem + uint c" by simp
    moreover have "2 * 2 ^ 253 + 1 < (2 :: int) ^ 288" by simp
    ultimately show False using assms(2) Lb uc digits_nonneg [of "shl_limbs c rem"] by linarith
  qed
  define r where "r = shl_limbs c rem"
  have r: "digits r = 2 * digits rem + uint c" using e k0 by (simp add: r_def)
  have rl: "length r = 9" using sl by (simp add: r_def)
  have rb: "digits r < 2 ^ 256" "digits r < 2 * L25519" using r assms(2) Lb uc by simp_all
  note t = top_limb_zero [OF rl rb(1)]
  have g: "limbs_geq r L_LIMBS \<longleftrightarrow> L25519 \<le> digits r"
    using geq_from_digits [of 8 r L_LIMBS] rl t by (simp add: limbs_geq_def digits_L del: upt_Suc)
  have m: "mod_l_bit input b rem = (if L25519 \<le> digits r then limbs_sub r L_LIMBS else r)"
    by (simp add: mod_l_bit_def Let_def c_def [symmetric] r_def [symmetric] g)
  show ?thesis
  proof (cases "L25519 \<le> digits r")
    case True
    obtain a' br where f: "fold (sub_limb L_LIMBS) [0..<8] (r, 0) = (a', br)" and al: "length a' = 9" and ad: "drop 8 a' = drop 8 r"
      and br: "br = 0 \<or> br = 1" and av: "digits (take 8 a') = digits (take 8 r) - L25519 + (2 ^ 32) ^ 8 * uint br"
      using limbs_sub_digits [of 8 r L_LIMBS] rl digits_L by auto
    have "digits (take 8 a') < (2 ^ 32) ^ 8" using digits_less [of "take 8 a'"] al by simp
    then have "uint br = 0" using br av True t by auto
    then have "digits (take 8 a') = digits r - L25519" using av t by simp
    moreover have "digits a' = digits (take 8 a') + 2 ^ 256 * digits (drop 8 a')"
      using digits_append [of "take 8 a'" "drop 8 a'"] al by simp
    moreover have "digits (drop 8 r) = 0"
      using t digits_append [of "take 8 r" "drop 8 r"] rl by simp
    ultimately have "digits a' = digits r - L25519" using ad by simp
    with True rb show ?thesis using mod_sub_multiple [of "digits r" 1 L25519] f al
      by (simp add: m limbs_sub_def r c del: upt_Suc)
  qed (use rl r c in \<open>auto simp: m\<close>)
qed

lemma le_val_bit: "i < 8 * length bs \<Longrightarrow> bit (le_val bs) i \<longleftrightarrow> bit (bs ! (i div 8)) (i mod 8)"
proof (induction bs arbitrary: i)
  case (Cons b bs)
  have t: "take_bit 8 (le_val (b # bs)) = uint b" and d: "drop_bit 8 (le_val (b # bs)) = le_val bs"
    using uint_word [of b] by (simp_all add: take_bit_eq_mod drop_bit_eq_div)
  show ?case
  proof (cases "i < 8")
    case True
    then have "bit (le_val (b # bs)) i \<longleftrightarrow> bit (take_bit 8 (le_val (b # bs))) i" by (simp add: bit_take_bit_iff del: le_val.simps)
    then show ?thesis using True unfolding t by (simp add: bit_uint_iff)
  next
    case False
    then have "bit (le_val (b # bs)) i \<longleftrightarrow> bit (drop_bit 8 (le_val (b # bs))) (i - 8)" by (simp only: bit_drop_bit_eq o_def le_add_diff_inverse not_less)
    then show ?thesis using False Cons.IH [of "i - 8"] Cons.prems unfolding d by (simp add: le_div_geq le_mod_geq)
  qed
qed simp

lemma mod_l_rem:
  assumes "k \<le> length input * 8"
  shows "length (fold (mod_l_bit input) (rev [k..<length input * 8]) (replicate 9 0)) = 9 \<and>
    digits (fold (mod_l_bit input) (rev [k..<length input * 8]) (replicate 9 0)) = (le_val input div 2 ^ k) mod L25519"
  using assms
proof (induction k rule: inc_induct)
  case base
  have "le_val input div 2 ^ (length input * 8) = 0"
  proof (rule div_pos_pos_trivial)
    have "(2 :: int) ^ (length input * 8) = 256 ^ length input" by (simp add: power_mult mult.commute [of "length input"])
    then show "le_val input < 2 ^ (length input * 8)" using digits_less [of input] by (simp add: digits_bytes)
  qed (simp add: le_val_nat)
  moreover have "digits (replicate n 0 :: u32 list) = 0" for n by (induction n) simp_all
  ultimately show ?case by simp
next
  case (step k)
  define r where "r = fold (mod_l_bit input) (rev [Suc k..<length input * 8]) (replicate 9 0)"
  have ih: "length r = 9" "digits r = (le_val input div 2 ^ Suc k) mod L25519" using step.IH by (simp_all add: r_def)
  have f: "fold (mod_l_bit input) (rev [k..<length input * 8]) (replicate 9 0) = mod_l_bit input k r"
    using step.hyps by (simp add: upt_conv_Cons r_def)
  have Lp: "0 < L25519" by (simp add: L25519_def)
  have "digits r < L25519" using ih(2) Lp by simp
  note b = mod_l_bit_digits [OF ih(1) this, of input k]
  have "digits (mod_l_bit input k r) = digits (mod_l_bit input k r) mod L25519"
    by (rule mod_pos_pos_trivial [symmetric], rule digits_nonneg, rule b [THEN conjunct2, THEN conjunct1])
  also have "\<dots> = (2 * (le_val input div 2 ^ Suc k) + (if bit (le_val input) k then 1 else 0)) mod L25519"
    unfolding b [THEN conjunct2, THEN conjunct2] ih(2) using step.hyps
    by (simp add: le_val_bit) (metis mod_add_left_eq mod_mult_right_eq)
  also have "2 * (le_val input div 2 ^ Suc k) + (if bit (le_val input) k then 1 else 0) = le_val input div 2 ^ k"
  proof -
    have "le_val input div 2 ^ Suc k = le_val input div 2 ^ k div 2" unfolding power_Suc2 by (rule zdiv_zmult2_eq) simp
    then show ?thesis by (simp add: bit_iff_odd odd_two_times_div_two_succ)
  qed
  finally show ?case using b f by simp
qed

lemma le_val_concat4: "le_val (concat (map (to_le 4) ws)) = digits (ws :: u32 list)"
proof (induction ws)
  case (Cons w ws)
  have "le_val (to_le 4 w) = uint w" unfolding le_val_to_le using uint_word [of w] by (simp add: mod_pos_pos_trivial)
  then show ?case using Cons by (simp add: le_val_append)
qed simp

lemma concat_to_le_take: "n \<le> length ws \<Longrightarrow> concat (map (\<lambda>i. to_le 4 (ws ! i)) [0..<n]) = concat (map (to_le 4) (take n ws))"
  by (induction n) (simp_all add: take_Suc_conv_app_nth)

lemma mod_l_val: "length (mod_l input) = 32 \<and> le_val (mod_l input) = le_val input mod L25519"
proof -
  define rem where "rem = fold (mod_l_bit input) (rev [0..<length input * 8]) (replicate 9 0)"
  have r: "length rem = 9" "digits rem = le_val input mod L25519" using mod_l_rem [of 0 input] by (simp_all add: rem_def)
  have "digits rem < 2 ^ 256"
  proof -
    have "digits rem < L25519" using r(2) by (simp add: L25519_def)
    then show ?thesis by (simp add: L25519_def)
  qed
  from top_limb_zero [OF r(1) this] r
  have "digits (take 8 rem) = le_val input mod L25519" by simp
  moreover have "mod_l input = concat (map (to_le 4) (take 8 rem))"
    using r(1) by (simp only: mod_l_def Let_def rem_def [symmetric] concat_to_le_take)
  moreover have "length (concat (map (to_le 4) (ws :: u32 list))) = 4 * length ws" for ws by (induction ws) simp_all
  ultimately show ?thesis using r(1) by (simp add: le_val_concat4)
qed

lemma bytes_geq_l_val: "length bs = 32 \<Longrightarrow> bytes_geq_l bs \<longleftrightarrow> L25519 \<le> le_val bs"
proof -
  assume l: "length bs = 32"
  have n: "length (concat (map (to_le 4) L_LIMBS)) = 32" by (simp add: L_LIMBS_def)
  show ?thesis
    using geq_from_digits [of 32 bs "concat (map (to_le 4) L_LIMBS)"] l n
    by (simp add: bytes_geq_l_def digits_bytes le_val_concat4 digits_L del: upt_Suc)
qed

section \<open>Multiply and add\<close>

lemma mul_step_digits:
  assumes "i < length aa" and "n \<le> length bb" and "i + n \<le> length acc"
  shows "\<exists>acc' carry. fold (mul_step aa bb i) [0..<n] (acc, 0) = (acc', carry) \<and> length acc' = length acc \<and>
    (\<forall>k \<ge> i + n. acc' ! k = acc ! k) \<and> uint carry < 2 ^ 32 \<and>
    digits acc' + (2 ^ 32) ^ (i + n) * uint carry = digits acc + (2 ^ 32) ^ i * uint (aa ! i) * digits (take n bb)"
  using assms
proof (induction n)
  case (Suc n)
  then obtain acc' carry where f: "fold (mul_step aa bb i) [0..<n] (acc, 0) = (acc', carry)" and l: "length acc' = length acc"
    and same: "\<forall>k \<ge> i + n. acc' ! k = acc ! k" and c: "uint carry < 2 ^ 32"
    and v: "digits acc' + (2 ^ 32) ^ (i + n) * uint carry = digits acc + (2 ^ 32) ^ i * uint (aa ! i) * digits (take n bb)" by auto
  define cur :: u64 where "cur = ucast (acc' ! (i + n)) + ucast (aa ! i) * ucast (bb ! n) + carry"
  have ub: "uint x \<le> 2 ^ 32 - 1" for x :: u32 using uint_word [of x] by simp
  have pr: "uint (aa ! i) * uint (bb ! n) \<le> (2 ^ 32 - 1) * (2 ^ 32 - 1)" using ub by (intro mult_mono) simp_all
  have m: "uint (ucast (aa ! i) * ucast (bb ! n) :: u64) = uint (aa ! i) * uint (bb ! n)"
    using pr by (subst uint_mul) (simp_all add: uint_ucast_up)
  have s1: "uint (ucast (acc' ! (i + n)) + ucast (aa ! i) * ucast (bb ! n) :: u64) = uint (acc' ! (i + n)) + uint (aa ! i) * uint (bb ! n)"
    using pr ub [of "acc' ! (i + n)"] by (subst uint_add) (simp_all add: m uint_ucast_up)
  have cur: "uint cur = uint (acc' ! (i + n)) + uint (aa ! i) * uint (bb ! n) + uint carry"
    unfolding cur_def using pr ub [of "acc' ! (i + n)"] c by (subst uint_add) (simp_all add: s1)
  have lo: "uint (ucast cur :: u32) = uint cur mod 2 ^ 32" by (simp add: unsigned_ucast_eq take_bit_eq_mod)
  have hi: "uint (drop_bit 32 cur) = uint cur div 2 ^ 32" by (rule uint_hi)
  let ?acc = "acc'[i + n := ucast cur]"
  have "fold (mul_step aa bb i) [0..<Suc n] (acc, 0) = (?acc, drop_bit 32 cur)" by (simp add: f mul_step_def cur_def Let_def)
  moreover have "\<forall>k \<ge> i + Suc n. ?acc ! k = acc ! k" using same by auto
  moreover have "uint (drop_bit 32 cur) < 2 ^ 32" unfolding hi using uint_u64 [of cur] by simp
  moreover have "digits ?acc + (2 ^ 32) ^ (i + Suc n) * uint (drop_bit 32 cur) =
      digits acc + (2 ^ 32) ^ i * uint (aa ! i) * digits (take (Suc n) bb)"
  proof -
    have "digits ?acc + (2 ^ 32) ^ (i + Suc n) * uint (drop_bit 32 cur) =
        digits acc' + (2 ^ 32) ^ (i + n) * (uint cur mod 2 ^ 32 - uint (acc' ! (i + n))) + (2 ^ 32) ^ (i + n) * (2 ^ 32 * (uint cur div 2 ^ 32))"
      using Suc.prems l by (simp add: digits_update lo hi)
    also have "\<dots> = digits acc' + (2 ^ 32) ^ (i + n) * (uint cur - uint (acc' ! (i + n)))"
    proof -
      have "d + B * (m - a) + B * (W * q) = d + B * ((W * q + m) - a)" for d B m a W q :: int by (simp add: algebra_simps)
      then show ?thesis by (simp only: mult_div_mod_eq)
    qed
    also have "\<dots> = digits acc + (2 ^ 32) ^ i * uint (aa ! i) * digits (take (Suc n) bb)"
      using v Suc.prems unfolding cur by (simp add: digits_take_Suc power_add algebra_simps)
    finally show ?thesis .
  qed
  ultimately show ?case using l by auto
qed auto

lemma mul_row_digits:
  assumes "length aa = 8" and "length bb = 8" and "i < 8" and "length acc = 34" and "\<forall>k. i + 8 \<le> k \<longrightarrow> k < 34 \<longrightarrow> acc ! k = 0"
  shows "length (mul_row aa bb i acc) = 34 \<and> (\<forall>k. Suc i + 8 \<le> k \<longrightarrow> k < 34 \<longrightarrow> mul_row aa bb i acc ! k = 0) \<and>
    digits (mul_row aa bb i acc) = digits acc + (2 ^ 32) ^ i * uint (aa ! i) * digits bb"
proof -
  obtain acc' carry where f: "fold (mul_step aa bb i) [0..<8] (acc, 0) = (acc', carry)" and l: "length acc' = 34"
    and same: "\<forall>k \<ge> i + 8. acc' ! k = acc ! k" and c: "uint carry < 2 ^ 32"
    and v: "digits acc' + (2 ^ 32) ^ (i + 8) * uint carry = digits acc + (2 ^ 32) ^ i * uint (aa ! i) * digits bb"
    using mul_step_digits [of i aa 8 bb acc] assms by auto
  have z: "acc' ! (i + 8) = 0" using same assms(3,5) by simp
  have uc: "uint (ucast carry :: u32) = uint carry" using c by (simp add: unsigned_ucast_eq take_bit_int_eq_self)
  have r: "mul_row aa bb i acc = acc'[i + 8 := ucast carry]" by (simp add: mul_row_def f z del: upt_Suc)
  have "digits (mul_row aa bb i acc) = digits acc' + (2 ^ 32) ^ (i + 8) * uint carry"
    using l assms(3) by (simp add: r digits_update z uc)
  then show ?thesis using v l same assms(5) by (auto simp: r)
qed

lemma mul_rows_digits:
  assumes "length aa = 8" and "length bb = 8"
  shows "n \<le> 8 \<Longrightarrow> length (fold (mul_row aa bb) [0..<n] (replicate 34 0)) = 34 \<and>
    (\<forall>k. n + 8 \<le> k \<longrightarrow> k < 34 \<longrightarrow> fold (mul_row aa bb) [0..<n] (replicate 34 0) ! k = 0) \<and>
    digits (fold (mul_row aa bb) [0..<n] (replicate 34 0)) = digits (take n aa) * digits bb"
proof (induction n)
  case 0
  have "digits (replicate m 0 :: u32 list) = 0" for m by (induction m) simp_all
  then show ?case by simp
next
  case (Suc n)
  then show ?case
    using mul_row_digits [OF assms, of n "fold (mul_row aa bb) [0..<n] (replicate 34 0)"] assms(1)
    by (simp add: digits_take_Suc distrib_right)
qed

lemma uint_byte_sum:
  fixes x y :: u8 and c :: u64
  assumes "uint c \<le> 1"
  shows "uint (ucast x + ucast y + c) = uint x + uint y + uint c"
proof -
  have b: "uint x < 256" "uint y < 256" using uint_word [of x] uint_word [of y] by simp_all
  have "uint (ucast x + ucast y :: u64) = uint x + uint y" using b by (subst uint_add) (simp_all add: uint_ucast_up)
  then show ?thesis using b assms by (subst uint_add) simp_all
qed

lemma uint_lo8: "uint (ucast s :: u8) = uint s mod 256" for s :: u64
  by (simp add: unsigned_ucast_eq take_bit_eq_mod)

lemma digits_update_bytes:
  "n < length ds \<Longrightarrow> le_val (ds[n := v]) = le_val ds + 256 ^ n * (uint v - uint (ds ! n))"
  using digits_update [of n ds v] by (simp add: digits_bytes)

lemma add_byte_val:
  assumes "n \<le> length wide" and "n \<le> length c"
  shows "\<exists>wide' carry. fold (add_byte c) [0..<n] (wide, 0) = (wide', carry) \<and> length wide' = length wide \<and>
    drop n wide' = drop n wide \<and> uint carry \<le> 1 \<and>
    le_val wide' + 256 ^ n * uint carry = le_val wide + le_val (take n c)"
  using assms
proof (induction n)
  case (Suc n)
  then obtain wide' carry where f: "fold (add_byte c) [0..<n] (wide, 0) = (wide', carry)" and l: "length wide' = length wide"
    and d: "drop n wide' = drop n wide" and cb: "uint carry \<le> 1" and v: "le_val wide' + 256 ^ n * uint carry = le_val wide + le_val (take n c)" by auto
  define s :: u64 where "s = ucast (wide' ! n) + ucast (c ! n) + carry"
  have us: "uint s = uint (wide' ! n) + uint (c ! n) + uint carry" unfolding s_def by (rule uint_byte_sum [OF cb])
  have b: "uint s < 512" using us cb uint_word [of "wide' ! n"] uint_word [of "c ! n"] by simp
  let ?w = "wide'[n := ucast s]"
  have "fold (add_byte c) [0..<Suc n] (wide, 0) = (?w, drop_bit 8 s)" by (simp add: f add_byte_def s_def Let_def)
  moreover have "drop (Suc n) ?w = drop (Suc n) wide" using d by (metis drop_Suc drop_update_cancel lessI tl_drop)
  moreover have "uint (drop_bit 8 s) \<le> 1" using b by (simp add: uint_hi)
  moreover have "le_val ?w + 256 ^ Suc n * uint (drop_bit 8 s) = le_val wide + le_val (take (Suc n) c)"
  proof -
    have "le_val ?w + 256 ^ Suc n * uint (drop_bit 8 s) = le_val wide' + 256 ^ n * (uint s - uint (wide' ! n))"
    proof -
      have g: "e + B * (m - a) + 256 * B * q = e + B * ((256 * q + m) - a)" for e B m a q :: int by (simp add: algebra_simps)
      show ?thesis using Suc.prems l by (simp add: digits_update_bytes uint_lo8 uint_hi g)
    qed
    also have "\<dots> = le_val wide + le_val (take (Suc n) c)"
      using v Suc.prems by (simp add: us take_Suc_conv_app_nth le_val_append algebra_simps)
    finally show ?thesis .
  qed
  ultimately show ?case using l by auto
qed auto

lemma carry_on_val:
  "uint carry \<le> 1 \<Longrightarrow> le_val wide + 256 ^ idx * uint carry < 256 ^ length wide \<Longrightarrow>
   length (carry_on idx wide carry) = length wide \<and> le_val (carry_on idx wide carry) = le_val wide + 256 ^ idx * uint carry"
proof (induction idx wide carry rule: carry_on.induct)
  case (1 idx wide carry)
  show ?case
  proof (cases "carry > 0 \<and> idx < length wide")
    case True
    define s :: u64 where "s = ucast (wide ! idx) + carry"
    have us: "uint s = uint (wide ! idx) + uint carry" using uint_byte_sum [OF 1(2), of "wide ! idx" 0] by (simp add: s_def)
    have b: "uint (drop_bit 8 s) \<le> 1" using us 1(2) uint_word [of "wide ! idx"] by (simp add: uint_hi)
    let ?w = "wide[idx := ucast s]"
    have g: "e + B * (m - a) + 256 * B * q = e + B * ((256 * q + m) - a)" for e B m a q :: int by (simp add: algebra_simps)
    have v: "le_val ?w + 256 ^ (idx + 1) * uint (drop_bit 8 s) = le_val wide + 256 ^ idx * uint carry"
      using True by (simp add: digits_update_bytes uint_lo8 uint_hi g us)
    have "carry_on idx wide carry = carry_on (idx + 1) ?w (drop_bit 8 s)"
      using True by (simp add: carry_on.simps [of idx] s_def Let_def)
    then show ?thesis using 1(1) [OF True s_def b] v 1(3) by simp
  next
    case False
    have "carry = 0"
    proof (rule ccontr)
      assume "carry \<noteq> 0"
      then have "uint carry \<noteq> 0" "0 < carry" by (simp_all add: uint_0_iff word_neq_0_conv)
      then have "length wide \<le> idx" "uint carry = 1" using False 1(2) uint_nonnegative [of carry] by (simp_all, linarith)
      then have "256 ^ length wide \<le> (256 :: int) ^ idx * uint carry" by (simp add: power_increasing)
      moreover have "0 \<le> le_val wide" by (simp add: le_val_nat)
      ultimately show False using 1(3) by linarith
    qed
    then show ?thesis by (simp add: carry_on.simps [of idx])
  qed
qed

lemma concat_rslices: "4 * n \<le> length a \<Longrightarrow> concat (map (\<lambda>i. rslice a (i * 4) (i * 4 + 4)) [0..<n]) = take (4 * n) a"
proof (induction n)
  case (Suc n)
  have "take (4 * Suc n) a = take (4 * n) a @ rslice a (4 * n) (4 * n + 4)"
    using take_add [of "4 * n" 4 a] by (simp add: rslice_def add.commute)
  with Suc show ?case by (simp add: mult.commute)
qed simp

lemma digits_limbs_of:
  assumes "length a = 32"
  shows "digits (map (\<lambda>i. from_le (rslice a (i * 4) (i * 4 + 4)) :: u32) [0..<8]) = le_val a"
proof -
  have "to_le 4 (from_le (rslice a (i * 4) (i * 4 + 4)) :: u32) = rslice a (i * 4) (i * 4 + 4)" if "i < 8" for i
    using to_from_le [of "rslice a (i * 4) (i * 4 + 4)", where 'a = 32] that assms by simp
  then have "concat (map (to_le 4) (map (\<lambda>i. from_le (rslice a (i * 4) (i * 4 + 4)) :: u32) [0..<8])) =
      concat (map (\<lambda>i. rslice a (i * 4) (i * 4 + 4)) [0..<8])"
    unfolding map_map comp_def by (intro arg_cong [of _ _ concat] map_cong refl) simp
  also have "\<dots> = a" using concat_rslices [of 8 a] assms by simp
  finally show ?thesis unfolding le_val_concat4 [symmetric] by (rule arg_cong)
qed

lemma mul_add_mod_l_val:
  assumes "length a = 32" and "length b = 32" and "length c = 32"
  shows "length (mul_add_mod_l a b c) = 32 \<and> le_val (mul_add_mod_l a b c) = (le_val a * le_val b + le_val c) mod L25519"
proof -
  define aa bb where ab: "aa = map (\<lambda>i. from_le (rslice a (i * 4) (i * 4 + 4)) :: u32) [0..<8]"
    "bb = map (\<lambda>i. from_le (rslice b (i * 4) (i * 4 + 4)) :: u32) [0..<8]"
  have d: "digits aa = le_val a" "digits bb = le_val b" "length aa = 8" "length bb = 8"
    using assms by (simp_all add: ab digits_limbs_of del: upt_Suc)
  define pr where "pr = fold (mul_row aa bb) [0..<8] (replicate 34 0)"
  have p: "length pr = 34" "digits pr = le_val a * le_val b" using mul_rows_digits [OF d(3,4), of 8] d by (simp_all add: pr_def)
  define wide where "wide = copy_at (replicate 144 0) 0 (concat (map (to_le 4) pr))"
  have cl: "length (concat (map (to_le 4) (ws :: u32 list))) = 4 * length ws" for ws by (induction ws) simp_all
  have z: "le_val (replicate m 0) = 0" for m by (induction m) simp_all
  have w: "length wide = 144" "le_val wide = le_val a * le_val b"
    using p by (simp_all add: wide_def cl copy_at_def le_val_append le_val_concat4 z)
  obtain wide' carry where f: "fold (add_byte c) [0..<32] (wide, 0) = (wide', carry)" and l: "length wide' = 144" and cb: "uint carry \<le> 1"
    and v: "le_val wide' + 256 ^ 32 * uint carry = le_val a * le_val b + le_val c"
    using add_byte_val [of 32 wide c] w assms(3) by auto
  have bound: "0 \<le> le_val x \<and> le_val x < 2 ^ 256" if "length x = 32" for x
    using digits_less [of x] digits_nonneg [of x] that by (simp add: digits_bytes)
  have "le_val a * le_val b \<le> 2 ^ 256 * 2 ^ 256" using bound [OF assms(1)] bound [OF assms(2)] by (intro mult_mono) simp_all
  moreover have "(2 :: int) ^ 256 * 2 ^ 256 + 2 ^ 256 < 256 ^ 144" by simp
  ultimately have "le_val wide' + 256 ^ 32 * uint carry < 256 ^ length wide'"
    using bound [OF assms(3)] unfolding v l by linarith
  from carry_on_val [OF cb this] v have "le_val (carry_on 32 wide' carry) = le_val a * le_val b + le_val c" by simp
  moreover have "mul_add_mod_l a b c = mod_l (carry_on 32 wide' carry)"
    unfolding mul_add_mod_l_def Let_def ab [symmetric] pr_def [symmetric] wide_def [symmetric] f by simp
  ultimately show ?thesis using mod_l_val by simp
qed

section \<open>What the scalars are\<close>

text \<open>C18: scalar arithmetic is arithmetic modulo the group order: \<^verbatim>\<open>mod_l\<close> reduces a byte string of any
  length, \<^verbatim>\<open>mul_add_mod_l\<close> computes \<open>a * b + c\<close> reduced, and \<^verbatim>\<open>bytes_geq_l\<close> tells whether a 32-byte scalar is
  out of range.\<close>

theorem scalar_arithmetic:
  "le_val (mod_l input) = le_val input mod L25519 \<and> length (mod_l input) = 32 \<and>
   (length a = 32 \<and> length b = 32 \<and> length c = 32 \<longrightarrow>
      le_val (mul_add_mod_l a b c) = (le_val a * le_val b + le_val c) mod L25519) \<and>
   (length a = 32 \<longrightarrow> (bytes_geq_l a \<longleftrightarrow> L25519 \<le> le_val a))"
  using mod_l_val [of input] mul_add_mod_l_val [of a b c] bytes_geq_l_val [of a] by blast

theorem scalar_arithmetic_witness:
  "le_val (mul_add_mod_l (3 # replicate 31 0) (5 # replicate 31 0) (7 # replicate 31 0)) = 22 \<and>
   bytes_geq_l (replicate 32 0xff) \<and> \<not> bytes_geq_l (3 # replicate 31 0)"
proof -
  have z: "le_val (replicate m 0) = 0" for m by (induction m) simp_all
  have o: "le_val (replicate 32 0xff) = 2 ^ 256 - 1" using le_nat_ones [of 32] by (simp add: le_val_nat)
  show ?thesis
    using scalar_arithmetic [of "[]" "3 # replicate 31 0" "5 # replicate 31 0" "7 # replicate 31 0"]
      scalar_arithmetic [of "[]" "replicate 32 0xff" "[]" "[]"] z o by (simp add: L25519_def)
qed

end
