(* ===== verification/Ed25519.thy ===== *)
theory Ed25519
  imports Scalar25519 Sha
begin

text \<open>
  Curve arithmetic and signatures of \<^verbatim>\<open>crypto/src/ed25519.rs\<close>: points in extended coordinates, the
  unified addition, compression, scalar multiplication, key expansion, \<^verbatim>\<open>sign\<close> and \<^verbatim>\<open>verify\<close>. The
  values kept in \<^verbatim>\<open>spin::Once\<close> are constants.
\<close>

section \<open>Points\<close>

record point =
  pt_x :: fe
  pt_y :: fe
  pt_z :: fe
  pt_t :: fe

definition point_identity :: point where
  "point_identity = \<lparr>pt_x = FE_ZERO, pt_y = FE_ONE, pt_z = FE_ONE, pt_t = FE_ZERO\<rparr>"

definition point_eq :: "point \<Rightarrow> point \<Rightarrow> bool" where
  "point_eq p q \<longleftrightarrow>
     fe_eq (fe_mul (pt_x p) (pt_z q)) (fe_mul (pt_x q) (pt_z p)) \<and>
     fe_eq (fe_mul (pt_y p) (pt_z q)) (fe_mul (pt_y q) (pt_z p))"

definition point_add :: "point \<Rightarrow> point \<Rightarrow> point" where
  "point_add p q =
     (let d = d_constant;
          a = fe_mul (fe_sub (pt_y p) (pt_x p)) (fe_sub (pt_y q) (pt_x q));
          b = fe_mul (fe_add (pt_y p) (pt_x p)) (fe_add (pt_y q) (pt_x q));
          c = fe_mul (fe_mul (fe_add (pt_t p) (pt_t p)) (pt_t q)) d;
          dd = fe_mul (fe_add (pt_z p) (pt_z p)) (pt_z q);
          e = fe_sub b a;
          f = fe_sub dd c;
          g = fe_add dd c;
          h = fe_add b a
      in \<lparr>pt_x = fe_mul e f, pt_y = fe_mul g h, pt_z = fe_mul f g, pt_t = fe_mul e h\<rparr>)"

definition point_compress :: "point \<Rightarrow> bytes" where
  "point_compress p =
     (let zinv = fe_invert (pt_z p);
          x = fe_mul (pt_x p) zinv;
          y = fe_mul (pt_y p) zinv;
          out = fe_to_bytes y
      in if fe_is_negative x then out[31 := out ! 31 OR 0x80] else out)"

text \<open>The candidate root of \<^verbatim>\<open>decompress\<close>, and \<^verbatim>\<open>decompress\<close>.\<close>

definition root_candidate :: "fe \<Rightarrow> fe \<Rightarrow> fe" where
  "root_candidate u v =
     (let v3 = fe_mul (fe_square v) v;
          v7 = fe_mul (fe_square v3) v
      in fe_mul (fe_mul u v3) (fe_pow_bytes_exp (fe_mul u v7) (exp_shr (exp_p_minus 5) 3)))"

definition decompress :: "bytes \<Rightarrow> point option" where
  "decompress bytes =
     (let sign = drop_bit 7 (bytes ! 31) = 1;
          y = fe_from_bytes (bytes[31 := bytes ! 31 AND 0x7f]);
          yy = fe_square y;
          u = fe_sub yy FE_ONE;
          v = fe_add (fe_mul d_constant yy) FE_ONE;
          x = root_candidate u v;
          check = fe_mul (fe_square x) v
      in do {
           x \<leftarrow> (if \<not> fe_eq check u then
                  if fe_eq check (fe_neg u) then Some (fe_mul x sqrt_m1) else None
                else Some x);
           if fe_is_zero x \<and> sign then None
           else let x = (if fe_is_negative x \<noteq> sign then fe_conditional_negate x True else x)
                in Some \<lparr>pt_x = x, pt_y = y, pt_z = FE_ONE, pt_t = fe_mul x y\<rparr>
         })"

text \<open>\<^verbatim>\<open>expect\<close> panics on \<open>None\<close>.\<close>

definition basepoint :: "point option" where
  "basepoint = decompress (fe_to_bytes (fe_mul (fe_from_u64 4) (fe_invert (fe_from_u64 5))))"

text \<open>One bit of the scalar, from the top; leading zeros are skipped. \<^verbatim>\<open>scalar_mul_base\<close> runs the same
  loop on the base point.\<close>

definition smul_bit :: "point \<Rightarrow> u8 \<Rightarrow> nat \<Rightarrow> point \<times> bool \<Rightarrow> point \<times> bool" where
  "smul_bit p byte b = (\<lambda>(acc, started).
     if \<not> started then if drop_bit b byte AND 1 = 0 then (acc, started) else (p, True)
     else let acc = point_add acc acc
          in (if drop_bit b byte AND 1 = 1 then point_add acc p else acc, started))"

definition scalar_mul_point :: "bytes \<Rightarrow> point \<Rightarrow> point" where
  "scalar_mul_point scalar_le p =
     fst (fold (\<lambda>byte_idx. fold (smul_bit p (scalar_le ! byte_idx)) (rev [0..<8])) (rev [0..<32]) (point_identity, False))"

definition scalar_mul_base :: "bytes \<Rightarrow> point option" where
  "scalar_mul_base scalar_le = map_option (scalar_mul_point scalar_le) basepoint"

section \<open>Keys and signatures\<close>

definition expand_seed :: "bytes \<Rightarrow> (bytes \<times> bytes) option" where
  "expand_seed seed =
     do {
       h \<leftarrow> sha512 seed;
       let a = take 32 h;
       let a = a[0 := a ! 0 AND 248];
       let a = a[31 := a ! 31 AND 127];
       let a = a[31 := a ! 31 OR 64];
       Some (a, rslice h 32 64)
     }"

definition public_from_seed :: "bytes \<Rightarrow> bytes option" where
  "public_from_seed seed =
     do { (a, _) \<leftarrow> expand_seed seed; p \<leftarrow> scalar_mul_base a; Some (point_compress p) }"

definition keypair :: "bytes \<Rightarrow> (bytes \<times> bytes) option" where
  "keypair seed = map_option (\<lambda>pk. (pk, seed)) (public_from_seed seed)"

text \<open>Feeding several slices to a fresh SHA-512 and finalising.\<close>

definition sha512_of :: "bytes list \<Rightarrow> bytes option" where
  "sha512_of chunks = sha512_finalize (fold sha512_update chunks sha512_new)"

definition sign :: "bytes \<Rightarrow> bytes \<Rightarrow> bytes option" where
  "sign seed msg =
     do {
       (a_scalar, prefix) \<leftarrow> expand_seed seed;
       a_point \<leftarrow> scalar_mul_base a_scalar;
       let a_bytes = point_compress a_point;
       rh \<leftarrow> sha512_of [prefix, msg];
       let r = mod_l rh;
       big_r \<leftarrow> scalar_mul_base r;
       let r_bytes = point_compress big_r;
       kh \<leftarrow> sha512_of [r_bytes, a_bytes, msg];
       let k = mod_l kh;
       let s = mul_add_mod_l k a_scalar r;
       Some (r_bytes @ s)
     }"

datatype verify_error = Malformed | Invalid

text \<open>The outer option is a panic.\<close>

definition verify :: "bytes \<Rightarrow> bytes \<Rightarrow> bytes \<Rightarrow> (verify_error + unit) option" where
  "verify public msg sig =
     (let r_bytes = rslice sig 0 32; s_bytes = rslice sig 32 64 in
      if bytes_geq_l s_bytes then Some (Inl Malformed)
      else case decompress r_bytes of
          None \<Rightarrow> Some (Inl Malformed)
        | Some big_r \<Rightarrow>
            (case decompress public of
               None \<Rightarrow> Some (Inl Malformed)
             | Some a_point \<Rightarrow>
                 do {
                   kh \<leftarrow> sha512_of [r_bytes, public, msg];
                   let k = mod_l kh;
                   lhs \<leftarrow> scalar_mul_base s_bytes;
                   let rhs = point_add big_r (scalar_mul_point k a_point);
                   Some (if point_eq lhs rhs then Inr () else Inl Invalid)
                 }))"

text \<open>\<^verbatim>\<open>mix_entropy\<close>: length-prefixed inputs into SHA-256.\<close>

definition mix_entropy :: "bytes list \<Rightarrow> bytes option" where
  "mix_entropy inputs =
     sha256_finalize (fold (\<lambda>i h. sha256_update i (sha256_update (to_le 8 (of_nat (length i) :: u64)) h)) inputs sha256_new)"

section \<open>The curve\<close>

text \<open>The twisted Edwards curve with \<open>a = - 1\<close> in extended coordinates, modulo \<open>p\<close>.\<close>

definition on_curve :: "int \<Rightarrow> int \<Rightarrow> int \<times> int \<times> int \<times> int \<Rightarrow> bool" where
  "on_curve p d = (\<lambda>(X, Y, Z, T). (Y * Y - X * X) mod p = (Z * Z + d * (T * T)) mod p \<and> X * Y mod p = Z * T mod p)"

text \<open>The sum of two points as \<^verbatim>\<open>add-2008-hwcd-3\<close> computes it.\<close>

definition hwcd :: "int \<Rightarrow> int \<times> int \<times> int \<times> int \<Rightarrow> int \<times> int \<times> int \<times> int \<Rightarrow> int \<times> int \<times> int \<times> int" where
  "hwcd d = (\<lambda>(X1, Y1, Z1, T1) (X2, Y2, Z2, T2).
     let a = (Y1 - X1) * (Y2 - X2); b = (Y1 + X1) * (Y2 + X2); c = (T1 + T1) * T2 * d; dd = (Z1 + Z1) * Z2;
         e = b - a; f = dd - c; g = dd + c; h = b + a
     in (e * f, g * h, f * g, e * h))"

text \<open>The defect of the sum in the values \<open>A = Y * Y - X * X\<close>, \<open>M = X * Y\<close>, \<open>S = X * X + Y * Y\<close> of the summands.\<close>

definition defect :: "int \<Rightarrow> int \<Rightarrow> int \<Rightarrow> int \<Rightarrow> int \<Rightarrow> int \<Rightarrow> int \<Rightarrow> int \<Rightarrow> int \<Rightarrow> int" where
  "defect d s t A1 A2 M1 M2 S1 S2 =
     (s * s + t * t) * (A1 * A2) + 2 * s * t * (S1 * S2 + 4 * (M1 * M2)) - (s * s - t * t) * (s * s - t * t)
     - d * (M1 * M1 * (A2 * A2 + 4 * (M2 * M2)) + M2 * M2 * (A1 * A1 + 4 * (M1 * M1)) + 2 * (M1 * M2) * (S1 * S2))"

lemma defect_cong:
  assumes "A1 mod p = A1' mod p" and "A2 mod p = A2' mod p" and "M1 mod p = M1' mod p" and "M2 mod p = M2' mod p"
  shows "defect d s t A1 A2 M1 M2 S1 S2 mod p = defect d s t A1' A2' M1' M2' S1 S2 mod p"
  unfolding defect_def by (intro mod_diff_cong mod_add_cong mod_mult_cong refl assms)

lemma defect_zero:
  "defect d (Z1 * Z2) (d * T1 * T2) (Z1 * Z1 + d * (T1 * T1)) (Z2 * Z2 + d * (T2 * T2)) (Z1 * T1) (Z2 * T2) S1 S2 = 0"
  unfolding defect_def by (simp add: algebra_simps)

lemma hwcd_on_curve:
  assumes "on_curve p d P" and "on_curve p d Q"
  shows "on_curve p d (hwcd d P Q)"
proof -
  obtain X1 Y1 Z1 T1 X2 Y2 Z2 T2 where P: "P = (X1, Y1, Z1, T1)" and Q: "Q = (X2, Y2, Z2, T2)" by (cases P, cases Q)
  have c: "(Y1 * Y1 - X1 * X1) mod p = (Z1 * Z1 + d * (T1 * T1)) mod p" "(Y2 * Y2 - X2 * X2) mod p = (Z2 * Z2 + d * (T2 * T2)) mod p"
    "X1 * Y1 mod p = Z1 * T1 mod p" "X2 * Y2 mod p = Z2 * T2 mod p"
    using assms by (simp_all add: on_curve_def P Q)
  define e f g h where efgh: "e = 2 * (X1 * Y2 + Y1 * X2)" "f = 2 * (Z1 * Z2 - d * T1 * T2)" "g = 2 * (Z1 * Z2 + d * T1 * T2)"
    "h = 2 * (Y1 * Y2 + X1 * X2)"
  have s: "hwcd d P Q = (e * f, g * h, f * g, e * h)" by (simp add: hwcd_def P Q Let_def efgh algebra_simps)
  have "g * h * (g * h) - e * f * (e * f) - (f * g * (f * g) + d * (e * h * (e * h))) =
      16 * defect d (Z1 * Z2) (d * T1 * T2) (Y1 * Y1 - X1 * X1) (Y2 * Y2 - X2 * X2) (X1 * Y1) (X2 * Y2) (X1 * X1 + Y1 * Y1) (X2 * X2 + Y2 * Y2)"
    unfolding efgh defect_def by (simp add: algebra_simps)
  also have "\<dots> mod p = 0" using mod_mult_cong [OF refl defect_cong [OF c], of 16] by (simp add: defect_zero)
  finally have "(g * h * (g * h) - e * f * (e * f)) mod p = (f * g * (f * g) + d * (e * h * (e * h))) mod p"
    by (simp only: mod_eq_dvd_iff dvd_eq_mod_eq_0)
  moreover have "e * f * (g * h) mod p = f * g * (e * h) mod p" by (simp add: mult_ac)
  ultimately show ?thesis by (simp add: s on_curve_def)
qed

section \<open>What the curve code needs of the field\<close>

text \<open>A representation of the integers modulo \<open>p\<close>: the operations follow the ring.\<close>

locale field_rep =
  fixes p :: int and rep :: "'f \<Rightarrow> int \<Rightarrow> bool" and add sub mul :: "'f \<Rightarrow> 'f \<Rightarrow> 'f"
  assumes rep_add: "rep x m \<Longrightarrow> rep y n \<Longrightarrow> rep (add x y) (m + n)"
    and rep_sub: "rep x m \<Longrightarrow> rep y n \<Longrightarrow> rep (sub x y) (m - n)"
    and rep_mul: "rep x m \<Longrightarrow> rep y n \<Longrightarrow> rep (mul x y) (m * n)"
    and rep_unique: "rep x m \<Longrightarrow> rep x n \<Longrightarrow> m mod p = n mod p"
begin

fun rep4 :: "'f \<times> 'f \<times> 'f \<times> 'f \<Rightarrow> int \<times> int \<times> int \<times> int \<Rightarrow> bool" where
  "rep4 (x, y, z, t) (X, Y, Z, T) \<longleftrightarrow> rep x X \<and> rep y Y \<and> rep z Z \<and> rep t T"

lemma rep_hwcd:
  assumes "rep4 (x1, y1, z1, t1) P" and "rep4 (x2, y2, z2, t2) Q" and "rep d D"
    and "a = mul (sub y1 x1) (sub y2 x2)" and "b = mul (add y1 x1) (add y2 x2)"
    and "c = mul (mul (add t1 t1) t2) d" and "dd = mul (add z1 z1) z2"
  shows "rep4 (mul (sub b a) (sub dd c), mul (add dd c) (add b a), mul (sub dd c) (add dd c), mul (sub b a) (add b a)) (hwcd D P Q)"
  using assms by (cases P, cases Q) (auto simp only: hwcd_def Let_def prod.case rep4.simps intro!: rep_add rep_sub rep_mul)

lemma rep4_on_curve:
  assumes "rep4 c P" and "rep4 c Q" and "on_curve p D P" and "D mod p = D' mod p"
  shows "on_curve p D' Q"
proof -
  obtain X Y Z T X' Y' Z' T' where P: "P = (X, Y, Z, T)" and Q: "Q = (X', Y', Z', T')" by (cases P, cases Q)
  have m: "X mod p = X' mod p" "Y mod p = Y' mod p" "Z mod p = Z' mod p" "T mod p = T' mod p"
    using assms(1,2) by (cases c; auto simp: P Q intro: rep_unique)+
  have "(Y * Y - X * X) mod p = (Y' * Y' - X' * X') mod p" "X * Y mod p = X' * Y' mod p" "Z * T mod p = Z' * T' mod p"
    "(Z * Z + D * (T * T)) mod p = (Z' * Z' + D' * (T' * T')) mod p"
    by (intro mod_diff_cong mod_add_cong mod_mult_cong m assms(4))+
  then show ?thesis using assms(3) by (simp add: on_curve_def P Q)
qed

end

interpretation fe: field_rep P25519 fe_is fe_add fe_sub fe_mul
  by unfold_locales (simp_all add: fe_is_add fe_is_sub fe_is_mul, simp add: fe_is_def)

abbreviation coords :: "point \<Rightarrow> fe \<times> fe \<times> fe \<times> fe" where
  "coords p \<equiv> (pt_x p, pt_y p, pt_z p, pt_t p)"

definition D25519 :: int where "D25519 = fe_val d_constant"

lemma fe_ok_d: "fe_is d_constant D25519"
proof -
  have "fe_ok d_constant" unfolding d_constant_def
    using fe_is_mul [OF fe_is_invert [OF fe_is_from_u64] fe_is_neg [OF fe_is_from_u64]] by (simp add: fe_is_def)
  then show ?thesis by (simp add: fe_is_def D25519_def)
qed

text \<open>A well-formed point: limbs in range, on the curve.\<close>

definition point_ok :: "point \<Rightarrow> bool" where
  "point_ok p \<longleftrightarrow> (\<exists>c. fe.rep4 (coords p) c \<and> on_curve P25519 D25519 c)"

lemma point_add_rep: "fe.rep4 (coords p) P \<Longrightarrow> fe.rep4 (coords q) Q \<Longrightarrow> fe.rep4 (coords (point_add p q)) (hwcd D25519 P Q)"
  using fe.rep_hwcd [OF _ _ fe_ok_d refl refl refl refl, of "pt_x p" "pt_y p" "pt_z p" "pt_t p" P "pt_x q" "pt_y q" "pt_z q" "pt_t q" Q]
  by (simp add: point_add_def Let_def)

lemma point_add_ok: "point_ok p \<Longrightarrow> point_ok q \<Longrightarrow> point_ok (point_add p q)"
  using point_add_rep hwcd_on_curve unfolding point_ok_def by blast

lemma point_identity_ok: "point_ok point_identity"
  unfolding point_ok_def
  by (rule exI [of _ "(0, 1, 1, 0)"]) (simp add: point_identity_def fe_is_one fe_is_zero_const on_curve_def)

section \<open>Scalar multiplication\<close>

text \<open>Double and add along the bits of a number.\<close>

fun smul :: "nat \<Rightarrow> point \<Rightarrow> point" where
  "smul n p =
     (if n = 0 then point_identity else if n = 1 then p
      else let a = smul (n div 2) p; a2 = point_add a a in if odd n then point_add a2 p else a2)"

declare smul.simps [simp del]

lemma smul_small [simp]: "smul 0 p = point_identity" "smul (Suc 0) p = p"
  by (simp_all add: smul.simps)

lemma smul_ok: "point_ok p \<Longrightarrow> point_ok (smul n p)"
proof (induction n p rule: smul.induct)
  case (1 n p)
  consider "n = 0" | "n = 1" | "n \<noteq> 0" "n \<noteq> 1" by blast
  then show ?case using 1 by cases (simp_all add: smul.simps [of n] Let_def point_identity_ok point_add_ok)
qed

lemma smul_step: "smul_bit p byte b (smul e p, e \<noteq> 0) =
   (smul (2 * e + (if bit byte b then 1 else 0)) p, 2 * e + (if bit byte b then 1 else 0) \<noteq> 0)"
proof -
  have b: "drop_bit b byte AND 1 = 1 \<longleftrightarrow> bit byte b" "drop_bit b byte AND 1 = 0 \<longleftrightarrow> \<not> bit byte b"
    using bit_and_1 [of b byte] by (auto simp: and_one_eq mod_2_eq_odd)
  show ?thesis
  proof (cases "e = 0")
    case True
    then show ?thesis by (simp add: smul_bit_def b)
  next
    case False
    then have "smul (2 * e + (if bit byte b then 1 else 0)) p =
        (let a2 = point_add (smul e p) (smul e p) in if bit byte b then point_add a2 p else a2)"
      by (subst smul.simps) (auto simp: Let_def)
    with False show ?thesis by (simp add: smul_bit_def b Let_def)
  qed
qed

lemma smul_bits:
  "fold (smul_bit p byte) (rev [0..<k]) (smul e p, e \<noteq> 0) =
     (smul (e * 2 ^ k + unat byte mod 2 ^ k) p, e * 2 ^ k + unat byte mod 2 ^ k \<noteq> 0)"
proof (induction k arbitrary: e)
  case (Suc k)
  let ?e = "2 * e + (if bit byte k then 1 else 0)"
  have "?e * 2 ^ k + unat byte mod 2 ^ k = e * 2 ^ Suc k + unat byte mod 2 ^ Suc k"
    unfolding mod_Suc_bit by (simp add: bit_unsigned_iff add_mult_distrib)
  moreover have "fold (smul_bit p byte) (rev [0..<Suc k]) (smul e p, e \<noteq> 0) =
      fold (smul_bit p byte) (rev [0..<k]) (smul ?e p, ?e \<noteq> 0)"
    unfolding smul_step [symmetric] by simp
  ultimately show ?case by (simp only: Suc)
qed simp

lemma smul_bytes:
  "k \<le> length s \<Longrightarrow>
   fold (\<lambda>i. fold (smul_bit p (s ! i)) (rev [0..<8])) (rev [0..<k]) (smul e p, e \<noteq> 0) =
     (smul (e * 256 ^ k + le_nat (take k s)) p, e * 256 ^ k + le_nat (take k s) \<noteq> 0)"
proof (induction k arbitrary: e)
  case (Suc k)
  let ?e = "e * 2 ^ 8 + unat (s ! k)"
  have m: "unat (s ! k) mod 2 ^ 8 = unat (s ! k)" using unat_u8 [of "s ! k"] by simp
  have "?e * 256 ^ k + le_nat (take k s) = e * 256 ^ Suc k + le_nat (take (Suc k) s)"
    using Suc.prems by (simp add: take_Suc_conv_app_nth le_nat_append algebra_simps)
  moreover have "fold (smul_bit p (s ! k)) (rev [0..<8]) (smul e p, e \<noteq> 0) = (smul ?e p, ?e \<noteq> 0)"
    using smul_bits [of p "s ! k" 8 e] unfolding m .
  moreover have "fold (\<lambda>i. fold (smul_bit p (s ! i)) (rev [0..<8])) (rev [0..<Suc k]) (smul e p, e \<noteq> 0) =
      fold (\<lambda>i. fold (smul_bit p (s ! i)) (rev [0..<8])) (rev [0..<k]) (fold (smul_bit p (s ! k)) (rev [0..<8]) (smul e p, e \<noteq> 0))" by simp
  ultimately show ?case using Suc.IH [of ?e] Suc.prems by (simp only: Suc_leD)
qed simp

lemma scalar_mul_point_eq: "length s = 32 \<Longrightarrow> scalar_mul_point s p = smul (le_nat s) p"
  using smul_bytes [of 32 s p 0] by (simp add: scalar_mul_point_def smul.simps [of 0] del: upt_Suc)

section \<open>Decoding\<close>

definition I25519 :: int where "I25519 = fe_val sqrt_m1"

lemma fe_ok_sqrt_m1: "fe_is sqrt_m1 I25519"
proof -
  have "fe_is sqrt_m1 (uint (2 :: u64) ^ le_nat (exp_shr (exp_p_minus 1) 2))"
    unfolding sqrt_m1_def by (rule fe_is_pow [OF fe_is_from_u64]) (simp add: exponent_bytes)
  then show ?thesis by (simp add: fe_is_def I25519_def)
qed

lemma fe_is_cong: "fe_is x m \<Longrightarrow> m mod P25519 = n mod P25519 \<Longrightarrow> fe_is x n"
  by (simp add: fe_is_def)

lemma fe_is_root: "fe_is u m \<Longrightarrow> fe_is v n \<Longrightarrow> \<exists>r. fe_is (root_candidate u v) r"
  unfolding root_candidate_def Let_def
  by (rule exI, (assumption | rule fe_is_mul fe_is_square fe_is_pow | simp add: exponent_bytes)+)

lemma odd_neg_mod: "x mod P25519 \<noteq> 0 \<Longrightarrow> odd (- x mod P25519) \<longleftrightarrow> \<not> odd (x mod P25519)"
proof -
  assume "x mod P25519 \<noteq> 0"
  then have "- x mod P25519 = P25519 - x mod P25519" by (simp add: zmod_zminus1_eq_if)
  moreover have "odd P25519" by (simp add: P25519_def)
  ultimately show ?thesis by simp
qed

text \<open>
  A decoded point: \<open>y\<close> is the number encoded, without its top bit; \<open>x\<close> has the parity that bit gives, and
  solves the curve equation, or the equation with \<open>- i * i\<close> for \<open>1\<close> on the right where \<open>i\<close> is the constant
  \<^verbatim>\<open>sqrt_m1\<close> (the root was corrected by it).
\<close>

lemma decompress_cases:
  assumes "decompress bytes = Some p" and "length bytes = 32"
  obtains X Y where "fe.rep4 (coords p) (X, Y, 1, X * Y)" and "Y = le_val (bytes[31 := bytes ! 31 AND 0x7f]) mod 2 ^ 255"
    and "odd (X mod P25519) \<longleftrightarrow> drop_bit 7 (bytes ! 31) = 1"
    and "X * X * (D25519 * (Y * Y) + 1) mod P25519 = (Y * Y - 1) mod P25519 \<or>
      X * X * (D25519 * (Y * Y) + 1) mod P25519 = - (I25519 * I25519) * (Y * Y - 1) mod P25519"
proof -
  define y where "y = fe_from_bytes (bytes[31 := bytes ! 31 AND 0x7f])"
  define Y where "Y = le_val (bytes[31 := bytes ! 31 AND 0x7f]) mod 2 ^ 255"
  define u v where uv: "u = fe_sub (fe_square y) FE_ONE" "v = fe_add (fe_mul d_constant (fe_square y)) FE_ONE"
  define sg where "sg \<longleftrightarrow> drop_bit 7 (bytes ! 31) = 1"
  have y: "fe_is y Y" unfolding y_def Y_def by (rule fe_is_from_bytes) (simp add: assms(2))
  have u: "fe_is u (Y * Y - 1)" unfolding uv by (intro fe_is_sub fe_is_square y fe_is_one)
  have v: "fe_is v (D25519 * (Y * Y) + 1)" unfolding uv by (intro fe_is_add fe_is_mul fe_is_square y fe_is_one fe_ok_d)
  obtain R where R: "fe_is (root_candidate u v) R" using fe_is_root [OF u v] by blast
  have chk: "fe_is (fe_mul (fe_square (root_candidate u v)) v) (R * R * (D25519 * (Y * Y) + 1))"
    by (intro fe_is_mul fe_is_square R v)
  define x0 where "x0 = (if \<not> fe_eq (fe_mul (fe_square (root_candidate u v)) v) u then
      if fe_eq (fe_mul (fe_square (root_candidate u v)) v) (fe_neg u) then Some (fe_mul (root_candidate u v) sqrt_m1) else None
    else Some (root_candidate u v))"
  have dec: "decompress bytes = x0 \<bind> (\<lambda>x. if fe_is_zero x \<and> sg then None
      else let x = (if fe_is_negative x \<noteq> sg then fe_conditional_negate x True else x)
           in Some \<lparr>pt_x = x, pt_y = y, pt_z = FE_ONE, pt_t = fe_mul x y\<rparr>)"
    unfolding decompress_def x0_def uv y_def sg_def Let_def ..
  then obtain x where x0: "x0 = Some x" using assms(1) by (cases x0) auto
  have "\<exists>X0. fe_is x X0 \<and> (X0 * X0 * (D25519 * (Y * Y) + 1) mod P25519 = (Y * Y - 1) mod P25519 \<or>
      X0 * X0 * (D25519 * (Y * Y) + 1) mod P25519 = - (I25519 * I25519) * (Y * Y - 1) mod P25519)"
  proof (cases "fe_eq (fe_mul (fe_square (root_candidate u v)) v) u")
    case True
    then have "x = root_candidate u v" using x0 by (simp add: x0_def)
    with R True fe_eq_iff [OF chk u] show ?thesis by blast
  next
    case False
    then have x: "x = fe_mul (root_candidate u v) sqrt_m1" and e: "fe_eq (fe_mul (fe_square (root_candidate u v)) v) (fe_neg u)"
      using x0 by (auto simp: x0_def split: if_splits)
    have "R * I25519 * (R * I25519) * (D25519 * (Y * Y) + 1) = I25519 * I25519 * (R * R * (D25519 * (Y * Y) + 1))" by (simp add: mult_ac)
    also have "\<dots> mod P25519 = I25519 * I25519 * (- (Y * Y - 1)) mod P25519"
      using e fe_eq_iff [OF chk fe_is_neg [OF u]] by (intro mod_mult_cong refl) simp
    also have "I25519 * I25519 * (- (Y * Y - 1)) = - (I25519 * I25519) * (Y * Y - 1)" by (simp only: minus_mult_commute)
    finally have "R * I25519 * (R * I25519) * (D25519 * (Y * Y) + 1) mod P25519 = - (I25519 * I25519) * (Y * Y - 1) mod P25519" .
    with fe_is_mul [OF R fe_ok_sqrt_m1] show ?thesis unfolding x by blast
  qed
  then obtain X0 where X0: "fe_is x X0" and eq: "X0 * X0 * (D25519 * (Y * Y) + 1) mod P25519 = (Y * Y - 1) mod P25519 \<or>
      X0 * X0 * (D25519 * (Y * Y) + 1) mod P25519 = - (I25519 * I25519) * (Y * Y - 1) mod P25519" by blast
  define X where "X = (if fe_is_negative x \<noteq> sg then - X0 else X0)"
  have nz: "\<not> (fe_is_zero x \<and> sg)" and p: "p = (let x = (if fe_is_negative x \<noteq> sg then fe_conditional_negate x True else x)
      in \<lparr>pt_x = x, pt_y = y, pt_z = FE_ONE, pt_t = fe_mul x y\<rparr>)"
    using dec assms(1) by (auto simp: x0 Let_def split: if_splits)
  have xx: "fe_is (if fe_is_negative x \<noteq> sg then fe_conditional_negate x True else x) X"
    using X0 fe_is_neg [OF X0] by (simp add: X_def fe_conditional_negate_def)
  show ?thesis
  proof (rule that [of X Y])
    show "fe.rep4 (coords p) (X, Y, 1, X * Y)" using xx y fe_is_mul [OF xx y] by (simp add: p Let_def fe_is_one)
    show "odd (X mod P25519) \<longleftrightarrow> drop_bit 7 (bytes ! 31) = 1"
      using nz fe_is_zero_iff [OF X0] fe_is_negative_iff [OF X0] odd_neg_mod [of X0] by (auto simp: X_def sg_def)
    have "X * X = X0 * X0" by (simp add: X_def)
    then show "X * X * (D25519 * (Y * Y) + 1) mod P25519 = (Y * Y - 1) mod P25519 \<or>
      X * X * (D25519 * (Y * Y) + 1) mod P25519 = - (I25519 * I25519) * (Y * Y - 1) mod P25519" using eq by simp
  qed (simp add: Y_def)
qed

section \<open>What signatures promise\<close>

text \<open>C20: scalar multiplication runs double-and-add along the bits of the scalar, and points on the
  curve stay on it: whatever 32-byte scalar is used, the product of a well-formed point is well formed.\<close>

theorem scalar_mul_on_curve:
  assumes "length s = 32" and "point_ok p"
  shows "scalar_mul_point s p = smul (le_nat s) p \<and> point_ok (scalar_mul_point s p)"
  using assms by (simp add: scalar_mul_point_eq smul_ok)

theorem scalar_mul_on_curve_witness:
  "point_ok point_identity \<and>
   scalar_mul_point (5 # replicate 31 0) point_identity = smul (le_nat (5 # replicate 31 0)) point_identity \<and>
   point_ok (scalar_mul_point (5 # replicate 31 0) point_identity)"
  using scalar_mul_on_curve [THEN conjunct1, OF _ point_identity_ok, of "5 # replicate 31 0"]
    scalar_mul_on_curve [THEN conjunct2, OF _ point_identity_ok, of "5 # replicate 31 0"] point_identity_ok
  by (intro conjI) simp_all

text \<open>Two points are the same in projective coordinates.\<close>

definition same_point :: "point \<Rightarrow> point \<Rightarrow> bool" where
  "same_point p q \<longleftrightarrow>
     fe_val (pt_x p) * fe_val (pt_z q) mod P25519 = fe_val (pt_x q) * fe_val (pt_z p) mod P25519 \<and>
     fe_val (pt_y p) * fe_val (pt_z q) mod P25519 = fe_val (pt_y q) * fe_val (pt_z p) mod P25519"

definition limbs_ok :: "point \<Rightarrow> bool" where
  "limbs_ok p \<longleftrightarrow> fe_ok (pt_x p) \<and> fe_ok (pt_y p) \<and> fe_ok (pt_z p) \<and> fe_ok (pt_t p)"

lemma limbs_ok_rep: "limbs_ok p \<longleftrightarrow> (\<exists>c. fe.rep4 (coords p) c)"
  by (auto simp: limbs_ok_def fe_is_def split_paired_Ex)

lemma limbs_ok_add: "limbs_ok p \<Longrightarrow> limbs_ok q \<Longrightarrow> limbs_ok (point_add p q)"
  using point_add_rep unfolding limbs_ok_rep by blast

lemma limbs_ok_smul: "limbs_ok p \<Longrightarrow> limbs_ok (smul n p)"
proof (induction n p rule: smul.induct)
  case (1 n p)
  have "limbs_ok point_identity" using point_identity_ok unfolding point_ok_def limbs_ok_rep by blast
  moreover consider "n = 0" | "n = 1" | "n \<noteq> 0" "n \<noteq> 1" by blast
  ultimately show ?case using 1 by cases (simp_all add: smul.simps [of n] Let_def limbs_ok_add)
qed

lemma limbs_ok_decompress: "decompress bytes = Some p \<Longrightarrow> length bytes = 32 \<Longrightarrow> limbs_ok p"
  using decompress_cases limbs_ok_rep by metis

lemma point_eq_same: "limbs_ok p \<Longrightarrow> limbs_ok q \<Longrightarrow> point_eq p q \<longleftrightarrow> same_point p q"
  unfolding limbs_ok_def point_eq_def same_point_def
  by (intro arg_cong2 [of _ _ _ _ conj] fe_eq_iff fe_is_mul fe_is_self) blast+

lemma limbs_ok_basepoint: "basepoint = Some b \<Longrightarrow> limbs_ok b"
  unfolding basepoint_def by (erule limbs_ok_decompress) simp

lemma sha512_of_eq: "sha512_of chunks = Some (sha512_spec (concat chunks))"
  using sha512_stream by (simp add: sha512_of_def)

text \<open>C19: what an accepted signature means: its scalar is below the group order, both encodings decode, and the
  group equation \<open>[S] B = R + [k] A\<close> holds in projective coordinates modulo the field prime, with \<open>k\<close> the
  digest of both encodings and the message reduced by the group order. A scalar out of range is refused.\<close>

theorem verify_sound:
  assumes "length sig = 64" and "length public = 32"
  shows "(L25519 \<le> le_val (rslice sig 32 64) \<longrightarrow> verify public msg sig = Some (Inl Malformed)) \<and>
    (verify public msg sig = Some (Inr ()) \<longleftrightarrow>
      le_val (rslice sig 32 64) < L25519 \<and>
      (\<exists>b r a k. basepoint = Some b \<and> decompress (rslice sig 0 32) = Some r \<and> decompress public = Some a \<and>
         int k = le_val (sha512_spec (rslice sig 0 32 @ public @ msg)) mod L25519 \<and>
         same_point (smul (le_nat (rslice sig 32 64)) b) (point_add r (smul k a))))"
proof -
  define rb s kh where rs: "rb = rslice sig 0 32" "s = rslice sig 32 64" "kh = mod_l (sha512_spec (rb @ public @ msg))"
  have l: "length rb = 32" "length s = 32" "length kh = 32" using assms(1) mod_l_val by (simp_all add: rs)
  have k: "int n = le_val (sha512_spec (rb @ public @ msg)) mod L25519 \<longleftrightarrow> n = le_nat kh" for n
    using mod_l_val [of "sha512_spec (rb @ public @ msg)"] le_val_nat [of kh] unfolding rs(3) by linarith
  have g: "bytes_geq_l s \<longleftrightarrow> L25519 \<le> le_val s" by (rule bytes_geq_l_val [OF l(2)])
  have v: "verify public msg sig = map_option (\<lambda>b. if point_eq (smul (le_nat s) b) (point_add r (smul (le_nat kh) a)) then Inr () else Inl Invalid) basepoint"
    if "\<not> bytes_geq_l s" "decompress rb = Some r" "decompress public = Some a" for r a
  proof -
    have "verify public msg sig = map_option (\<lambda>b. if point_eq (scalar_mul_point s b) (point_add r (smul (le_nat kh) a)) then Inr () else Inl Invalid) basepoint"
      using that by (simp add: verify_def Let_def sha512_of_eq rs(3) [symmetric] rs(1,2) [symmetric]
        scalar_mul_base_def scalar_mul_point_eq [OF l(3)] map_conv_bind_option o_def)
    then show ?thesis by (simp only: scalar_mul_point_eq [OF l(2)])
  qed
  have e: "point_eq (smul (le_nat s) b) (point_add r (smul n a)) \<longleftrightarrow> same_point (smul (le_nat s) b) (point_add r (smul n a))"
    if "basepoint = Some b" "decompress rb = Some r" "decompress public = Some a" for r a n b
    using that l assms by (intro point_eq_same limbs_ok_smul limbs_ok_add limbs_ok_basepoint limbs_ok_decompress)
  have m: "verify public msg sig = Some (Inl Malformed)" if "bytes_geq_l s \<or> decompress rb = None \<or> decompress public = None"
    using that by (auto simp: verify_def Let_def rs(1,2) [symmetric] split: option.splits)
  show ?thesis unfolding rs(1,2) [symmetric] k
  proof (cases "bytes_geq_l s \<or> decompress rb = None \<or> decompress public = None")
    case True
    then show "(L25519 \<le> le_val s \<longrightarrow> verify public msg sig = Some (Inl Malformed)) \<and>
      (verify public msg sig = Some (Inr ()) \<longleftrightarrow> le_val s < L25519 \<and> (\<exists>b r a k. basepoint = Some b \<and> decompress rb = Some r \<and>
         decompress public = Some a \<and> k = le_nat kh \<and> same_point (smul (le_nat s) b) (point_add r (smul k a))))"
      using m g by auto
  next
    case False
    then obtain r a where ra: "decompress rb = Some r" "decompress public = Some a" by auto
    have ng: "\<not> bytes_geq_l s" using False by simp
    show "(L25519 \<le> le_val s \<longrightarrow> verify public msg sig = Some (Inl Malformed)) \<and>
      (verify public msg sig = Some (Inr ()) \<longleftrightarrow> le_val s < L25519 \<and> (\<exists>b r a k. basepoint = Some b \<and> decompress rb = Some r \<and>
         decompress public = Some a \<and> k = le_nat kh \<and> same_point (smul (le_nat s) b) (point_add r (smul k a))))"
      using ng g [symmetric] v [OF ng ra] e [OF _ ra] ra by (cases basepoint) (auto split: if_splits)
  qed
qed

theorem verify_sound_witness:
  "L25519 \<le> le_val (rslice (replicate 64 0xff) 32 64) \<and>
   verify (replicate 32 0) [1, 2, 3] (replicate 64 0xff) = Some (Inl Malformed)"
proof -
  have "rslice (replicate 64 0xff) 32 64 = replicate 32 (0xff :: u8)" by (simp add: rslice_def)
  then have "L25519 \<le> le_val (rslice (replicate 64 0xff) 32 64)"
    using le_nat_ones [of 32] by (simp add: le_val_nat L25519_def)
  then show ?thesis using verify_sound [of "replicate 64 0xff" "replicate 32 0" "[1, 2, 3]"] by simp
qed

end
