(* ===== verification/Userlib.thy ===== *)
theory Userlib
  imports Caps Text
begin

text \<open>
  The runtime of user programs, \<^verbatim>\<open>userlib/src/lib.rs\<close>: system-call wrappers, the two message codecs, chunked
  printing, the bump allocator.

  The kernel, with all other programs behind it, is the argument \<open>K\<close> of every wrapper: a function from the call
  number, the arguments and a state of the world to the registers after the call, the contents of the buffer
  the call writes, and the new state; \<open>None\<close> when the call does not return. A pointer argument is represented
  by the bytes it points to. A wrapper returns \<open>None\<close> exactly when some call of it does not return.
\<close>

section \<open>System calls\<close>

record sysret =
  sr_rax :: u64
  sr_a0 :: u64
  sr_a1 :: u64
  sr_a2 :: u64
  sr_a3 :: u64
  sr_a4 :: u64
  sr_a5 :: u64

datatype arg = Val u64 | Ptr bytes

type_synonym 'w kern = "u64 \<Rightarrow> arg list \<Rightarrow> 'w \<Rightarrow> ((sysret \<times> bytes) \<times> 'w) option"

abbreviation (input) SYS_YIELD :: u64 where "SYS_YIELD \<equiv> 1"
abbreviation (input) SYS_EXIT :: u64 where "SYS_EXIT \<equiv> 2"
abbreviation (input) SYS_DEBUG_WRITE :: u64 where "SYS_DEBUG_WRITE \<equiv> 3"
abbreviation (input) SYS_IPC_CALL :: u64 where "SYS_IPC_CALL \<equiv> 4"
abbreviation (input) SYS_IPC_RECV :: u64 where "SYS_IPC_RECV \<equiv> 5"
abbreviation (input) SYS_IPC_REPLY :: u64 where "SYS_IPC_REPLY \<equiv> 6"
abbreviation (input) SYS_CAP_DERIVE :: u64 where "SYS_CAP_DERIVE \<equiv> 7"
abbreviation (input) SYS_TASK_SPAWN :: u64 where "SYS_TASK_SPAWN \<equiv> 8"
abbreviation (input) SYS_WAIT :: u64 where "SYS_WAIT \<equiv> 9"
abbreviation (input) SYS_INPUT_READ :: u64 where "SYS_INPUT_READ \<equiv> 10"
abbreviation (input) SYS_TICKS :: u64 where "SYS_TICKS \<equiv> 11"
abbreviation (input) SYS_SET_NAME :: u64 where "SYS_SET_NAME \<equiv> 12"
abbreviation (input) SYS_STATS :: u64 where "SYS_STATS \<equiv> 13"
abbreviation (input) SYS_REBOOT :: u64 where "SYS_REBOOT \<equiv> 14"
abbreviation (input) SYS_SLEEP :: u64 where "SYS_SLEEP \<equiv> 15"
abbreviation (input) SYS_KILL :: u64 where "SYS_KILL \<equiv> 16"
abbreviation (input) SYS_BLOCK_READ :: u64 where "SYS_BLOCK_READ \<equiv> 17"
abbreviation (input) SYS_BLOCK_WRITE :: u64 where "SYS_BLOCK_WRITE \<equiv> 18"

text \<open>A call that uses only \<^verbatim>\<open>rax\<close>, and one whose result is the errno or a value read off the registers.\<close>

definition sys_rax :: "'w kern \<Rightarrow> u64 \<Rightarrow> arg list \<Rightarrow> 'w \<Rightarrow> (u64 \<times> 'w) option" where
  "sys_rax K n args w = do { ((r, _), w) \<leftarrow> K n args w; Some (sr_rax r, w) }"

definition sys_result :: "'w kern \<Rightarrow> u64 \<Rightarrow> arg list \<Rightarrow> (sysret \<Rightarrow> 'a) \<Rightarrow> 'w \<Rightarrow> ((u64 + 'a) \<times> 'w) option" where
  "sys_result K n args f w =
     do { ((r, _), w) \<leftarrow> K n args w; Some (if sr_rax r = 0 then Inr (f r) else Inl (sr_rax r), w) }"

definition debug_write :: "'w kern \<Rightarrow> bytes \<Rightarrow> 'w \<Rightarrow> (u64 \<times> 'w) option" where
  "debug_write K b = sys_rax K SYS_DEBUG_WRITE [Ptr b, Val (of_nat (length b)), Val 0, Val 0, Val 0, Val 0]"

definition debug_write_raw :: "'w kern \<Rightarrow> bytes \<Rightarrow> 'w \<Rightarrow> (u64 \<times> 'w) option" where
  "debug_write_raw K b = sys_rax K SYS_DEBUG_WRITE [Ptr b, Val (of_nat (length b)), Val 1, Val 0, Val 0, Val 0]"

definition yield_now :: "'w kern \<Rightarrow> 'w \<Rightarrow> (u64 \<times> 'w) option" where
  "yield_now K = sys_rax K SYS_YIELD (replicate 6 (Val 0))"

section \<open>Message codecs\<close>

definition pack :: "bytes \<Rightarrow> u64 list" where
  "pack bytes =
     (let cs = take 5 (chunks 8 bytes)
      in map (\<lambda>c. from_le (c @ replicate (8 - length c) 0)) cs @ replicate (5 - length cs) 0)"

fun unpack :: "u64 list \<Rightarrow> bytes" where
  "unpack [] = []"
| "unpack (w # ws) =
     (let b = to_le 8 w
      in case position (\<lambda>c. c = 0) b of
           None \<Rightarrow> b @ unpack ws
         | Some end' \<Rightarrow> take end' b)"

definition raw_pack :: "bytes \<Rightarrow> u64 list" where
  "raw_pack bytes =
     (let n = min (length bytes) 40;
          tmp = copy_at (replicate 40 0) 0 (take n bytes)
      in map (\<lambda>i. from_le (rslice tmp (i * 8) (i * 8 + 8))) [0..<5])"

definition unpack_all :: "u64 list \<Rightarrow> bytes \<Rightarrow> bytes" where
  "unpack_all words out =
     (let n = min (length out) 40;
          out = fold (\<lambda>i out. copy_at out (i * 8) (to_le 8 (words ! i))) [0..<n div 8] out;
          rem = n mod 8
      in if 0 < rem then copy_at out (n div 8 * 8) (take rem (to_le 8 (words ! (n div 8)))) else out)"

section \<open>Capabilities\<close>

definition call :: "'w kern \<Rightarrow> u64 \<Rightarrow> u64 list \<Rightarrow> 'w \<Rightarrow> ((u64 + u64 list) \<times> 'w) option" where
  "call K slot ws =
     sys_result K SYS_IPC_CALL [Val slot, Val (ws ! 0), Val (ws ! 1), Val (ws ! 2), Val (ws ! 3), Val (ws ! 4)]
       (\<lambda>r. [sr_a0 r, sr_a1 r, sr_a2 r, sr_a3 r, sr_a4 r])"

definition recv_until :: "'w kern \<Rightarrow> u64 \<Rightarrow> u64 \<Rightarrow> 'w \<Rightarrow> ((u64 + u64 \<times> u64 list) \<times> 'w) option" where
  "recv_until K slot deadline =
     sys_result K SYS_IPC_RECV [Val slot, Val deadline, Val 0, Val 0, Val 0, Val 0]
       (\<lambda>r. (sr_a0 r, [sr_a1 r, sr_a2 r, sr_a3 r, sr_a4 r, sr_a5 r]))"

definition recv :: "'w kern \<Rightarrow> u64 \<Rightarrow> 'w \<Rightarrow> ((u64 + u64 \<times> u64 list) \<times> 'w) option" where
  "recv K slot = recv_until K slot 0"

definition reply :: "'w kern \<Rightarrow> u64 \<Rightarrow> u64 list \<Rightarrow> 'w \<Rightarrow> (u64 \<times> 'w) option" where
  "reply K slot ws =
     sys_rax K SYS_IPC_REPLY [Val slot, Val (ws ! 0), Val (ws ! 1), Val (ws ! 2), Val (ws ! 3), Val (ws ! 4)]"

definition derive :: "'w kern \<Rightarrow> u64 \<Rightarrow> u64 \<Rightarrow> 'w \<Rightarrow> ((u64 + u64) \<times> 'w) option" where
  "derive K slot rights_mask =
     sys_result K SYS_CAP_DERIVE [Val slot, Val rights_mask, Val 0, Val 0, Val 0, Val 0] sr_a0"

definition derive_block :: "'w kern \<Rightarrow> u64 \<Rightarrow> u64 \<Rightarrow> u64 \<Rightarrow> u64 \<Rightarrow> 'w \<Rightarrow> ((u64 + u64) \<times> 'w) option" where
  "derive_block K slot rights_mask lba lbas =
     sys_result K SYS_CAP_DERIVE [Val slot, Val rights_mask, Val lba, Val lbas, Val 0, Val 0] sr_a0"

text \<open>\<^verbatim>\<open>print_split\<close> stops at the first failing call.\<close>

definition SOH :: u8 where [consts_def]: "SOH = 0x01"

primrec print_chunks :: "'w kern \<Rightarrow> u64 \<Rightarrow> bytes list \<Rightarrow> 'w \<Rightarrow> (bool \<times> 'w) option" where
  "print_chunks K ep [] w = Some (True, w)"
| "print_chunks K ep (c # cs) w =
     do {
       (r, w) \<leftarrow> call K ep (pack (SOH # c)) w;
       case r of Inl _ \<Rightarrow> Some (False, w) | Inr _ \<Rightarrow> print_chunks K ep cs w
     }"

definition print_split :: "'w kern \<Rightarrow> u64 \<Rightarrow> bytes \<Rightarrow> 'w \<Rightarrow> (bool \<times> 'w) option" where
  "print_split K ep data = print_chunks K ep (chunks 37 data)"

section \<open>Tasks, time, input\<close>

definition spawn_spec :: "(u64 \<times> u64) list \<Rightarrow> bytes" where
  "spawn_spec grants = concat (map (\<lambda>(slot, mask). to_le 8 slot @ to_le 8 mask) grants)"

definition spawn :: "'w kern \<Rightarrow> bytes \<Rightarrow> (u64 \<times> u64) list \<Rightarrow> 'w \<Rightarrow> ((u64 + u64) \<times> 'w) option" where
  "spawn K elf grants =
     (let spec = spawn_spec grants
      in sys_result K SYS_TASK_SPAWN
           [Ptr elf, Val (of_nat (length elf)), Ptr spec, Val (of_nat (length spec div 8)), Val 0, Val 0] sr_a0)"

definition wait :: "'w kern \<Rightarrow> 'w \<Rightarrow> ((u64 + u64 \<times> u64) \<times> 'w) option" where
  "wait K = sys_result K SYS_WAIT (replicate 6 (Val 0)) (\<lambda>r. (sr_a0 r, sr_a1 r))"

definition try_wait :: "'w kern \<Rightarrow> 'w \<Rightarrow> ((u64 + (u64 \<times> u64) option) \<times> 'w) option" where
  "try_wait K w =
     do {
       ((r, _), w) \<leftarrow> K SYS_WAIT [Val 1, Val 0, Val 0, Val 0, Val 0, Val 0] w;
       Some (if sr_rax r = 0 then Inr (Some (sr_a0 r, sr_a1 r))
             else if sr_rax r = 9 then Inr None
             else Inl (sr_rax r), w)
     }"

text \<open>A buffer of the caller after the kernel wrote \<open>out\<close> into it.\<close>

definition written :: "bytes \<Rightarrow> bytes \<Rightarrow> bytes" where
  "written buf out = take (length buf) (out @ drop (length out) buf)"

definition input_read :: "'w kern \<Rightarrow> bytes \<Rightarrow> 'w \<Rightarrow> (((u64 + nat) \<times> bytes) \<times> 'w) option" where
  "input_read K buf w =
     do {
       ((r, out), w) \<leftarrow> K SYS_INPUT_READ [Ptr buf, Val (of_nat (length buf)), Val 0, Val 0, Val 0, Val 0] w;
       Some ((if sr_rax r \<le> of_nat (length buf) then Inr (unat (sr_rax r)) else Inl (sr_rax r), written buf out), w)
     }"

definition input_try_read :: "'w kern \<Rightarrow> bytes \<Rightarrow> 'w \<Rightarrow> (((u64 + nat) \<times> bytes) \<times> 'w) option" where
  "input_try_read K buf w =
     do {
       ((r, out), w) \<leftarrow> K SYS_INPUT_READ [Ptr buf, Val (of_nat (length buf)), Val 1, Val 0, Val 0, Val 0] w;
       Some ((if sr_rax r \<noteq> 0xffffffffffffffff \<and> sr_rax r \<le> of_nat (length buf) \<and> sr_rax r \<noteq> 9
              then Inr (unat (sr_rax r)) else Inl (sr_rax r), written buf out), w)
     }"

definition ticks :: "'w kern \<Rightarrow> 'w \<Rightarrow> (u64 \<times> 'w) option" where
  "ticks K = sys_rax K SYS_TICKS (replicate 6 (Val 0))"

definition set_own_name :: "'w kern \<Rightarrow> bytes \<Rightarrow> 'w \<Rightarrow> (bool \<times> 'w) option" where
  "set_own_name K b w =
     do { (rax, w) \<leftarrow> sys_rax K SYS_SET_NAME [Ptr b, Val (of_nat (length b)), Val 0, Val 0, Val 0, Val 0] w; Some (rax = 0, w) }"

record sys_stats_rec =
  st_magic :: u32
  st_tick_hz :: u32
  st_ticks :: u64
  st_frames_used :: u64
  st_frames_total :: u64
  st_my_pages :: u64
  st_ntasks :: u32

definition SYS_STATS_MAGIC :: u32 where [consts_def]: "SYS_STATS_MAGIC = 0x41454753"

text \<open>The layout of the \<^verbatim>\<open>repr(C)\<close> record: 44 bytes and 4 of padding.\<close>

definition stats_of :: "bytes \<Rightarrow> sys_stats_rec" where
  "stats_of b =
     \<lparr>st_magic = from_le (rslice b 0 4), st_tick_hz = from_le (rslice b 4 8), st_ticks = from_le (rslice b 8 16),
      st_frames_used = from_le (rslice b 16 24), st_frames_total = from_le (rslice b 24 32),
      st_my_pages = from_le (rslice b 32 40), st_ntasks = from_le (rslice b 40 44)\<rparr>"

definition stats :: "'w kern \<Rightarrow> 'w \<Rightarrow> ((u64 + sys_stats_rec) \<times> 'w) option" where
  "stats K w =
     do {
       ((r, out), w) \<leftarrow> K SYS_STATS [Ptr (replicate 48 0), Val 48, Val 0, Val 0, Val 0, Val 0] w;
       let st = stats_of (written (replicate 48 0) out);
       Some (if sr_rax r = 0 \<and> st_magic st = SYS_STATS_MAGIC then Inr st
             else if sr_rax r = 0 then Inl 0xffffffffffffffff
             else Inl (sr_rax r), w)
     }"

text \<open>\<^verbatim>\<open>reboot\<close> repeats the call for ever.\<close>

partial_function (option) reboot :: "'w kern \<Rightarrow> 'w \<Rightarrow> ('a \<times> 'w) option" where
  "reboot K w = sys_rax K SYS_REBOOT (replicate 6 (Val 0)) w \<bind> (\<lambda>(_, w). reboot K w)"

definition sleep :: "'w kern \<Rightarrow> u64 \<Rightarrow> 'w \<Rightarrow> ((u64 + unit) \<times> 'w) option" where
  "sleep K t = sys_result K SYS_SLEEP [Val t, Val 0, Val 0, Val 0, Val 0, Val 0] (\<lambda>_. ())"

definition kill :: "'w kern \<Rightarrow> u64 \<Rightarrow> 'w \<Rightarrow> ((u64 + unit) \<times> 'w) option" where
  "kill K tid = sys_result K SYS_KILL [Val tid, Val 0, Val 0, Val 0, Val 0, Val 0] (\<lambda>_. ())"

section \<open>Block devices\<close>

definition block_read :: "'w kern \<Rightarrow> u64 \<Rightarrow> u64 \<Rightarrow> u16 \<Rightarrow> bytes \<Rightarrow> 'w \<Rightarrow> (((u64 + unit) \<times> bytes) \<times> 'w) option" where
  "block_read K cap lba count buf w =
     (if length buf < unat count * 512 \<or> 8 < count \<or> count = 0 then Some ((Inl 5, buf), w)
      else do {
        ((r, out), w) \<leftarrow> K SYS_BLOCK_READ [Val cap, Val lba, Val (ucast count), Ptr buf, Val 0, Val 0] w;
        Some ((if sr_rax r = 0 then Inr () else Inl (sr_rax r), written buf out), w)
      })"

definition block_write :: "'w kern \<Rightarrow> u64 \<Rightarrow> u64 \<Rightarrow> u16 \<Rightarrow> bytes \<Rightarrow> 'w \<Rightarrow> ((u64 + unit) \<times> 'w) option" where
  "block_write K cap lba count buf w =
     (if length buf < unat count * 512 \<or> 8 < count \<or> count = 0 then Some (Inl 5, w)
      else sys_result K SYS_BLOCK_WRITE [Val cap, Val lba, Val (ucast count), Ptr buf, Val 0, Val 0] (\<lambda>_. ()) w)"

section \<open>The bump allocator\<close>

definition HEAP_SIZE :: usize where [consts_def]: "HEAP_SIZE = 1024 * 1024"

text \<open>
  One allocation from the arena at \<open>base\<close> with \<open>head\<close> bytes used: the address and the new head, or no memory.
  A program has one thread, so the exchange retries only when it fails spuriously, with the same values.
\<close>

definition bump_alloc :: "usize \<Rightarrow> usize \<Rightarrow> usize \<Rightarrow> usize \<Rightarrow> usize option \<times> usize" where
  "bump_alloc base align sz head =
     (let aligned = (base + head + align - 1) AND NOT (align - 1);
          next' = aligned + sz - base
      in if next' > HEAP_SIZE then (None, head) else (Some aligned, next'))"

section \<open>The codecs\<close>

lemma unpack_concat: "unpack ws = takeWhile (\<lambda>c. c \<noteq> 0) (concat (map (to_le 8) ws))"
proof (induction ws)
  case (Cons w ws)
  show ?case
  proof (cases "position (\<lambda>c. c = 0) (to_le 8 w)")
    case None
    then have "\<forall>c \<in> set (to_le 8 w). c \<noteq> 0" by (simp add: position_None)
    then show ?thesis using None Cons.IH by (simp add: takeWhile_append2)
  next
    case (Some e)
    have p: "e < 8" "to_le 8 w ! e = 0" "\<forall>j < e. to_le 8 w ! j \<noteq> 0"
      using position_SomeD [OF Some] by simp_all
    then have "takeWhile (\<lambda>c. c \<noteq> 0) (to_le 8 w) = take e (to_le 8 w)"
      by (intro takeWhile_eq_take_P_nth) auto
    moreover have "to_le 8 w ! e \<in> set (to_le 8 w)" using p(1) by simp
    ultimately show ?thesis using Some p(2) by (simp add: takeWhile_append1 [of "to_le 8 w ! e"])
  qed
qed simp

text \<open>A message of \<open>n\<close> words carries the first \<open>8 * n\<close> bytes, padded with zeros.\<close>

definition padded :: "nat \<Rightarrow> bytes \<Rightarrow> bytes" where
  "padded n bs = take n bs @ replicate (n - length bs) 0"

lemma length_padded [simp]: "length (padded n bs) = n"
  by (simp add: padded_def)

lemma to_from_le_8: "length bs = 8 \<Longrightarrow> to_le 8 (from_le bs :: u64) = bs"
  using to_from_le [where 'a = 64, of bs] by simp

lemma concat_replicate_replicate: "concat (replicate n (replicate m x)) = replicate (n * m) x"
  by (induction n) (simp_all add: replicate_add)

lemma pack_words:
  "concat (map (to_le 8) (map (\<lambda>c. from_le (c @ replicate (8 - length c) 0) :: u64) (take n (chunks 8 bs)) @
     replicate (n - length (take n (chunks 8 bs))) 0)) = padded (8 * n) bs"
proof (induction n arbitrary: bs)
  case (Suc n)
  have z: "to_le 8 (0 :: u64) = replicate 8 0" by (simp add: to_le_def map_replicate_const)
  show ?case
  proof (cases "bs = []")
    case True
    then show ?thesis by (simp add: chunks.simps [of 8 "[]"] padded_def z concat_replicate_replicate replicate_add [symmetric] mult.commute)
  next
    case False
    then have "chunks 8 bs = take 8 bs # chunks 8 (drop 8 bs)" by (subst chunks.simps) simp
    moreover have "padded (8 * Suc n) bs = padded 8 bs @ padded (8 * n) (drop 8 bs)"
      by (cases "length bs \<le> 8") (auto simp: padded_def take_add replicate_add [symmetric])
    ultimately show ?thesis using Suc.IH [of "drop 8 bs"] by (simp add: to_from_le_8 padded_def)
  qed
qed (simp add: padded_def)

lemma concat_pack: "concat (map (to_le 8) (pack bs)) = padded 40 bs"
  using pack_words [of 5 bs] by (simp add: pack_def Let_def)

lemma length_pack [simp]: "length (pack bs) = 5"
  by (simp add: pack_def Let_def)

lemma takeWhile_padded: "takeWhile (\<lambda>c. c \<noteq> 0) (padded n bs) = takeWhile (\<lambda>c. c \<noteq> 0) (take n bs)"
proof (cases "\<exists>c \<in> set (take n bs). c = 0")
  case True
  then obtain c where "c \<in> set (take n bs)" "\<not> c \<noteq> 0" by blast
  then show ?thesis unfolding padded_def by (rule takeWhile_append1)
next
  case False
  then have "\<forall>c \<in> set (take n bs). c \<noteq> 0" by blast
  then show ?thesis unfolding padded_def by (simp add: takeWhile_append2 takeWhile_eq_all_conv [THEN iffD2])
qed

text \<open>What a receiver that trims at the first NUL sees of a packed message, and when that is all of it.\<close>

lemma unpack_pack: "unpack (pack bs) = takeWhile (\<lambda>c. c \<noteq> 0) (take 40 bs)"
  by (simp add: unpack_concat concat_pack takeWhile_padded)

lemma unpack_pack_id: "length bs \<le> 40 \<Longrightarrow> 0 \<notin> set bs \<Longrightarrow> unpack (pack bs) = bs"
  by (simp add: unpack_pack) (metis takeWhile_eq_all_conv)

lemma concat_words_5:
  assumes "length ws = 5"
  shows "concat (map (to_le 8) ws) = to_le 8 (ws ! 0) @ to_le 8 (ws ! 1) @ to_le 8 (ws ! 2) @ to_le 8 (ws ! 3) @ to_le 8 (ws ! 4)"
proof -
  obtain a b c d e where "ws = [a, b, c, d, e]"
    using assms by (auto simp: length_Suc_conv numeral_eq_Suc)
  then show ?thesis by simp
qed

lemma copy_at_append: "length xs = off \<Longrightarrow> copy_at (xs @ zs) off ys = xs @ ys @ drop (length ys) zs"
  by (simp add: copy_at_def)

lemma unpack_all_concat:
  assumes "length out = 40" and "length ws = 5"
  shows "unpack_all ws out = concat (map (to_le 8) ws)"
proof -
  have "[0..<40 div 8] = [0, 1, 2, 3, 4 :: nat]" by (simp add: upt_rec)
  then show ?thesis
    using assms copy_at_append [of "[]" 0 out] by (simp add: unpack_all_def concat_words_5 copy_at_def)
qed

lemma unpack_all_pack: "length out = 40 \<Longrightarrow> unpack_all (pack bs) out = padded 40 bs"
  by (simp add: unpack_all_concat concat_pack)

lemma length_fold_copy:
  "(\<And>i. i \<in> set is \<Longrightarrow> i * 8 + 8 \<le> length out) \<Longrightarrow> length (fold (\<lambda>i out. copy_at out (i * 8) (to_le 8 (f i :: u64))) is out) = length out"
  by (induction "is" arbitrary: out) simp_all

lemma length_unpack_all [simp]: "length (unpack_all ws out) = length out"
proof -
  let ?n = "min (length out) 40"
  have l: "length (fold (\<lambda>i out. copy_at out (i * 8) (to_le 8 (ws ! i))) [0..<?n div 8] out) = length out"
    by (rule length_fold_copy) auto
  have "?n div 8 * 8 + ?n mod 8 \<le> length out" by simp
  then show ?thesis using l by (simp add: unpack_all_def Let_def)
qed

end
