(* ===== verification/Initfs.thy ===== *)
theory Initfs
  imports Layout Ed25519 Userlib
begin

text \<open>
  The init program, \<^verbatim>\<open>servers/initfs/src/main.rs\<close>: verification of the embedded program store, the launch of the
  servers with attenuated capabilities, and the exec, fetch and application services. The embedded manifest,
  signature, key and programs are generated by the build: they are the argument \<open>img\<close>. \<^verbatim>\<open>main\<close> either exits
  with a code or reaches the service loop; \<open>None\<close> is a panic, or a system call that does not return.
\<close>

section \<open>The program store\<close>

record boot_image =
  MANIFEST :: bytes
  SIG :: bytes
  PUB_HEX :: bytes
  HELLO_ELF :: bytes
  FAULT_TEST_ELF :: bytes
  HEART_ELF :: bytes
  SHELL_ELF :: bytes
  STORAGED_ELF :: bytes
  SUPD_ELF :: bytes

definition block_present :: "'w kern \<Rightarrow> 'w \<Rightarrow> (bool \<times> 'w) option" where
  "block_present K w = do { (r, w) \<leftarrow> derive_block K 6 R_READ 0 1 w; Some (\<not> isl r, w) }"

definition store :: "boot_image \<Rightarrow> (bytes \<times> bytes) list" where
  "store img =
     [(lit ''hello'', HELLO_ELF img), (lit ''fault-test'', FAULT_TEST_ELF img), (lit ''heart'', HEART_ELF img),
      (lit ''shell'', SHELL_ELF img), (lit ''storaged'', STORAGED_ELF img), (lit ''supd'', SUPD_ELF img)]"

definition say_num :: "'w kern \<Rightarrow> bytes \<Rightarrow> u64 \<Rightarrow> bytes \<Rightarrow> 'w \<Rightarrow> (u64 \<times> 'w) option" where
  "say_num K prefix v suffix = debug_write K (push_num prefix v @ suffix)"

definition pinned_pubkey :: "boot_image \<Rightarrow> bytes" where
  "pinned_pubkey img = map (\<lambda>i. case hex_byte (PUB_HEX img) i of Some b \<Rightarrow> b | None \<Rightarrow> 0) [0..<32]"

record manifest_entry =
  me_name :: bytes
  me_name_len :: nat
  me_len :: nat
  me_sha :: bytes

text \<open>One line of the manifest; \<open>None\<close> skips it. A digit that fails ends the loop over the digest and drops the line.\<close>

definition parse_manifest_line :: "bytes \<Rightarrow> manifest_entry option" where
  "parse_manifest_line line =
     (let parts = words_of line in
      if length parts \<noteq> 3 then None
      else let n = min (length (parts ! 0)) 16;
               name = copy_at (replicate 16 0) 0 (take n (parts ! 0));
               hex = (case from_utf8 (parts ! 2) of Some s \<Rightarrow> s | None \<Rightarrow> [])
           in if length hex \<noteq> 64 then None
              else case those (map (hex_byte hex) [0..<32]) of
                  None \<Rightarrow> None
                | Some sha \<Rightarrow>
                    (case parse_usize (case from_utf8 (parts ! 1) of Some s \<Rightarrow> s | None \<Rightarrow> []) of
                       None \<Rightarrow> None
                     | Some len \<Rightarrow>
                         if 0 < n then Some \<lparr>me_name = name, me_name_len = n, me_len = len, me_sha = sha\<rparr> else None))"

definition parse_manifest :: "bytes \<Rightarrow> manifest_entry list" where
  "parse_manifest m = List.map_filter parse_manifest_line (drop 1 (split_on 0x0a m))"

definition covered :: "manifest_entry list \<Rightarrow> bytes \<times> bytes \<Rightarrow> bool" where
  "covered manifest = (\<lambda>(name, elf).
     list_ex (\<lambda>e. me_name_len e = length name \<and> take (me_name_len e) (me_name e) = name \<and>
                  me_len e = length elf \<and> sha256 elf = Some (me_sha e)) manifest)"

section \<open>The services\<close>

definition lookup :: "boot_image \<Rightarrow> bytes \<Rightarrow> bytes option" where
  "lookup img name = map_option snd (List.find (\<lambda>(n, _). n = name) (store img))"

definition no_such_program :: "bytes \<Rightarrow> bytes" where
  "no_such_program name = lit ''err: no such program '' @ [0x27] @ name @ [0x27]"

definition fetch_meta :: "boot_image \<Rightarrow> bytes \<Rightarrow> bytes" where
  "fetch_meta img name =
     (case lookup img name of
        None \<Rightarrow> no_such_program name
      | Some elf \<Rightarrow> push_num (lit ''len '') (of_nat (length elf)))"

definition handle_chunk :: "boot_image \<Rightarrow> bytes \<Rightarrow> bytes" where
  "handle_chunk img req =
     (case strip_prefix req (lit ''chunk '') of
        None \<Rightarrow> lit ''err: bad''
      | Some rest \<Rightarrow>
          (case rposition (\<lambda>c. c = 0x20) rest of
             None \<Rightarrow> lit ''err: bad''
           | Some sp \<Rightarrow>
               (let name = trim (take sp rest) in
                case from_utf8 (trim (drop (sp + 1) rest)) \<bind> parse_usize of
                  None \<Rightarrow> lit ''err: bad offset''
                | Some off \<Rightarrow>
                    (case lookup img name of
                       None \<Rightarrow> lit ''err: no such program''
                     | Some elf \<Rightarrow>
                         if length elf \<le> off then []
                         else let end' = min (off + 38) (length elf)
                              in copy_at (replicate 40 0) 0 (rslice elf off end')))))"

text \<open>Launch with a console capability, wait, report.\<close>

definition run_program :: "boot_image \<Rightarrow> 'w kern \<Rightarrow> bytes \<Rightarrow> u64 \<Rightarrow> 'w \<Rightarrow> (bytes \<times> 'w) option" where
  "run_program img K name console w =
     (case lookup img name of
        None \<Rightarrow> Some (no_such_program name, w)
      | Some elf \<Rightarrow>
          do {
            (r, w) \<leftarrow> spawn K elf [(console, R_WRITE)] w;
            case r of
              Inl e \<Rightarrow> Some (push_num (lit ''err: spawn failed errno '') e, w)
            | Inr tid \<Rightarrow>
                do {
                  (r, w) \<leftarrow> wait K w;
                  Some (case r of
                          Inr (done_tid, code) \<Rightarrow>
                            if done_tid = tid
                            then push_num (lit ''ok: '' @ [0x27] @ name @ [0x27] @ lit '' exited '') code
                            else push_num (push_num (lit ''err: reaped unexpected tid '') done_tid @ lit '' code '') code
                        | Inl e \<Rightarrow> push_num (lit ''err: wait failed errno '') e, w)
                }
          })"

section \<open>Installed applications\<close>

definition initfs_app_info :: "'w kern \<Rightarrow> u64 \<Rightarrow> bytes \<Rightarrow> 'w \<Rightarrow> ((nat \<times> u64) option \<times> 'w) option" where
  "initfs_app_info K info name w =
     do {
       (r, w) \<leftarrow> call K info (pack (lit ''ai '' @ name)) w;
       Some (case r of
               Inl _ \<Rightarrow> None
             | Inr ws \<Rightarrow>
                 (case split_on 0x20 (unpack ws) of
                    a # b # c # d # _ \<Rightarrow>
                      if a \<noteq> lit ''len'' then None
                      else do {
                        len \<leftarrow> from_utf8 b \<bind> parse_usize;
                        if c \<noteq> lit ''ver'' then None
                        else do { version \<leftarrow> from_utf8 d \<bind> parse_u64; Some (len, version) }
                      }
                  | _ \<Rightarrow> None), w)
     }"

definition app_fixed :: "'w kern \<Rightarrow> u64 \<Rightarrow> bytes \<Rightarrow> bytes \<Rightarrow> nat \<Rightarrow> nat \<Rightarrow> 'w \<Rightarrow> (bytes option \<times> 'w) option" where
  "app_fixed K info prefix name off want w =
     (let req = prefix @ name;
          req = (if prefix = lit ''as '' then push_num (req @ [0x20]) (of_nat off) else req)
      in do {
           (r, w) \<leftarrow> call K info (pack req) w;
           Some (case r of
                   Inl _ \<Rightarrow> None
                 | Inr ws \<Rightarrow> let raw = unpack_all ws (replicate 40 0) in if want > length raw then None else Some raw, w)
         })"

text \<open>The transfer loop of \<^verbatim>\<open>run_installed_app\<close>: forty bytes a call; \<open>None\<close> in the result is a failed call.\<close>

function app_fetch :: "'w kern \<Rightarrow> u64 \<Rightarrow> bytes \<Rightarrow> nat \<Rightarrow> bytes \<Rightarrow> 'w \<Rightarrow> (bytes option \<times> 'w) option" where
  "app_fetch K info name len elf w =
     (if length elf < len then
        do {
          (r, w) \<leftarrow> call K info (pack (push_num (lit ''ac '' @ name @ [0x20]) (of_nat (length elf)))) w;
          case r of
            Inl _ \<Rightarrow> Some (None, w)
          | Inr ws \<Rightarrow>
              let raw = unpack_all ws (replicate 40 0);
                  t = min (len - length elf) (length raw)
              in app_fetch K info name len (elf @ take t raw) w
        }
      else Some (Some elf, w))"
  by pat_completeness auto
termination
  by (relation "measure (\<lambda>(K, info, name, len, elf, w). len - length elf)") auto

declare app_fetch.simps [simp del]

text \<open>The spawn and wait at the end of \<^verbatim>\<open>run_installed_app\<close>.\<close>

definition run_app_elf :: "'w kern \<Rightarrow> bytes \<Rightarrow> bytes \<Rightarrow> u64 \<Rightarrow> 'w \<Rightarrow> (bytes \<times> 'w) option" where
  "run_app_elf K elf name console w =
     do {
       (r, w) \<leftarrow> spawn K elf [(console, R_WRITE)] w;
       case r of
         Inl _ \<Rightarrow> Some (lit ''err: app spawn'', w)
       | Inr tid \<Rightarrow>
           do {
             (r, w) \<leftarrow> wait K w;
             Some (case r of
                     Inr (done, code) \<Rightarrow>
                       if done = tid then push_num (lit ''ok app '' @ [0x27] @ name @ [0x27] @ lit '' exited '') code
                       else push_num (lit ''err: app reaped '') done
                   | Inl _ \<Rightarrow> lit ''err: app wait'', w)
           }
     }"

definition run_installed_app :: "boot_image \<Rightarrow> 'w kern \<Rightarrow> bytes \<Rightarrow> u64 \<Rightarrow> u64 \<Rightarrow> 'w \<Rightarrow> (bytes \<times> 'w) option" where
  "run_installed_app img K name console info w =
     (if name = [] \<or> APP_NAME_MAX < length name then Some (lit ''err: invalid app'', w)
      else do {
        (r, w) \<leftarrow> initfs_app_info K info name w;
        case r of
          None \<Rightarrow> Some (lit ''err: no verified app'', w)
        | Some (len, version) \<Rightarrow>
            if len = 0 \<or> APP_STAGE_CAP < len then Some (lit ''err: app bounds'', w)
            else do {
              (r, w) \<leftarrow> app_fixed K info (lit ''ah '') name 0 32 w;
              case r of
                None \<Rightarrow> Some (lit ''err: app metadata'', w)
              | Some v \<Rightarrow>
                  let digest = take 32 v in
                  do {
                    (r, w) \<leftarrow> app_fixed K info (lit ''as '') name 0 40 w;
                    case r of
                      None \<Rightarrow> Some (lit ''err: app signature'', w)
                    | Some s0 \<Rightarrow>
                        do {
                          (r, w) \<leftarrow> app_fixed K info (lit ''as '') name 40 24 w;
                          case r of
                            None \<Rightarrow> Some (lit ''err: app signature'', w)
                          | Some s1 \<Rightarrow>
                              let sig = take 40 s0 @ take 24 s1 in
                              do {
                                (r, w) \<leftarrow> app_fetch K info name len [] w;
                                case r of
                                  None \<Rightarrow> Some (lit ''err: app fetch'', w)
                                | Some elf \<Rightarrow>
                                    do {
                                      h \<leftarrow> sha256 elf;
                                      if h \<noteq> digest then Some (lit ''err: app digest'', w)
                                      else do {
                                        let signed = app_signing_message name version len digest;
                                        ok \<leftarrow> verify (pinned_pubkey img) signed sig;
                                        if ok \<noteq> Inr () then Some (lit ''err: app signature'', w)
                                        else run_app_elf K elf name console w
                                      }
                                    }
                              }
                        }
                  }
            }
      })"

section \<open>Requests and main\<close>

definition dispatch_req :: "boot_image \<Rightarrow> 'w kern \<Rightarrow> bytes \<Rightarrow> u64 \<Rightarrow> u64 \<Rightarrow> 'w \<Rightarrow> (bytes \<times> 'w) option" where
  "dispatch_req img K req console info w =
     (case strip_prefix req (lit ''exec '') of
        Some rest \<Rightarrow> run_program img K (trim rest) console w
      | None \<Rightarrow>
          (case strip_prefix req (lit ''app '') of
             Some rest \<Rightarrow> run_installed_app img K (trim rest) console info w
           | None \<Rightarrow>
               (case strip_prefix req (lit ''fetch '') of
                  Some rest \<Rightarrow> Some (fetch_meta img (trim rest), w)
                | None \<Rightarrow>
                    if strip_prefix req (lit ''chunk '') \<noteq> None then Some (handle_chunk img req, w)
                    else Some (lit ''err: usage '' @ [0x27] @ lit ''exec <name>'' @ [0x27] @ lit '', '' @ [0x27] @ lit ''app <name>'' @
                           [0x27] @ lit '', or '' @ [0x27] @ lit ''fetch <name>'' @ [0x27], w))))"

text \<open>One round of \<^verbatim>\<open>serve\<close>: \<open>Inl\<close> is the exit code when the endpoint is lost.\<close>

definition initfs_serve_step :: "boot_image \<Rightarrow> 'w kern \<Rightarrow> u64 \<Rightarrow> u64 \<Rightarrow> u64 \<Rightarrow> 'w \<Rightarrow> ((u64 + unit) \<times> 'w) option" where
  "initfs_serve_step img K console fs info w =
     do {
       (r, w) \<leftarrow> recv K fs w;
       case r of
         Inl e \<Rightarrow> Some (Inl e, w)
       | Inr (_, ws) \<Rightarrow>
           do {
             (out, w) \<leftarrow> dispatch_req img K (unpack ws) console info w;
             (_, w) \<leftarrow> reply K fs (pack out) w;
             Some (Inr (), w)
           }
     }"

definition storaged_grants :: "bool \<Rightarrow> (u64 \<times> u64) list" where
  "storaged_grants block =
     [(0, R_WRITE), (4, R_READ OR R_WRITE), (2, R_READ OR R_WRITE)] @
     (if block then [(6, R_READ OR R_WRITE OR R_GRANT)] else [])"

definition supd_grants :: "(u64 \<times> u64) list" where
  "supd_grants =
     [(0, R_WRITE OR R_GRANT), (1, R_WRITE), (4, R_WRITE OR R_GRANT), (2, R_WRITE), (3, R_READ OR R_WRITE)]"

definition shell_grants :: "(u64 \<times> u64) list" where
  "shell_grants = [(0, R_WRITE), (1, R_WRITE), (4, R_WRITE), (3, R_WRITE), (5, R_WRITE)]"

text \<open>The launches of \<^verbatim>\<open>main\<close> once the store is verified.\<close>

definition initfs_launch :: "boot_image \<Rightarrow> 'w kern \<Rightarrow> 'w \<Rightarrow> ((u64 + unit) \<times> 'w) option" where
  "initfs_launch img K w =
     do {
       (r, w) \<leftarrow> derive K 0 R_WRITE w;
       case r of
         Inl e \<Rightarrow> do { (_, w) \<leftarrow> say_num K (lit ''initfs: derive failed errno '') e [0x0a] w; Some (Inl 4, w) }
       | Inr w_only \<Rightarrow>
           do {
             (r, w) \<leftarrow> spawn K (HELLO_ELF img) [(w_only, R_WRITE)] w;
             case r of
               Inr _ \<Rightarrow>
                 do { (_, w) \<leftarrow> debug_write K (lit ''initfs: BUG: delegation via non-grant cap succeeded!'' @ [0x0a]) w; Some (Inl 3, w) }
             | Inl e \<Rightarrow>
                 do {
                   (_, w) \<leftarrow> say_num K (lit ''initfs: spawn via non-grant cap DENIED as expected (errno '') e (lit '')'' @ [0x0a]) w;
                   (block, w) \<leftarrow> block_present K w;
                   (r, w) \<leftarrow> spawn K (STORAGED_ELF img) (storaged_grants block) w;
                   case r of
                     Inl e \<Rightarrow> do { (_, w) \<leftarrow> say_num K (lit ''initfs: STORAGED SPAWN FAILED errno '') e [0x0a] w; Some (Inl 5, w) }
                   | Inr _ \<Rightarrow>
                       do {
                         (_, w) \<leftarrow> debug_write K (lit ''initfs: storaged launched'' @ [0x0a]) w;
                         (r, w) \<leftarrow> spawn K (SUPD_ELF img) supd_grants w;
                         case r of
                           Inl e \<Rightarrow> do { (_, w) \<leftarrow> say_num K (lit ''initfs: SUPD SPAWN FAILED errno '') e [0x0a] w; Some (Inl 5, w) }
                         | Inr _ \<Rightarrow>
                             do {
                               (_, w) \<leftarrow> debug_write K (lit ''initfs: supervisor launched'' @ [0x0a]) w;
                               (r, w) \<leftarrow> spawn K (SHELL_ELF img) shell_grants w;
                               (_, w) \<leftarrow> (case r of
                                   Inr _ \<Rightarrow> debug_write K (lit ''initfs: shell launched'' @ [0x0a]) w
                                 | Inl e \<Rightarrow> say_num K (lit ''initfs: SHELL SPAWN FAILED errno '') e [0x0a] w);
                               Some (Inr (), w)
                             }
                       }
                 }
           }
     }"

definition initfs_main :: "boot_image \<Rightarrow> 'w kern \<Rightarrow> 'w \<Rightarrow> ((u64 + unit) \<times> 'w) option" where
  "initfs_main img K w =
     do {
       (_, w) \<leftarrow> debug_write K (lit ''initfs: userspace alive'' @ [0x0a]) w;
       if length (SIG img) \<noteq> 64 then
         do { (_, w) \<leftarrow> debug_write K (lit ''initfs: FATAL manifest signature malformed'' @ [0x0a]) w; Some (Inl 9, w) }
       else do {
         v \<leftarrow> verify (pinned_pubkey img) (MANIFEST img) (SIG img);
         if v \<noteq> Inr () then
           do { (_, w) \<leftarrow> debug_write K (lit ''initfs: FATAL program store FAILED SIGNATURE - refusing'' @ [0x0a]) w; Some (Inl 9, w) }
         else do {
           (_, w) \<leftarrow> debug_write K (lit ''initfs: program store signature VERIFIED'' @ [0x0a]) w;
           case List.find (\<lambda>p. \<not> covered (parse_manifest (MANIFEST img)) p) (store img) of
             Some (name, _) \<Rightarrow>
               do { (_, w) \<leftarrow> say_num K (lit ''initfs: FATAL store digest mismatch: '' @ [0x27]) (ucast (name ! 0)) [0x27, 0x0a] w; Some (Inl 9, w) }
           | None \<Rightarrow> initfs_launch img K w
         }
       }
     }"

end
