(* ===== verification/Supd.thy ===== *)
theory Supd
  imports Userlib
begin

text \<open>
  The supervisor, \<^verbatim>\<open>servers/supd/src/main.rs\<close>: the service roster, fetching and spawning of programs, reaping with
  backoff, and the operator requests. \<^verbatim>\<open>main\<close> exits only when the operator endpoint is lost. The capability
  slots are those of \<^verbatim>\<open>main\<close>: console 0, program store 1, query 2, configuration 3, operator endpoint 4.
\<close>

section \<open>State\<close>

definition MAX_SERVICES :: nat where [consts_def]: "MAX_SERVICES = 6"
definition BASE_BACKOFF_TICKS :: u64 where [consts_def]: "BASE_BACKOFF_TICKS = 20"
definition MAX_BACKOFF_TICKS :: u64 where [consts_def]: "MAX_BACKOFF_TICKS = 1600"

datatype svc_state = Stopped | Running u64 | Waiting u64 | Failed

record service =
  sv_name :: bytes
  sv_autostart :: bool
  sv_restart :: bool
  sv_state :: svc_state
  sv_failures :: u32
  sv_restarts :: u64

abbreviation (input) supd_console :: u64 where "supd_console \<equiv> 0"
abbreviation (input) supd_fs :: u64 where "supd_fs \<equiv> 1"
abbreviation (input) supd_query :: u64 where "supd_query \<equiv> 2"
abbreviation (input) supd_config :: u64 where "supd_config \<equiv> 3"
abbreviation (input) supd_sup :: u64 where "supd_sup \<equiv> 4"

definition say :: "'w kern \<Rightarrow> u64 \<Rightarrow> bytes \<Rightarrow> 'w \<Rightarrow> 'w option" where
  "say K ep s w = do { (_, w) \<leftarrow> print_split K ep s w; Some w }"

definition audit :: "'w kern \<Rightarrow> bytes \<Rightarrow> bytes \<Rightarrow> 'w \<Rightarrow> 'w option" where
  "audit K head tail w = do { (_, w) \<leftarrow> call K supd_query (pack (take 38 (lit ''log '' @ head @ tail))) w; Some w }"

section \<open>The roster\<close>

definition roster_service :: "bytes \<Rightarrow> service option" where
  "roster_service line =
     (let parts = words_of line in
      if 3 \<le> length parts then
        Some \<lparr>sv_name = (case from_utf8 (parts ! 0) of Some s \<Rightarrow> s | None \<Rightarrow> lit ''?''),
              sv_autostart = parts ! 1 = lit ''autostart'', sv_restart = parts ! 2 = lit ''restart'',
              sv_state = Stopped, sv_failures = 0, sv_restarts = 0\<rparr>
      else None)"

definition parse_count :: "bytes \<Rightarrow> nat option" where
  "parse_count text = from_utf8 text \<bind> (\<lambda>s. parse_usize (str_trim s))"

primrec roster_loop :: "'w kern \<Rightarrow> nat list \<Rightarrow> service list \<Rightarrow> 'w \<Rightarrow> (service list \<times> 'w) option" where
  "roster_loop K [] out w = Some (out, w)"
| "roster_loop K (i # is) out w =
     do {
       (r, w) \<leftarrow> call K supd_query (pack (push_num (lit ''roster '') (of_nat i))) w;
       roster_loop K is
         (case r of
            Inr ws \<Rightarrow> (case roster_service (unpack ws) of Some s \<Rightarrow> out @ [s] | None \<Rightarrow> out)
          | Inl _ \<Rightarrow> out) w
     }"

definition load_roster :: "'w kern \<Rightarrow> 'w \<Rightarrow> (service list \<times> 'w) option" where
  "load_roster K w =
     do {
       (r, w) \<leftarrow> call K supd_query (pack (lit ''roster-count'')) w;
       let count = (case r of Inr ws \<Rightarrow> (case parse_count (unpack ws) of Some n \<Rightarrow> n | None \<Rightarrow> 0) | Inl _ \<Rightarrow> 0);
       roster_loop K [0..<min count MAX_SERVICES] [] w
     }"

definition find_service :: "service list \<Rightarrow> bytes \<Rightarrow> nat option" where
  "find_service services name = position (\<lambda>s. sv_name s = name) services"

section \<open>Fetching and spawning\<close>

text \<open>The transfer loop: 38 bytes a call.\<close>

function fetch_chunks :: "'w kern \<Rightarrow> bytes \<Rightarrow> nat \<Rightarrow> bytes \<Rightarrow> 'w \<Rightarrow> ((u64 + bytes) \<times> 'w) option" where
  "fetch_chunks K name len buf w =
     (if length buf < len then
        do {
          (r, w) \<leftarrow> call K supd_fs (pack (push_num (lit ''chunk '' @ name @ [0x20]) (of_nat (length buf)))) w;
          case r of
            Inl e \<Rightarrow> Some (Inl e, w)
          | Inr ws \<Rightarrow>
              let want = len - length buf;
                  t = min want 38
              in fetch_chunks K name len (buf @ take t (unpack_all ws (replicate 40 0))) w
        }
      else Some (Inr buf, w))"
  by pat_completeness auto
termination
  by (relation "measure (\<lambda>(K, name, len, buf, w). len - length buf)") auto

declare fetch_chunks.simps [simp del]

definition fetch_program :: "'w kern \<Rightarrow> bytes \<Rightarrow> 'w \<Rightarrow> ((u64 + bytes) \<times> 'w) option" where
  "fetch_program K name w =
     do {
       (r, w) \<leftarrow> call K supd_fs (pack (lit ''fetch '' @ name)) w;
       case r of
         Inl e \<Rightarrow> Some (Inl e, w)
       | Inr ws \<Rightarrow>
           (case strip_prefix (unpack ws) (lit ''len '') of
              None \<Rightarrow> Some (Inl 17, w)
            | Some rest \<Rightarrow>
                (case from_utf8 rest of
                   None \<Rightarrow> Some (Inl 17, w)
                 | Some raw_len \<Rightarrow>
                     (case parse_usize (str_trim raw_len) of
                        None \<Rightarrow> Some (Inl 17, w)
                      | Some len \<Rightarrow>
                          if len > 1024 * 1024 then Some (Inl 17, w) else fetch_chunks K name len [] w)))
     }"

text \<open>\<^verbatim>\<open>services[idx]\<close> out of range is a panic.\<close>

definition spawn_service :: "'w kern \<Rightarrow> nat \<Rightarrow> service list \<Rightarrow> 'w \<Rightarrow> (bool \<times> service list \<times> 'w) option" where
  "spawn_service K idx services w =
     (if length services \<le> idx then None
      else let name = sv_name (services ! idx) in
        do {
          (r, w) \<leftarrow> fetch_program K name w;
          case r of
            Inl e \<Rightarrow>
              do {
                w \<leftarrow> say K supd_console (push_num (lit ''[supd] fetch '' @ [0x27] @ name @ [0x27] @ lit '' errno '') e @ [0x0a]) w;
                Some (False, services, w)
              }
          | Inr elf \<Rightarrow>
              do {
                (r, w) \<leftarrow> spawn K elf [(0, R_WRITE), (2, R_WRITE)] w;
                case r of
                  Inr tid \<Rightarrow>
                    do {
                      w \<leftarrow> audit K (lit ''svc-start '' @ name) [] w;
                      Some (True, services[idx := (services ! idx)\<lparr>sv_state := Running tid, sv_failures := 0\<rparr>], w)
                    }
                | Inl _ \<Rightarrow> Some (False, services[idx := (services ! idx)\<lparr>sv_state := Failed\<rparr>], w)
              }
        })"

section \<open>Reaping\<close>

definition exited :: "u64 \<Rightarrow> service \<Rightarrow> bool" where
  "exited tid s \<longleftrightarrow> sv_state s = Running tid"

text \<open>The accounting of an exit: every service that runs as \<open>tid\<close> is stopped, the last one is remembered.\<close>

definition mark_exited :: "u64 \<Rightarrow> service list \<Rightarrow> nat option \<times> service list" where
  "mark_exited tid services =
     (rposition (exited tid) services,
      map (\<lambda>s. if exited tid s then s\<lparr>sv_state := Stopped, sv_failures := sv_failures s + 1\<rparr> else s) services)"

definition backoff_ticks :: "u32 \<Rightarrow> u64" where
  "backoff_ticks failures = min (push_bit (unat (min failures 7)) BASE_BACKOFF_TICKS) MAX_BACKOFF_TICKS"

text \<open>One exit: the clock is read only when the service will be restarted.\<close>

definition reap_one :: "'w kern \<Rightarrow> u64 \<Rightarrow> u64 \<Rightarrow> service list \<Rightarrow> 'w \<Rightarrow> (service list \<times> 'w) option" where
  "reap_one K tid code services w =
     (case mark_exited tid services of
        (None, services) \<Rightarrow>
          do { w \<leftarrow> audit K (push_num (lit ''unknown-child '') tid) [] w; Some (services, w) }
      | (Some i, services) \<Rightarrow>
          (let s = services ! i; backoff = backoff_ticks (sv_failures s) in
           do {
             (st, w) \<leftarrow> (if sv_restart s \<and> sv_failures s \<le> 5
                        then do { (now, w) \<leftarrow> ticks K w; Some (Waiting (now + backoff), w) }
                        else Some (Failed, w));
             w \<leftarrow> audit K (push_num (lit ''svc-exit '' @ sv_name s @ lit '' code '') code) [] w;
             Some (services[i := s\<lparr>sv_state := st\<rparr>], w)
           }))"

partial_function (option) reap_all :: "'w kern \<Rightarrow> service list \<Rightarrow> 'w \<Rightarrow> (service list \<times> 'w) option" where
  "reap_all K services w =
     do {
       (r, w) \<leftarrow> try_wait K w;
       case r of
         Inr (Some (tid, code)) \<Rightarrow> do { (services, w) \<leftarrow> reap_one K tid code services w; reap_all K services w }
       | _ \<Rightarrow> Some (services, w)
     }"

section \<open>Respawning\<close>

primrec respawn_loop :: "'w kern \<Rightarrow> u64 \<Rightarrow> nat list \<Rightarrow> service list \<Rightarrow> u64 \<Rightarrow> 'w \<Rightarrow> (service list \<times> u64 \<times> 'w) option" where
  "respawn_loop K now [] services next_deadline w = Some (services, next_deadline, w)"
| "respawn_loop K now (i # is) services next_deadline w =
     (if length services \<le> i then None
      else case sv_state (services ! i) of
          Waiting at \<Rightarrow>
            if at \<le> now then
              do {
                (_, services, w) \<leftarrow> spawn_service K i services w;
                respawn_loop K now is (services[i := (services ! i)\<lparr>sv_restarts := sv_restarts (services ! i) + 1\<rparr>]) next_deadline w
              }
            else respawn_loop K now is services (min next_deadline at) w
        | _ \<Rightarrow> respawn_loop K now is services next_deadline w)"

section \<open>Operator requests\<close>

definition stop_exited :: "u64 \<Rightarrow> service list \<Rightarrow> service list" where
  "stop_exited tid services = map (\<lambda>s. if exited tid s then s\<lparr>sv_state := Stopped\<rparr> else s) services"

definition drain_one :: "'w kern \<Rightarrow> service list \<Rightarrow> 'w \<Rightarrow> (service list \<times> 'w) option" where
  "drain_one K services w =
     do {
       (r, w) \<leftarrow> try_wait K w;
       case r of
         Inr (Some (tid, _)) \<Rightarrow> Some (stop_exited tid services, w)
       | _ \<Rightarrow>
           do {
             (_, w) \<leftarrow> sleep K 2 w;
             (r, w) \<leftarrow> try_wait K w;
             Some (case r of Inr (Some (tid, _)) \<Rightarrow> stop_exited tid services | _ \<Rightarrow> services, w)
           }
     }"

fun state_text :: "svc_state \<Rightarrow> bytes" where
  "state_text (Running _) = lit ''running''"
| "state_text Stopped = lit ''stopped''"
| "state_text (Waiting _) = lit ''backoff''"
| "state_text Failed = lit ''FAILED''"

definition status_line :: "service \<Rightarrow> bytes" where
  "status_line s =
     push_num (push_num (sv_name s @ [0x20] @ state_text (sv_state s) @ lit '' r='') (sv_restarts s) @ lit '' f='')
       (ucast (sv_failures s))"

definition start_reply :: "bool \<Rightarrow> bytes" where
  "start_reply ok = (if ok then lit ''ok started'' else lit ''err: spawn failed'')"

definition op_restart :: "'w kern \<Rightarrow> bytes \<Rightarrow> service list \<Rightarrow> 'w \<Rightarrow> (bytes \<times> service list \<times> 'w) option" where
  "op_restart K name services w =
     (case find_service services name of
        None \<Rightarrow> Some (lit ''err: unknown'', services, w)
      | Some idx \<Rightarrow>
          (let s = services ! idx in
           case sv_state s of
             Running tid \<Rightarrow>
               do {
                 (_, w) \<leftarrow> kill K tid w;
                 (now, w) \<leftarrow> ticks K w;
                 (services, w) \<leftarrow> drain_one K
                   (services[idx := s\<lparr>sv_restart := True, sv_failures := 0, sv_state := Waiting (now + 1)\<rparr>]) w;
                 Some (lit ''ok restarting'', services, w)
               }
           | _ \<Rightarrow>
               do {
                 (ok, services, w) \<leftarrow> spawn_service K idx (services[idx := s\<lparr>sv_failures := 0, sv_restart := True\<rparr>]) w;
                 Some (start_reply ok, services, w)
               }))"

definition op_stop :: "'w kern \<Rightarrow> bytes \<Rightarrow> service list \<Rightarrow> 'w \<Rightarrow> (bytes \<times> service list \<times> 'w) option" where
  "op_stop K name services w =
     (case find_service services name of
        None \<Rightarrow> Some (lit ''err: unknown'', services, w)
      | Some idx \<Rightarrow>
          (let s = services ! idx; services = services[idx := s\<lparr>sv_restart := False\<rparr>] in
           case sv_state s of
             Running tid \<Rightarrow>
               do {
                 (_, w) \<leftarrow> kill K tid w;
                 (services, w) \<leftarrow> drain_one K services w;
                 Some (lit ''ok stopping'', services, w)
               }
           | _ \<Rightarrow> Some (lit ''ok already-down'', services, w)))"

definition op_start :: "'w kern \<Rightarrow> bytes \<Rightarrow> service list \<Rightarrow> 'w \<Rightarrow> (bytes \<times> service list \<times> 'w) option" where
  "op_start K name services w =
     (case find_service services name of
        None \<Rightarrow> Some (lit ''err: unknown'', services, w)
      | Some idx \<Rightarrow>
          (let s = services ! idx; services = services[idx := s\<lparr>sv_restart := True, sv_failures := 0\<rparr>] in
           case sv_state s of
             Running _ \<Rightarrow> Some (lit ''ok already-up'', services, w)
           | _ \<Rightarrow>
               do {
                 (ok, services, w) \<leftarrow> spawn_service K idx services w;
                 Some (start_reply ok, services, w)
               }))"

text \<open>A request handed on to the storage service.\<close>

definition op_storage :: "'w kern \<Rightarrow> bytes \<Rightarrow> service list \<Rightarrow> 'w \<Rightarrow> (bytes \<times> service list \<times> 'w) option" where
  "op_storage K req services w =
     do {
       (r, w) \<leftarrow> call K supd_config (pack req) w;
       Some (case r of Inr ws \<Rightarrow> unpack ws | Inl e \<Rightarrow> push_num (lit ''err: storage '') e, services, w)
     }"

definition op_status :: "bytes \<Rightarrow> service list \<Rightarrow> bytes" where
  "op_status rest services =
     (let idx = (case from_utf8 (trim rest) \<bind> parse_usize of Some i \<Rightarrow> i | None \<Rightarrow> 2 ^ 64 - 1) in
      if idx < length services then status_line (services ! idx) else lit ''err: range'')"

definition handle_op :: "'w kern \<Rightarrow> bytes \<Rightarrow> service list \<Rightarrow> 'w \<Rightarrow> (bytes \<times> service list \<times> 'w) option" where
  "handle_op K req services w =
     (if req = lit ''status-count'' then Some (push_num [] (of_nat (length services)), services, w)
      else case strip_prefix req (lit ''status '') of
        Some rest \<Rightarrow> Some (op_status rest services, services, w)
      | None \<Rightarrow> (case strip_prefix req (lit ''restart '') of
        Some rest \<Rightarrow> op_restart K (trim rest) services w
      | None \<Rightarrow> (case strip_prefix req (lit ''stop '') of
        Some rest \<Rightarrow> op_stop K (trim rest) services w
      | None \<Rightarrow> (case strip_prefix req (lit ''start '') of
        Some rest \<Rightarrow> op_start K (trim rest) services w
      | None \<Rightarrow>
          if req = lit ''update'' then op_storage K (lit ''begin-update'') services w
          else if req = lit ''install-app'' \<or> strip_prefix req (lit ''remove-app '') \<noteq> None
            then op_storage K req services w
          else Some (lit ''err: op?'', services, w)))))"

section \<open>The loop\<close>

text \<open>One round of \<^verbatim>\<open>supervise\<close>: \<open>Inl\<close> is the exit code.\<close>

definition supervise_step :: "'w kern \<Rightarrow> service list \<Rightarrow> 'w \<Rightarrow> ((u64 + service list) \<times> 'w) option" where
  "supervise_step K services w =
     do {
       (services, w) \<leftarrow> reap_all K services w;
       (now, w) \<leftarrow> ticks K w;
       (services, next_deadline, w) \<leftarrow> respawn_loop K now [0..<length services] services 0xffffffffffffffff w;
       let deadline = min next_deadline (now + 200);
       (r, w) \<leftarrow> recv_until K supd_sup (max deadline (now + 1)) w;
       case r of
         Inr (_, ws) \<Rightarrow>
           do {
             (out, services, w) \<leftarrow> handle_op K (unpack ws) services w;
             (_, w) \<leftarrow> reply K supd_sup (pack out) w;
             Some (Inr services, w)
           }
       | Inl e \<Rightarrow> Some (if e = 10 then Inr services else Inl e, w)
     }"

primrec autostart_loop :: "'w kern \<Rightarrow> nat list \<Rightarrow> service list \<Rightarrow> 'w \<Rightarrow> (service list \<times> 'w) option" where
  "autostart_loop K [] services w = Some (services, w)"
| "autostart_loop K (i # is) services w =
     (if length services \<le> i then None
      else if sv_autostart (services ! i) then
        do { (_, services, w) \<leftarrow> spawn_service K i services w; autostart_loop K is services w }
      else autostart_loop K is services w)"

text \<open>\<^verbatim>\<open>main\<close> up to the supervision loop.\<close>

definition supd_start :: "'w kern \<Rightarrow> 'w \<Rightarrow> (service list \<times> 'w) option" where
  "supd_start K w =
     do {
       (_, w) \<leftarrow> set_own_name K (lit ''supd'') w;
       w \<leftarrow> say K supd_console (lit ''[supd] starting'' @ [0x0a]) w;
       (services, w) \<leftarrow> load_roster K w;
       autostart_loop K [0..<length services] services w
     }"

end
