(* ===== verification/Storaged.thy ===== *)
theory Storaged
  imports Layout Ed25519 Userlib
begin

text \<open>
  The storage service, \<^verbatim>\<open>servers/storaged/src/main.rs\<close>: mounting with rollback, slot and application validation,
  the audit log, runtime configuration, updates, the application store, and the two request endpoints.

  The static \<^verbatim>\<open>WORKSPACE\<close> buffer is a component of the state. The pinned key file and the update agent are
  included by the build: they are the argument \<open>img\<close>. \<open>None\<close> is a panic or a system call that does not return.
  The capability slots are those of \<^verbatim>\<open>main\<close>: console 0, query 1, configuration 2, disk 3.
\<close>

section \<open>State\<close>

definition SLOT_PAYLOAD_SECTORS :: u64 where [consts_def]: "SLOT_PAYLOAD_SECTORS = of_nat (PAYLOAD_CAP div SECTOR)"

definition FACTORY_PAYLOAD :: bytes where
  "FACTORY_PAYLOAD =
     lit ''# redoubt system definition v1'' @ [0x0a] @ lit ''device-id=redoubt-dev-01'' @ [0x0a] @
     lit ''min-generation=1'' @ [0x0a] @ lit ''service heart autostart restart'' @ [0x0a]"

definition FACTORY_CONFIG :: bytes where
  "FACTORY_CONFIG = lit ''hostname=redoubt-dev-01'' @ [0x0a]"

record storaged_image =
  PUB_KEY_BYTES :: bytes
  UPDATED_ELF :: bytes

definition pub_key :: "bytes \<Rightarrow> bytes" where
  "pub_key file =
     (let hex = str_trim (case from_utf8 file of Some s \<Rightarrow> s | None \<Rightarrow> [])
      in map (\<lambda>i. case hex_byte hex i of Some b \<Rightarrow> b | None \<Rightarrow> 0) [0..<32])"

record roster_entry =
  re_name :: bytes
  re_autostart :: bool
  re_restart :: bool

record app_entry =
  ae_slot :: u8
  ae_name :: bytes
  ae_name_len :: nat
  ae_payload_len :: nat
  ae_version :: u64
  ae_payload_sha :: bytes
  ae_signature :: bytes

record storaged =
  s_recovery :: bool
  s_block :: "u64 option"
  s_vol_key :: bytes
  s_active :: "slot_id option"
  s_generation :: u64
  s_payload :: bytes
  s_overrides :: bytes
  s_cfg_gen :: u64
  s_roster :: "roster_entry list"
  s_device_id :: bytes
  s_audit_seq :: u64
  s_audit_prev :: bytes
  s_pubkey :: bytes
  s_apps :: "app_entry list"
  s_cached_app :: "app_entry option"
  s_workspace :: bytes

section \<open>Utilities\<close>

definition storaged_say :: "'w kern \<Rightarrow> bytes \<Rightarrow> 'w \<Rightarrow> 'w option" where
  "storaged_say K s w = do { (_, w) \<leftarrow> print_split K 0 (s @ [0x0a]) w; Some w }"

definition probe_block_cap :: "'w kern \<Rightarrow> 'w \<Rightarrow> (u64 option \<times> 'w) option" where
  "probe_block_cap K w = do { (r, w) \<leftarrow> derive_block K 3 R_READ 0 1 w; Some (if isl r then None else Some 3, w) }"

definition roster_line :: "bytes \<Rightarrow> roster_entry option" where
  "roster_line raw =
     (let line = trim raw in
      if line = [] \<or> line ! 0 = 0x23 then None
      else case strip_prefix line (lit ''service '') of
          None \<Rightarrow> None
        | Some rest \<Rightarrow>
            (let parts = words_of rest in
             if 3 \<le> length parts then
               Some \<lparr>re_name = (case from_utf8 (parts ! 0) of Some s \<Rightarrow> s | None \<Rightarrow> lit ''?''),
                     re_autostart = parts ! 1 = lit ''autostart'', re_restart = parts ! 2 = lit ''restart''\<rparr>
             else None))"

definition parse_roster :: "bytes \<Rightarrow> roster_entry list" where
  "parse_roster payload = List.map_filter roster_line (split_on 0x0a payload)"

text \<open>The value of a \<open>key=value\<close> line for \<open>key\<close>.\<close>

definition kv_line :: "bytes \<Rightarrow> bytes \<Rightarrow> bytes option" where
  "kv_line key line =
     (case position (\<lambda>c. c = 0x3d) line of
        Some eq \<Rightarrow> if take eq line = key then Some (trim (drop (eq + 1) line)) else None
      | None \<Rightarrow> None)"

primrec find_kv_lines :: "bytes \<Rightarrow> bytes list \<Rightarrow> bytes option" where
  "find_kv_lines key [] = None"
| "find_kv_lines key (raw # ls) =
     (let line = trim raw in
      if line = [] \<or> line ! 0 = 0x23 then find_kv_lines key ls
      else case kv_line key line of Some v \<Rightarrow> Some v | None \<Rightarrow> find_kv_lines key ls)"

definition find_kv :: "bytes \<Rightarrow> bytes \<Rightarrow> bytes option" where
  "find_kv payload key = find_kv_lines key (split_on 0x0a payload)"

primrec override_lines :: "bytes \<Rightarrow> bytes list \<Rightarrow> bytes option" where
  "override_lines key [] = None"
| "override_lines key (raw # ls) =
     (case kv_line key (trim raw) of Some v \<Rightarrow> Some v | None \<Rightarrow> override_lines key ls)"

definition lookup_kv :: "storaged \<Rightarrow> bytes \<Rightarrow> bytes option" where
  "lookup_kv st key =
     (case override_lines key (split_on 0x0a (s_overrides st)) of
        Some v \<Rightarrow> Some v
      | None \<Rightarrow> find_kv (s_payload st) key)"

definition br :: "'w kern \<Rightarrow> u64 \<Rightarrow> u64 \<Rightarrow> u16 \<Rightarrow> bytes \<Rightarrow> 'w \<Rightarrow> ((bool \<times> bytes) \<times> 'w) option" where
  "br K cap lba sectors buf w =
     do { ((r, buf), w) \<leftarrow> block_read K cap lba sectors buf w; Some ((\<not> isl r, buf), w) }"

definition bw :: "'w kern \<Rightarrow> u64 \<Rightarrow> u64 \<Rightarrow> u16 \<Rightarrow> bytes \<Rightarrow> 'w \<Rightarrow> (bool \<times> 'w) option" where
  "bw K cap lba sectors buf w = do { (r, w) \<leftarrow> block_write K cap lba sectors buf w; Some (\<not> isl r, w) }"

definition sector_zeros :: bytes where
  "sector_zeros = replicate SECTOR 0"

section \<open>Slot validation\<close>

text \<open>The sectors that hold \<open>n\<close> bytes.\<close>

definition sectors_for :: "nat \<Rightarrow> nat" where
  "sectors_for n = (n + SECTOR - 1) div SECTOR"

lemma sectors_for_bounds: "0 < n \<Longrightarrow> n \<le> 8 * SECTOR \<Longrightarrow> 0 < sectors_for n \<and> sectors_for n \<le> 8"
  by (simp add: sectors_for_def SECTOR_def) linarith

text \<open>
  The streaming loop of \<^verbatim>\<open>validate_and_load\<close>: read, authenticate the ciphertext, decrypt in place. The
  result is the running MAC, or nothing when a read fails; the buffer comes back in both cases.
\<close>

function load_loop :: "'w kern \<Rightarrow> u64 \<Rightarrow> bytes \<Rightarrow> bytes \<Rightarrow> nat \<Rightarrow> u64 \<Rightarrow> nat \<Rightarrow> hmac \<Rightarrow> bytes \<Rightarrow> 'w \<Rightarrow>
    ((hmac option \<times> bytes) \<times> 'w) option" where
  "load_loop K cap key nonce len lba done h out w =
     (if done < len then
        let t = min (len - done) (8 * SECTOR);
            n = sectors_for t * SECTOR
        in if length out < done + n then None
           else do {
             ((ok, buf), w) \<leftarrow> br K cap lba (of_nat (sectors_for t)) (rslice out done (done + n)) w;
             if \<not> ok then Some ((None, copy_at out done buf), w)
             else let h = hmac_update (take t buf) h;
                      buf = copy_at buf 0 (xor_stream key (of_nat (done div 64)) nonce (take t buf))
                  in load_loop K cap key nonce len (lba + of_nat (sectors_for t)) (done + t) h (copy_at out done buf) w
           }
      else Some ((Some h, out), w))"
  by pat_completeness auto
termination
  by (relation "measure (\<lambda>(K, cap, key, nonce, len, lba, done, h, out, w). len - done)") (auto simp: SECTOR_def)

declare load_loop.simps [simp del]

definition validate_and_load ::
    "'w kern \<Rightarrow> u64 \<Rightarrow> bytes \<Rightarrow> slot_id \<Rightarrow> bytes \<Rightarrow> bytes \<Rightarrow> 'w \<Rightarrow> (((nat \<times> u64) option \<times> bytes) \<times> 'w) option" where
  "validate_and_load K cap key slot pubkey out w =
     do {
       ((ok, hdr_sec), w) \<leftarrow> br K cap (hdr_lba slot) 1 sector_zeros w;
       if \<not> ok then Some ((None, out), w)
       else case parse_slot_header hdr_sec of
           None \<Rightarrow> Some ((None, out), w)
         | Some hdr \<Rightarrow>
             (let len = unat (sh_payload_len hdr) in
              if sh_state hdr \<noteq> SLOT_STATE_VALID then Some ((None, out), w)
              else if len = 0 \<or> len > PAYLOAD_CAP \<or> length out < len then Some ((None, out), w)
              else do {
                h \<leftarrow> hmac_new key;
                let h = hmac_update (take HDR_MAC_OFF hdr_sec) h;
                ((r, out), w) \<leftarrow> load_loop K cap key (seal_nonce (sh_generation hdr)) len (payload_lba slot) 0 h out w;
                case r of
                  None \<Rightarrow> Some ((None, out), w)
                | Some h \<Rightarrow>
                    do {
                      expect_mac \<leftarrow> hmac_finalize h;
                      if \<not> constant_time_eq expect_mac (rslice hdr_sec HDR_MAC_OFF (HDR_MAC_OFF + 32)) then Some ((None, out), w)
                      else do {
                        digest \<leftarrow> sha256 (take len out);
                        if \<not> constant_time_eq digest (sh_payload_sha hdr) then Some ((None, out), w)
                        else do {
                          v \<leftarrow> verify pubkey (take len out) (sh_signature hdr);
                          if v \<noteq> Inr () then Some ((None, out), w)
                          else Some ((Some (len, sh_generation hdr), out), w)
                        }
                      }
                    }
              })
     }"

definition slot_validates :: "'w kern \<Rightarrow> u64 \<Rightarrow> bytes \<Rightarrow> slot_id option \<Rightarrow> storaged \<Rightarrow> 'w \<Rightarrow> (bool \<times> storaged \<times> 'w) option" where
  "slot_validates K cap key slot st w =
     (case slot of
        None \<Rightarrow> Some (False, st, w)
      | Some slot \<Rightarrow>
          do {
            ((r, ws), w) \<leftarrow> validate_and_load K cap key slot (s_pubkey st) (s_workspace st) w;
            Some (r \<noteq> None, st\<lparr>s_workspace := ws\<rparr>, w)
          })"

definition zero_header :: "'w kern \<Rightarrow> u64 \<Rightarrow> slot_id \<Rightarrow> 'w \<Rightarrow> 'w option" where
  "zero_header K cap slot w = do { (_, w) \<leftarrow> bw K cap (hdr_lba slot) 1 sector_zeros w; Some w }"

section \<open>The application store\<close>

definition alphanumeric :: "u8 \<Rightarrow> bool" where
  "alphanumeric b \<longleftrightarrow> 0x30 \<le> b \<and> b \<le> 0x39 \<or> 0x41 \<le> b \<and> b \<le> 0x5a \<or> 0x61 \<le> b \<and> b \<le> 0x7a"

definition app_name_valid :: "bytes \<Rightarrow> bool" where
  "app_name_valid name \<longleftrightarrow> name \<noteq> [] \<and> length name \<le> APP_NAME_MAX \<and> list_all (\<lambda>b. alphanumeric b \<or> b = 0x2d) name"

definition app_entry_from_header :: "app_header \<Rightarrow> app_entry" where
  "app_entry_from_header h =
     \<lparr>ae_slot = ah_slot h, ae_name = ah_name h, ae_name_len = ah_name_len h, ae_payload_len = ah_payload_len h,
      ae_version = ah_version h, ae_payload_sha = ah_payload_sha h, ae_signature = ah_signature h\<rparr>"

definition entry_name :: "app_entry \<Rightarrow> bytes" where
  "entry_name e = take (ae_name_len e) (ae_name e)"

definition same_app_name :: "app_entry \<Rightarrow> bytes \<Rightarrow> bool" where
  "same_app_name e name \<longleftrightarrow> ae_name_len e = length name \<and> entry_name e = name"

text \<open>\<^verbatim>\<open>max_by_key\<close> returns the last of several maxima.\<close>

fun max_version :: "app_entry list \<Rightarrow> app_entry option" where
  "max_version [] = None"
| "max_version (a # as) =
     (case max_version as of
        None \<Rightarrow> Some a
      | Some b \<Rightarrow> if ae_version a \<le> ae_version b then Some b else Some a)"

definition best_app :: "storaged \<Rightarrow> bytes \<Rightarrow> app_entry option" where
  "best_app st name = max_version (filter (\<lambda>a. same_app_name a name) (s_apps st))"

function app_load_loop :: "'w kern \<Rightarrow> u64 \<Rightarrow> bytes \<Rightarrow> bytes \<Rightarrow> nat \<Rightarrow> u64 \<Rightarrow> nat \<Rightarrow> hmac \<Rightarrow> bytes \<Rightarrow> 'w \<Rightarrow>
    ((hmac option \<times> bytes) \<times> 'w) option" where
  "app_load_loop K cap key nonce len lba done h out w =
     (if done < len then
        let t = min (len - done) (8 * SECTOR);
            n = sectors_for t * SECTOR
        in if length out < done + n then None
           else do {
             ((ok, buf), w) \<leftarrow> br K cap (lba + 1 + of_nat (done div SECTOR)) (of_nat (sectors_for t)) (rslice out done (done + n)) w;
             if \<not> ok then
               do {
                 (_, w) \<leftarrow> debug_write K (lit ''[storaged] app payload read failed'' @ [0x0a]) w;
                 Some ((None, copy_at out done buf), w)
               }
             else let h = hmac_update (take t buf) h;
                      buf = copy_at buf 0 (xor_stream key (of_nat (done div 64)) nonce (take t buf))
                  in app_load_loop K cap key nonce len lba (done + t) h (copy_at out done buf) w
           }
      else Some ((Some h, out), w))"
  by pat_completeness auto
termination
  by (relation "measure (\<lambda>(K, cap, key, nonce, len, lba, done, h, out, w). len - done)") (auto simp: SECTOR_def)

declare app_load_loop.simps [simp del]

text \<open>A refusal with its line on the debug console.\<close>

definition app_refused :: "'w kern \<Rightarrow> string \<Rightarrow> bytes \<Rightarrow> 'w \<Rightarrow> ((app_entry option \<times> bytes) \<times> 'w) option" where
  "app_refused K why out w = do { (_, w) \<leftarrow> debug_write K (lit ''[storaged] app '' @ lit why @ [0x0a]) w; Some ((None, out), w) }"

definition validate_and_load_app ::
    "'w kern \<Rightarrow> u64 \<Rightarrow> bytes \<Rightarrow> u8 \<Rightarrow> bytes \<Rightarrow> bytes \<Rightarrow> 'w \<Rightarrow> ((app_entry option \<times> bytes) \<times> 'w) option" where
  "validate_and_load_app K cap key slot pubkey out w =
     (case app_slot_lba slot of
        None \<Rightarrow> Some ((None, out), w)
      | Some lba \<Rightarrow>
          do {
            ((ok, hdr_sec), w) \<leftarrow> br K cap lba 1 sector_zeros w;
            if \<not> ok then app_refused K ''header read failed'' out w
            else case parse_app_header hdr_sec of
                None \<Rightarrow> Some ((None, out), w)
              | Some hdr \<Rightarrow>
                  (let name = take (ah_name_len hdr) (ah_name hdr); len = ah_payload_len hdr in
                   if ah_slot hdr \<noteq> slot \<or> \<not> app_name_valid name \<or> length out < len
                   then app_refused K ''header invalid'' out w
                   else do {
                     h \<leftarrow> hmac_new key;
                     let h = hmac_update (take APP_HDR_MAC_OFF hdr_sec) h;
                     ((r, out), w) \<leftarrow> app_load_loop K cap key (app_nonce slot (ah_version hdr)) len lba 0 h out w;
                     case r of
                       None \<Rightarrow> Some ((None, out), w)
                     | Some h \<Rightarrow>
                         do {
                           mac \<leftarrow> hmac_finalize h;
                           if \<not> constant_time_eq mac (rslice hdr_sec APP_HDR_MAC_OFF APP_HDR_MAC_END)
                           then app_refused K ''MAC invalid'' out w
                           else do {
                             digest \<leftarrow> sha256 (take len out);
                             if \<not> constant_time_eq digest (ah_payload_sha hdr) then app_refused K ''digest invalid'' out w
                             else do {
                               v \<leftarrow> verify pubkey (app_signing_message name (ah_version hdr) len (ah_payload_sha hdr)) (ah_signature hdr);
                               if v \<noteq> Inr () then app_refused K ''signature invalid'' out w
                               else Some ((Some (app_entry_from_header hdr), out), w)
                             }
                           }
                         }
                   })
          })"

primrec load_apps_loop :: "'w kern \<Rightarrow> u64 \<Rightarrow> u8 list \<Rightarrow> storaged \<Rightarrow> 'w \<Rightarrow> (storaged \<times> 'w) option" where
  "load_apps_loop K cap [] st w = Some (st, w)"
| "load_apps_loop K cap (slot # slots) st w =
     do {
       ((r, ws), w) \<leftarrow> validate_and_load_app K cap (s_vol_key st) slot (s_pubkey st) (s_workspace st) w;
       let st = st\<lparr>s_workspace := ws\<rparr>;
       load_apps_loop K cap slots (case r of Some e \<Rightarrow> st\<lparr>s_apps := s_apps st @ [e]\<rparr> | None \<Rightarrow> st) w
     }"

definition load_apps :: "'w kern \<Rightarrow> u64 \<Rightarrow> storaged \<Rightarrow> 'w \<Rightarrow> (storaged \<times> 'w) option" where
  "load_apps K cap st w =
     load_apps_loop K cap (map of_nat [0..<APP_SLOTS]) (st\<lparr>s_apps := [], s_cached_app := None\<rparr>) w"

definition app_unique_count :: "storaged \<Rightarrow> nat" where
  "app_unique_count st =
     length (filter (\<lambda>i. \<not> list_ex (\<lambda>old. same_app_name old (entry_name (s_apps st ! i))) (take i (s_apps st)))
       [0..<length (s_apps st)])"

definition app_at_index :: "storaged \<Rightarrow> nat \<Rightarrow> app_entry option" where
  "app_at_index st want =
     (let shown = filter (\<lambda>e. map_option ae_slot (best_app st (entry_name e)) = Some (ae_slot e)) (s_apps st)
      in if want < length shown then Some (shown ! want) else None)"

definition is_cached :: "storaged \<Rightarrow> app_entry \<Rightarrow> bool" where
  "is_cached st e =
     (case s_cached_app st of
        Some c \<Rightarrow> ae_slot c = ae_slot e \<and> ae_version c = ae_version e
      | None \<Rightarrow> False)"

definition cache_app :: "'w kern \<Rightarrow> storaged \<Rightarrow> bytes \<Rightarrow> 'w \<Rightarrow> (app_entry option \<times> storaged \<times> 'w) option" where
  "cache_app K st name w =
     (case best_app st name of
        None \<Rightarrow> Some (None, st, w)
      | Some entry \<Rightarrow>
          if is_cached st entry then Some (s_cached_app st, st, w)
          else case s_block st of
              None \<Rightarrow> Some (None, st, w)
            | Some cap \<Rightarrow>
                do {
                  ((r, ws), w) \<leftarrow> validate_and_load_app K cap (s_vol_key st) (ae_slot entry) (s_pubkey st) (s_workspace st) w;
                  let st = st\<lparr>s_workspace := ws\<rparr>;
                  case r of
                    None \<Rightarrow> Some (None, st, w)
                  | Some loaded \<Rightarrow>
                      if ae_version loaded \<noteq> ae_version entry \<or> ae_payload_sha loaded \<noteq> ae_payload_sha entry
                      then Some (None, st, w)
                      else Some (Some loaded, st\<lparr>s_cached_app := Some loaded\<rparr>, w)
                })"

definition parse_app_chunk_req :: "bytes \<Rightarrow> (bytes \<times> nat) option" where
  "parse_app_chunk_req rest =
     do {
       split \<leftarrow> rposition (\<lambda>b. b = 0x20) rest;
       off \<leftarrow> from_utf8 (trim (drop (split + 1) rest)) \<bind> parse_usize;
       Some (trim (take split rest), off)
     }"

definition app_info :: "'w kern \<Rightarrow> storaged \<Rightarrow> bytes \<Rightarrow> 'w \<Rightarrow> (bytes \<times> storaged \<times> 'w) option" where
  "app_info K st name w =
     do {
       (r, st, w) \<leftarrow> cache_app K st name w;
       Some (case r of
               Some entry \<Rightarrow> push_num (push_num (lit ''len '') (of_nat (ae_payload_len entry)) @ lit '' ver '') (ae_version entry)
             | None \<Rightarrow> lit ''err: no app'', st, w)
     }"

definition app_hash :: "storaged \<Rightarrow> bytes \<Rightarrow> bytes" where
  "app_hash st name = (case best_app st name of Some entry \<Rightarrow> ae_payload_sha entry | None \<Rightarrow> lit ''err: no app'')"

definition app_sig :: "storaged \<Rightarrow> bytes \<Rightarrow> nat \<Rightarrow> bytes" where
  "app_sig st name off =
     (case best_app st name of
        None \<Rightarrow> lit ''err: no app''
      | Some entry \<Rightarrow>
          if length (ae_signature entry) \<le> off then []
          else let t = min (length (ae_signature entry) - off) 40
               in copy_at (replicate 40 0) 0 (rslice (ae_signature entry) off (off + t)))"

definition app_chunk :: "'w kern \<Rightarrow> storaged \<Rightarrow> bytes \<Rightarrow> nat \<Rightarrow> 'w \<Rightarrow> (bytes \<times> storaged \<times> 'w) option" where
  "app_chunk K st name off w =
     do {
       (r, st, w) \<leftarrow> cache_app K st name w;
       case r of
         None \<Rightarrow> Some (lit ''err: no app'', st, w)
       | Some entry \<Rightarrow>
           if ae_payload_len entry \<le> off then Some ([], st, w)
           else let t = min (ae_payload_len entry - off) 40 in
             do {
               bs \<leftarrow> slice_chk (s_workspace st) off (off + t);
               Some (copy_at (replicate 40 0) 0 bs, st, w)
             }
     }"

definition target_app_slot :: "storaged \<Rightarrow> bytes \<Rightarrow> u8 option" where
  "target_app_slot st name =
     (case best_app st name of
        Some current \<Rightarrow> app_peer_slot (ae_slot current)
      | None \<Rightarrow> List.find (\<lambda>first. \<not> list_ex (\<lambda>a. ae_slot a = first \<or> ae_slot a = first + 1) (s_apps st)) [0, 2, 4, 6])"

section \<open>Audit log\<close>

text \<open>\<open>left\<close> counts the records that the log has room for.\<close>

fun scan_loop :: "'w kern \<Rightarrow> u64 \<Rightarrow> nat \<Rightarrow> bytes \<Rightarrow> u64 \<Rightarrow> bytes \<Rightarrow> 'w \<Rightarrow> (u64 \<times> bytes \<times> 'w) option" where
  "scan_loop K cap 0 sec seq prev w = Some (seq, prev, w)"
| "scan_loop K cap (Suc left) sec seq prev w =
     do {
       ((ok, sec), w) \<leftarrow> br K cap (AUDIT_START_LBA + seq) 1 sec w;
       if \<not> ok then Some (seq, prev, w)
       else do {
         c \<leftarrow> check_audit_record sec seq prev;
         case c of
           AuditValid _ \<Rightarrow> scan_loop K cap left sec (seq + 1) (rslice sec AUD_DIGEST_OFF (AUD_DIGEST_OFF + 32)) w
         | _ \<Rightarrow> Some (seq, prev, w)
       }
     }"

definition scan_audit :: "'w kern \<Rightarrow> u64 \<Rightarrow> storaged \<Rightarrow> 'w \<Rightarrow> (storaged \<times> 'w) option" where
  "scan_audit K cap st w =
     do {
       (seq, prev, w) \<leftarrow> scan_loop K cap AUDIT_RECORDS sector_zeros 0 (replicate 32 0) w;
       Some (st\<lparr>s_audit_seq := seq, s_audit_prev := prev\<rparr>, w)
     }"

definition audit_raw :: "'w kern \<Rightarrow> bytes \<Rightarrow> storaged \<Rightarrow> 'w \<Rightarrow> (storaged \<times> 'w) option" where
  "audit_raw K txt st w =
     (case s_block st of
        None \<Rightarrow> Some (st, w)
      | Some cap \<Rightarrow>
          if AUDIT_RECORDS \<le> unat (s_audit_seq st) then Some (st, w)
          else do {
            (tick, w) \<leftarrow> ticks K w;
            (rec, digest) \<leftarrow> write_audit_record sector_zeros (s_audit_seq st) tick 1 0 (take AUD_DATA_MAX txt) (s_audit_prev st);
            (ok, w) \<leftarrow> bw K cap (AUDIT_START_LBA + s_audit_seq st) 1 rec w;
            Some (if ok then st\<lparr>s_audit_seq := s_audit_seq st + 1, s_audit_prev := digest\<rparr> else st, w)
          })"

definition read_audit_record :: "'w kern \<Rightarrow> storaged \<Rightarrow> u64 \<Rightarrow> 'w \<Rightarrow> (bytes \<times> 'w) option" where
  "read_audit_record K st seq w =
     (case s_block st of
        None \<Rightarrow> Some (lit ''err: novol'', w)
      | Some cap \<Rightarrow>
          if s_audit_seq st \<le> seq then Some (lit ''err: range'', w)
          else do {
            ((ok, sec), w) \<leftarrow> br K cap (AUDIT_START_LBA + seq) 1 sector_zeros w;
            if \<not> ok then Some (lit ''err: io'', w)
            else let rec_seq = from_le (rslice sec 4 12);
                     tick = from_le (rslice sec 12 20);
                     dlen = unat (from_le (rslice sec 22 24) :: u16);
                     data = rslice sec 56 (56 + min dlen AUD_DATA_MAX)
                 in Some (take 38 (push_num (push_num [] rec_seq @ [0x20]) tick @ [0x20] @ data), w)
          })"

section \<open>Mounting\<close>

definition slot_letter :: "slot_id \<Rightarrow> u8" where
  "slot_letter s = (if slot_num s = 1 then 0x41 else 0x42)"

text \<open>Validation of the active slot with rollback to the other one: the slot to mount, if any.\<close>

definition mount_choose :: "'w kern \<Rightarrow> u64 \<Rightarrow> bytes \<Rightarrow> slot_id option \<Rightarrow> storaged \<Rightarrow> 'w \<Rightarrow> (slot_id option \<times> storaged \<times> 'w) option" where
  "mount_choose K cap key active st w =
     do {
       (ok, st, w) \<leftarrow> slot_validates K cap key active st w;
       if ok then Some (active, st, w)
       else case active of
           None \<Rightarrow> Some (None, st, w)
         | Some a \<Rightarrow>
             do {
               w \<leftarrow> zero_header K cap a w;
               (st, w) \<leftarrow> scan_audit K cap st w;
               (st, w) \<leftarrow> audit_raw K (lit ''rollback slot '' @ [slot_letter a]) st w;
               w \<leftarrow> storaged_say K (lit ''[store] active invalid; rollback'') w;
               (ok, st, w) \<leftarrow> slot_validates K cap key (Some (slot_other a)) st w;
               Some (if ok then Some (slot_other a) else None, st, w)
             }
     }"

definition mount_config :: "'w kern \<Rightarrow> u64 \<Rightarrow> bytes \<Rightarrow> storaged \<Rightarrow> 'w \<Rightarrow> (storaged \<times> 'w) option" where
  "mount_config K cap sec st w =
     do {
       ((ok, sec), w) \<leftarrow> br K cap CONFIG_LBA 1 sec w;
       if \<not> (ok \<and> rslice sec 0 8 = CFG_MAGIC) then Some (st, w)
       else do {
         expect_mac \<leftarrow> hmac_oneshot (s_vol_key st) (take 448 sec);
         if constant_time_eq expect_mac (rslice sec 448 480) then
           Some (case parse_config sec of
                   Some (_, gen, txt) \<Rightarrow> st\<lparr>s_overrides := txt, s_cfg_gen := gen\<rparr>
                 | None \<Rightarrow> st, w)
         else do {
           (st, w) \<leftarrow> scan_audit K cap st w;
           (st, w) \<leftarrow> audit_raw K (lit ''cfg tamper ignored'') st w;
           w \<leftarrow> storaged_say K (lit ''[storaged] config blob corrupt: defaults in effect'') w;
           Some (st, w)
         }
       }
     }"

text \<open>The state once the payload \<open>plain\<close> of generation \<open>gen\<close> in \<open>slot\<close> is accepted.\<close>

definition mounted :: "bytes \<Rightarrow> slot_id \<Rightarrow> u64 \<Rightarrow> bytes \<Rightarrow> storaged \<Rightarrow> storaged" where
  "mounted key slot gen plain st =
     st\<lparr>s_vol_key := key, s_active := Some slot, s_generation := gen, s_payload := plain,
        s_roster := parse_roster plain,
        s_device_id := (case find_kv plain (lit ''device-id'') of Some v \<Rightarrow> v | None \<Rightarrow> lit ''?''),
        s_recovery := False\<rparr>"

definition mount_slot :: "'w kern \<Rightarrow> u64 \<Rightarrow> bytes \<Rightarrow> bytes \<Rightarrow> slot_id \<Rightarrow> storaged \<Rightarrow> 'w \<Rightarrow> (storaged \<times> 'w) option" where
  "mount_slot K cap sec key active st w =
     do {
       ((r, plain), w) \<leftarrow> validate_and_load K cap key active (s_pubkey st) (s_workspace st) w;
       let st = st\<lparr>s_workspace := plain\<rparr>;
       case r of
         None \<Rightarrow>
           do {
             w \<leftarrow> storaged_say K (lit ''[storaged] payload verify failed: RECOVERY'') w;
             (st, w) \<leftarrow> scan_audit K cap (st\<lparr>s_vol_key := key\<rparr>) w;
             audit_raw K (lit ''boot payload-fail'') st w
           }
       | Some (len, gen) \<Rightarrow>
           do {
             (st, w) \<leftarrow> mount_config K cap sec (mounted key active gen (take len plain) st) w;
             (st, w) \<leftarrow> scan_audit K cap st w;
             (st, w) \<leftarrow> load_apps K cap st w;
             (st, w) \<leftarrow> audit_raw K (push_num (lit ''boot slot'' @ [slot_letter active] @ lit '' gen '') gen) st w;
             w \<leftarrow> storaged_say K
               (push_num (push_num (push_num (lit ''[storaged] mounted slot '' @ [slot_letter active] @ lit '' gen '') gen @
                  lit ''; '') (of_nat (length (s_roster st))) @ lit '' service(s); audit '') (s_audit_seq st) @ lit '' records'') w;
             Some (st, w)
           }
     }"

definition mount :: "'w kern \<Rightarrow> u64 \<Rightarrow> storaged \<Rightarrow> 'w \<Rightarrow> (storaged \<times> 'w) option" where
  "mount K cap st w =
     do {
       ((ok, sec), w) \<leftarrow> br K cap SUPERBLOCK_LBA 1 sector_zeros w;
       if \<not> ok then do { w \<leftarrow> storaged_say K (lit ''[storaged] disk read failed: RECOVERY mode'') w; Some (st, w) }
       else if rslice sec 0 8 \<noteq> SB_MAGIC then
         do { w \<leftarrow> storaged_say K (lit ''[storaged] volume unformatted: RECOVERY (stage an update to install)'') w; Some (st, w) }
       else let key = rslice sec SB_KEY_OFF (SB_KEY_OFF + 32) in
         do {
           valid \<leftarrow> superblock_valid key sec;
           if \<not> valid then
             do { w \<leftarrow> storaged_say K (lit ''[storaged] SUPERBLOCK INTEGRITY FAILURE: RECOVERY'') w; Some (st, w) }
           else let (active_sb, _, _) = (case parse_superblock sec of Some p \<Rightarrow> p | None \<Rightarrow> (None, 0, 0)) in
             do {
               (active, st, w) \<leftarrow> mount_choose K cap key active_sb st w;
               case active of
                 None \<Rightarrow>
                   do {
                     w \<leftarrow> storaged_say K (lit ''[storaged] no verifiable slot: RECOVERY mode'') w;
                     (st, w) \<leftarrow> scan_audit K cap (st\<lparr>s_vol_key := key, s_active := None\<rparr>) w;
                     audit_raw K (lit ''boot recovery'') st w
                   }
               | Some a \<Rightarrow> mount_slot K cap sec key a st w
             }
         }
     }"

text \<open>\<^verbatim>\<open>main\<close> up to the service loop.\<close>

definition storaged_init :: "storaged_image \<Rightarrow> u64 option \<Rightarrow> storaged" where
  "storaged_init img block =
     \<lparr>s_recovery = True, s_block = block, s_vol_key = replicate 32 0, s_active = None, s_generation = 0,
      s_payload = FACTORY_PAYLOAD, s_overrides = FACTORY_CONFIG, s_cfg_gen = 0, s_roster = parse_roster FACTORY_PAYLOAD,
      s_device_id = (case find_kv FACTORY_PAYLOAD (lit ''device-id'') of Some v \<Rightarrow> v | None \<Rightarrow> lit ''redoubt-device''),
      s_audit_seq = 0, s_audit_prev = replicate 32 0, s_pubkey = pub_key (PUB_KEY_BYTES img), s_apps = [],
      s_cached_app = None, s_workspace = replicate PAYLOAD_CAP 0\<rparr>"

definition storaged_start :: "storaged_image \<Rightarrow> 'w kern \<Rightarrow> 'w \<Rightarrow> (storaged \<times> 'w) option" where
  "storaged_start img K w =
     do {
       (_, w) \<leftarrow> set_own_name K (lit ''storaged'') w;
       (block, w) \<leftarrow> probe_block_cap K w;
       w \<leftarrow> storaged_say K (lit ''[storaged] starting'') w;
       let st = storaged_init img block;
       case block of
         Some cap \<Rightarrow> mount K cap st w
       | None \<Rightarrow> do { w \<leftarrow> storaged_say K (lit ''[storaged] no block capability: RECOVERY mode'') w; Some (st, w) }
     }"

end
