(* ===== verification/Storaged_Ops.thy ===== *)
theory Storaged_Ops
  imports Storaged
begin

text \<open>
  The operations of the storage service that change the volume, and its request loop: runtime configuration,
  updates through the agent, installation and removal of applications.
\<close>

section \<open>Runtime configuration\<close>

definition persist_overrides :: "'w kern \<Rightarrow> storaged \<Rightarrow> 'w \<Rightarrow> (bool \<times> storaged \<times> 'w) option" where
  "persist_overrides K st w =
     (case s_block st of
        None \<Rightarrow> Some (False, st, w)
      | Some cap \<Rightarrow>
          (let st = st\<lparr>s_cfg_gen := s_cfg_gen st + 1\<rparr> in
           do {
             sec \<leftarrow> write_config sector_zeros (s_cfg_gen st) (s_overrides st) (s_vol_key st);
             (ok, w) \<leftarrow> bw K cap CONFIG_LBA 1 sec w;
             Some (ok, st, w)
           }))"

text \<open>A line of the overrides that stays when \<open>key\<close> is set: not blank, and not one of \<open>key\<close>.\<close>

definition kept_line :: "bytes \<Rightarrow> bytes \<Rightarrow> bool" where
  "kept_line key l \<longleftrightarrow>
     l \<noteq> [] \<and> (case position (\<lambda>c. c = 0x3d) l of Some eq \<Rightarrow> take eq l \<noteq> key | None \<Rightarrow> True)"

definition set_text :: "bytes \<Rightarrow> bytes \<Rightarrow> bytes \<Rightarrow> bytes" where
  "set_text overrides key value =
     concat (map (\<lambda>l. l @ [0x0a]) (filter (kept_line key) (map trim (split_on 0x0a overrides)))) @
     key @ [0x3d] @ value @ [0x0a]"

definition config_set :: "'w kern \<Rightarrow> storaged \<Rightarrow> bytes \<Rightarrow> 'w \<Rightarrow> (bytes \<times> storaged \<times> 'w) option" where
  "config_set K st rest w =
     (case position (\<lambda>c. c = 0x20) rest of
        None \<Rightarrow> Some (lit ''err: usage set <k> <v>'', st, w)
      | Some eq \<Rightarrow>
          (let key = trim (take eq rest); value = trim (drop (eq + 1) rest) in
           if key = [] \<or> 24 < length key \<or> 24 < length value then Some (lit ''err: bounds'', st, w)
           else let txt = set_text (s_overrides st) key value in
             if CFG_TEXT_MAX < length txt then Some (lit ''err: full'', st, w)
             else do {
               (ok, st, w) \<leftarrow> persist_overrides K (st\<lparr>s_overrides := txt\<rparr>) w;
               if ok then do { (st, w) \<leftarrow> audit_raw K (lit ''cfg-set '' @ key) st w; Some (lit ''ok'', st, w) }
               else Some (lit ''err: io'', st, w)
             }))"

definition slot_status_text :: "storaged \<Rightarrow> bytes" where
  "slot_status_text st =
     (if s_recovery st then lit ''recovery''
      else case s_active st of
          Some s \<Rightarrow> push_num (slot_letter s # lit '' gen '') (s_generation st)
        | None \<Rightarrow> lit ''unknown'')"

section \<open>Updates\<close>

definition commit_slot :: "'w kern \<Rightarrow> u64 \<Rightarrow> slot_id \<Rightarrow> u64 \<Rightarrow> storaged \<Rightarrow> 'w \<Rightarrow> (bool \<times> storaged \<times> 'w) option" where
  "commit_slot K cap new_active gen st w =
     (if s_active st \<noteq> None \<and> gen \<le> s_generation st then Some (False, st, w)
      else let gens = [0, 0][unat (slot_num new_active - 1) := gen];
               gens = (case s_active st of
                         Some old \<Rightarrow> if old \<noteq> new_active then gens[unat (slot_num old - 1) := s_generation st] else gens
                       | None \<Rightarrow> gens)
           in do {
                sb \<leftarrow> write_superblock sector_zeros (Some new_active) (gens ! 0) (gens ! 1) (s_vol_key st);
                (ok, w) \<leftarrow> bw K cap SUPERBLOCK_LBA 1 sb w;
                Some (if ok then (True, st\<lparr>s_active := Some new_active, s_generation := gen\<rparr>, w) else (False, st, w))
              })"

definition fmt_err :: "bytes \<Rightarrow> u64 \<Rightarrow> bytes" where
  "fmt_err prefix errno = push_num prefix errno"

text \<open>The bounded wait for the agent: its exit code, or a code for a failed wait or a timeout.\<close>

partial_function (option) await_agent :: "'w kern \<Rightarrow> u64 \<Rightarrow> u64 \<Rightarrow> 'w \<Rightarrow> (u64 \<times> 'w) option" where
  "await_agent K child deadline w =
     do {
       (r, w) \<leftarrow> try_wait K w;
       case r of
         Inl _ \<Rightarrow> Some (0xFFFF, w)
       | Inr (Some (tid, code)) \<Rightarrow> if tid = child then Some (code, w) else await_agent K child deadline w
       | Inr None \<Rightarrow>
           do {
             (now, w) \<leftarrow> ticks K w;
             if deadline \<le> now then do { (_, w) \<leftarrow> kill K child w; Some (0xFFFE, w) }
             else do {
               (r, w) \<leftarrow> sleep K 10 w;
               if isl r then Some (0xFFFE, w) else await_agent K child deadline w
             }
           }
     }"

text \<open>An audit line and the reply that goes with it.\<close>

definition update_reply :: "'w kern \<Rightarrow> bytes \<Rightarrow> bytes \<Rightarrow> storaged \<Rightarrow> 'w \<Rightarrow> (bytes \<times> storaged \<times> 'w) option" where
  "update_reply K line out st w = do { (st, w) \<leftarrow> audit_raw K (lit ''update '' @ line) st w; Some (out, st, w) }"

definition update_finish :: "'w kern \<Rightarrow> u64 \<Rightarrow> slot_id \<Rightarrow> u64 \<Rightarrow> storaged \<Rightarrow> 'w \<Rightarrow> (bytes \<times> storaged \<times> 'w) option" where
  "update_finish K block inactive exit_code st w =
     (if exit_code = 0 then
        do {
          ((r, ws), w) \<leftarrow> validate_and_load K block (s_vol_key st) inactive (s_pubkey st) (s_workspace st) w;
          let st = st\<lparr>s_workspace := ws\<rparr>;
          case r of
            None \<Rightarrow> update_reply K (lit ''validate-fail'') (lit ''err: applied but validation failed'') st w
          | Some (len, gen) \<Rightarrow>
              do {
                (ok, st, w) \<leftarrow> commit_slot K block inactive gen st w;
                if \<not> ok then update_reply K (lit ''commit-fail'') (lit ''err: commit failed'') st w
                else update_reply K (push_num (lit ''applied gen '') gen) (push_num (lit ''ok applied '') (of_nat len) @ lit '' bytes; reboot'') st w
              }
        }
      else if exit_code = 16 then update_reply K (lit ''reject bad-signature'') (lit ''err: BAD SIGNATURE'') st w
      else if exit_code = 17 then update_reply K (lit ''reject no-package'') (lit ''err: no staged package'') st w
      else if exit_code = 18 then update_reply K (lit ''io-error'') (lit ''err: staging io error'') st w
      else if exit_code = 19 then update_reply K (lit ''reject stale-generation'') (lit ''err: stale generation'') st w
      else update_reply K (push_num (lit ''agent-exit '') exit_code) (lit ''err: agent failed'') st w)"

definition inactive_slot :: "storaged \<Rightarrow> slot_id" where
  "inactive_slot st = (case s_active st of Some s \<Rightarrow> slot_other s | None \<Rightarrow> SlotA)"

definition slot_window :: "slot_id \<Rightarrow> u64" where
  "slot_window s = 2 + SLOT_PAYLOAD_SECTORS - (payload_lba s - hdr_lba s)"

definition run_update :: "storaged_image \<Rightarrow> 'w kern \<Rightarrow> storaged \<Rightarrow> 'w \<Rightarrow> (bytes \<times> storaged \<times> 'w) option" where
  "run_update img K st w =
     (let st = st\<lparr>s_cached_app := None\<rparr> in
      case s_block st of
        None \<Rightarrow> Some (lit ''err: no volume'', st, w)
      | Some block \<Rightarrow>
          (let inactive = inactive_slot st in
           do {
             (r, w) \<leftarrow> derive_block K block (R_READ OR R_GRANT) STAGING_LBA STAGING_SECTORS w;
             case r of
               Inl e \<Rightarrow> Some (fmt_err (lit ''err: derive stage '') e, st, w)
             | Inr stage_cap \<Rightarrow>
                 do {
                   (r, w) \<leftarrow> derive_block K block (R_WRITE OR R_GRANT) (hdr_lba inactive) (slot_window inactive) w;
                   case r of
                     Inl e \<Rightarrow> Some (fmt_err (lit ''err: derive slot '') e, st, w)
                   | Inr slot_cap \<Rightarrow>
                       do {
                         w \<leftarrow> storaged_say K (lit ''[storaged] verifying staged update'') w;
                         (r, w) \<leftarrow> spawn K (UPDATED_ELF img) [(stage_cap, R_READ), (slot_cap, R_WRITE)] w;
                         case r of
                           Inl e \<Rightarrow> Some (fmt_err (lit ''err: spawn updated '') e, st, w)
                         | Inr child \<Rightarrow>
                             do {
                               (now, w) \<leftarrow> ticks K w;
                               (exit_code, w) \<leftarrow> await_agent K child (now + 1200) w;
                               update_finish K block inactive exit_code st w
                             }
                       }
                 }
           }))"

section \<open>Installing and removing applications\<close>

text \<open>Reading the staged package into the workspace; \<open>False\<close> is a failed read.\<close>

function stage_loop :: "'w kern \<Rightarrow> u64 \<Rightarrow> nat \<Rightarrow> nat \<Rightarrow> bytes \<Rightarrow> 'w \<Rightarrow> ((bool \<times> bytes) \<times> 'w) option" where
  "stage_loop K cap want done raw w =
     (if done < want then
        let t = min (want - done) (8 * SECTOR) in
        if length raw < done + t then None
        else do {
          ((ok, buf), w) \<leftarrow> br K cap (STAGING_LBA + of_nat (done div SECTOR)) (of_nat (t div SECTOR)) (rslice raw done (done + t)) w;
          if ok then stage_loop K cap want (done + t) (copy_at raw done buf) w
          else Some ((False, copy_at raw done buf), w)
        }
      else Some ((True, raw), w))"
  by pat_completeness auto
termination
  by (relation "measure (\<lambda>(K, cap, want, done, raw, w). want - done)") (auto simp: SECTOR_def)

declare stage_loop.simps [simp del]

function app_write_loop :: "'w kern \<Rightarrow> u64 \<Rightarrow> u64 \<Rightarrow> nat \<Rightarrow> nat \<Rightarrow> bytes \<Rightarrow> 'w \<Rightarrow> (bool \<times> 'w) option" where
  "app_write_loop K cap slot_lba padded_len wrote raw w =
     (if wrote < padded_len then
        let t = min (padded_len - wrote) (8 * SECTOR) in
        do {
          buf \<leftarrow> slice_chk raw wrote (wrote + t);
          (ok, w) \<leftarrow> bw K cap (slot_lba + 1 + of_nat (wrote div SECTOR)) (of_nat (t div SECTOR)) buf w;
          if ok then app_write_loop K cap slot_lba padded_len (wrote + t) raw w else Some (False, w)
        }
      else Some (True, w))"
  by pat_completeness auto
termination
  by (relation "measure (\<lambda>(K, cap, slot_lba, padded_len, wrote, raw, w). padded_len - wrote)") (auto simp: SECTOR_def)

declare app_write_loop.simps [simp del]

text \<open>Zero the header, write the ciphertext, publish the header last.\<close>

definition app_publish :: "'w kern \<Rightarrow> u64 \<Rightarrow> u64 \<Rightarrow> bytes \<Rightarrow> nat \<Rightarrow> bytes \<Rightarrow> 'w \<Rightarrow> (bool \<times> 'w) option" where
  "app_publish K cap slot_lba hdr padded_len raw w =
     do {
       (ok, w) \<leftarrow> bw K cap slot_lba 1 sector_zeros w;
       if \<not> ok then Some (False, w)
       else do {
         (ok, w) \<leftarrow> app_write_loop K cap slot_lba padded_len 0 raw w;
         if \<not> ok then Some (False, w) else bw K cap slot_lba 1 hdr w
       }
     }"

text \<open>
  From the verified package \<open>pkg\<close> of \<open>bytes\<close> staged bytes to the published slot. The payload is moved down over
  the package header, the rest of its last sector is zeroed, and the payload is encrypted in place.
\<close>

definition install_payload ::
    "'w kern \<Rightarrow> u64 \<Rightarrow> u8 \<Rightarrow> u64 \<Rightarrow> app_package \<Rightarrow> nat \<Rightarrow> storaged \<Rightarrow> 'w \<Rightarrow> (bytes \<times> storaged \<times> 'w) option" where
  "install_payload K cap slot slot_lba pkg bytes' st w =
     (let name = take (ap_name_len pkg) (ap_name pkg);
          payload_len = length (ap_payload pkg);
          raw = s_workspace st;
          padded_len = (payload_len + SECTOR - 1) div SECTOR * SECTOR
      in do {
           moved \<leftarrow> slice_chk raw APP_PKG_HEADER bytes';
           raw \<leftarrow> put 0 moved raw;
           raw \<leftarrow> put payload_len (replicate (padded_len - payload_len) 0) raw;
           (ok, hdr) \<leftarrow> write_app_header sector_zeros slot name (ap_version pkg) (take payload_len raw) (ap_signature pkg);
           if \<not> ok then Some (lit ''err: malformed app'', st\<lparr>s_workspace := raw\<rparr>, w)
           else do {
             raw \<leftarrow> put 0 (xor_stream (s_vol_key st) 0 (app_nonce slot (ap_version pkg)) (take payload_len raw)) raw;
             mac \<leftarrow> app_header_mac (s_vol_key st) hdr (take payload_len raw);
             hdr \<leftarrow> put APP_HDR_MAC_OFF mac hdr;
             let st = st\<lparr>s_workspace := raw\<rparr>;
             (ok, w) \<leftarrow> app_publish K cap slot_lba hdr padded_len raw w;
             if \<not> ok then Some (lit ''err: app io'', st, w)
             else let entry = \<lparr>ae_slot = slot, ae_name = ap_name pkg, ae_name_len = ap_name_len pkg,
                               ae_payload_len = payload_len, ae_version = ap_version pkg,
                               ae_payload_sha = ap_payload_sha pkg, ae_signature = ap_signature pkg\<rparr>;
                      st = st\<lparr>s_apps := filter (\<lambda>a. ae_slot a \<noteq> slot) (s_apps st) @ [entry], s_cached_app := None\<rparr>
                  in do {
                       (st, w) \<leftarrow> audit_raw K (take 38 (lit ''app-install '' @ name)) st w;
                       Some (push_num (lit ''ok app '' @ name @ lit '' v'') (ap_version pkg), st, w)
                     }
           }
         })"

definition install_package :: "'w kern \<Rightarrow> u64 \<Rightarrow> nat \<Rightarrow> storaged \<Rightarrow> 'w \<Rightarrow> (bytes \<times> storaged \<times> 'w) option" where
  "install_package K cap bytes' st w =
     (case slice_chk (s_workspace st) 0 bytes' of
        None \<Rightarrow> None
      | Some staged \<Rightarrow>
          (case parse_app_stage_package staged of
             None \<Rightarrow> Some (lit ''err: malformed app'', st, w)
           | Some pkg \<Rightarrow>
               (let name = take (ap_name_len pkg) (ap_name pkg) in
                do {
                  sha \<leftarrow> sha256 (ap_payload pkg);
                  if \<not> app_name_valid name \<or> sha \<noteq> ap_payload_sha pkg then Some (lit ''err: BAD PACKAGE'', st, w)
                  else do {
                    v \<leftarrow> verify (s_pubkey st)
                           (app_signing_message name (ap_version pkg) (length (ap_payload pkg)) (ap_payload_sha pkg)) (ap_signature pkg);
                    if v \<noteq> Inr () then Some (lit ''err: BAD SIGNATURE'', st, w)
                    else if (case best_app st name of Some old \<Rightarrow> ap_version pkg \<le> ae_version old | None \<Rightarrow> False)
                      then Some (lit ''err: stale version'', st, w)
                    else case target_app_slot st name of
                        None \<Rightarrow> Some (lit ''err: app store full'', st, w)
                      | Some slot \<Rightarrow>
                          (case app_slot_lba slot of
                             None \<Rightarrow> Some (lit ''err: internal'', st, w)
                           | Some slot_lba \<Rightarrow> install_payload K cap slot slot_lba pkg bytes' st w)
                  }
                })))"

definition install_app :: "'w kern \<Rightarrow> storaged \<Rightarrow> 'w \<Rightarrow> (bytes \<times> storaged \<times> 'w) option" where
  "install_app K st w =
     (case s_block st of
        None \<Rightarrow> Some (lit ''err: no volume'', st, w)
      | Some cap \<Rightarrow>
          if s_recovery st then Some (lit ''err: recovery mode'', st, w)
          else do {
            ((ok, head), w) \<leftarrow> br K cap STAGING_LBA 1 sector_zeros w;
            if \<not> ok then Some (lit ''err: staging io'', st, w)
            else if rslice head 0 8 \<noteq> APP_PKG_MAGIC \<or> head ! 8 \<noteq> APP_FORMAT_VERSION
              then Some (lit ''err: no app package'', st, w)
            else let package_len = unat (from_le (rslice head 12 16) :: u32) in
              if package_len = 0 \<or> package_len > APP_STAGE_CAP then Some (lit ''err: malformed app'', st, w)
              else let bytes' = APP_PKG_HEADER + package_len;
                       sectors = (bytes' + SECTOR - 1) div SECTOR
                   in do {
                        ((ok, raw), w) \<leftarrow> stage_loop K cap (sectors * SECTOR) 0 (s_workspace st) w;
                        let st = st\<lparr>s_workspace := raw\<rparr>;
                        if \<not> ok then Some (lit ''err: staging io'', st, w) else install_package K cap bytes' st w
                      }
          })"

text \<open>Zeroing the headers of every entry of a name: whether one was zeroed, or nothing on a failed write.\<close>

fun remove_loop :: "'w kern \<Rightarrow> u64 \<Rightarrow> app_entry list \<Rightarrow> bool \<Rightarrow> 'w \<Rightarrow> (bool option \<times> 'w) option" where
  "remove_loop K cap [] removed w = Some (Some removed, w)"
| "remove_loop K cap (e # es) removed w =
     (case app_slot_lba (ae_slot e) of
        None \<Rightarrow> remove_loop K cap es removed w
      | Some lba \<Rightarrow>
          do {
            (ok, w) \<leftarrow> bw K cap lba 1 sector_zeros w;
            if \<not> ok then Some (None, w) else remove_loop K cap es True w
          })"

definition remove_app :: "'w kern \<Rightarrow> storaged \<Rightarrow> bytes \<Rightarrow> 'w \<Rightarrow> (bytes \<times> storaged \<times> 'w) option" where
  "remove_app K st name w =
     (if \<not> app_name_valid name then Some (lit ''err: invalid app'', st, w)
      else case s_block st of
          None \<Rightarrow> Some (lit ''err: no volume'', st, w)
        | Some cap \<Rightarrow>
            do {
              (r, w) \<leftarrow> remove_loop K cap (filter (\<lambda>a. same_app_name a name) (s_apps st)) False w;
              case r of
                None \<Rightarrow> Some (lit ''err: app io'', st, w)
              | Some removed \<Rightarrow>
                  if \<not> removed then Some (lit ''err: no app'', st, w)
                  else do {
                    let st = st\<lparr>s_apps := filter (\<lambda>a. \<not> same_app_name a name) (s_apps st), s_cached_app := None\<rparr>;
                    (st, w) \<leftarrow> audit_raw K (lit ''app-remove '' @ name) st w;
                    Some (lit ''ok removed'', st, w)
                  }
            })"

section \<open>Requests\<close>

definition strip_either :: "bytes \<Rightarrow> bytes \<Rightarrow> bytes \<Rightarrow> bytes option" where
  "strip_either req p q = (case strip_prefix req p of Some r \<Rightarrow> Some r | None \<Rightarrow> strip_prefix req q)"

definition query_roster :: "storaged \<Rightarrow> bytes \<Rightarrow> bytes" where
  "query_roster st rest =
     (let idx = (case from_utf8 (trim rest) \<bind> parse_usize of Some i \<Rightarrow> i | None \<Rightarrow> 2 ^ 64 - 1) in
      if idx < length (s_roster st) then
        let r = s_roster st ! idx
        in re_name r @ (if re_autostart r then lit '' autostart'' else lit '' manual'') @
             (if re_restart r then lit '' restart'' else lit '' once'')
      else lit ''err: range'')"

definition query_app_list :: "storaged \<Rightarrow> bytes \<Rightarrow> bytes" where
  "query_app_list st rest =
     (let idx = (case from_utf8 (trim rest) \<bind> parse_usize of Some i \<Rightarrow> i | None \<Rightarrow> 2 ^ 64 - 1) in
      case app_at_index st idx of
        Some app \<Rightarrow> push_num (entry_name app @ [0x20]) (ae_version app)
      | None \<Rightarrow> lit ''err: range'')"

definition query_get :: "storaged \<Rightarrow> bytes \<Rightarrow> bytes" where
  "query_get st rest =
     (let key = trim rest in
      case lookup_kv st key of Some v \<Rightarrow> key @ [0x3d] @ v | None \<Rightarrow> lit ''err: unset'')"

text \<open>The application requests, at the end of \<^verbatim>\<open>handle_query\<close>.\<close>

definition query_apps :: "'w kern \<Rightarrow> storaged \<Rightarrow> bytes \<Rightarrow> 'w \<Rightarrow> (bytes \<times> storaged \<times> 'w) option" where
  "query_apps K st req w =
     (if req = lit ''app-count'' then Some (push_num [] (of_nat (app_unique_count st)), st, w)
      else case strip_prefix req (lit ''app-list '') of
        Some rest \<Rightarrow> Some (query_app_list st rest, st, w)
      | None \<Rightarrow> (case strip_either req (lit ''app-info '') (lit ''ai '') of
        Some name \<Rightarrow> app_info K st (trim name) w
      | None \<Rightarrow> (case strip_either req (lit ''app-hash '') (lit ''ah '') of
        Some name \<Rightarrow> Some (app_hash st (trim name), st, w)
      | None \<Rightarrow> (case strip_either req (lit ''app-sig '') (lit ''as '') of
        Some rest \<Rightarrow>
          (case parse_app_chunk_req rest of
             Some (name, off) \<Rightarrow> Some (app_sig st name off, st, w)
           | None \<Rightarrow> Some (lit ''err: query?'', st, w))
      | None \<Rightarrow> (case strip_either req (lit ''app-chunk '') (lit ''ac '') of
        Some rest \<Rightarrow>
          (case parse_app_chunk_req rest of
             Some (name, off) \<Rightarrow> app_chunk K st name off w
           | None \<Rightarrow> Some (lit ''err: query?'', st, w))
      | None \<Rightarrow> Some (lit ''err: query?'', st, w))))))"

definition handle_query :: "'w kern \<Rightarrow> storaged \<Rightarrow> bytes \<Rightarrow> 'w \<Rightarrow> (bytes \<times> storaged \<times> 'w) option" where
  "handle_query K st req w =
     (case strip_prefix req (lit ''log '') of
        Some rest \<Rightarrow> do { (st, w) \<leftarrow> audit_raw K (trim rest) st w; Some (lit ''ok'', st, w) }
      | None \<Rightarrow>
          if req = lit ''id'' then Some (lit ''id='' @ s_device_id st, st, w)
          else if req = lit ''slot'' then Some (slot_status_text st, st, w)
          else case strip_prefix req (lit ''get '') of
            Some rest \<Rightarrow> Some (query_get st rest, st, w)
          | None \<Rightarrow>
              if req = lit ''roster-count'' then Some (push_num [] (of_nat (length (s_roster st))), st, w)
              else case strip_prefix req (lit ''roster '') of
                Some rest \<Rightarrow> Some (query_roster st rest, st, w)
              | None \<Rightarrow>
                  if req = lit ''auditcount'' then Some (push_num [] (s_audit_seq st), st, w)
                  else case strip_prefix req (lit ''audit '') of
                    Some rest \<Rightarrow>
                      do {
                        (out, w) \<leftarrow> read_audit_record K st
                          (case from_utf8 (trim rest) \<bind> parse_u64 of Some n \<Rightarrow> n | None \<Rightarrow> 0xffffffffffffffff) w;
                        Some (out, st, w)
                      }
                  | None \<Rightarrow> query_apps K st req w)"

definition handle_config :: "storaged_image \<Rightarrow> 'w kern \<Rightarrow> storaged \<Rightarrow> bytes \<Rightarrow> 'w \<Rightarrow> (bytes \<times> storaged \<times> 'w) option" where
  "handle_config img K st req w =
     (case strip_prefix req (lit ''set '') of
        Some rest \<Rightarrow>
          if s_recovery st then Some (lit ''err: recovery mode is read-only'', st, w) else config_set K st rest w
      | None \<Rightarrow>
          if req = lit ''begin-update'' then run_update img K st w
          else if req = lit ''install-app'' then install_app K st w
          else case strip_prefix req (lit ''remove-app '') of
            Some name \<Rightarrow> remove_app K st (trim name) w
          | None \<Rightarrow> Some (lit ''err: config?'', st, w))"

section \<open>The service loop\<close>

text \<open>One round over both endpoints: \<open>Inl\<close> is the exit code.\<close>

definition storaged_serve_step :: "storaged_image \<Rightarrow> 'w kern \<Rightarrow> storaged \<Rightarrow> 'w \<Rightarrow> ((u64 + storaged) \<times> 'w) option" where
  "storaged_serve_step img K st w =
     do {
       (now, w) \<leftarrow> ticks K w;
       (now', w) \<leftarrow> ticks K w;
       (r, w) \<leftarrow> recv_until K 1 (now' + 100) w;
       (q, w) \<leftarrow> (case r of
           Inr (_, ws) \<Rightarrow>
             do {
               (out, st, w) \<leftarrow> handle_query K st (unpack ws) w;
               (_, w) \<leftarrow> reply K 1 (pack out) w;
               (t, w) \<leftarrow> ticks K w;
               Some (Inr (st, t), w)
             }
         | Inl e \<Rightarrow> Some (if e = 10 then Inr (st, now + 100) else Inl e, w));
       case q of
         Inl e \<Rightarrow> Some (Inl e, w)
       | Inr (st, config_deadline) \<Rightarrow>
           do {
             (r, w) \<leftarrow> recv_until K 2 config_deadline w;
             case r of
               Inr (_, ws) \<Rightarrow>
                 do {
                   (out, st, w) \<leftarrow> handle_config img K st (unpack ws) w;
                   (_, w) \<leftarrow> reply K 2 (pack out) w;
                   Some (Inr st, w)
                 }
             | Inl e \<Rightarrow> Some (if e = 10 then Inr st else Inl e, w)
           }
     }"

end
