(* ===== verification/Updated.thy ===== *)
theory Updated
  imports Storaged
begin

text \<open>
  The update agent, \<^verbatim>\<open>servers/updated/src/main.rs\<close>: read the staged package through capability 0, verify its signature,
  copy the sealed image through capability 1. The result is the exit code.
\<close>

text \<open>Reading the staging area; \<open>None\<close> in the result is a failed read.\<close>

function read_stage :: "'w kern \<Rightarrow> nat \<Rightarrow> bytes \<Rightarrow> 'w \<Rightarrow> (bytes option \<times> 'w) option" where
  "read_stage K done pkg w =
     (if done < length pkg then
        let t = min (length pkg - done) (8 * SECTOR) in
        do {
          ((r, buf), w) \<leftarrow> block_read K 0 (of_nat (done div SECTOR)) (of_nat (sectors_for t)) (rslice pkg done (done + t)) w;
          if isl r then Some (None, w) else read_stage K (done + t) (copy_at pkg done buf) w
        }
      else Some (Some pkg, w))"
  by pat_completeness auto

lemma length_written [simp]: "length (written buf out) = length buf"
  by (simp add: written_def)

lemma block_read_length: "block_read K cap lba n buf w = Some ((r, buf'), w') \<Longrightarrow> length buf' = length buf"
  by (auto simp: block_read_def split: if_splits bind_splits)

termination read_stage
proof (relation "measure (\<lambda>(K, done, pkg, w). length pkg - done)", goal_cases)
  case (2 K d pkg w t x ok w1 r buf)
  then have "length buf = length (rslice pkg d (d + t))" by (metis block_read_length)
  then show ?case using 2 by (auto simp: SECTOR_def)
qed simp

declare read_stage.simps [simp del]

function copy_image :: "'w kern \<Rightarrow> bytes \<Rightarrow> nat \<Rightarrow> u64 \<Rightarrow> 'w \<Rightarrow> (bool \<times> 'w) option" where
  "copy_image K img done lba_off w =
     (if done < length img then
        let t = min (length img - done) (8 * SECTOR);
            sectors = sectors_for t;
            padded' = copy_at (replicate (8 * SECTOR) 0) 0 (rslice img done (done + t))
        in do {
             (r, w) \<leftarrow> block_write K 1 lba_off (of_nat sectors) padded' w;
             if isl r then Some (False, w) else copy_image K img (done + t) (lba_off + of_nat sectors) w
           }
      else Some (True, w))"
  by pat_completeness auto
termination
  by (relation "measure (\<lambda>(K, img, done, lba_off, w). length img - done)") (auto simp: SECTOR_def)

declare copy_image.simps [simp del]

definition updated_main :: "bytes \<Rightarrow> 'w kern \<Rightarrow> 'w \<Rightarrow> (u64 \<times> 'w) option" where
  "updated_main pub_key_bytes K w =
     do {
       (r, w) \<leftarrow> read_stage K 0 (replicate (unat STAGING_SECTORS * SECTOR) 0) w;
       case r of
         None \<Rightarrow> Some (18, w)
       | Some pkg \<Rightarrow>
           (case parse_stage_package pkg of
              None \<Rightarrow> Some (17, w)
            | Some (img, sig) \<Rightarrow>
                do {
                  v \<leftarrow> verify (pub_key pub_key_bytes) img sig;
                  if v \<noteq> Inr () then Some (16, w)
                  else do {
                    (ok, w) \<leftarrow> copy_image K img 0 0 w;
                    Some (if ok then 0 else 19, w)
                  }
                })
     }"

end
