(* ===== verification/Console.thy ===== *)
theory Console
  imports Userlib
begin

text \<open>
  The console server, \<^verbatim>\<open>servers/console/src/main.rs\<close>, and the two smallest programs, \<^verbatim>\<open>servers/heart\<close> and
  \<^verbatim>\<open>servers/hello\<close>. The console's slots are output 0 and input 1.
\<close>

section \<open>The line editor\<close>

definition LINE_MAX :: nat where [consts_def]: "LINE_MAX = 72"

record editor =
  ed_line :: bytes
  ed_ready :: "bytes list"

text \<open>One byte: the completed line if any, the echo, the editor. Without echo nothing is written.\<close>

definition feed_byte :: "u8 \<Rightarrow> editor \<Rightarrow> bytes option \<times> bytes option \<times> editor" where
  "feed_byte b ed =
     (if b = 0x08 \<or> b = 0x7f then
        if ed_line ed \<noteq> [] then (None, Some [0x08, 0x20, 0x08], ed\<lparr>ed_line := butlast (ed_line ed)\<rparr>)
        else (None, None, ed)
      else if b = 0x0a \<or> b = 0x0d then
        (if ed_line ed = [] then None else Some (ed_line ed), Some [0x0a], ed\<lparr>ed_line := []\<rparr>)
      else if 0x20 \<le> b \<and> b \<le> 0x7e then
        if length (ed_line ed) < LINE_MAX then (None, Some [b], ed\<lparr>ed_line := ed_line ed @ [b]\<rparr>)
        else (None, None, ed)
      else (None, None, ed))"

definition feed :: "'w kern \<Rightarrow> u8 \<Rightarrow> editor \<Rightarrow> 'w \<Rightarrow> (bytes option \<times> editor \<times> 'w) option" where
  "feed K b ed w =
     (case feed_byte b ed of
        (done, None, ed) \<Rightarrow> Some (done, ed, w)
      | (done, Some e, ed) \<Rightarrow> do { (_, w) \<leftarrow> debug_write_raw K e w; Some (done, ed, w) })"

definition pop_ready :: "bytes list \<Rightarrow> bytes option \<times> bytes list" where
  "pop_ready ready = (case ready of [] \<Rightarrow> (None, []) | l # ls \<Rightarrow> (Some l, ls))"

section \<open>The server loop\<close>

record console_state =
  cs_ed :: editor
  cs_kbuf :: bytes
  cs_read_open :: bool

primrec feed_all :: "'w kern \<Rightarrow> bytes \<Rightarrow> editor \<Rightarrow> 'w \<Rightarrow> (editor \<times> 'w) option" where
  "feed_all K [] ed w = Some (ed, w)"
| "feed_all K (b # bs) ed w =
     do {
       (done, ed, w) \<leftarrow> feed K b ed w;
       feed_all K bs (case done of Some l \<Rightarrow> ed\<lparr>ed_ready := ed_ready ed @ [l]\<rparr> | None \<Rightarrow> ed) w
     }"

text \<open>Draining the keyboard ends when a poll returns nothing or fails.\<close>

partial_function (option) drain_keys :: "'w kern \<Rightarrow> editor \<Rightarrow> bytes \<Rightarrow> 'w \<Rightarrow> (editor \<times> bytes \<times> 'w) option" where
  "drain_keys K ed kbuf w =
     do {
       ((r, kbuf), w) \<leftarrow> input_try_read K kbuf w;
       case r of
         Inl _ \<Rightarrow> Some (ed, kbuf, w)
       | Inr n \<Rightarrow>
           if n = 0 then Some (ed, kbuf, w)
           else do { (ed, w) \<leftarrow> feed_all K (take n kbuf) ed w; drain_keys K ed kbuf w }
     }"

text \<open>An open reader gets the oldest complete line.\<close>

definition hand_line :: "'w kern \<Rightarrow> console_state \<Rightarrow> 'w \<Rightarrow> (console_state \<times> 'w) option" where
  "hand_line K c w =
     (case pop_ready (ed_ready (cs_ed c)) of
        (None, _) \<Rightarrow> Some (c, w)
      | (Some line, ready) \<Rightarrow>
          do {
            (_, w) \<leftarrow> reply K 1 (pack line) w;
            Some (c\<lparr>cs_ed := (cs_ed c)\<lparr>ed_ready := ready\<rparr>, cs_read_open := False\<rparr>, w)
          })"

definition console_input :: "'w kern \<Rightarrow> console_state \<Rightarrow> 'w \<Rightarrow> ((u64 + console_state) \<times> 'w) option" where
  "console_input K c w =
     (if cs_read_open c then Some (Inr c, w)
      else do {
        (now, w) \<leftarrow> ticks K w;
        (r, w) \<leftarrow> recv_until K 1 (now + 20) w;
        case r of
          Inr (_, ws) \<Rightarrow>
            if unpack ws = lit ''read'' then
              do { (c, w) \<leftarrow> hand_line K (c\<lparr>cs_read_open := True\<rparr>) w; Some (Inr c, w) }
            else do { (_, w) \<leftarrow> reply K 1 (pack (lit ''err: stdin?'')) w; Some (Inr c, w) }
        | Inl e \<Rightarrow> Some (if e = 10 then Inr c else Inl e, w)
      })"

text \<open>What a message prints: verbatim after the marker, otherwise with the sender's id.\<close>

definition console_text :: "u64 \<Rightarrow> bytes \<Rightarrow> bytes" where
  "console_text tid txt =
     (if txt \<noteq> [] \<and> hd txt = SOH then tl txt else push_num (lit ''[tid '') tid @ lit ''] '' @ txt)"

definition console_output :: "'w kern \<Rightarrow> 'w \<Rightarrow> ((u64 + unit) \<times> 'w) option" where
  "console_output K w =
     do {
       (now, w) \<leftarrow> ticks K w;
       (r, w) \<leftarrow> recv_until K 0 (now + 10) w;
       case r of
         Inr (tid, ws) \<Rightarrow>
           do {
             (_, w) \<leftarrow> debug_write_raw K (console_text tid (unpack ws)) w;
             (_, w) \<leftarrow> reply K 0 [1, 0, 0, 0, 0] w;
             Some (Inr (), w)
           }
       | Inl e \<Rightarrow> Some (if e = 10 then Inr () else Inl e, w)
     }"

text \<open>One round of \<^verbatim>\<open>main\<close>: \<open>Inl\<close> is the exit code.\<close>

definition console_step :: "'w kern \<Rightarrow> console_state \<Rightarrow> 'w \<Rightarrow> ((u64 + console_state) \<times> 'w) option" where
  "console_step K c w =
     do {
       (r, w) \<leftarrow> console_input K c w;
       case r of
         Inl e \<Rightarrow> Some (Inl e, w)
       | Inr c \<Rightarrow>
           do {
             (r, w) \<leftarrow> console_output K w;
             case r of
               Inl e \<Rightarrow> Some (Inl e, w)
             | Inr _ \<Rightarrow>
                 do {
                   (ed, kbuf, w) \<leftarrow> drain_keys K (cs_ed c) (cs_kbuf c) w;
                   let c = c\<lparr>cs_ed := ed, cs_kbuf := kbuf\<rparr>;
                   (c, w) \<leftarrow> (if cs_read_open c then hand_line K c w else Some (c, w));
                   Some (Inr c, w)
                 }
           }
     }"

definition console_init :: console_state where
  "console_init = \<lparr>cs_ed = \<lparr>ed_line = [], ed_ready = []\<rparr>, cs_kbuf = replicate 16 0, cs_read_open = False\<rparr>"

section \<open>Heart and hello\<close>

text \<open>\<^verbatim>\<open>heart\<close> before its loop, and one beat: \<open>Inl\<close> is the exit code.\<close>

definition heart_start :: "'w kern \<Rightarrow> 'w \<Rightarrow> 'w option" where
  "heart_start K w =
     do {
       (_, w) \<leftarrow> set_own_name K (lit ''heart'') w;
       (_, w) \<leftarrow> call K 1 (pack (lit ''log heart started'')) w;
       Some w
     }"

definition heart_beat :: "'w kern \<Rightarrow> u64 \<Rightarrow> 'w \<Rightarrow> ((u64 + u64) \<times> 'w) option" where
  "heart_beat K beats w =
     do {
       (_, w) \<leftarrow> call K 1 (pack (lit ''slot'')) w;
       let beats = beats + 1;
       (ok, w) \<leftarrow> print_split K 0 (push_num (lit ''[heart] beat '') beats @ [0x0a]) w;
       if \<not> ok then Some (Inl 9, w)
       else do {
         (r, w) \<leftarrow> sleep K 200 w;
         Some (if isl r then Inl 10 else Inr beats, w)
       }
     }"

primrec hello_loop :: "'w kern \<Rightarrow> u64 list \<Rightarrow> 'w \<Rightarrow> (u64 \<times> 'w) option" where
  "hello_loop K [] w = Some (7, w)"
| "hello_loop K (i # is) w =
     do {
       (r, w) \<leftarrow> call K 0 (pack (push_num (lit ''hello from spawned task #'') i @ [0x0a])) w;
       if isl r then Some (9, w) else hello_loop K is w
     }"

definition hello_main :: "'w kern \<Rightarrow> 'w \<Rightarrow> (u64 \<times> 'w) option" where
  "hello_main K = hello_loop K [1, 2, 3]"

end
