(* ===== verification/Shell.thy ===== *)
theory Shell
  imports Userlib
begin

text \<open>
  The interactive shell, \<^verbatim>\<open>servers/shell/src/main.rs\<close>. Its slots are console 0, program store 1, query 2,
  supervisor 3, line input 4. A command returns whether the console still answers.
\<close>

section \<open>Text\<close>

definition shell_blank :: "u8 \<Rightarrow> bool" where
  "shell_blank b \<longleftrightarrow> b = 0x20 \<or> b = 0x09"

definition shell_trim :: "bytes \<Rightarrow> bytes" where
  "shell_trim s = rev (dropWhile shell_blank (rev (dropWhile shell_blank s)))"

definition split_cmd :: "bytes \<Rightarrow> bytes \<times> bytes" where
  "split_cmd line =
     (case position (\<lambda>c. c = 0x20) line of
        Some i \<Rightarrow> (take i line, shell_trim (drop i line))
      | None \<Rightarrow> (line, []))"

section \<open>Console\<close>

definition sh_print :: "'w kern \<Rightarrow> bytes \<Rightarrow> 'w \<Rightarrow> (bool \<times> 'w) option" where
  "sh_print K s = print_split K 0 s"

definition read_line :: "'w kern \<Rightarrow> 'w \<Rightarrow> (bytes \<times> 'w) option" where
  "read_line K w =
     do {
       (r, w) \<leftarrow> call K 4 (pack (lit ''read'')) w;
       case r of
         Inr ws \<Rightarrow> Some (unpack ws, w)
       | Inl e \<Rightarrow> do { (_, w) \<leftarrow> sh_print K (push_num (lit ''[read-errno '') e @ lit '']'') w; Some ([], w) }
     }"

definition err_print :: "'w kern \<Rightarrow> bytes \<Rightarrow> u64 \<Rightarrow> 'w \<Rightarrow> (bool \<times> 'w) option" where
  "err_print K what e = sh_print K (push_num (what @ lit '' (errno '') e @ lit '')'' @ [0x0a])"

text \<open>A request and its reply on the console; \<open>what\<close> names the failure.\<close>

definition ask_print :: "'w kern \<Rightarrow> u64 \<Rightarrow> bytes \<Rightarrow> bytes \<Rightarrow> 'w \<Rightarrow> (bool \<times> 'w) option" where
  "ask_print K ep req what w =
     do {
       (r, w) \<leftarrow> call K ep (pack req) w;
       case r of
         Inr ws \<Rightarrow> sh_print K (unpack ws @ [0x0a]) w
       | Inl e \<Rightarrow> err_print K what e w
     }"

definition call_print :: "'w kern \<Rightarrow> u64 \<Rightarrow> bytes \<Rightarrow> 'w \<Rightarrow> (bool \<times> 'w) option" where
  "call_print K ep req = ask_print K ep req (lit ''request failed'')"

section \<open>Commands\<close>

primrec help_loop :: "'w kern \<Rightarrow> bytes list \<Rightarrow> 'w \<Rightarrow> (bool \<times> 'w) option" where
  "help_loop K [] w = Some (True, w)"
| "help_loop K (c # cs) w =
     do {
       (r, w) \<leftarrow> call K 0 (pack ([SOH] @ c @ [0x0a])) w;
       if isl r then Some (False, w) else help_loop K cs w
     }"

definition help_cmd :: "'w kern \<Rightarrow> 'w \<Rightarrow> (bool \<times> 'w) option" where
  "help_cmd K = help_loop K
     [lit ''commands:'',
      lit ''  echo <text>      print text'',
      lit ''  exec <name>      run store program'',
      lit ''  services         list supervised services'',
      lit ''  start|stop|restart <name>'',
      lit ''  update           apply staged update'',
      lit ''  apps             list installed apps'',
      lit ''  app install; run|remove <name>'',
      lit ''  slot             active system slot'',
      lit ''  get <key>        read configuration'',
      lit ''  audit [count]    recent audit records'',
      lit ''  uptime, stats, reboot'']"

text \<open>The listing loops: one request per number, one line per reply.\<close>

primrec list_loop :: "'w kern \<Rightarrow> u64 \<Rightarrow> bytes \<Rightarrow> bytes \<Rightarrow> u64 list \<Rightarrow> 'w \<Rightarrow> (bool \<times> 'w) option" where
  "list_loop K ep prefix what [] w = Some (True, w)"
| "list_loop K ep prefix what (i # is) w =
     do {
       (r, w) \<leftarrow> call K ep (pack (push_num prefix i)) w;
       case r of
         Inr ws \<Rightarrow>
           do {
             (ok, w) \<leftarrow> sh_print K (unpack ws @ [0x0a]) w;
             if \<not> ok then Some (False, w) else list_loop K ep prefix what is w
           }
       | Inl e \<Rightarrow> err_print K what e w
     }"

definition reply_count :: "u64 list \<Rightarrow> nat" where
  "reply_count ws = (case from_utf8 (unpack ws) \<bind> (\<lambda>s. parse_usize (str_trim s)) of Some n \<Rightarrow> n | None \<Rightarrow> 0)"

definition apps_cmd :: "'w kern \<Rightarrow> 'w \<Rightarrow> (bool \<times> 'w) option" where
  "apps_cmd K w =
     do {
       (r, w) \<leftarrow> call K 2 (pack (lit ''app-count'')) w;
       case r of
         Inl e \<Rightarrow> err_print K (lit ''apps failed'') e w
       | Inr ws \<Rightarrow>
           if reply_count ws = 0 then sh_print K (lit ''no installed apps'' @ [0x0a]) w
           else list_loop K 2 (lit ''app-list '') (lit ''apps failed'') (map of_nat [0..<reply_count ws]) w
     }"

definition app_cmd :: "'w kern \<Rightarrow> bytes \<Rightarrow> 'w \<Rightarrow> (bool \<times> 'w) option" where
  "app_cmd K rest w =
     (case split_cmd rest of
        (verb, name) \<Rightarrow>
          if verb = lit ''list'' then apps_cmd K w
          else if verb = lit ''install'' \<and> name = [] then call_print K 3 (lit ''install-app'') w
          else if verb = lit ''run'' \<and> name \<noteq> [] then call_print K 1 (lit ''app '' @ name) w
          else if verb = lit ''remove'' \<and> name \<noteq> [] then call_print K 3 (lit ''remove-app '' @ name) w
          else sh_print K (lit ''usage: app install|list|run|remove <name>'' @ [0x0a]) w)"

definition services_cmd :: "'w kern \<Rightarrow> 'w \<Rightarrow> (bool \<times> 'w) option" where
  "services_cmd K w =
     do {
       (r, w) \<leftarrow> call K 3 (pack (lit ''status-count'')) w;
       case r of
         Inl e \<Rightarrow> err_print K (lit ''services failed'') e w
       | Inr ws \<Rightarrow> list_loop K 3 (lit ''status '') (lit ''services failed'') (map of_nat [0..<reply_count ws]) w
     }"

definition svc_action :: "'w kern \<Rightarrow> bytes \<Rightarrow> bytes \<Rightarrow> 'w \<Rightarrow> (bool \<times> 'w) option" where
  "svc_action K verb name w =
     (if name = [] then sh_print K (lit ''usage: '' @ verb @ lit '' <name>'' @ [0x0a]) w
      else ask_print K 3 (take 38 (verb @ [0x20] @ name)) (lit ''operation failed'') w)"

definition audit_cmd :: "'w kern \<Rightarrow> 'w \<Rightarrow> (bool \<times> 'w) option" where
  "audit_cmd K w =
     do {
       (r, w) \<leftarrow> call K 2 (pack (lit ''auditcount'')) w;
       case r of
         Inl e \<Rightarrow> err_print K (lit ''audit failed'') e w
       | Inr ws \<Rightarrow>
           let n = reply_count ws;
               shown = min n 8
           in list_loop K 2 (lit ''audit '') (lit ''audit failed'') (map of_nat [n - shown..<n]) w
     }"

definition exec_req :: "'w kern \<Rightarrow> bytes \<Rightarrow> 'w \<Rightarrow> (bool \<times> 'w) option" where
  "exec_req K name = ask_print K 1 (lit ''exec '' @ name) (lit ''exec request failed'')"

definition uptime_cmd :: "'w kern \<Rightarrow> 'w \<Rightarrow> (bool \<times> 'w) option" where
  "uptime_cmd K w =
     do {
       (t, w) \<leftarrow> ticks K w;
       (t', w) \<leftarrow> ticks K w;
       sh_print K (push_num (push_num (lit ''up '') (t div 100) @ lit '' s ('') t' @ lit '' ticks)'' @ [0x0a]) w
     }"

definition stats_cmd :: "'w kern \<Rightarrow> 'w \<Rightarrow> (bool \<times> 'w) option" where
  "stats_cmd K w =
     do {
       (r, w) \<leftarrow> stats K w;
       case r of
         Inl _ \<Rightarrow> sh_print K (lit ''stats unavailable'' @ [0x0a]) w
       | Inr st \<Rightarrow>
           do {
             (ok, w) \<leftarrow> sh_print K
               (push_num (push_num (lit ''frames used/total: '') (st_frames_used st) @ [0x2f]) (st_frames_total st) @ [0x0a]) w;
             (ok', w) \<leftarrow> sh_print K
               (push_num (push_num (lit ''my pages: '') (st_my_pages st) @ lit ''; tasks: '') (ucast (st_ntasks st)) @ [0x0a]) w;
             Some (ok' \<and> ok, w)
           }
     }"

definition execute :: "'w kern \<Rightarrow> bytes \<Rightarrow> 'w \<Rightarrow> (bool \<times> 'w) option" where
  "execute K line w =
     (case split_cmd line of
        (cmd, rest) \<Rightarrow>
          if cmd = lit ''help'' then help_cmd K w
          else if cmd = lit ''echo'' then sh_print K (rest @ [0x0a]) w
          else if cmd = lit ''hello'' then exec_req K (lit ''hello'') w
          else if cmd = lit ''exec'' then exec_req K rest w
          else if cmd = lit ''services'' then services_cmd K w
          else if cmd = lit ''start'' \<or> cmd = lit ''stop'' \<or> cmd = lit ''restart'' then svc_action K cmd rest w
          else if cmd = lit ''update'' then call_print K 3 (lit ''update'') w
          else if cmd = lit ''apps'' then apps_cmd K w
          else if cmd = lit ''app'' then app_cmd K rest w
          else if cmd = lit ''slot'' then call_print K 2 (lit ''slot'') w
          else if cmd = lit ''get'' then
            (if rest = [] then sh_print K (lit ''usage: get <key>'' @ [0x0a]) w
             else call_print K 2 (take 38 (lit ''get '' @ rest)) w)
          else if cmd = lit ''audit'' then audit_cmd K w
          else if cmd = lit ''uptime'' then uptime_cmd K w
          else if cmd = lit ''stats'' then stats_cmd K w
          else if cmd = lit ''reboot'' then
            do { (_, w) \<leftarrow> sh_print K (lit ''rebooting now'' @ [0x0a]) w; reboot K w }
          else sh_print K (lit ''? unknown '' @ [0x27] @ take 16 line @ [0x27] @ lit '' (try help)'' @ [0x0a]) w)"

text \<open>One round of \<^verbatim>\<open>main\<close>: \<open>Some 8\<close> is the exit when the console is lost.\<close>

definition shell_step :: "'w kern \<Rightarrow> 'w \<Rightarrow> (u64 option \<times> 'w) option" where
  "shell_step K w =
     do {
       (_, w) \<leftarrow> sh_print K (lit ''> '') w;
       (line, w) \<leftarrow> read_line K w;
       let txt = shell_trim line;
       if txt = [] then Some (None, w)
       else do {
         (ok, w) \<leftarrow> execute K txt w;
         Some (if ok then None else Some 8, w)
       }
     }"

end
