(* ===== verification/Agt.thy ===== *)
theory Agt
  imports Ata Storaged
begin

text \<open>
  The host tool, \<^verbatim>\<open>tools/agt/src/main.rs\<close>: formatting a volume, staging update and application packages. A volume
  image is the drive the kernel will see. Files, arguments, printing and random bytes belong to the host: the
  seed, the volume key and file contents are arguments, and a file operation fails only where the tool itself
  checks. The outer option is a panic.
\<close>

section \<open>Helpers\<close>

datatype agt_error =
  PastEnd u64 | AlreadyFormatted | NotFormatted | BadSuperblockMac | PayloadTooLarge | ExceedsStaging |
  BadName | BadSize nat | NotEncoded | BadHexLength | BadHex

definition hex_digit :: "u8 \<Rightarrow> u8" where
  "hex_digit d = (if d < 10 then 0x30 + d else 0x57 + d)"

definition hex_encode :: "bytes \<Rightarrow> bytes" where
  "hex_encode b = concat (map (\<lambda>x. [hex_digit (drop_bit 4 x), hex_digit (x AND 0xf)]) b)"

text \<open>\<^verbatim>\<open>&s[i * 2..i * 2 + 2]\<close> off a character boundary is a panic.\<close>

definition hex_decode :: "bytes \<Rightarrow> (agt_error + bytes) option" where
  "hex_decode s =
     (if length s mod 2 \<noteq> 0 then Some (Inl BadHexLength)
      else do {
        ps \<leftarrow> those (map (\<lambda>i. str_get s (i * 2) (i * 2 + 2)) [0..<length s div 2]);
        Some (case those (map (from_str_radix 16 8) ps) of
                None \<Rightarrow> Inl BadHex
              | Some ns \<Rightarrow> Inr (map of_nat ns))
      })"

definition vol_create :: "u64 \<Rightarrow> drive" where
  "vol_create sectors = \<lparr>dr_sectors = sectors, dr_data = (\<lambda>_. replicate SECTOR 0)\<rparr>"

definition read_lba :: "drive \<Rightarrow> u64 \<Rightarrow> u64 \<Rightarrow> agt_error + bytes" where
  "read_lba vol lba count =
     (if lba + count > dr_sectors vol then Inl (PastEnd lba)
      else Inr (concat (map (\<lambda>s. dr_data vol (lba + of_nat s)) [0..<unat count])))"

definition write_lba :: "u64 \<Rightarrow> bytes \<Rightarrow> drive \<Rightarrow> (agt_error + drive) option" where
  "write_lba lba buf vol =
     (if length buf mod SECTOR \<noteq> 0 then None
      else let count = length buf div SECTOR in
        Some (if lba + of_nat count > dr_sectors vol then Inl (PastEnd lba)
              else Inr (put_sectors vol lba buf count)))"

text \<open>\<^verbatim>\<open>?\<close> on a volume operation: the first failure ends the command.\<close>

definition vol_then :: "(agt_error + drive) option \<Rightarrow> (drive \<Rightarrow> (agt_error + drive) option) \<Rightarrow> (agt_error + drive) option" where
  "vol_then r f = (case r of None \<Rightarrow> None | Some (Inl e) \<Rightarrow> Some (Inl e) | Some (Inr v) \<Rightarrow> f v)"

primrec write_zeros :: "u64 list \<Rightarrow> drive \<Rightarrow> (agt_error + drive) option" where
  "write_zeros [] vol = Some (Inr vol)"
| "write_zeros (lba # lbas) vol = vol_then (write_lba lba sector_zeros vol) (write_zeros lbas)"

section \<open>mkvol\<close>

definition write_slot :: "slot_id \<Rightarrow> u64 \<Rightarrow> bytes \<Rightarrow> bytes \<Rightarrow> bytes \<Rightarrow> drive \<Rightarrow> (agt_error + drive) option" where
  "write_slot slot generation payload sig vol_key vol =
     do {
       hdr \<leftarrow> write_slot_header sector_zeros slot SLOT_STATE_VALID generation payload sig;
       let ct = xor_stream vol_key 0 (data_nonce slot 0x53 generation) payload;
       mac \<leftarrow> slot_mac vol_key hdr ct;
       hdr \<leftarrow> put HDR_MAC_OFF mac hdr;
       region \<leftarrow> put 0 ct (replicate PAYLOAD_CAP 0);
       vol_then (write_lba (hdr_lba slot) hdr vol) (write_lba (payload_lba slot) region)
     }"

text \<open>Formatting a volume, once the image is open and the keys are there.\<close>

definition mkvol :: "bytes \<Rightarrow> bytes \<Rightarrow> drive \<Rightarrow> (agt_error + drive) option" where
  "mkvol seed vol_key vol =
     do {
       sig \<leftarrow> sign seed FACTORY_PAYLOAD;
       sb \<leftarrow> write_superblock sector_zeros (Some SlotA) 1 0 vol_key;
       cfg \<leftarrow> write_config sector_zeros 0 FACTORY_CONFIG vol_key;
       vol_then (write_lba SUPERBLOCK_LBA sb vol) (\<lambda>vol.
       vol_then (write_lba CONFIG_LBA cfg vol) (\<lambda>vol.
       vol_then (write_slot SlotA 1 FACTORY_PAYLOAD sig vol_key vol) (\<lambda>vol.
       vol_then (write_zeros (map (\<lambda>i. STAGING_LBA + of_nat i) [0..<unat STAGING_SECTORS]) vol)
         (write_zeros (map (\<lambda>i. AUDIT_START_LBA + of_nat i) [0..<8])))))
     }"

text \<open>An existing image is formatted only when it has no superblock.\<close>

definition mkvol_existing :: "bytes \<Rightarrow> bytes \<Rightarrow> drive \<Rightarrow> (agt_error + drive) option" where
  "mkvol_existing seed vol_key vol =
     (case read_lba vol 0 1 of
        Inl e \<Rightarrow> Some (Inl e)
      | Inr sb \<Rightarrow> if rslice sb 0 8 = SB_MAGIC then Some (Inl AlreadyFormatted) else mkvol seed vol_key vol)"

section \<open>updpack and apppack\<close>

definition pad_sector :: "bytes \<Rightarrow> bytes" where
  "pad_sector b = b @ replicate (sectors_for (length b) * SECTOR - length b) 0"

definition flip_bit :: "nat \<Rightarrow> bytes \<Rightarrow> bytes option" where
  "flip_bit i b = (if i < length b then Some (b[i := b ! i XOR 0x20]) else None)"

text \<open>The package for a payload: sealed under the volume key, signed, optionally corrupted.\<close>

definition update_package :: "bytes \<Rightarrow> u64 \<Rightarrow> bytes \<Rightarrow> bytes \<Rightarrow> bool \<Rightarrow> (bytes \<times> nat) option" where
  "update_package seed gen payload vol_key corrupt =
     do {
       payload_sig \<leftarrow> sign seed payload;
       (img, img_len) \<leftarrow> build_slot_image (replicate SLOT_IMAGE_MAX 0) gen payload payload_sig vol_key;
       let img = take img_len img;
       image_sig \<leftarrow> sign seed img;
       (pkg, total_len) \<leftarrow> write_stage_package (replicate (PKG_IMAGE_OFF + length img) 0) img image_sig;
       pkg \<leftarrow> (if corrupt then flip_bit (PKG_IMAGE_OFF + 2 * SECTOR) pkg else Some pkg);
       Some (pad_sector pkg, total_len)
     }"

definition updpack :: "bytes \<Rightarrow> u64 \<Rightarrow> bytes \<Rightarrow> bool \<Rightarrow> drive \<Rightarrow> (agt_error + drive) option" where
  "updpack seed gen payload corrupt vol =
     (case read_lba vol 0 1 of
        Inl e \<Rightarrow> Some (Inl e)
      | Inr sb \<Rightarrow>
          if parse_superblock sb = None then Some (Inl NotFormatted)
          else let vol_key = rslice sb SB_KEY_OFF (SB_KEY_OFF + 32) in
            do {
              valid \<leftarrow> superblock_valid vol_key sb;
              if \<not> valid then Some (Inl BadSuperblockMac)
              else if length payload > PAYLOAD_CAP then Some (Inl PayloadTooLarge)
              else do {
                (pkg, total_len) \<leftarrow> update_package seed gen payload vol_key corrupt;
                if total_len > unat STAGING_SECTORS * SECTOR then Some (Inl ExceedsStaging)
                else write_lba STAGING_LBA pkg vol
              }
            })"

definition valid_app_name :: "bytes \<Rightarrow> bool" where
  "valid_app_name name \<longleftrightarrow> name \<noteq> [] \<and> length name \<le> APP_NAME_MAX \<and> list_all (\<lambda>b. alphanumeric b \<or> b = 0x2d) name"

definition apppack :: "bytes \<Rightarrow> bytes \<Rightarrow> u64 \<Rightarrow> bytes \<Rightarrow> bool \<Rightarrow> drive \<Rightarrow> (agt_error + drive) option" where
  "apppack seed name version payload corrupt vol =
     (if \<not> valid_app_name name then Some (Inl BadName)
      else if payload = [] \<or> length payload > APP_STAGE_CAP then Some (Inl (BadSize (length payload)))
      else do {
        digest \<leftarrow> sha256 payload;
        signature \<leftarrow> sign seed (app_signing_message name version (length payload) digest);
        (r, package) \<leftarrow> write_app_stage_package (replicate (APP_PKG_HEADER + length payload) 0) name version payload signature;
        case r of
          None \<Rightarrow> Some (Inl NotEncoded)
        | Some total_len \<Rightarrow>
            do {
              package \<leftarrow> (if corrupt then flip_bit APP_PKG_HEADER package else Some package);
              let package = take (sectors_for total_len * SECTOR) package @ replicate (sectors_for total_len * SECTOR - length package) 0;
              (case read_lba vol SUPERBLOCK_LBA 1 of
                 Inl e \<Rightarrow> Some (Inl e)
               | Inr sb \<Rightarrow>
                   if parse_superblock sb = None then Some (Inl NotFormatted) else write_lba STAGING_LBA package vol)
            }
      })"

end
