(* ===== verification/Fetch.thy ===== *)
theory Fetch
  imports Initfs Supd
begin

text \<open>
  The protocol between the supervisor and the program store that init serves: what a client packs into message
  words, what the server makes of it, and what the client unpacks.
\<close>

definition demo_image :: boot_image where
  "demo_image = \<lparr>MANIFEST = [], SIG = [], PUB_HEX = [], HELLO_ELF = [], FAULT_TEST_ELF = [], HEART_ELF = [],
     SHELL_ELF = [], STORAGED_ELF = [], SUPD_ELF = []\<rparr>"

section \<open>Names and numbers on the wire\<close>

lemma position_append_not: "\<forall>x \<in> set xs. \<not> p x \<Longrightarrow> position p (xs @ ys) = map_option (\<lambda>i. length xs + i) (position p ys)"
  by (induction xs; cases "position p ys") simp_all

lemma rposition_last: "p y \<Longrightarrow> \<forall>z \<in> set zs. \<not> p z \<Longrightarrow> rposition p (xs @ y # zs) = Some (length xs)"
  by (simp add: rposition_def position_append_not)

lemma strip_any_id: "s \<noteq> [] \<Longrightarrow> \<forall>w \<in> set ws. w \<noteq> [] \<longrightarrow> hd w \<noteq> hd s \<Longrightarrow> strip_any ws s = s"
proof -
  assume s: "s \<noteq> []" "\<forall>w \<in> set ws. w \<noteq> [] \<longrightarrow> hd w \<noteq> hd s"
  have "w = [] \<or> take (length w) s \<noteq> w" if "w \<in> set ws" for w
    using s that by (cases s; cases w) auto
  then have "List.find (\<lambda>w. w \<noteq> [] \<and> take (length w) s = w) ws = None" by (auto simp: find_None_iff)
  then show ?thesis by (subst strip_any.simps) simp
qed

lemma str_trim_push_num [simp]: "str_trim (push_num [] v) = push_num [] v"
proof -
  let ?s = "push_num [] v"
  have s: "?s \<noteq> []" "is_decimal (hd ?s)" "is_decimal (last ?s)"
    using length_push_num(1) [of v] push_num_decimal [of v] by auto
  have "strip_any WHITE_SPACE ?s = ?s"
    using s by (intro strip_any_id) (auto simp: WHITE_SPACE_def is_decimal_def)
  moreover have "strip_any (map rev WHITE_SPACE) (rev ?s) = rev ?s"
    using s by (intro strip_any_id) (auto simp: WHITE_SPACE_def is_decimal_def hd_rev)
  ultimately show ?thesis by (simp add: str_trim_def)
qed

lemma push_num_clean: "0 \<notin> set (push_num [] v)" "0x20 \<notin> set (push_num [] v)"
  using push_num_decimal [of v] is_decimal_neq by blast+

text \<open>The names in the store fit a request and survive trimming.\<close>

definition wire_name :: "bytes \<Rightarrow> bool" where
  "wire_name name \<longleftrightarrow> length name \<le> 10 \<and> 0 \<notin> set name \<and> trim name = name"

lemma store_names_wire:
  "list_all wire_name [lit ''hello'', lit ''fault-test'', lit ''heart'', lit ''shell'', lit ''storaged'', lit ''supd'']"
  by code_simp

lemma lookup_wire: "lookup img name = Some elf \<Longrightarrow> wire_name name"
  using store_names_wire unfolding lookup_def store_def by (auto simp del: lit_simps split: if_splits)

lemma strip_prefix_hd: "p \<noteq> [] \<Longrightarrow> q \<noteq> [] \<Longrightarrow> hd p \<noteq> hd q \<Longrightarrow> strip_prefix (p @ s) q = None"
  by (cases p; cases q) (simp_all add: strip_prefix_def)

lemma dispatch_fetch:
  assumes "wire_name name"
  shows "dispatch_req img K (unpack (pack (lit ''fetch '' @ name))) c i m = Some (fetch_meta img name, m)"
proof -
  have "unpack (pack (lit ''fetch '' @ name)) = lit ''fetch '' @ name"
    using assms by (intro unpack_pack_id) (simp_all add: wire_name_def)
  moreover have "strip_prefix (lit ''fetch '' @ name) (lit ''exec '') = None" "strip_prefix (lit ''fetch '' @ name) (lit ''app '') = None"
    by (rule strip_prefix_hd; simp)+
  ultimately show ?thesis using assms by (simp add: dispatch_req_def wire_name_def del: lit_simps)
qed

lemma dispatch_chunk:
  assumes "wire_name name" and "lookup img name = Some elf" and "off < length elf" and "length elf \<le> 1024 * 1024"
  shows "dispatch_req img K (unpack (pack (push_num (lit ''chunk '' @ name @ [0x20]) (of_nat off)))) c i m =
    Some (copy_at (replicate 40 0) 0 (rslice elf off (min (off + 38) (length elf))), m)"
proof -
  let ?d = "push_num [] (of_nat off)"
  define req where "req = lit ''chunk '' @ name @ 0x20 # ?d"
  have r: "push_num (lit ''chunk '' @ name @ [0x20]) (of_nat off) = req"
    by (subst push_num_append) (simp add: req_def)
  have u: "unat (of_nat off :: u64) = off" using assms(3,4) by (simp add: unsigned_of_nat take_bit_eq_mod)
  have "length ?d \<le> 20" by (rule length_push_num)
  then have "unpack (pack req) = req"
    using assms(1) push_num_clean by (intro unpack_pack_id) (simp_all add: req_def wire_name_def)
  moreover have "strip_prefix req (lit ''exec '') = None" "strip_prefix req (lit ''app '') = None" "strip_prefix req (lit ''fetch '') = None"
    unfolding req_def by (rule strip_prefix_hd; simp)+
  moreover have "strip_prefix req (lit ''chunk '') = Some (name @ 0x20 # ?d)" unfolding req_def by (rule strip_prefix_append)
  moreover have "rposition (\<lambda>c. c = 0x20) (name @ 0x20 # ?d) = Some (length name)"
    using push_num_clean(2) by (intro rposition_last) auto
  ultimately show ?thesis
    using assms by (simp add: r dispatch_req_def handle_chunk_def from_utf8_def u wire_name_def Let_def del: lit_simps)
qed

section \<open>The transfer\<close>

text \<open>C34: one round of the program transfer loses nothing: the supervisor's request for the bytes at an offset, packed
  into message words and unpacked by init, is answered without a system call, and the reply words unpack to exactly
  the bytes of the embedded program at that offset, up to the 38 that a message carries.\<close>

theorem program_chunk:
  assumes "lookup img name = Some elf" and "off < length elf" and "length elf \<le> 1024 * 1024"
  shows "\<exists>out. dispatch_req img K (unpack (pack (push_num (lit ''chunk '' @ name @ [0x20]) (of_nat off)))) console info w = Some (out, w) \<and>
    take (min (length elf - off) 38) (unpack_all (pack out) (replicate 40 0)) = take 38 (drop off elf)"
proof -
  let ?out = "copy_at (replicate 40 0) 0 (rslice elf off (min (off + 38) (length elf)))"
  have "padded 40 ?out = ?out" by (simp add: padded_def)
  moreover have "take (min (length elf - off) 38) ?out = take 38 (drop off elf)"
    by (auto simp: copy_at_def rslice_def min_def)
  ultimately show ?thesis
    using dispatch_chunk [OF lookup_wire [OF assms(1)] assms, of K console info w] by (simp add: unpack_all_pack)
qed

theorem program_chunk_witness:
  "lookup (demo_image\<lparr>HEART_ELF := [0x7f, 0x45, 0, 0x46]\<rparr>) (lit ''heart'') = Some [0x7f, 0x45, 0, 0x46] \<and>
   (\<exists>out. dispatch_req (demo_image\<lparr>HEART_ELF := [0x7f, 0x45, 0, 0x46]\<rparr>) (\<lambda>_ _ _. None)
      (unpack (pack (push_num (lit ''chunk '' @ lit ''heart'' @ [0x20]) (of_nat 1)))) 0 4 () = Some (out, ()) \<and>
      take 3 (unpack_all (pack out) (replicate 40 0)) = [0x45, 0, 0x46])"
proof -
  let ?img = "demo_image\<lparr>HEART_ELF := [0x7f, 0x45, 0, 0x46]\<rparr>"
  have l: "lookup ?img (lit ''heart'') = Some [0x7f, 0x45, 0, 0x46]" by (simp add: lookup_def store_def)
  from program_chunk [OF l, of 1 "\<lambda>_ _ _. None" 0 4 "()"] show ?thesis using l by (simp add: numeral_3_eq_3 del: lit_simps)
qed

end
