(* ===== verification/Confine.thy ===== *)
theory Confine
  imports Fetch Updated
begin

text \<open>
  What a program may ask of the kernel. \<open>only_calls P f\<close> says that the program \<open>f\<close> makes only calls that satisfy
  \<open>P\<close>: two kernels that agree on those calls cannot be told apart by it, whatever they do on the others.
\<close>

section \<open>Confinement\<close>

definition agree :: "(u64 \<Rightarrow> arg list \<Rightarrow> bool) \<Rightarrow> 'w kern \<Rightarrow> 'w kern \<Rightarrow> bool" where
  "agree P K K' \<longleftrightarrow> (\<forall>n args. P n args \<longrightarrow> K n args = K' n args)"

definition only_calls :: "(u64 \<Rightarrow> arg list \<Rightarrow> bool) \<Rightarrow> ('w kern \<Rightarrow> 'w \<Rightarrow> 'a option) \<Rightarrow> bool" where
  "only_calls P f \<longleftrightarrow> (\<forall>K K'. agree P K K' \<longrightarrow> f K = f K')"

lemma only_callsI: "(\<And>K K'. agree P K K' \<Longrightarrow> f K = f K') \<Longrightarrow> only_calls P f"
  by (simp add: only_calls_def)

lemma agreeD: "agree P K K' \<Longrightarrow> P n args \<Longrightarrow> K n args = K' n args"
  by (simp add: agree_def)

lemma sys_rax_agree: "K n args = K' n args \<Longrightarrow> sys_rax K n args = sys_rax K' n args"
  by (simp add: sys_rax_def fun_eq_iff)

lemma sys_result_agree: "K n args = K' n args \<Longrightarrow> sys_result K n args f = sys_result K' n args f"
  by (simp add: sys_result_def fun_eq_iff)

text \<open>The wrappers that a predicate on call numbers lets through.\<close>

lemma debug_write_agree: "agree P K K' \<Longrightarrow> (\<And>args. P SYS_DEBUG_WRITE args) \<Longrightarrow> debug_write K b = debug_write K' b"
  unfolding debug_write_def by (intro sys_rax_agree agreeD)

lemma call_agree: "agree P K K' \<Longrightarrow> (\<And>args. P SYS_IPC_CALL args) \<Longrightarrow> call K slot ws = call K' slot ws"
  unfolding call_def by (intro sys_result_agree agreeD)

lemma wait_agree: "agree P K K' \<Longrightarrow> (\<And>args. P SYS_WAIT args) \<Longrightarrow> wait K = wait K'"
  unfolding wait_def by (intro sys_result_agree agreeD)

lemma spawn_agree:
  "agree P K K' \<Longrightarrow>
   P SYS_TASK_SPAWN [Ptr elf, Val (of_nat (length elf)), Ptr (spawn_spec grants), Val (of_nat (length (spawn_spec grants) div 8)), Val 0, Val 0] \<Longrightarrow>
   spawn K elf grants = spawn K' elf grants"
  unfolding spawn_def Let_def by (intro sys_result_agree agreeD)

lemma block_read_agree:
  assumes "agree P K K'" and "P SYS_BLOCK_READ [Val cap, Val lba, Val (ucast n), Ptr buf, Val 0, Val 0]"
  shows "block_read K cap lba n buf = block_read K' cap lba n buf"
  using agreeD [OF assms] by (simp add: block_read_def fun_eq_iff)

lemma block_write_agree:
  assumes "agree P K K'" and "P SYS_BLOCK_WRITE [Val cap, Val lba, Val (ucast n), Ptr buf, Val 0, Val 0]"
  shows "block_write K cap lba n buf = block_write K' cap lba n buf"
  unfolding block_write_def sys_result_agree [of K _ _ K', OF agreeD [OF assms]] ..

section \<open>The program store\<close>

definition trusted_store :: "boot_image \<Rightarrow> bool" where
  "trusted_store img \<longleftrightarrow>
     length (SIG img) = 64 \<and> verify (pinned_pubkey img) (MANIFEST img) (SIG img) = Some (Inr ()) \<and>
     list_all (covered (parse_manifest (MANIFEST img))) (store img)"

text \<open>C31: init fails closed: unless the manifest carries a valid signature and covers every embedded program
  by length and digest, init makes no system call but debug output, never launches a program and never
  reaches its service loop.\<close>

theorem initfs_fail_closed:
  fixes K :: "'w kern"
  assumes "\<not> trusted_store img"
  shows "only_calls (\<lambda>n args. n = SYS_DEBUG_WRITE) (initfs_main img :: 'w kern \<Rightarrow> _) \<and> initfs_main img K w \<noteq> Some (Inr (), w')"
proof -
  consider "length (SIG img) \<noteq> 64" | v where "length (SIG img) = 64" "verify (pinned_pubkey img) (MANIFEST img) (SIG img) = v" "v \<noteq> Some (Inr ())"
    | p where "length (SIG img) = 64" "verify (pinned_pubkey img) (MANIFEST img) (SIG img) = Some (Inr ())"
        "List.find (\<lambda>p. \<not> covered (parse_manifest (MANIFEST img)) p) (store img) = Some p"
    using assms by (cases "List.find (\<lambda>p. \<not> covered (parse_manifest (MANIFEST img)) p) (store img)")
      (auto simp: trusted_store_def find_None_iff list_all_iff)
  note stopped = this
  have c: "initfs_main img K = initfs_main img K'" if a: "agree (\<lambda>n args. n = SYS_DEBUG_WRITE) K K'" for K K' :: "'w kern"
  proof -
    have d: "debug_write K b = debug_write K' b" for b by (rule debug_write_agree [OF a]) simp
    have s: "say_num K p v q = say_num K' p v q" for p v q by (simp add: say_num_def d)
    show ?thesis
    proof (cases rule: stopped)
      case (2 v)
      then show ?thesis by (cases v) (simp_all add: initfs_main_def d s fun_eq_iff)
    qed (simp_all add: initfs_main_def d s fun_eq_iff split: prod.splits)
  qed
  have "initfs_main img K w \<noteq> Some (Inr (), w')"
  proof (cases rule: stopped)
    case (2 v)
    then show ?thesis by (cases v) (auto simp: initfs_main_def split: bind_splits)
  qed (auto simp: initfs_main_def split: bind_splits)
  then show ?thesis using c by (auto intro: only_callsI)
qed

text \<open>A kernel on which every call succeeds, and which counts them.\<close>

definition count_kern :: "nat kern" where
  "count_kern n args w =
     Some ((\<lparr>sr_rax = 0, sr_a0 = 0, sr_a1 = 0, sr_a2 = 0, sr_a3 = 0, sr_a4 = 0, sr_a5 = 0\<rparr>, []), Suc w)"

theorem initfs_fail_closed_witness:
  "\<not> trusted_store demo_image \<and>
   only_calls (\<lambda>n args. n = SYS_DEBUG_WRITE) (initfs_main demo_image :: nat kern \<Rightarrow> _) \<and>
   initfs_main demo_image count_kern 0 \<noteq> Some (Inr (), 7)"
proof -
  have "\<not> trusted_store demo_image" by (simp add: trusted_store_def demo_image_def)
  then show ?thesis using initfs_fail_closed [of demo_image count_kern 0 7] by simp
qed

section \<open>Installed applications\<close>

text \<open>The owner of the pinned key signed this program under this name.\<close>

definition signed_app :: "boot_image \<Rightarrow> bytes \<Rightarrow> bytes \<Rightarrow> bool" where
  "signed_app img name elf \<longleftrightarrow>
     (\<exists>digest version sig. sha256 elf = Some digest \<and>
        verify (pinned_pubkey img) (app_signing_message name version (length elf) digest) sig = Some (Inr ()))"

text \<open>The calls that launching an application may make: no program but one signed under the name, with the console
  and nothing else.\<close>

definition app_calls :: "boot_image \<Rightarrow> bytes \<Rightarrow> u64 \<Rightarrow> u64 \<Rightarrow> arg list \<Rightarrow> bool" where
  "app_calls img name console n args \<longleftrightarrow>
     n = SYS_IPC_CALL \<or> n = SYS_WAIT \<or>
     n = SYS_TASK_SPAWN \<and>
       (\<exists>elf. signed_app img name elf \<and>
          args = [Ptr elf, Val (of_nat (length elf)), Ptr (spawn_spec [(console, R_WRITE)]), Val 2, Val 0, Val 0])"

lemma app_fetch_agree:
  assumes c: "\<And>slot ws. call K slot ws = call K' slot ws"
  shows "app_fetch K info name len elf w = app_fetch K' info name len elf w"
proof (induction "len - length elf" arbitrary: elf w rule: less_induct)
  case less
  show ?case
  proof (cases "length elf < len")
    case True
    have "app_fetch K info name len (elf @ take (min (len - length elf) 40) (unpack_all ws (replicate 40 0))) w' =
      app_fetch K' info name len (elf @ take (min (len - length elf) 40) (unpack_all ws (replicate 40 0))) w'" for ws w'
      using True by (intro less) simp
    then show ?thesis
      by (subst (1 2) app_fetch.simps) (simp add: c Let_def cong: sum.case_cong)
  next
    case False
    then show ?thesis by (subst (1 2) app_fetch.simps) simp
  qed
qed

lemma app_fetch_length: "app_fetch K info name len elf w = Some (Some out, w') \<Longrightarrow> length elf \<le> len \<Longrightarrow> length out = len"
proof (induction K info name len elf w rule: app_fetch.induct)
  case (1 K info name len elf w)
  show ?case
  proof (cases "length elf < len")
    case False
    then show ?thesis using "1.prems" by (simp add: app_fetch.simps [of K info name len elf])
  next
    case True
    from "1.prems"(1) obtain ws w1 where
      r: "call K info (pack (push_num (lit ''ac '' @ name @ [0x20]) (of_nat (length elf)))) w = Some (Inr ws, w1)"
        "app_fetch K info name len (elf @ take (min (len - length elf) 40) (unpack_all ws (replicate 40 0))) w1 = Some (Some out, w')"
      using True by (subst (asm) app_fetch.simps) (auto simp: Let_def split: bind_splits sum.splits)
    have l: "length (elf @ take (min (len - length elf) 40) (unpack_all ws (replicate 40 0))) \<le> len" using True by simp
    show ?thesis using "1.IH" [OF True r(1) refl refl refl refl] r(2) l by simp
  qed
qed

text \<open>C32: launching an installed application never starts a program that the owner of the pinned key did not
  sign under the requested name, whatever the storage service answers, and the program gets the console
  for writing and nothing else.\<close>

theorem installed_app_signed:
  "only_calls (app_calls img name console) (\<lambda>K. run_installed_app img K name console info)"
proof (rule only_callsI, rule ext)
  fix K K' :: "'a kern" and w assume a: "agree (app_calls img name console) K K'"
  have c: "call K slot ws = call K' slot ws" for slot ws by (rule call_agree [OF a]) (simp add: app_calls_def)
  have wt: "wait K = wait K'" by (rule wait_agree [OF a]) (simp add: app_calls_def)
  have i: "initfs_app_info K info name = initfs_app_info K' info name" by (simp add: initfs_app_info_def c fun_eq_iff)
  have x: "app_fixed K info p name o' n = app_fixed K' info p name o' n" for p o' n by (simp add: app_fixed_def c fun_eq_iff)
  have l: "app_fetch K info name len elf w = app_fetch K' info name len elf w" for len elf w by (rule app_fetch_agree [OF c])
  have r: "run_app_elf K elf name console = run_app_elf K' elf name console" if "signed_app img name elf" for elf
  proof -
    have "spawn K elf [(console, R_WRITE)] = spawn K' elf [(console, R_WRITE)]"
      using that by (intro spawn_agree [OF a]) (auto simp: app_calls_def spawn_spec_def)
    then show ?thesis unfolding run_app_elf_def wt by simp
  qed
  have f: "run_app_elf K elf name console v = run_app_elf K' elf name console v"
    if "app_fetch K' info name len [] u = Some (Some elf, v)" "sha256 elf = Some d"
      "verify (pinned_pubkey img) (app_signing_message name version len d) sg = Some (Inr ())" for elf v len u d version sg
  proof -
    have "length elf = len" using app_fetch_length [OF that(1)] by simp
    then have "signed_app img name elf" using that(2,3) unfolding signed_app_def by blast
    then show ?thesis by (simp add: r)
  qed
  show "run_installed_app img K name console info w = run_installed_app img K' name console info w"
    unfolding run_installed_app_def i x l
    by (auto intro!: bind_option_cong simp: Let_def split: option.splits prod.splits if_splits) (erule (2) f)
qed

section \<open>The update agent\<close>

text \<open>A write of the agent: part of an image that the owner of the pinned key signed, at its place.\<close>

definition signed_write :: "bytes \<Rightarrow> arg list \<Rightarrow> bool" where
  "signed_write file args \<longleftrightarrow>
     (\<exists>img sig off n. verify (pub_key file) img sig = Some (Inr ()) \<and> off \<le> length img \<and> off mod SECTOR = 0 \<and>
        args = [Val 1, Val (of_nat (off div SECTOR)), Val n, Ptr (copy_at (replicate (8 * SECTOR) 0) 0 (rslice img off (off + 8 * SECTOR))), Val 0, Val 0])"

definition agent_calls :: "bytes \<Rightarrow> u64 \<Rightarrow> arg list \<Rightarrow> bool" where
  "agent_calls file n args \<longleftrightarrow>
     n = SYS_BLOCK_READ \<and> args ! 0 = Val 0 \<or> n = SYS_BLOCK_WRITE \<and> signed_write file args"

lemma read_stage_agree:
  assumes r: "\<And>lba n buf. block_read K 0 lba n buf = block_read K' 0 lba n buf"
  shows "read_stage K d pkg w = read_stage K' d pkg w"
proof (induction "length pkg - d" arbitrary: d pkg w rule: less_induct)
  case less
  show ?case
  proof (cases "d < length pkg")
    case True
    let ?t = "min (length pkg - d) (8 * SECTOR)"
    have "read_stage K (d + ?t) (copy_at pkg d buf) w' = read_stage K' (d + ?t) (copy_at pkg d buf) w'"
      if "block_read K' 0 lba n (rslice pkg d (d + ?t)) w = Some ((x, buf), w')" for buf w' lba n x
      using True block_read_length [OF that] by (intro less) (auto simp: SECTOR_def)
    then show ?thesis
      by (subst (1 2) read_stage.simps) (auto simp: r Let_def intro!: bind_option_cong)
  next
    case False
    then show ?thesis by (subst (1 2) read_stage.simps) simp
  qed
qed

lemma copy_image_agree:
  assumes w: "\<And>off lba n. off \<le> length img \<Longrightarrow> off mod SECTOR = 0 \<Longrightarrow> lba = of_nat (off div SECTOR) \<Longrightarrow>
      block_write K 1 lba n (copy_at (replicate (8 * SECTOR) 0) 0 (rslice img off (off + 8 * SECTOR))) =
      block_write K' 1 lba n (copy_at (replicate (8 * SECTOR) 0) 0 (rslice img off (off + 8 * SECTOR)))"
    and "d mod SECTOR = 0" and "lba = of_nat (d div SECTOR)"
  shows "copy_image K img d lba v = copy_image K' img d lba v"
  using assms(2,3)
proof (induction "length img - d" arbitrary: d lba v rule: less_induct)
  case less
  show ?case
  proof (cases "d < length img")
    case True
    let ?t = "min (length img - d) (8 * SECTOR)"
    have rs: "rslice img d (d + ?t) = rslice img d (d + 8 * SECTOR)" by (simp add: rslice_def min_def)
    have bw: "block_write K 1 lba n (copy_at (replicate (8 * SECTOR) 0) 0 (rslice img d (d + ?t))) =
        block_write K' 1 lba n (copy_at (replicate (8 * SECTOR) 0) 0 (rslice img d (d + ?t)))" for n
      unfolding rs using True less.prems by (intro w) auto
    show ?thesis
    proof (cases "length img - d \<le> 8 * SECTOR")
      case True
      then have "d + ?t = length img" using \<open>d < length img\<close> by simp
      then have "copy_image K img (d + ?t) l v' = copy_image K' img (d + ?t) l v'" for l v'
        by (simp add: copy_image.simps [of _ img "length img"])
      then show ?thesis by (subst (1 2) copy_image.simps) (auto simp: Let_def bw intro!: bind_option_cong)
    next
      case False
      have "copy_image K img (d + 8 * SECTOR) (lba + 8) v' = copy_image K' img (d + 8 * SECTOR) (lba + 8) v'" for v'
        using less.prems False by (intro less) (auto simp: SECTOR_def)
      moreover have "?t = 8 * SECTOR" "sectors_for (8 * SECTOR) = 8" using False by (auto simp: sectors_for_def SECTOR_def)
      ultimately show ?thesis using bw by (subst (1 2) copy_image.simps) (auto simp: Let_def intro!: bind_option_cong)
    qed
  next
    case False
    then show ?thesis by (subst (1 2) copy_image.simps) simp
  qed
qed

text \<open>C33: the update agent reads only through its first capability and writes only through its second, and what it
  writes is part of an image signed by the owner of the pinned key, at the image's own place.\<close>

theorem updated_confined: "only_calls (agent_calls file) (updated_main file)"
proof (rule only_callsI, rule ext)
  fix K K' :: "'a kern" and w assume a: "agree (agent_calls file) K K'"
  have r: "read_stage K 0 pkg v = read_stage K' 0 pkg v" for pkg v
    by (rule read_stage_agree, rule block_read_agree [OF a]) (simp add: agent_calls_def)
  have c: "copy_image K img 0 0 v = copy_image K' img 0 0 v" if "verify (pub_key file) img sig = Some (Inr ())" for img sig v
  proof (rule copy_image_agree)
    fix off :: nat and lba :: u64 and n :: u16 assume "off \<le> length img" "off mod SECTOR = 0" "lba = of_nat (off div SECTOR)"
    then have "signed_write file [Val 1, Val lba, Val (ucast n), Ptr (copy_at (replicate (8 * SECTOR) 0) 0 (rslice img off (off + 8 * SECTOR))), Val 0, Val 0]"
      using that unfolding signed_write_def
      by - (rule exI [of _ img], rule exI [of _ sig], rule exI [of _ off], rule exI [of _ "ucast n"], simp)
    then show "block_write K 1 lba n (copy_at (replicate (8 * SECTOR) 0) 0 (rslice img off (off + 8 * SECTOR))) =
      block_write K' 1 lba n (copy_at (replicate (8 * SECTOR) 0) 0 (rslice img off (off + 8 * SECTOR)))"
      by (intro block_write_agree [OF a]) (simp add: agent_calls_def)
  qed simp_all
  show "updated_main file K w = updated_main file K' w"
    unfolding updated_main_def r
    by (auto intro!: bind_option_cong simp: Let_def split: option.splits prod.splits if_splits) (erule c)
qed

end
