(* ===== verification/Storaged_Props.thy ===== *)
theory Storaged_Props
  imports Storaged_Ops
begin

text \<open>
  What the storage service keeps over any sequence of requests, whatever the disk and the callers do: its keys,
  its mode, the generation of the running system, the position in the audit log. Then the runtime
  configuration: what is set is what is read back.
\<close>

section \<open>Runs of the service loop\<close>

inductive storaged_runs :: "storaged_image \<Rightarrow> 'w kern \<Rightarrow> storaged \<Rightarrow> 'w \<Rightarrow> storaged \<Rightarrow> 'w \<Rightarrow> bool" for img K where
  runs_refl: "storaged_runs img K st w st w"
| runs_step: "storaged_runs img K st w st1 w1 \<Longrightarrow> storaged_serve_step img K st1 w1 = Some (Inr st2, w2) \<Longrightarrow>
    storaged_runs img K st w st2 w2"

definition log_fits :: "storaged \<Rightarrow> bool" where
  "log_fits st \<longleftrightarrow> unat (s_audit_seq st) \<le> AUDIT_RECORDS"

text \<open>One state may follow the other.\<close>

definition advances :: "storaged \<Rightarrow> storaged \<Rightarrow> bool" where
  "advances st st' \<longleftrightarrow>
     s_block st' = s_block st \<and> s_pubkey st' = s_pubkey st \<and> s_vol_key st' = s_vol_key st \<and> s_recovery st' = s_recovery st \<and>
     (s_active st \<noteq> None \<longrightarrow> s_active st' \<noteq> None \<and> s_generation st \<le> s_generation st' \<and>
        (s_active st' \<noteq> s_active st \<longrightarrow> s_generation st < s_generation st')) \<and>
     (log_fits st \<longrightarrow> log_fits st' \<and> s_audit_seq st \<le> s_audit_seq st')"

lemma advances_refl [simp]: "advances st st"
  by (simp add: advances_def)

lemma advances_trans [trans]: "advances a b \<Longrightarrow> advances b c \<Longrightarrow> advances a c"
  by (auto simp: advances_def)

lemma advances_other [simp]:
  "advances (st\<lparr>s_workspace := ws\<rparr>) x = advances st x" "advances x (st\<lparr>s_workspace := ws\<rparr>) = advances x st"
  "advances (st\<lparr>s_cached_app := ca\<rparr>) x = advances st x" "advances x (st\<lparr>s_cached_app := ca\<rparr>) = advances x st"
  "advances (st\<lparr>s_apps := as\<rparr>) x = advances st x" "advances x (st\<lparr>s_apps := as\<rparr>) = advances x st"
  "advances (st\<lparr>s_overrides := ov\<rparr>) x = advances st x" "advances x (st\<lparr>s_overrides := ov\<rparr>) = advances x st"
  "advances (st\<lparr>s_cfg_gen := g\<rparr>) x = advances st x" "advances x (st\<lparr>s_cfg_gen := g\<rparr>) = advances x st"
  by (simp_all add: advances_def log_fits_def)

lemma unat_Suc_no_wrap: "unat x < n \<Longrightarrow> n < 2 ^ 64 \<Longrightarrow> unat (x + 1) = unat x + 1" for x :: u64
  by (simp add: unat_word_ariths)

lemma audit_raw_advances: "audit_raw K txt st w = Some (st', w') \<Longrightarrow> advances st st'"
proof (erule rev_mp, cases "s_block st")
  case (Some cap)
  have "unat (s_audit_seq st + 1) = unat (s_audit_seq st) + 1" if "\<not> AUDIT_RECORDS \<le> unat (s_audit_seq st)"
    using that by (intro unat_Suc_no_wrap [of _ AUDIT_RECORDS]) (simp_all add: consts_def)
  then show "audit_raw K txt st w = Some (st', w') \<longrightarrow> advances st st'"
    using Some by (auto simp: audit_raw_def advances_def log_fits_def word_le_nat_alt split: bind_splits if_splits)
qed (simp add: audit_raw_def)

lemma cache_app_advances: "cache_app K st name w = Some (r, st', w') \<Longrightarrow> advances st st'"
  by (auto simp: cache_app_def Let_def split: option.splits if_splits bind_splits)

lemma commit_slot_advances: "commit_slot K cap slot gen st w = Some (ok, st', w') \<Longrightarrow> advances st st'"
  by (auto simp: commit_slot_def Let_def advances_def log_fits_def split: if_splits bind_splits)

lemma update_reply_advances: "update_reply K line out st w = Some (r, st', w') \<Longrightarrow> advances st st'"
  by (auto simp: update_reply_def split: bind_splits dest: audit_raw_advances)

lemma update_finish_advances: "update_finish K block slot code st w = Some (r, st', w') \<Longrightarrow> advances st st'"
  by (auto simp: update_finish_def Let_def split: if_splits bind_splits option.splits
      dest!: update_reply_advances commit_slot_advances) (erule (1) advances_trans)+

lemma run_update_advances: "run_update img K st w = Some (r, st', w') \<Longrightarrow> advances st st'"
  by (auto simp: run_update_def Let_def split: bind_splits option.splits sum.splits dest!: update_finish_advances)

lemma install_payload_advances: "install_payload K cap slot lba pkg n st w = Some (r, st', w') \<Longrightarrow> advances st st'"
  by (auto simp: install_payload_def Let_def split: if_splits bind_splits dest!: audit_raw_advances)

lemma install_package_advances: "install_package K cap n st w = Some (r, st', w') \<Longrightarrow> advances st st'"
  by (auto simp: install_package_def Let_def split: if_splits bind_splits option.splits dest!: install_payload_advances)

lemma install_app_advances: "install_app K st w = Some (r, st', w') \<Longrightarrow> advances st st'"
  by (auto simp: install_app_def Let_def split: if_splits bind_splits option.splits dest!: install_package_advances)

lemma remove_app_advances: "remove_app K st name w = Some (r, st', w') \<Longrightarrow> advances st st'"
  by (auto simp: remove_app_def Let_def split: if_splits bind_splits option.splits dest!: audit_raw_advances)

lemma config_set_advances: "config_set K st rest w = Some (r, st', w') \<Longrightarrow> advances st st'"
  by (auto simp: config_set_def persist_overrides_def Let_def split: if_splits bind_splits option.splits dest!: audit_raw_advances)

lemma handle_config_advances: "handle_config img K st req w = Some (r, st', w') \<Longrightarrow> advances st st'"
  by (auto simp: handle_config_def split: if_splits option.splits
      dest: config_set_advances run_update_advances install_app_advances remove_app_advances)

lemma query_apps_advances: "query_apps K st req w = Some (r, st', w') \<Longrightarrow> advances st st'"
  by (auto simp: query_apps_def app_info_def app_chunk_def Let_def split: if_splits option.splits bind_splits dest!: cache_app_advances)

lemma handle_query_advances: "handle_query K st req w = Some (r, st', w') \<Longrightarrow> advances st st'"
  by (auto simp: handle_query_def split: if_splits option.splits bind_splits dest!: audit_raw_advances query_apps_advances)

lemma serve_step_advances: "storaged_serve_step img K st w = Some (Inr st', w') \<Longrightarrow> advances st st'"
  by (auto simp: storaged_serve_step_def split: if_splits bind_splits sum.splits
      dest!: handle_query_advances handle_config_advances) (erule (1) advances_trans)

lemma runs_advances: "storaged_runs img K st w st' w' \<Longrightarrow> advances st st'"
  by (induction rule: storaged_runs.induct) (auto dest: serve_step_advances elim: advances_trans)



section \<open>Runtime configuration\<close>





lemma trim_not_blank: "trim s \<noteq> [] \<Longrightarrow> \<not> blank (hd (trim s)) \<and> \<not> blank (last (trim s))"
proof -
  assume "trim s \<noteq> []"
  then have n: "dropWhile blank (rev (dropWhile blank s)) \<noteq> []" by (simp add: trim_def)
  have "\<not> blank (last (trim s))" using n hd_dropWhile [of blank] by (simp add: trim_def last_rev)
  moreover have "\<not> blank (hd (trim s))"
  proof -
    have m: "dropWhile blank s \<noteq> []" using n by (cases "dropWhile blank s = []") simp_all
    obtain ys zs where d: "dropWhile blank s = ys @ zs" "trim s = ys"
      unfolding trim_def by (metis dropWhile_eq_drop rev_rev_ident rev_drop rev_swap append_take_drop_id)
    then have "hd (trim s) = hd (dropWhile blank s)" using \<open>trim s \<noteq> []\<close> by simp
    then show ?thesis using hd_dropWhile [OF m] by simp
  qed
  ultimately show ?thesis by simp
qed

lemma trim_trim [simp]: "trim (trim s) = trim s"
  using trim_not_blank by (intro trim_id) blast














text \<open>Why keys and values are restricted: \<^verbatim>\<open>=\<close> in a key loses the value, a newline in a value sets another key.\<close>

lemma config_set_injection:
  "override_lines (lit ''a=b'') (split_on 0x0a (set_text [] (lit ''a=b'') (lit ''c''))) = None"
  "override_lines (lit ''y'') (split_on 0x0a (set_text [] (lit ''x'') (lit ''1'' @ [0x0a] @ lit ''y=2''))) = Some (lit ''2'')"
  by code_simp+

end
