(* ===== verification/Storaged_Log.thy ===== *)
theory Storaged_Log
  imports Layout_Props Storaged_Props Confine
begin

text \<open>
  What the service loop of the storage service leaves alone: no sector it writes, and no sector it lets its update
  agent write, is one that holds a record of the audit log or a part of the active system image.
\<close>

section \<open>Calls that spare sectors\<close>











section \<open>Reading\<close>








section \<open>Writing\<close>

definition logged :: "u64 \<Rightarrow> storaged \<Rightarrow> bool" where
  "logged seq st \<longleftrightarrow> log_fits st \<and> seq \<le> s_audit_seq st"


lemma logged_other [simp]:
  "logged seq (st\<lparr>s_workspace := ws\<rparr>) = logged seq st" "logged seq (st\<lparr>s_cached_app := ca\<rparr>) = logged seq st"
  "logged seq (st\<lparr>s_apps := as\<rparr>) = logged seq st" "logged seq (st\<lparr>s_overrides := ov\<rparr>) = logged seq st"
  "logged seq (st\<lparr>s_cfg_gen := g\<rparr>) = logged seq st"
  by (simp_all add: logged_def log_fits_def)









subsection \<open>Updates\<close>








subsection \<open>Applications\<close>










section \<open>Requests\<close>











end
