(* ===== verification/Supd_Props.thy ===== *)
theory Supd_Props
  imports Fetch
begin

text \<open>
  The supervisor over time: which failure counts and waiting times can occur, and what an operator's stop and
  start achieve.
\<close>

section \<open>Runs\<close>


text \<open>A running service has no recorded failure, any other at most one.\<close>

definition counted :: "service \<Rightarrow> bool" where
  "counted s \<longleftrightarrow> sv_failures s \<le> 1 \<and> (\<forall>tid. sv_state s = Running tid \<longrightarrow> sv_failures s = 0)"




lemma counted_simps [simp]:
  "counted (s\<lparr>sv_restart := b\<rparr>) = counted s" "counted (s\<lparr>sv_restarts := n\<rparr>) = counted s"
  "counted (s\<lparr>sv_state := Running tid, sv_failures := 0\<rparr>)"
  "counted (s\<lparr>sv_failures := 0\<rparr>)"
  "counted (s\<lparr>sv_failures := 0, sv_state := st\<rparr>)"
  by (auto simp: counted_def)

lemma counted_not_running [simp]:
  "counted s \<Longrightarrow> counted (s\<lparr>sv_state := Failed\<rparr>)" "counted s \<Longrightarrow> counted (s\<lparr>sv_state := Stopped\<rparr>)"
  "counted s \<Longrightarrow> counted (s\<lparr>sv_state := Waiting at\<rparr>)"
  by (simp_all add: counted_def)


















section \<open>Crash loops\<close>



















end
