(* ===== verification/Boot.thy ===== *)
theory Boot
  imports Syscall
begin

text \<open>
  The start of the system, \<^verbatim>\<open>kernel_main\<close> of \<^verbatim>\<open>kernel/src/main.rs\<close>: the frame allocator, the double-fault
  stack, the kernel heap, the idle stack, six endpoints, the two first programs with their capabilities, and the
  scheduler. What the boot loader and the disk probe find is a parameter (\<open>boot\<close>). Serial line, frame buffer,
  descriptor tables and control registers are not part of the state. An \<^verbatim>\<open>expect\<close> that fails is \<open>None\<close>.
\<close>

record boot =
  bt_regions :: "(bool \<times> u64 \<times> u64) list"
  bt_cr3 :: u64
  bt_mem :: physmem
  bt_frames :: "u64 \<Rightarrow> trap_frame"
  bt_primary :: "drive option"
  bt_secondary :: "drive option"
  bt_initfs_elf :: bytes
  bt_console_elf :: bytes

section \<open>Memory\<close>

definition map_page :: "u64 \<Rightarrow> u64 \<Rightarrow> u64 \<Rightarrow> mm \<Rightarrow> mm option" where
  "map_page virt phys flags m = (case map_page_in (mm_cr3 m) virt phys flags m of (ok, m) \<Rightarrow> if ok then Some m else None)"

definition gdt_init :: "mm \<Rightarrow> mm option" where
  "gdt_init m = (case alloc_frames 8 (mm_fa m) of (None, _) \<Rightarrow> None | (Some _, fa) \<Rightarrow> Some (m\<lparr>mm_fa := fa\<rparr>))"

definition HEAP_BASE :: u64 where [consts_def]: "HEAP_BASE = 0x0000700000000000"
definition HEAP_BYTES :: u64 where [consts_def]: "HEAP_BYTES = 8 * 1024 * 1024"

definition heap_init :: "mm \<Rightarrow> mm option" where
  "heap_init m =
     (let pages = HEAP_BYTES div 4096 in
      case alloc_frames pages (mm_fa m) of
        (None, _) \<Rightarrow> None
      | (Some frames, fa) \<Rightarrow>
          ofold (\<lambda>i. map_page (HEAP_BASE + of_nat i * 4096) (frames + of_nat i * 4096) (PRESENT OR WRITABLE OR NO_EXECUTE))
            [0..<unat pages] (m\<lparr>mm_fa := fa\<rparr>))"

text \<open>The first call of \<^verbatim>\<open>idle_stack_top\<close> maps slot 0.\<close>

definition idle_stack_init :: "mm \<Rightarrow> mm option" where
  "idle_stack_init m = (case kstack_slot 0 m of Some (Some _, m) \<Rightarrow> Some m | _ \<Rightarrow> None)"

definition boot_memory :: "boot \<Rightarrow> mm option" where
  "boot_memory b =
     do {
       m \<leftarrow> gdt_init \<lparr>mm_fa = frame_init (bt_regions b), mm_mem = bt_mem b, mm_spaces = [], mm_kstacks = [], mm_cr3 = bt_cr3 b\<rparr>;
       m \<leftarrow> heap_init m;
       idle_stack_init (register_address_space (mm_cr3 m) m)
     }"

section \<open>The first capabilities\<close>

text \<open>The endpoints are numbered in the order of their creation.\<close>

definition console_caps :: "u64 \<Rightarrow> u64 \<Rightarrow> cap list" where
  "console_caps console_ep stdin_ep =
     [Endpoint console_ep (R_READ OR R_WRITE OR R_GRANT), Endpoint stdin_ep (R_READ OR R_WRITE OR R_GRANT)]"

definition initfs_caps :: "u64 \<Rightarrow> u64 \<Rightarrow> u64 \<Rightarrow> u64 \<Rightarrow> u64 \<Rightarrow> u64 \<Rightarrow> kernel_state \<Rightarrow> cap list" where
  "initfs_caps console_ep fs_ep cfg_ep sup_ep info_ep stdin_ep k =
     [Endpoint console_ep (R_WRITE OR R_GRANT),
      Endpoint fs_ep (R_READ OR R_WRITE OR R_GRANT),
      Endpoint cfg_ep (R_READ OR R_WRITE OR R_GRANT),
      Endpoint sup_ep (R_READ OR R_WRITE OR R_GRANT),
      Endpoint info_ep (R_READ OR R_WRITE OR R_GRANT),
      Endpoint stdin_ep (R_WRITE OR R_GRANT)] @
     (if drive_present 1 k then [Block 1 0 (drive_sectors 1 k) (R_READ OR R_WRITE OR R_GRANT)] else [])"

section \<open>The whole sequence\<close>

definition boot_statics :: "boot \<Rightarrow> mm \<Rightarrow> kernel_state" where
  "boot_statics b m =
     \<lparr>k_tasks = [], k_current = None, k_ready = [], k_frames = bt_frames b, k_endpoints = [], k_reap = [],
      k_next_tid = 1, k_next_kslot = 1, k_ticks = 0, k_since_switch = 0,
      k_input = \<lparr>in_queue = [], in_shift = False, in_extended = False, in_waiters = []\<rparr>,
      k_mm = m, k_rsp0 = 0, k_out = [], k_primary = bt_primary b, k_secondary = bt_secondary b\<rparr>"

definition spawn_first :: "bytes \<Rightarrow> bytes \<Rightarrow> cap list \<Rightarrow> kernel_state \<Rightarrow> kernel_state option" where
  "spawn_first elf name caps k =
     (case spawn_user elf name caps None k of Some (Inr _, k) \<Rightarrow> Some k | _ \<Rightarrow> None)"

definition kernel_main :: "boot \<Rightarrow> (cpu \<times> kernel_state) option" where
  "kernel_main b =
     do {
       m \<leftarrow> boot_memory b;
       let k = boot_statics b m;
       let (console_ep, k) = create_endpoint k;
       let (fs_ep, k) = create_endpoint k;
       let (cfg_ep, k) = create_endpoint k;
       let (sup_ep, k) = create_endpoint k;
       let (info_ep, k) = create_endpoint k;
       let (stdin_ep, k) = create_endpoint k;
       let init_caps = initfs_caps console_ep fs_ep cfg_ep sup_ep info_ep stdin_ep k;
       k \<leftarrow> spawn_first (bt_console_elf b) (lit ''console'') (console_caps console_ep stdin_ep) k;
       k \<leftarrow> spawn_first (bt_initfs_elf b) (lit ''initfs'') init_caps k;
       kickoff k
     }"

end
