(* ===== verification/Kernel_Calm.thy ===== *)
theory Kernel_Calm
  imports Kernel_Trap
begin

text \<open>
  What most of the kernel leaves alone. A \<open>calm\<close> change adds no capability table, consumes no kernel-stack slot and
  does not touch a disk. Every handler is calm except the two that create capabilities and the block transfer, so
  that authority and storage can change in three places only.
\<close>

section \<open>Calm changes\<close>

definition cap_tables :: "task list \<Rightarrow> cap option list set" where
  "cap_tables ts = t_caps ` set ts"

definition calm :: "kernel_state \<Rightarrow> kernel_state \<Rightarrow> bool" where
  "calm k k' \<longleftrightarrow>
     cap_tables (k_tasks k') \<subseteq> cap_tables (k_tasks k) \<and> k_next_kslot k' = k_next_kslot k \<and>
     k_primary k' = k_primary k \<and> k_secondary k' = k_secondary k"

lemma calm_refl [simp]: "calm k k"
  by (simp add: calm_def)

lemma calm_trans: "calm k k' \<Longrightarrow> calm k' k'' \<Longrightarrow> calm k k''"
  by (auto simp: calm_def)

lemma calm_simps [simp]:
  "calm k (k'\<lparr>k_frames := fs\<rparr>) = calm k k'" "calm k (k'\<lparr>k_mm := m\<rparr>) = calm k k'" "calm k (k'\<lparr>k_out := out\<rparr>) = calm k k'"
  "calm k (k'\<lparr>k_reap := rq\<rparr>) = calm k k'" "calm k (k'\<lparr>k_ticks := n\<rparr>) = calm k k'"
  "calm k (k'\<lparr>k_since_switch := n\<rparr>) = calm k k'" "calm k (k'\<lparr>k_current := c\<rparr>) = calm k k'"
  "calm k (k'\<lparr>k_rsp0 := r\<rparr>) = calm k k'" "calm k (k'\<lparr>k_ready := q\<rparr>) = calm k k'"
  "calm k (k'\<lparr>k_endpoints := eps\<rparr>) = calm k k'" "calm k (k'\<lparr>k_input := i\<rparr>) = calm k k'"
  "calm k (k'\<lparr>k_next_tid := tid\<rparr>) = calm k k'"
  "calm (k\<lparr>k_since_switch := n\<rparr>) k' = calm k k'" "calm (k\<lparr>k_input := i\<rparr>) k' = calm k k'"
  by (simp_all add: calm_def)

lemma calm_ops [simp]:
  "calm k (set_frame a f k') = calm k k'" "calm k (set_rax a v k') = calm k k'" "calm k (kprint_raw s k') = calm k k'"
  "calm k (set_mm m k') = calm k k'" "calm k (set_current c k') = calm k k'" "calm k (make_ready tid front k') = calm k k'"
  "calm k (set_ep ep e k') = calm k k'" "calm k (bump_tick k') = calm k k'"
  by (simp_all add: set_frame_def set_rax_def kprint_raw_def set_mm_def set_current_def make_ready_def set_ep_def bump_tick_def)

lemma tables_update_first [simp]: "(\<And>t. t_caps (f t) = t_caps t) \<Longrightarrow> cap_tables (update_first p f ts) = cap_tables ts"
  using map_update_first [of t_caps f p ts] unfolding cap_tables_def by (metis list.set_map)

lemma tables_mono: "set ts' \<subseteq> set ts \<Longrightarrow> cap_tables ts' \<subseteq> cap_tables ts"
  by (auto simp: cap_tables_def)

lemma calm_tasks: "cap_tables ts \<subseteq> cap_tables (k_tasks k') \<Longrightarrow> calm k k' \<Longrightarrow> calm k (k'\<lparr>k_tasks := ts\<rparr>)"
  by (auto simp: calm_def)

lemma calm_upd_task [intro!]: "(\<And>t. t_caps (f t) = t_caps t) \<Longrightarrow> calm k k' \<Longrightarrow> calm k (upd_task tid f k')"
  unfolding upd_task_def by (rule calm_tasks) simp_all

lemma calm_with_task: "with_task tid f k = Some k' \<Longrightarrow> (\<And>t. t_caps (f t) = t_caps t) \<Longrightarrow> calm k k'"
  by (auto simp: with_task_def split: option.splits)

lemma calm_schedule_reap [intro!]: "calm k k' \<Longrightarrow> calm k (schedule_reap tid k')"
  by (auto simp: schedule_reap_def intro!: calm_tasks tables_mono split: option.split)

lemma calm_fold: "(\<And>x k'. calm k k' \<Longrightarrow> calm k (f x k')) \<Longrightarrow> calm k k' \<Longrightarrow> calm k (fold f xs k')"
  by (induction xs arbitrary: k') simp_all

section \<open>Results\<close>

definition calm_result :: "kernel_state \<Rightarrow> (cpu \<times> kernel_state) option \<Rightarrow> bool" where
  "calm_result k r \<longleftrightarrow> (\<forall>c k'. r = Some (c, k') \<longrightarrow> calm k k')"

lemma calm_result_simps [simp]:
  "calm_result k None" "calm_result k (Some (c, k')) = calm k k'" "calm_result k (ret fp v k') = calm k k'"
  "calm_result k (stay fp k') = calm k k'"
  by (auto simp: calm_result_def ret_def stay_def)

lemma calm_result_bind:
  "(\<And>k'. r = Some k' \<Longrightarrow> calm_result k (f k')) \<Longrightarrow> calm_result k (r \<bind> f)"
  by (cases r) simp_all

lemma calm_pick_next: "pick_next ex k = (r, k') \<Longrightarrow> calm k k'"
  by (auto simp: pick_next_def split: prod.splits)

lemma calm_resume: "calm k k' \<Longrightarrow> calm_result k (resume tid k')"
  by (auto simp: resume_def Let_def split: option.split)

lemma calm_park_idle: "calm k k' \<Longrightarrow> calm_result k (park_idle k')"
  by (simp add: park_idle_def)

lemma calm_switch_away: "calm k k' \<Longrightarrow> calm_result k (switch_away k')"
  by (auto simp: switch_away_def intro!: calm_resume calm_park_idle split: prod.split option.split
      elim!: calm_trans dest!: calm_pick_next)

lemma calm_requeue: "requeue_current tid fp k' = Some k'' \<Longrightarrow> calm k k' \<Longrightarrow> calm k k''"
  by (auto simp: requeue_current_def split: option.splits)

lemma calm_block:
  "(\<And>t. t_caps (f t) = t_caps t) \<Longrightarrow> calm k k' \<Longrightarrow>
     calm_result k (with_task tid f k' \<bind> (\<lambda>k. switch_away (set_current None k)))"
  by (intro calm_result_bind calm_switch_away) (auto dest: calm_with_task intro: calm_trans)

lemma calm_blocked:
  "with_task tid f k = Some k' \<Longrightarrow> (\<And>t. t_caps (f t) = t_caps t) \<Longrightarrow> calm_result k (switch_away (set_current None k'))"
  by (rule calm_switch_away) (auto dest: calm_with_task)

section \<open>Handlers\<close>

lemma calm_yield: "calm_result k (yield_task tid fp k)"
  by (auto simp: yield_task_def intro!: calm_result_bind calm_resume split: prod.split option.split
      dest!: calm_pick_next calm_requeue)

lemma tables_Cons: "cap_tables (t # ts) = insert (t_caps t) (cap_tables ts)"
  by (simp add: cap_tables_def)

lemma tables_wake_loop: "wake_loop now ts fs = (ts', fs', woke) \<Longrightarrow> cap_tables ts' = cap_tables ts"
  by (induction ts arbitrary: fs ts' fs' woke) (auto simp: tables_Cons split: if_splits prod.splits)

lemma calm_wake_expired: "calm k k' \<Longrightarrow> calm k (wake_expired k')"
  by (auto simp: wake_expired_def intro!: calm_fold calm_tasks split: prod.split dest!: tables_wake_loop)

lemma calm_timer: "calm_result k (timer_trap fp k)"
proof -
  have "calm_result k (maybe_preempt fp k')" if "calm k k'" for k'
    using that
    by (auto simp: maybe_preempt_def Let_def intro!: calm_result_bind calm_resume split: prod.split option.split
        dest!: calm_pick_next calm_requeue elim!: calm_trans)
  then show ?thesis by (simp add: timer_trap_def calm_wake_expired)
qed

lemma tables_orphan: "cap_tables (fold orphan_child kids ts) = cap_tables ts"
  by (induction kids arbitrary: ts) (simp_all add: orphan_child_def)

lemma calm_die: "die tid code (k_tasks k') = (fate, dead, ts) \<Longrightarrow> calm k k' \<Longrightarrow> calm k (k'\<lparr>k_tasks := ts\<rparr>)"
  by (auto simp: die_def Let_def tables_orphan intro!: calm_tasks split: option.splits)

lemma calm_abort_ipc: "calm k k' \<Longrightarrow> calm k (abort_ipc tid k')"
proof -
  have "calm k (wake_stranded c k1)" if "calm k k1" for c k1
    using that by (auto simp: wake_stranded_def split: option.split task_state.split)
  then show "calm k k' \<Longrightarrow> calm k (abort_ipc tid k')" by (auto simp: abort_ipc_def Let_def intro!: calm_fold)
qed

lemma calm_terminate: "terminate_lifecycle tid code k' = Some k'' \<Longrightarrow> calm k k' \<Longrightarrow> calm k k''"
proof -
  assume t: "terminate_lifecycle tid code k' = Some k''" and c: "calm k k'"
  obtain fate dead ts where d: "die tid code (k_tasks k') = (fate, dead, ts)" by (cases "die tid code (k_tasks k')")
  have "calm k (abort_ipc tid (fold schedule_reap dead (k'\<lparr>k_tasks := ts\<rparr>)))"
    by (intro calm_abort_ipc calm_fold calm_schedule_reap calm_die [OF d c])
  then show "calm k k''" using t d
    by (auto simp: terminate_lifecycle_def deliver_exit_def Let_def split: fate.splits option.splits)
qed

lemma calm_exit: "calm_result k (exit_task tid code k)"
  by (auto simp: exit_task_def intro!: calm_result_bind calm_switch_away elim!: calm_terminate)

lemma calm_kill: "calm_result k (sys_kill fp tid victim k)"
  by (auto simp: sys_kill_def intro!: calm_result_bind elim!: calm_terminate)

lemma calm_fill: "fill_from_queue cr3 buf len k' = (n, k'') \<Longrightarrow> calm k k' \<Longrightarrow> calm k k''"
  by (auto simp: fill_from_queue_def split: prod.splits)

lemma calm_copy_to_user: "copy_to_user cr3 dst src k' = (ok, k'') \<Longrightarrow> calm k k' \<Longrightarrow> calm k k''"
  by (auto simp: copy_to_user_def split: if_splits prod.splits)

lemma calm_input_read: "calm_result k (sys_input_read tid fp a k)"
  by (auto simp: sys_input_read_def Let_def try_read_def request_read_def intro!: calm_block
      split: option.split prod.split read_outcome.split elim: calm_fill)

lemma set_remove_first: "set (remove_first p xs) \<subseteq> set xs"
  by (auto simp: remove_first_def split: option.split dest: in_set_takeD in_set_dropD)

lemma calm_wait: "calm_result k (sys_wait tid fp flags k)"
  by (auto simp: sys_wait_def reap_zombie_def intro!: calm_result_bind calm_tasks tables_mono [OF set_remove_first]
      elim!: calm_blocked split: option.splits task_state.splits)

lemma calm_call: "calm_result k (ipc_call tid fp a k)"
proof -
  have w: "calm k k2" if "with_task x f k1 = Some k2" "\<And>t. t_caps (f t) = t_caps t" "calm k k1" for x f k1 k2
    using that calm_with_task calm_trans by blast
  show ?thesis
    unfolding ipc_call_def Let_def
    by (auto intro!: calm_result_bind calm_switch_away calm_tasks elim!: w split: sum.split option.splits)
qed

lemma calm_recv: "calm_result k (ipc_recv tid fp slot deadline k)"
  by (auto simp: ipc_recv_def Let_def intro!: calm_result_bind elim!: calm_blocked split: sum.split list.split)

lemma calm_reply: "calm_result k (ipc_reply tid fp a k)"
  by (auto simp: ipc_reply_def Let_def intro!: calm_result_bind split: sum.split option.split)

lemma calm_sleep: "calm_result k (sys_sleep tid fp delta k)"
  by (auto simp: sys_sleep_def Let_def intro!: calm_block)

lemma calm_debug_write: "calm k (sys_debug_write fp tid buf len raw k)"
  by (auto simp: sys_debug_write_def Let_def split: option.split)

lemma calm_stats: "calm k (sys_stats pad fp tid buf len k)"
  by (auto simp: sys_stats_def split: prod.splits elim: calm_copy_to_user)

lemma calm_set_name: "calm k (sys_set_name fp tid buf len k)"
  by (auto simp: sys_set_name_def set_name_def Let_def split: option.split)

lemma calm_drain: "drain_reaper k = Some k' \<Longrightarrow> calm k k'"
  by (auto simp: drain_reaper_def)

lemma calm_fault: "calm_result k (handle_user_fault fp v k)"
  by (auto simp: handle_user_fault_def intro: calm_exit split: option.split)

lemma calm_scancode: "calm k (on_scancode sc k)"
  by (auto simp: on_scancode_def enqueue_def deliver_to_def Let_def split: option.split list.split prod.split
      elim!: calm_fill)

end
