(* ===== verification/Mmu.thy ===== *)
theory Mmu
  imports Paging
begin

text \<open>
  Stores from ring 3, as the memory-management unit carries them out: every level of the walk
  must be present, writable and open to user mode. This is the processor's side of
  \<^verbatim>\<open>paging.rs\<close>.
\<close>

definition grants :: "u64 \<Rightarrow> bool" where
  "grants e \<longleftrightarrow> e AND (PRESENT OR WRITABLE OR USER_ACCESSIBLE) = PRESENT OR WRITABLE OR USER_ACCESSIBLE"

text \<open>The physical address of a store from ring 3, with pages of 1 GiB, 2 MiB and 4 KiB.\<close>

definition user_store_addr :: "physmem \<Rightarrow> u64 \<Rightarrow> u64 \<Rightarrow> u64 option" where
  "user_store_addr mem cr3 va =
     (let e4 = mem cr3 (p4_index va) in
      if \<not> grants e4 then None
      else let e3 = mem (pte_addr e4) (p3_index va) in
      if \<not> grants e3 then None
      else if e3 AND HUGE_PAGE \<noteq> 0 then Some (pte_addr e3 + (va AND 0x3fffffff))
      else let e2 = mem (pte_addr e3) (p2_index va) in
      if \<not> grants e2 then None
      else if e2 AND HUGE_PAGE \<noteq> 0 then Some (pte_addr e2 + (va AND 0x1fffff))
      else let e1 = mem (pte_addr e2) (p1_index va) in
      if \<not> grants e1 then None
      else Some (pte_addr e1 + (va AND 0xfff)))"

definition user_store :: "u64 \<Rightarrow> u64 \<times> u8 \<Rightarrow> physmem \<Rightarrow> physmem" where
  "user_store cr3 s mem = (case user_store_addr mem cr3 (fst s) of None \<Rightarrow> mem | Some pa \<Rightarrow> write_byte pa (snd s) mem)"

lemma grants_nonzero: "grants e \<Longrightarrow> e \<noteq> 0"
  by (auto simp: grants_def consts_def)

end
