(* ===== verification/Kernel_Run.thy ===== *)
theory Kernel_Run
  imports Boot Kernel_Calm Mmu
begin

text \<open>
  The kernel over time. Between two traps the running program computes: it changes its registers and stores bytes
  wherever the memory-management unit lets it. Then a system call, a fault or the timer enters the kernel on the
  stack that \<^verbatim>\<open>TSS.RSP0\<close> names; a key may be pressed at any moment. The processor halted or rebooting takes no
  further step, and neither does a kernel that panicked.
\<close>

section \<open>User programs on the hardware\<close>

text \<open>The program's stores, then the registers as the trap saves them.\<close>

definition user_runs :: "(u64 \<times> u8) list \<Rightarrow> trap_frame \<Rightarrow> kernel_state \<Rightarrow> kernel_state" where
  "user_runs stores f k =
     set_frame (k_rsp0 k - FRAME_BYTES) (\<lambda>_. f)
       (k\<lparr>k_mm := (k_mm k)\<lparr>mm_mem := fold (user_store (mm_cr3 (k_mm k))) stores (mm_mem (k_mm k))\<rparr>\<rparr>)"

section \<open>Steps\<close>

fun awake :: "cpu \<Rightarrow> bool" where
  "awake (Resume _) = True"
| "awake Idle = True"
| "awake _ = False"

inductive kernel_step :: "cpu \<times> kernel_state \<Rightarrow> cpu \<times> kernel_state \<Rightarrow> bool" where
  user_trap: "awake c \<Longrightarrow> k_current k = Some tid \<Longrightarrow> v = VECTOR_TIMER \<or> v = VECTOR_SYSCALL \<Longrightarrow>
    handle_trap env (k_rsp0 k - FRAME_BYTES) v (user_runs stores f k) = Some s \<Longrightarrow> kernel_step (c, k) s"
| user_fault: "awake c \<Longrightarrow> k_current k = Some tid \<Longrightarrow>
    handle_user_fault (k_rsp0 k - FRAME_BYTES) v (user_runs stores f k) = Some s \<Longrightarrow> kernel_step (c, k) s"
| idle_tick: "awake c \<Longrightarrow> k_current k = None \<Longrightarrow>
    handle_trap env (k_rsp0 k - FRAME_BYTES) VECTOR_TIMER (set_frame (k_rsp0 k - FRAME_BYTES) (\<lambda>_. f) k) = Some s \<Longrightarrow>
    kernel_step (c, k) s"
| key: "awake c \<Longrightarrow> kernel_step (c, k) (c, on_scancode sc k)"

abbreviation kernel_runs :: "cpu \<times> kernel_state \<Rightarrow> cpu \<times> kernel_state \<Rightarrow> bool" where
  "kernel_runs \<equiv> kernel_step\<^sup>*\<^sup>*"

lemma quiet_user_runs [simp]: "quiet k (user_runs stores f k)"
  by (simp add: user_runs_def)

lemma user_runs_current [simp]: "k_current (user_runs stores f k) = k_current k" "k_rsp0 (user_runs stores f k) = k_rsp0 k"
  "k_next_kslot (user_runs stores f k) = k_next_kslot k"
  by (simp_all add: user_runs_def set_frame_def)

section \<open>Partial correctness of every trap\<close>

text \<open>A handler that returns leaves the kernel at rest; nothing is assumed about memory.\<close>

definition keeps_rest :: "(cpu \<times> kernel_state) option \<Rightarrow> bool" where
  "keeps_rest r \<longleftrightarrow> r = None \<or> returns_ok r"

lemma keeps_rest_simps [simp]: "keeps_rest None" "returns_ok r \<Longrightarrow> keeps_rest r"
  by (simp_all add: keeps_rest_def)

lemma dispatch_keeps_rest:
  assumes "at_rest k" and "k_current k \<noteq> None \<Longrightarrow> fp = k_rsp0 k - FRAME_BYTES" and "k_next_kslot k < 2 ^ 64 - 1"
  shows "keeps_rest (dispatch env fp k)"
proof (cases "k_current k")
  case None
  with assms(1) show ?thesis by (simp add: dispatch_def stay_def returns_ok_def cpu_ok_def)
next
  case (Some c)
  then have fp: "fp = k_rsp0 k - FRAME_BYTES" using assms(2) by simp
  define a where "a = args_of (k_frames k fp)"
  define num where "num = tf_rax (k_frames k fp)"
  have reb: "keeps_rest (Some (Reboot, k))" using assms(1) by (simp add: returns_ok_def cpu_ok_def)
  have spawn: "keeps_rest (sys_task_spawn fp c a k \<bind> stay fp)"
  proof (cases "sys_task_spawn fp c a k")
    case (Some k')
    with sys_task_spawn_ok [OF assms(1) \<open>k_current k = Some c\<close> assms(3) Some] fp show ?thesis
      by (simp add: returns_ok_same)
  qed simp
  have wait: "keeps_rest (sys_wait c fp flags k)" for flags
  proof (cases "sys_wait c fp flags k = None")
    case False
    have d: "distinct (map t_id (k_tasks k))" using assms(1) by (simp add: at_rest_def ids_ok_def)
    have "returns_ok (sys_wait c fp flags k)"
    proof (rule sys_wait_ok [OF assms(1) Some fp])
      fix z assume z: "find (\<lambda>t. t_parent t = Some c \<and> is_zombie (t_state t)) (k_tasks k) = Some z"
      then obtain code where "t_state z = Zombie code" "find_task (t_id z) k = Some z"
        using find_tmap(1) [OF d z] by (cases "t_state z") (auto simp: find_task_tmap)
      with False z show "reclaim (snapshot z) (k_mm k) \<noteq> None"
        by (cases "reclaim (snapshot z) (k_mm k)") (simp_all add: sys_wait_def reap_zombie_def)
    qed
    then show ?thesis by simp
  qed simp
  have quiets: "keeps_rest (stay fp (sys_debug_write fp c x y z k))" "keeps_rest (stay fp (sys_stats pad fp c x y k))"
      "keeps_rest (ret fp v k)" for x y z v pad
    using assms(1) fp by (simp_all add: stay_def returns_ok_stay quiet_debug_write quiet_stats returns_ok_ret)
  have tab: "keeps_rest (stay fp (sys_cap_derive fp c a k))" "keeps_rest (stay fp (sys_set_name fp c x y k))" for x y
    using sys_cap_derive_ok [OF assms(1) Some] sys_set_name_ok [OF assms(1) Some] fp by (simp_all add: returns_ok_same)
  note sw = yield_task_ok [OF assms(1) Some fp] exit_task_ok [OF assms(1) Some] ipc_call_ok [OF assms(1) Some fp]
    ipc_recv_ok [OF assms(1) Some fp] ipc_reply_ok [OF assms(1) Some fp] sys_input_read_ok [OF assms(1) Some fp]
    sys_sleep_ok [OF assms(1) Some fp] sys_kill_ok [OF assms(1) Some fp] block_io_ok [OF assms(1) fp]
  show ?thesis
    unfolding dispatch_def Some option.case Let_def a_def [symmetric] num_def [symmetric]
    by (simp only: if_split reb spawn wait quiets tab sw [THEN keeps_rest_simps(2)] simp_thms)
qed

lemma handle_trap_keeps_rest:
  assumes "at_rest k" and "k_current k \<noteq> None \<Longrightarrow> fp = k_rsp0 k - FRAME_BYTES" and "k_next_kslot k < 2 ^ 64 - 1"
  shows "keeps_rest (handle_trap env fp v k)"
proof (cases "drain_reaper k")
  case (Some k1)
  then obtain m where k1: "k1 = k\<lparr>k_mm := m, k_reap := []\<rparr>" by (auto simp: drain_reaper_def)
  have r1: "at_rest k1" using assms(1) by (simp add: k1 at_rest_def)
  have "returns_ok (timer_trap fp k1)" by (rule timer_trap_ok [OF r1]) (use assms(2) in \<open>simp add: k1\<close>)
  moreover have "keeps_rest (dispatch env fp k1)"
    by (rule dispatch_keeps_rest [OF r1]) (use assms(2,3) in \<open>simp_all add: k1\<close>)
  moreover have "returns_ok (stay fp k1)"
    using r1 assms(2) by (cases "k_current k") (simp_all add: k1 stay_def returns_ok_def cpu_ok_def)
  ultimately show ?thesis by (simp add: handle_trap_def Some)
qed (simp add: handle_trap_def)

lemma kernel_step_rest:
  assumes "kernel_step (c, k) (c', k')" and "at_rest k" and "cpu_ok c k" and "k_next_kslot k < 2 ^ 64 - 1"
  shows "at_rest k' \<and> cpu_ok c' k'"
  using assms(1)
proof cases
  case (user_trap tid v env stores f)
  have "at_rest (user_runs stores f k)" using assms(2) at_rest_quiet [OF quiet_user_runs] by blast
  from handle_trap_keeps_rest [OF this, of "k_rsp0 k - FRAME_BYTES" env v] assms(4) user_trap(4)
  show ?thesis by (simp add: keeps_rest_def returns_ok_def)
next
  case (user_fault tid v stores f)
  have "at_rest (user_runs stores f k)" using assms(2) at_rest_quiet [OF quiet_user_runs] by blast
  from handle_user_fault_ok [OF this, of "k_rsp0 k - FRAME_BYTES" v] user_fault(3)
  show ?thesis by (simp add: returns_ok_def)
next
  case (idle_tick env f)
  let ?k = "set_frame (k_rsp0 k - FRAME_BYTES) (\<lambda>_. f) k"
  have "at_rest ?k" using assms(2) at_rest_quiet [of k ?k] by simp
  from handle_trap_keeps_rest [OF this, of "k_rsp0 k - FRAME_BYTES" env VECTOR_TIMER] assms(4) idle_tick(2,3)
  show ?thesis by (simp add: keeps_rest_def returns_ok_def set_frame_def)
next
  case (key sc)
  with assms(2,3) on_scancode_ok [OF assms(2), of sc] show ?thesis by (auto simp: cpu_ok_def split: cpu.splits)
qed

section \<open>Effects on authority and storage\<close>

text \<open>Every task afterwards has a task before it that held at least its capabilities.\<close>

definition flow :: "kernel_state \<Rightarrow> kernel_state \<Rightarrow> bool" where
  "flow k k' \<longleftrightarrow>
     (\<forall>cs' \<in> cap_tables (k_tasks k'). \<exists>cs \<in> cap_tables (k_tasks k).
        \<forall>c. Some c \<in> set cs' \<longrightarrow> (\<exists>b. Some b \<in> set cs \<and> attenuates c b))"

lemma flow_sub: "cap_tables (k_tasks k') \<subseteq> cap_tables (k_tasks k) \<Longrightarrow> flow k k'"
  unfolding flow_def using attenuates_refl by blast

lemma flow_trans: "flow k k' \<Longrightarrow> flow k' k'' \<Longrightarrow> flow k k''"
  unfolding flow_def by (meson attenuates_trans)

text \<open>The running task may write to this sector.\<close>

definition may_write :: "kernel_state \<Rightarrow> u64 \<Rightarrow> u64 \<Rightarrow> bool" where
  "may_write k disk lba \<longleftrightarrow>
     (\<exists>tid t s l r. k_current k = Some tid \<and> tmap (k_tasks k) tid = Some t \<and> Some (Block disk s l r) \<in> set (t_caps t) \<and>
        r AND R_WRITE = R_WRITE \<and> s \<le> lba \<and> unat lba < unat s + unat l)"

text \<open>The drive keeps its size, and its sectors change only where \<open>W\<close> holds, to 512 bytes.\<close>

fun drive_effect :: "(u64 \<Rightarrow> bool) \<Rightarrow> drive option \<Rightarrow> drive option \<Rightarrow> bool" where
  "drive_effect W (Some d) (Some d') \<longleftrightarrow>
     dr_sectors d' = dr_sectors d \<and>
     (\<forall>lba. dr_data d' lba = dr_data d lba \<or> W lba \<and> length (dr_data d' lba) = 512 \<and> lba < dr_sectors d)"
| "drive_effect W None None \<longleftrightarrow> True"
| "drive_effect W _ _ \<longleftrightarrow> False"

lemma drive_effect_refl [simp]: "drive_effect W d d"
  by (cases d) simp_all

definition effect :: "kernel_state \<Rightarrow> kernel_state \<Rightarrow> bool" where
  "effect k k' \<longleftrightarrow> flow k k' \<and> unat (k_next_kslot k') \<le> unat (k_next_kslot k) + 1 \<and>
     (\<forall>disk. drive_effect (may_write k disk) (with_drive disk k) (with_drive disk k'))"

lemma effect_frame [simp]: "effect k (set_frame a f k') = effect k k'" "effect k (set_rax a v k') = effect k k'"
  by (simp_all add: effect_def flow_def with_drive_def set_rax_def set_frame_def)

lemma calm_effect: "calm k k' \<Longrightarrow> effect k k'"
  by (auto simp: calm_def effect_def with_drive_def intro: flow_sub)

lemma effect_refl [simp]: "effect k k"
  by (simp add: calm_effect)

lemma effect_quiet:
  assumes "quiet k k1" and "calm k k1" and "effect k1 k'"
  shows "effect k k'"
proof -
  have m: "may_write k1 = may_write k" using assms(1) by (simp add: quiet_def may_write_def fun_eq_iff)
  have "with_drive disk k1 = with_drive disk k" for disk using assms(2) by (simp add: calm_def with_drive_def)
  moreover have "flow k k'" using assms flow_trans [OF flow_sub] by (auto simp: calm_def effect_def)
  ultimately show ?thesis using assms(2,3) m by (simp add: effect_def calm_def)
qed

lemma effect_result: "calm_result k r \<Longrightarrow> r = Some (c, k') \<Longrightarrow> effect k k'"
  by (auto simp: calm_result_def intro: calm_effect)

lemma tmap_table: "tmap ts tid = Some t \<Longrightarrow> t_caps t \<in> cap_tables ts"
  by (auto simp: tmap_def cap_tables_def dest: find_SomeD)

lemma tables_update_found:
  "tmap ts tid = Some t \<Longrightarrow> cap_tables (update_first (\<lambda>t. t_id t = tid) f ts) \<subseteq> insert (t_caps (f t)) (cap_tables ts)"
  by (induction ts) (auto simp: tmap_Cons tables_Cons split: if_splits)

lemma same_disks_effect:
  "flow k k' \<Longrightarrow> unat (k_next_kslot k') \<le> unat (k_next_kslot k) + 1 \<Longrightarrow> k_primary k' = k_primary k \<Longrightarrow>
     k_secondary k' = k_secondary k \<Longrightarrow> effect k k'"
  by (simp add: effect_def with_drive_def)

lemma cap_derive_effect: "effect k (sys_cap_derive fp tid a k)"
proof (cases "cap_derive_result tid a k")
  case (Inl e)
  then show ?thesis by (simp add: sys_cap_derive_def calm_effect)
next
  case (Inr r)
  obtain slot c where r: "r = (slot, c)" by (cases r)
  with Inr obtain t src where t: "tmap (k_tasks k) tid = Some t" "Some src \<in> set (t_caps t)" "attenuates c src"
    by (auto simp: cap_derive_result_def find_task_tmap split: option.splits sum.splits
        dest: cap_at_Some derive_cap_attenuates)
  define ts where "ts = update_first (\<lambda>t. t_id t = tid) (\<lambda>t. t\<lparr>t_caps := (t_caps t)[slot := Some c]\<rparr>) (k_tasks k)"
  have "cs' \<in> insert ((t_caps t)[slot := Some c]) (cap_tables (k_tasks k))" if "cs' \<in> cap_tables ts" for cs'
    using that tables_update_found [OF t(1), of "\<lambda>t. t\<lparr>t_caps := (t_caps t)[slot := Some c]\<rparr>"] by (auto simp: ts_def)
  moreover have "\<exists>b. Some b \<in> set (t_caps t) \<and> attenuates d b" if "Some d \<in> set ((t_caps t)[slot := Some c])" for d
    using that t(2,3) attenuates_refl set_update_subset_insert [of "t_caps t" slot "Some c"] by blast
  ultimately have "flow k (k\<lparr>k_tasks := ts\<rparr>)"
    using tmap_table [OF t(1)] attenuates_refl unfolding flow_def by fastforce
  then show ?thesis using Inr r
    by (intro same_disks_effect) (simp_all add: sys_cap_derive_def upd_task_def ts_def set_frame_def flow_def)
qed

lemma spawn_user_effect:
  assumes "spawn_user elf name cs parent k = Some (r, k')"
  shows "cap_tables (k_tasks k') \<subseteq> insert (install_caps cs) (cap_tables (k_tasks k)) \<and>
    unat (k_next_kslot k') \<le> unat (k_next_kslot k) + 1 \<and> k_primary k' = k_primary k \<and> k_secondary k' = k_secondary k"
proof -
  have "unat (k_next_kslot k + 1) \<le> unat (k_next_kslot k) + 1" by (simp add: unat_word_ariths)
  moreover have "k_next_kslot k1 = k_next_kslot k0 + 1 \<and> k_tasks k1 = k_tasks k0 \<and> k_primary k1 = k_primary k0 \<and>
      k_secondary k1 = k_secondary k0" if "alloc_kstack k0 = Some (q, k1)" for k0 q k1
    using that by (auto simp: alloc_kstack_def Let_def set_mm_def split: if_splits)
  ultimately show ?thesis using assms
    by (auto simp: spawn_user_def set_mm_def set_frame_def Let_def cap_tables_def split: bind_splits option.splits prod.splits)
qed

lemma task_spawn_effect:
  assumes "sys_task_spawn fp tid a k = Some k'" and "tmap (k_tasks k) tid = Some t"
  shows "effect k k'"
  using sys_task_spawn_cases [OF assms(1)]
proof (elim disjE exE conjE)
  fix elf spec cs r k1
  assume d: "derive_children tid (spec_pairs spec) k = Inr cs"
    and sp: "spawn_user elf [0x75, 0x73, 0x65, 0x72] cs (Some tid) k = Some (r, k1)"
    and k': "k' = (case r of Inr child \<Rightarrow> set_frame fp (\<lambda>f. f\<lparr>tf_rax := E_OK, tf_rdi := child\<rparr>) k1
      | Inl _ \<Rightarrow> set_rax fp E_BAD_ARG k1)"
  have "\<exists>b. Some b \<in> set (t_caps t) \<and> attenuates c b" if "Some c \<in> set (install_caps cs)" for c
    using derive_children_held [OF d set_install_caps [OF that]] assms(2) by (auto dest: derive_child_cap_attenuates)
  then have "flow k k1" using spawn_user_effect [OF sp] tmap_table [OF assms(2)] attenuates_refl unfolding flow_def by blast
  with spawn_user_effect [OF sp] have "effect k k1" by (intro same_disks_effect) simp_all
  then show ?thesis by (simp add: k' split: sum.split)
qed (simp add: calm_effect)

text \<open>A transfer that the capability check lets through stays inside the capability's sectors.\<close>

lemma block_check:
  assumes "locate_block_cap tid slot k = Inr (disk, base)" and "check_block_cap tid slot disk rel n need k = Inr u"
    and "checked_add base rel = Some lba"
  shows "\<exists>t l r. tmap (k_tasks k) tid = Some t \<and> Some (Block disk base l r) \<in> set (t_caps t) \<and> r AND need = need \<and>
    unat lba = unat base + unat rel \<and> unat rel + unat n \<le> unat l"
  using assms checked_add_SomeD(2) [OF assms(3)]
  by (fastforce simp: locate_block_cap_def check_block_cap_def Let_def find_task_tmap word_le_nat_alt consts_def
      split: option.splits cap.splits if_splits dest: cap_at_Some checked_add_SomeD(2))

lemma fold_sectors_in:
  fixes lba :: u64
  shows "fold (\<lambda>s f. f(lba + of_nat s := g s)) [0..<n] f0 x = f0 x \<or>
    (\<exists>s < n. x = lba + of_nat s \<and> fold (\<lambda>s f. f(lba + of_nat s := g s)) [0..<n] f0 x = g s)"
  by (induction n) (auto simp: less_Suc_eq)

lemma unat_count: "unat (ucast (c :: u16) :: u64) = unat c"
  using unat_le_max [of c] by (simp add: unsigned_ucast_eq take_bit_nat_eq_self)

lemma put_sectors_effect:
  assumes "n \<le> unat count" and "unat count * 512 \<le> length buf" and "unat lba + unat count \<le> unat (dr_sectors d)"
    and "\<And>s. s < unat count \<Longrightarrow> unat (lba + of_nat s) = unat lba + s \<Longrightarrow> W (lba + of_nat s)"
  shows "drive_effect W (Some d) (Some (put_sectors d lba buf n))"
proof -
  let ?g = "\<lambda>s. rslice buf (s * 512) (s * 512 + 512)"
  let ?f = "fold (\<lambda>s f. f(lba + of_nat s := ?g s)) [0..<n] (dr_data d)"
  have "?f x = dr_data d x \<or> W x \<and> length (?f x) = 512 \<and> x < dr_sectors d" for x
    using fold_sectors_in [of lba ?g n "dr_data d" x]
  proof (elim disjE exE conjE)
    fix s assume s: "s < n" "x = lba + of_nat s" "?f x = ?g s"
    have u: "unat (lba + of_nat s) = unat lba + s"
      using s(1) assms(1,3) unat_le_max [of "dr_sectors d"] by (simp add: unat_word_ariths unsigned_of_nat take_bit_eq_mod)
    have "W x" using s(1,2) assms(1) assms(4) [OF _ u] by simp
    moreover have "length (?g s) = 512" using s(1) assms(1,2) by (simp add: rslice_def)
    moreover have "x < dr_sectors d" unfolding word_less_nat_alt s(2) u using s(1) assms(1,3) by linarith
    ultimately show ?thesis using s(3) by simp
  qed simp
  then show ?thesis by (simp add: put_sectors_def)
qed

lemma setup_lba48_fits: "setup_lba48 d lba count = Inr regs \<Longrightarrow> unat lba + unat count \<le> unat (dr_sectors d)"
  using checked_add_SomeD(2) [of lba "ucast count"]
  by (auto simp: setup_lba48_def word_le_nat_alt word_less_nat_alt unat_count split: if_splits option.splits)

lemma drive_write_effect:
  assumes "drive_write h d lba count buf = (r, d')"
    and "\<And>s. s < unat count \<Longrightarrow> unat (lba + of_nat s) = unat lba + s \<Longrightarrow> W (lba + of_nat s)"
  shows "drive_effect W (Some d) (Some d')"
proof (cases "setup_lba48 d lba count")
  case (Inl e)
  then show ?thesis using assms(1) by (auto simp: drive_write_def split: if_splits)
next
  case (Inr regs)
  note put = put_sectors_effect [where count = count and W = W, OF _ _ setup_lba48_fits [OF Inr] assms(2)]
  show ?thesis using assms(1) Inr put unfolding drive_write_def
    by (auto simp del: drive_effect.simps split: if_splits)
qed

lemma length_read_through: "read_through mem cr3 va n = Some bs \<Longrightarrow> length bs = n"
  by (induction n arbitrary: va bs) (auto split: option.splits)

lemma write_sectors_effect:
  assumes "write_sectors h disk lba count buf k = (r, k')" and "\<And>s. s < unat count \<Longrightarrow> unat (lba + of_nat s) = unat lba + s \<Longrightarrow> may_write k disk (lba + of_nat s)"
  shows "effect k k'"
proof (cases "with_drive disk k")
  case None
  then show ?thesis using assms(1) by (simp add: write_sectors_def calm_effect)
next
  case (Some d)
  obtain r1 d' where w: "drive_write h d lba count buf = (r1, d')" by (cases "drive_write h d lba count buf")
  have "drive_effect (may_write k disk) (Some d) (Some d')" by (rule drive_write_effect [OF w]) (rule assms(2))
  then show ?thesis using assms(1) Some w
    by (auto simp: write_sectors_def effect_def with_drive_def intro!: flow_sub split: if_splits)
qed

lemma block_io_effect:
  assumes "block_io h fp tid a write k = Some (c, k')" and "k_current k = Some tid"
  shows "effect k k'"
proof -
  let ?count = "ucast (a ! 2) :: u16"
  have w: "effect k k2"
    if loc: "locate_block_cap tid (a ! 0) k = Inr (disk, base)"
      and chk: "check_block_cap tid (a ! 0) disk (a ! 1) (ucast ?count) R_WRITE k = Inr u"
      and add: "checked_add base (a ! 1) = Some lba" and ws: "write_sectors h disk lba ?count data k = (r, k2)"
    for disk base u lba data r k2
  proof (rule write_sectors_effect [OF ws])
    fix s assume s: "s < unat ?count" "unat (lba + of_nat s) = unat lba + s"
    obtain t l r where t: "tmap (k_tasks k) tid = Some t" "Some (Block disk base l r) \<in> set (t_caps t)" "r AND R_WRITE = R_WRITE"
      "unat lba = unat base + unat (a ! 1)" "unat (a ! 1) + unat (ucast ?count :: u64) \<le> unat l"
      using block_check [OF loc chk add] by blast
    have c: "unat (ucast ?count :: u64) = unat ?count" by (rule unat_count)
    then have "base \<le> lba + of_nat s" "unat (lba + of_nat s) < unat base + unat l" using s t(4,5) by (simp_all add: word_le_nat_alt)
    then show "may_write k disk (lba + of_nat s)" using assms(2) t(1-3) unfolding may_write_def by blast
  qed
  have cp: "effect k k2" if "copy_to_user cr3 dst src k = (ok, k2)" for cr3 dst src ok k2
    using that calm_copy_to_user [of cr3 dst src k ok k2 k] by (simp add: calm_effect)
  show ?thesis using assms(1) w cp unfolding block_io_def Let_def ret_def
    by (auto split: if_splits sum.splits option.splits prod.splits)
qed

definition effective :: "kernel_state \<Rightarrow> (cpu \<times> kernel_state) option \<Rightarrow> bool" where
  "effective k r \<longleftrightarrow> (\<forall>c k'. r = Some (c, k') \<longrightarrow> effect k k')"

lemma effective_calm: "calm_result k r \<Longrightarrow> effective k r"
  by (auto simp: effective_def calm_result_def intro: calm_effect)

lemma dispatch_effect:
  assumes "at_rest k"
  shows "effective k (dispatch env fp k)"
proof (cases "k_current k")
  case None
  then show ?thesis by (simp add: dispatch_def effective_calm)
next
  case (Some tid)
  obtain t where t: "tmap (k_tasks k) tid = Some t" using running [OF assms Some] by blast
  note calms = calm_yield calm_exit calm_call calm_recv calm_reply calm_wait calm_input_read calm_sleep calm_kill
  have stays: "effective k (stay fp (sys_debug_write fp tid x y z k))" "effective k (stay fp (sys_stats pad fp tid x y k))"
    "effective k (stay fp (sys_set_name fp tid x y k))" "effective k (ret fp v k)" "effective k (Some (Reboot, k))" for x y z v pad
    by (rule effective_calm, simp add: calm_debug_write calm_stats calm_set_name)+
  have rest: "effective k (stay fp (sys_cap_derive fp tid a k))" "effective k (sys_task_spawn fp tid a k \<bind> stay fp)"
    "effective k (block_io h fp tid a wr k)" for a h wr
    using cap_derive_effect task_spawn_effect [OF _ t] block_io_effect [OF _ Some]
    by (auto simp: effective_def stay_def split: bind_splits)
  show ?thesis
    unfolding dispatch_def Some option.case Let_def
    by (simp only: if_split stays rest calms [THEN effective_calm] simp_thms)
qed

lemma handle_trap_effect:
  assumes "at_rest k"
  shows "effective k (handle_trap env fp v k)"
proof (cases "drain_reaper k")
  case (Some k1)
  have q: "quiet k k1" "calm k k1" using Some by (rule quiet_drain, rule calm_drain)
  have "at_rest k1" using assms at_rest_quiet [OF q(1)] by simp
  then have "effective k1 (if v = VECTOR_TIMER then timer_trap fp k1 else if v = VECTOR_SYSCALL then dispatch env fp k1 else stay fp k1)"
    by (simp add: dispatch_effect effective_calm calm_timer)
  then show ?thesis using Some effect_quiet [OF q] by (simp add: handle_trap_def effective_def)
qed (simp add: handle_trap_def effective_def)

lemma kernel_step_effect:
  assumes "kernel_step (c, k) (c', k')" and "at_rest k"
  shows "effect k k'"
  using assms(1)
proof cases
  case (user_trap tid v env stores f)
  have "at_rest (user_runs stores f k)" using assms(2) at_rest_quiet [OF quiet_user_runs] by blast
  from handle_trap_effect [OF this] user_trap(4) have "effect (user_runs stores f k) k'" by (auto simp: effective_def)
  then show ?thesis by (rule effect_quiet [OF quiet_user_runs, rotated]) (simp add: user_runs_def)
next
  case (user_fault tid v stores f)
  from effective_calm [OF calm_fault] user_fault(3) have "effect (user_runs stores f k) k'" by (auto simp: effective_def)
  then show ?thesis by (rule effect_quiet [OF quiet_user_runs, rotated]) (simp add: user_runs_def)
next
  case (idle_tick env f)
  let ?k = "set_frame (k_rsp0 k - FRAME_BYTES) (\<lambda>_. f) k"
  have "at_rest ?k" using assms(2) at_rest_quiet [of k ?k] by simp
  from handle_trap_effect [OF this] idle_tick(3) have "effect ?k k'" by (auto simp: effective_def)
  then show ?thesis by (rule effect_quiet [rotated 2]) simp_all
next
  case (key sc)
  then show ?thesis by (simp add: calm_effect calm_scancode)
qed

section \<open>Runs\<close>

text \<open>
  A slot counter of 64 bits numbers the kernel stacks, and every spawn uses a number up. Runs are therefore counted:
  what follows holds for the first \<open>2 ^ 64 - 4\<close> traps after the start.
\<close>

definition runs_from :: "nat \<Rightarrow> cpu \<times> kernel_state \<Rightarrow> cpu \<times> kernel_state \<Rightarrow> bool" where
  "runs_from n s s' \<longleftrightarrow>
     (kernel_step ^^ n) s s' \<and> at_rest (snd s) \<and> cpu_ok (fst s) (snd s) \<and> unat (k_next_kslot (snd s)) + n < 2 ^ 64 - 1"

text \<open>Some task of the state may write to this sector.\<close>

definition writable :: "kernel_state \<Rightarrow> u64 \<Rightarrow> u64 \<Rightarrow> bool" where
  "writable k disk lba \<longleftrightarrow>
     (\<exists>t s l r. t \<in> set (k_tasks k) \<and> Some (Block disk s l r) \<in> set (t_caps t) \<and> r AND R_WRITE = R_WRITE \<and>
        s \<le> lba \<and> unat lba < unat s + unat l)"

lemma may_write_flow:
  assumes "flow k k'" and "may_write k' disk lba"
  shows "writable k disk lba"
proof -
  obtain tid t s l r where t: "tmap (k_tasks k') tid = Some t" "Some (Block disk s l r) \<in> set (t_caps t)"
    "r AND R_WRITE = R_WRITE" "s \<le> lba" "unat lba < unat s + unat l"
    using assms(2) by (auto simp: may_write_def)
  obtain t0 b where t0: "t0 \<in> set (k_tasks k)" "Some b \<in> set (t_caps t0)" "attenuates (Block disk s l r) b"
    using assms(1) tmap_table [OF t(1)] t(2) unfolding flow_def cap_tables_def by blast
  then obtain s' l' r' where b: "b = Block disk s' l' r'" "r AND r' = r" "s' \<le> s" "unat s + unat l \<le> unat s' + unat l'"
    by (cases b) auto
  have "r' AND R_WRITE = R_WRITE" using b(2) t(3) by (metis and.assoc and.commute)
  moreover have "s' \<le> lba" "unat lba < unat s' + unat l'" using b(3,4) t(4,5) by auto
  ultimately show ?thesis using t0 b(1) unfolding writable_def by blast
qed

lemma drive_effect_trans:
  "drive_effect W a b \<Longrightarrow> drive_effect W' b c \<Longrightarrow> (\<And>lba. W' lba \<Longrightarrow> W lba) \<Longrightarrow> drive_effect W a c"
  by (cases a; cases b; cases c; simp) metis

lemma run_effect:
  assumes "runs_from n (c, k) (c', k')"
  shows "at_rest k' \<and> cpu_ok c' k' \<and> flow k k' \<and> unat (k_next_kslot k') \<le> unat (k_next_kslot k) + n \<and>
    (\<forall>disk. drive_effect (writable k disk) (with_drive disk k) (with_drive disk k'))"
proof -
  have run: "(kernel_step ^^ n) (c, k) (c', k')" and start: "at_rest k" "cpu_ok c k"
    and few: "unat (k_next_kslot k) + n < 2 ^ 64 - 1" using assms by (simp_all add: runs_from_def)
  show ?thesis using run few
  proof (induction n arbitrary: c' k')
    case 0
    then show ?case using start by (auto intro: flow_sub)
  next
    case (Suc n)
    then obtain c1 k1 where r: "(kernel_step ^^ n) (c, k) (c1, k1)" and st: "kernel_step (c1, k1) (c', k')" by auto
    have ih: "at_rest k1" "cpu_ok c1 k1" "flow k k1" "unat (k_next_kslot k1) \<le> unat (k_next_kslot k) + n"
      "\<And>disk. drive_effect (writable k disk) (with_drive disk k) (with_drive disk k1)"
      using Suc.IH [OF r] Suc.prems(2) by auto
    have "k_next_kslot k1 < 2 ^ 64 - 1" using ih(4) Suc.prems(2) by (simp add: word_less_nat_alt)
    from kernel_step_rest [OF st ih(1,2) this] kernel_step_effect [OF st ih(1)]
    have e: "at_rest k' \<and> cpu_ok c' k'" "effect k1 k'" by auto
    then have "drive_effect (writable k disk) (with_drive disk k) (with_drive disk k')" for disk
      using drive_effect_trans [OF ih(5)] may_write_flow [OF ih(3)] unfolding effect_def by blast
    then show ?case using e ih(3,4) flow_trans [of k k1 k'] by (simp add: effect_def)
  qed
qed

section \<open>A small system\<close>

text \<open>One task with a grantable endpoint and eight sectors of the second disk.\<close>

definition demo_task :: task where
  "demo_task = \<lparr>t_id = 1, t_name = [], t_state = Running, t_cr3 = 0x1000, t_kstack_top = kstack_top 1,
     t_saved_rsp = kstack_top 1 - FRAME_BYTES, t_caps = install_caps [Endpoint 0 7, Block 1 2 8 3], t_parent = None,
     t_kstack_base_va = kstack_top 1 - 0x8000, t_kstack_frames_base = 0x8000, t_pages = 0\<rparr>"

definition demo_kernel :: kernel_state where
  "demo_kernel = \<lparr>k_tasks = [demo_task], k_current = Some 1, k_ready = [], k_frames = (\<lambda>_. new_user 0 0 0x23 0x1b),
     k_endpoints = [\<lparr>ep_pending_callers = [], ep_active_caller = None, ep_active_server = None\<rparr>], k_reap = [],
     k_next_tid = 2, k_next_kslot = 2, k_ticks = 0, k_since_switch = 0,
     k_input = \<lparr>in_queue = [], in_shift = False, in_extended = False, in_waiters = []\<rparr>,
     k_mm = \<lparr>mm_fa = frame_init [], mm_mem = (\<lambda>_ _. 0), mm_spaces = [], mm_kstacks = [], mm_cr3 = 0x1000\<rparr>,
     k_rsp0 = kstack_top 1, k_out = [], k_primary = None,
     k_secondary = Some \<lparr>dr_sectors = 16, dr_data = (\<lambda>_. replicate 512 0)\<rparr>\<rparr>"

lemma demo_rest: "at_rest demo_kernel" "cpu_ok (Resume (kstack_top 1 - FRAME_BYTES)) demo_kernel"
proof -
  have t: "tmap (k_tasks demo_kernel) = [1 \<mapsto> demo_task]"
    by (auto simp: demo_kernel_def tmap_def demo_task_def fun_eq_iff)
  have e: "emap (k_endpoints demo_kernel) = [0 \<mapsto> \<lparr>ep_pending_callers = [], ep_active_caller = None, ep_active_server = None\<rparr>]"
    by (auto simp: demo_kernel_def emap_def fun_eq_iff unat_eq_0)
  have c: "Some c \<in> set (t_caps demo_task) \<Longrightarrow> c = Endpoint 0 7 \<or> c = Block 1 2 8 3" for c
    by (auto simp: demo_task_def dest!: set_install_caps)
  have "core_ok None demo_kernel"
    unfolding core_def t e
    by (auto simp: queue_ok_def ipc_ok_def fam_ok_def input_ok_def caps_ok_def stack_ok_def cap_ok_def ep_ok_def task_ipc_ok_def demo_kernel_def dest!: c)
      (auto simp: demo_task_def intro!: exI [of _ 1])
  then show "at_rest demo_kernel"
    unfolding at_rest_def t by (auto simp: ids_ok_def run_ok_def rsp0_ok_def demo_kernel_def demo_task_def)
  show "cpu_ok (Resume (kstack_top 1 - FRAME_BYTES)) demo_kernel" by (simp add: cpu_ok_def demo_kernel_def)
qed

text \<open>The task asks for a write-only copy of its endpoint capability.\<close>

definition demo_regs :: trap_frame where
  "demo_regs = (new_user 0 0 0x23 0x1b)\<lparr>tf_rax := 7, tf_rdi := 0, tf_rsi := 2\<rparr>"

definition demo_env :: env where
  "demo_env = \<lparr>env_hw = \<lparr>hw_done = 0, hw_error = NoDrive, hw_flush = None\<rparr>, env_pad = 0\<rparr>"

definition demo_after :: kernel_state where
  "demo_after = sys_cap_derive (kstack_top 1 - FRAME_BYTES) 1 [0, 2, 0, 0, 0, 0] (user_runs [] demo_regs demo_kernel)"

lemma demo_run:
  "runs_from 1 (Resume (kstack_top 1 - FRAME_BYTES), demo_kernel) (Resume (kstack_top 1 - FRAME_BYTES), demo_after)"
proof -
  let ?fp = "kstack_top 1 - FRAME_BYTES"
  have r: "k_rsp0 demo_kernel = kstack_top 1" "k_current demo_kernel = Some 1" "k_next_kslot demo_kernel = 2" "k_reap demo_kernel = []"
    by (simp_all add: demo_kernel_def)
  have "k_frames (user_runs [] demo_regs demo_kernel) ?fp = demo_regs" by (simp add: user_runs_def set_frame_def r)
  moreover have "drain_reaper (user_runs [] demo_regs demo_kernel) = Some (user_runs [] demo_regs demo_kernel)"
    by (simp add: drain_reaper_def user_runs_def set_frame_def r)
  ultimately have "handle_trap demo_env ?fp VECTOR_SYSCALL (user_runs [] demo_regs demo_kernel) = Some (Resume ?fp, demo_after)"
    by (simp add: handle_trap_def dispatch_def r demo_after_def stay_def demo_regs_def args_of_def new_user_def
        VECTOR_TIMER_def VECTOR_SYSCALL_def)
  then have "kernel_step (Resume ?fp, demo_kernel) (Resume ?fp, demo_after)"
    using user_trap [of "Resume ?fp" demo_kernel 1 VECTOR_SYSCALL demo_env "[]" demo_regs] r by simp
  then show ?thesis using demo_rest by (simp add: runs_from_def r eq_OO)
qed

lemma demo_table:
  "cap_tables (k_tasks demo_after) = {install_caps [Endpoint 0 7, Block 1 2 8 3, Endpoint 0 2]}"
  by code_simp

section \<open>Properties\<close>

text \<open>C1: the invariant of the kernel. From any state at rest, through any sequence of system calls, faults, timer and
  keyboard interrupts of arbitrary user programs, every trap that returns leaves the kernel at rest: each ready task is
  queued exactly once and nothing else is, exactly the current task runs, on its own kernel stack, blocked callers and
  receivers agree with the endpoints' queues and reply slots, parents outlive their children, zombies have a parent to
  collect them, readers of the keyboard are exactly the queued ones, every endpoint capability names an endpoint, and
  the processor leaves the kernel through the frame at the top of the current task's stack.\<close>

theorem kernel_invariant:
  assumes "runs_from n (c, k) (c', k')"
  shows "at_rest k' \<and> cpu_ok c' k'"
  using run_effect [OF assms] by simp

theorem kernel_invariant_witness:
  "runs_from 1 (Resume (kstack_top 1 - FRAME_BYTES), demo_kernel) (Resume (kstack_top 1 - FRAME_BYTES), demo_after) \<and>
   at_rest demo_after"
  using kernel_invariant [OF demo_run] demo_run by simp

text \<open>C2: authority is confined. However tasks call, spawn, derive, kill and exit, every task that exists in the end
  has a task of the beginning that held at least as much: each of its capabilities attenuates one of that task's. No
  task ever combines the authority of two.\<close>

theorem authority_confined:
  assumes "runs_from n (c, k) (c', k')" and "t' \<in> set (k_tasks k')"
  shows "\<exists>t \<in> set (k_tasks k). \<forall>d. Some d \<in> set (t_caps t') \<longrightarrow> (\<exists>b. Some b \<in> set (t_caps t) \<and> attenuates d b)"
  using run_effect [OF assms(1)] assms(2) unfolding flow_def cap_tables_def by blast

theorem authority_confined_witness:
  "runs_from 1 (Resume (kstack_top 1 - FRAME_BYTES), demo_kernel) (Resume (kstack_top 1 - FRAME_BYTES), demo_after) \<and>
   (\<exists>t' \<in> set (k_tasks demo_after). Some (Endpoint 0 2) \<in> set (t_caps t')) \<and>
   (\<exists>t \<in> set (k_tasks demo_kernel). \<exists>b. Some b \<in> set (t_caps t) \<and> attenuates (Endpoint 0 2) b)"
proof -
  have "install_caps [Endpoint 0 7, Block 1 2 8 3, Endpoint 0 2] \<in> cap_tables (k_tasks demo_after)" using demo_table by simp
  moreover have "Some (Endpoint 0 2) \<in> set (install_caps [Endpoint 0 7, Block 1 2 8 3, Endpoint 0 2])" by code_simp
  ultimately obtain t' where t': "t' \<in> set (k_tasks demo_after)" "Some (Endpoint 0 2) \<in> set (t_caps t')"
    unfolding cap_tables_def by auto
  then show ?thesis using authority_confined [OF demo_run t'(1)] demo_run by blast
qed

text \<open>C3: storage is confined. Over any run a disk keeps its size, and a sector changes only if a task of the beginning
  held a capability for writing that covers it; what changes lies on the disk and is again 512 bytes long.\<close>

theorem storage_confined:
  assumes "runs_from n (c, k) (c', k')" and "with_drive disk k = Some d"
  shows "\<exists>d'. with_drive disk k' = Some d' \<and> dr_sectors d' = dr_sectors d \<and>
    (\<forall>lba. dr_data d' lba = dr_data d lba \<or> writable k disk lba \<and> lba < dr_sectors d \<and> length (dr_data d' lba) = 512)"
proof -
  have "drive_effect (writable k disk) (Some d) (with_drive disk k')" using run_effect [OF assms(1)] assms(2) by metis
  then show ?thesis by (cases "with_drive disk k'") auto
qed

theorem storage_confined_witness:
  "with_drive 1 demo_kernel \<noteq> None \<and> \<not> writable demo_kernel 1 10 \<and>
   dr_data (the (with_drive 1 demo_after)) 10 = dr_data (the (with_drive 1 demo_kernel)) 10"
proof -
  obtain d where d: "with_drive 1 demo_kernel = Some d" by (simp add: with_drive_def demo_kernel_def)
  have n: "\<not> writable demo_kernel 1 10"
    by (auto simp: writable_def demo_kernel_def demo_task_def dest!: set_install_caps)
  obtain d' where "with_drive 1 demo_after = Some d'" "dr_data d' 10 = dr_data d 10"
    using storage_confined [OF demo_run d] n by blast
  then show ?thesis using d n by simp
qed

end
