(* ===== verification/Boot_Props.thy ===== *)
theory Boot_Props
  imports Kernel_Run
begin












end
