(* ===== verification/Fairness.thy ===== *)
theory Fairness
  imports Kernel_Run
begin

text \<open>
  Bounded waiting. As long as programs only compute, so that the timer is the only way into the kernel, a ready task
  reaches the processor after a number of ticks that depends on the entries before it in the ready queue and on the
  bounded waits that may still expire and go before it.
\<close>

section \<open>Who is ahead\<close>

definition ahead :: "usize \<Rightarrow> usize list \<Rightarrow> nat" where
  "ahead tid q = length (takeWhile (\<lambda>x. x \<noteq> tid) q)"

lemma ahead_append: "tid \<in> set xs \<Longrightarrow> ahead tid (xs @ ys) = ahead tid xs"
  by (auto simp: ahead_def takeWhile_append)

lemma ahead_skip: "tid \<notin> set xs \<Longrightarrow> ahead tid (xs @ ys) = length xs + ahead tid ys"
  by (simp add: ahead_def takeWhile_append)

lemma pick_loop_ahead:
  assumes "pick_loop ok ex q sk = (r, q')" and "tid \<in> set q" and "ok tid" and "ex \<noteq> Some tid"
  shows "r = Some tid \<or> (\<exists>x. r = Some x) \<and> tid \<in> set q' \<and> ahead tid q' < ahead tid q"
  using assms(1,2)
proof (induction q arbitrary: sk)
  case (Cons a q)
  show ?case
  proof (cases "a = tid \<or> Some a \<noteq> ex \<and> ok a")
    case True
    with Cons.prems assms(3,4) show ?thesis by (auto simp: ahead_append ahead_def)
  next
    case False
    with Cons.prems have "pick_loop ok ex q (sk @ [a]) = (r, q')" "tid \<in> set q" by auto
    from Cons.IH [OF this] False show ?thesis by (auto simp: ahead_def)
  qed
qed simp

text \<open>A wait with a bound.\<close>

fun timed :: "task_state \<Rightarrow> bool" where
  "timed (BlockedRecv _ deadline) \<longleftrightarrow> deadline \<noteq> 0"
| "timed (BlockedSleep _) \<longleftrightarrow> True"
| "timed _ \<longleftrightarrow> False"

definition waits :: "task list \<Rightarrow> nat" where
  "waits ts = length (filter (\<lambda>t. timed (t_state t)) ts)"

lemma expired_timed: "expired now s \<Longrightarrow> timed s"
  by (cases s) auto

lemma waits_wake_loop: "wake_loop now ts fs = (ts', fs', woke) \<Longrightarrow> length woke + waits ts' = waits ts"
  by (induction ts arbitrary: fs ts' fs' woke) (auto simp: waits_def expired_timed split: if_splits prod.splits)

lemma waits_update:
  assumes "\<And>t. t_id t = tid \<Longrightarrow> t \<in> set ts \<Longrightarrow> timed (t_state (f t)) = timed (t_state t)"
  shows "waits (update_first (\<lambda>t. t_id t = tid) f ts) = waits ts"
  using assms by (induction ts) (auto simp: waits_def)

section \<open>One tick\<close>

text \<open>An upper bound on the ticks until \<open>tid\<close> runs.\<close>

definition patience :: "usize \<Rightarrow> kernel_state \<Rightarrow> nat" where
  "patience tid k = 20 * (ahead tid (k_ready k) + waits (k_tasks k)) + (20 - unat (k_since_switch k))"

definition is_waiting :: "usize \<Rightarrow> kernel_state \<Rightarrow> bool" where
  "is_waiting tid k \<longleftrightarrow> (\<exists>t. tmap (k_tasks k) tid = Some t \<and> t_state t = Ready) \<and> k_since_switch k < QUANTUM_TICKS"

lemma waiting_queued:
  assumes "at_rest k" and "tmap (k_tasks k) tid = Some t" and "t_state t = Ready"
  shows "tid \<in> set (k_ready k) \<and> k_current k \<noteq> Some tid"
proof -
  have "count_list (k_ready k) tid = 1" using assms by (auto simp: at_rest_def core_def queue_ok_def)
  then have "tid \<in> set (k_ready k)" by (simp add: count_list_pos [symmetric])
  moreover have "k_current k \<noteq> Some tid" using assms by (force simp: at_rest_def run_ok_def)
  ultimately show ?thesis by simp
qed

lemma wake_waiting:
  assumes "at_rest k" and "tmap (k_tasks k) tid = Some t" and "t_state t = Ready"
  shows "tmap (k_tasks (wake_expired k)) tid = Some t \<and> k_since_switch (wake_expired k) = k_since_switch k \<and>
    patience tid (wake_expired k) = patience tid k"
proof -
  obtain ts fs woke where w: "wake_loop (k_ticks k) (k_tasks k) (k_frames k) = (ts, fs, woke)" by (metis prod_cases3)
  note ws = wake_loop_spec [OF w]
  have k': "wake_expired k = k\<lparr>k_tasks := ts, k_frames := fs, k_ready := rev woke @ k_ready k\<rparr>"
    by (simp add: wake_expired_def w fold_make_ready)
  have d: "distinct (map t_id (k_tasks k))" using assms(1) by (simp add: at_rest_def ids_ok_def)
  have "tid \<notin> set woke"
  proof
    assume "tid \<in> set woke"
    then obtain u where "u \<in> set (k_tasks k)" "t_id u = tid" "expired (k_ticks k) (t_state u)" using ws by auto
    then show False using tmap_mem [OF d, of tid u] assms(2,3) expired_not_referenced by auto
  qed
  then have "ahead tid (rev woke @ k_ready k) = length woke + ahead tid (k_ready k)" by (simp add: ahead_skip)
  then show ?thesis using ws waits_wake_loop [OF w] assms(2,3) by (simp add: k' patience_def wake_map_def)
qed

lemma waits_state:
  assumes "tmap ts x = Some t" and "distinct (map t_id ts)" and "\<not> timed (t_state t)" and "\<And>t. \<not> timed (t_state (f t))"
  shows "waits (update_first (\<lambda>t. t_id t = x) f ts) = waits ts"
proof (rule waits_update)
  fix u assume "t_id u = x" "u \<in> set ts"
  then have "u = t" using assms(1,2) tmap_mem [OF assms(2), of x u] by simp
  then show "timed (t_state (f u)) = timed (t_state u)" using assms(3,4) by simp
qed

lemma resume_waiting:
  assumes "resume x k = Some (c, k')" and "tmap (k_tasks k) x = Some u" and "t_state u = Ready" and "distinct (map t_id (k_tasks k))"
  shows "k_current k' = Some x \<and> k_ready k' = k_ready k \<and> k_since_switch k' = k_since_switch k \<and>
    waits (k_tasks k') = waits (k_tasks k) \<and> (x \<noteq> tid \<longrightarrow> tmap (k_tasks k') tid = tmap (k_tasks k) tid)"
  using assms waits_state [OF assms(2,4), of "\<lambda>t. t\<lparr>t_state := Running\<rparr>"]
  by (auto simp: resume_def find_task_tmap Let_def upd_task_def set_current_def)

lemma preempt_waiting:
  assumes "at_rest k" and "is_waiting tid k" and "maybe_preempt fp k = Some (c, k')"
  shows "k_current k' = Some tid \<or> is_waiting tid k' \<and> patience tid k' < patience tid k"
proof -
  obtain t where t: "tmap (k_tasks k) tid = Some t" "t_state t = Ready" and s: "k_since_switch k < QUANTUM_TICKS"
    using assms(2) by (auto simp: is_waiting_def)
  have s20: "unat (k_since_switch k) < 20" using s by (simp add: word_less_nat_alt QUANTUM_TICKS_def)
  note q = waiting_queued [OF assms(1) t]
  have d: "distinct (map t_id (k_tasks k))" using assms(1) by (simp add: at_rest_def ids_ok_def)
  show ?thesis
  proof (cases "k_since_switch k + 1 < QUANTUM_TICKS")
    case True
    have "unat (k_since_switch k + 1) = unat (k_since_switch k) + 1" using s20 by (simp add: unat_word_ariths)
    with True assms(3) t s20 show ?thesis
      by (auto simp: maybe_preempt_def is_waiting_def patience_def word_less_nat_alt QUANTUM_TICKS_def)
  next
    case False
    then have s19: "unat (k_since_switch k) = 19" using s20 by (simp add: word_less_nat_alt QUANTUM_TICKS_def unat_word_ariths)
    let ?k = "k\<lparr>k_since_switch := 0\<rparr>"
    obtain r q' where p: "pick_loop (is_ready ?k) (k_current k) (k_ready k) [] = (r, q')" by fastforce
    have ok: "is_ready ?k tid" using t d by (simp add: is_ready_tmap)
    have pn: "pick_next (k_current k) ?k = (r, ?k\<lparr>k_ready := q'\<rparr>)" using p by (simp add: pick_next_def)
    obtain x where x: "r = Some x" and res: "x = tid \<or> tid \<in> set q' \<and> ahead tid q' < ahead tid (k_ready k)"
      using pick_loop_ahead [OF p _ ok] q by auto
    have rest: "ids_ok ?k" "core_ok None ?k" "run_ok (tmap (k_tasks k)) (k_current k)"
      using assms(1) by (simp_all add: at_rest_def)
    obtain u where u: "Some x \<noteq> k_current k" "tmap (k_tasks k) x = Some u" "t_state u = Ready"
      using pick_next_Some [OF _ rest(1,2)] pn x by fastforce
    have step: "k_current k' = Some tid \<or> is_waiting tid k' \<and> patience tid k' < patience tid k"
      if "resume x k1 = Some (c, k')" "tmap (k_tasks k1) x = Some u" "tmap (k_tasks k1) tid = Some t" "k_since_switch k1 = 0"
        "waits (k_tasks k1) = waits (k_tasks k)" "map t_id (k_tasks k1) = map t_id (k_tasks k)" "k_ready k1 = q' @ ys" for k1 ys
      using resume_waiting [OF that(1,2) u(3), of tid] d res that(3-7) t s19
      by (auto simp: is_waiting_def patience_def ahead_append QUANTUM_TICKS_def)
    show ?thesis
    proof (cases "k_current k")
      case None
      then have "resume x (?k\<lparr>k_ready := q'\<rparr>) = Some (c, k')"
        using assms(3) False pn x by (simp add: maybe_preempt_def)
      then show ?thesis by (rule step [where ys = "[]"]) (use u t in simp_all)
    next
      case (Some cur)
      obtain v where v: "tmap (k_tasks k) cur = Some v" "t_state v = Running" using running [OF assms(1) Some] by blast
      let ?f = "\<lambda>t. t\<lparr>t_saved_rsp := fp, t_state := Ready\<rparr>"
      have "resume x (make_ready cur False (upd_task cur ?f (?k\<lparr>k_ready := q'\<rparr>))) = Some (c, k')"
        using assms(3) False pn x Some v(1) by (simp add: maybe_preempt_def requeue_current_def find_task_tmap)
      then show ?thesis
        by (rule step [where ys = "[cur]"])
          (use u t q Some v waits_state [OF v(1) d, of ?f] in \<open>auto simp: make_ready_def upd_task_def\<close>)
    qed
  qed
qed

section \<open>Many ticks\<close>

text \<open>The timer interrupts a program that computed, or the idle loop.\<close>

inductive timer_step :: "cpu \<times> kernel_state \<Rightarrow> cpu \<times> kernel_state \<Rightarrow> bool" where
  tick_user: "k_current k = Some tid \<Longrightarrow>
    handle_trap env (k_rsp0 k - FRAME_BYTES) VECTOR_TIMER (user_runs stores f k) = Some s \<Longrightarrow> timer_step (c, k) s"
| tick_idle: "k_current k = None \<Longrightarrow>
    handle_trap env (k_rsp0 k - FRAME_BYTES) VECTOR_TIMER (set_frame (k_rsp0 k - FRAME_BYTES) (\<lambda>_. f) k) = Some s \<Longrightarrow>
    timer_step (c, k) s"

lemma patience_quiet:
  "quiet k k' \<Longrightarrow> k_since_switch k' = k_since_switch k \<Longrightarrow> patience tid k' = patience tid k \<and> is_waiting tid k' = is_waiting tid k"
  by (simp add: quiet_def patience_def is_waiting_def)

lemma handle_timer_waiting:
  assumes "handle_trap env fp VECTOR_TIMER k = Some (c, k')" and "at_rest k" and "is_waiting tid k"
    and "k_current k \<noteq> None \<Longrightarrow> fp = k_rsp0 k - FRAME_BYTES"
  shows "at_rest k' \<and> (k_current k' = Some tid \<or> is_waiting tid k' \<and> patience tid k' < patience tid k)"
proof -
  obtain k1 where k1: "drain_reaper k = Some k1" "timer_trap fp k1 = Some (c, k')"
    using assms(1) by (auto simp: handle_trap_def split: bind_splits)
  have b: "quiet k (bump_tick k1)" "k_since_switch (bump_tick k1) = k_since_switch k"
    using quiet_drain [OF k1(1)] k1(1) by (auto simp: bump_tick_def drain_reaper_def)
  have r: "at_rest (bump_tick k1)" "is_waiting tid (bump_tick k1)" "patience tid (bump_tick k1) = patience tid k"
    using patience_quiet [OF b] at_rest_quiet [OF b(1)] assms(2,3) by simp_all
  obtain t where t: "tmap (k_tasks (bump_tick k1)) tid = Some t" "t_state t = Ready" using r(2) by (auto simp: is_waiting_def)
  note w = wake_waiting [OF r(1) t] and wr = wake_expired_ok [OF r(1)]
  have "is_waiting tid (wake_expired (bump_tick k1))" using w t r(2) by (simp add: is_waiting_def)
  from preempt_waiting [OF _ this] wr w r(3) k1(2)
  have "k_current k' = Some tid \<or> is_waiting tid k' \<and> patience tid k' < patience tid k" by (auto simp: timer_trap_def)
  moreover have "at_rest k1" using assms(2) at_rest_quiet [OF quiet_drain [OF k1(1)]] by simp
  then have "returns_ok (timer_trap fp k1)"
    by (rule timer_trap_ok) (use assms(4) quiet_drain [OF k1(1)] in \<open>auto simp: quiet_def\<close>)
  ultimately show ?thesis using k1(2) by (simp add: returns_ok_def)
qed

lemma timer_step_waiting:
  assumes "timer_step (c, k) (c', k')" and "at_rest k" and "is_waiting tid k"
  shows "at_rest k' \<and> (k_current k' = Some tid \<or> is_waiting tid k' \<and> patience tid k' < patience tid k)"
  using assms(1)
proof cases
  case (tick_user tid' env stores f)
  have q: "quiet k (user_runs stores f k)" "k_since_switch (user_runs stores f k) = k_since_switch k"
    by (simp_all add: user_runs_def set_frame_def quiet_def)
  from handle_timer_waiting [OF tick_user(2), of tid] patience_quiet [OF q, of tid] at_rest_quiet [OF q(1)] assms(2,3)
  show ?thesis by simp
next
  case (tick_idle env f)
  let ?k = "set_frame (k_rsp0 k - FRAME_BYTES) (\<lambda>_. f) k"
  have q: "quiet k ?k" "k_since_switch ?k = k_since_switch k" "k_rsp0 ?k = k_rsp0 k" by (simp_all add: set_frame_def quiet_def)
  from handle_timer_waiting [OF tick_idle(2), of tid] patience_quiet [OF q(1,2), of tid] at_rest_quiet [OF q(1)] assms(2,3) q(3)
  show ?thesis by simp
qed

lemma eventually_runs:
  assumes "\<And>i. i < patience tid (snd (path 0)) \<Longrightarrow> timer_step (path i) (path (Suc i))"
    and "at_rest (snd (path 0))" and "is_waiting tid (snd (path 0))"
  shows "\<exists>i \<le> patience tid (snd (path 0)). k_current (snd (path i)) = Some tid"
proof (rule ccontr)
  assume never: "\<not> ?thesis"
  have "at_rest (snd (path i)) \<and> is_waiting tid (snd (path i)) \<and> patience tid (snd (path i)) + i \<le> patience tid (snd (path 0))"
    if "i \<le> patience tid (snd (path 0))" for i
    using that
  proof (induction i)
    case (Suc i)
    then have st: "timer_step (fst (path i), snd (path i)) (fst (path (Suc i)), snd (path (Suc i)))" using assms(1) by simp
    have "k_current (snd (path (Suc i))) \<noteq> Some tid" using never Suc.prems by blast
    with timer_step_waiting [OF st, of tid] Suc show ?case by auto
  qed (use assms in simp)
  from this [of "patience tid (snd (path 0))"] have z: "is_waiting tid (snd (path (patience tid (snd (path 0)))))"
    "patience tid (snd (path (patience tid (snd (path 0))))) = 0" by auto
  then show False by (simp add: patience_def is_waiting_def word_less_nat_alt QUANTUM_TICKS_def)
qed

section \<open>Two computing tasks\<close>

definition demo_second :: task where
  "demo_second = demo_task\<lparr>t_id := 2, t_state := Ready, t_cr3 := 0x2000, t_kstack_top := kstack_top 2,
     t_saved_rsp := kstack_top 2 - FRAME_BYTES, t_kstack_base_va := kstack_top 2 - 0x8000, t_kstack_frames_base := 0x10000\<rparr>"

definition demo_two :: kernel_state where
  "demo_two = demo_kernel\<lparr>k_tasks := [demo_task, demo_second], k_ready := [2], k_next_tid := 3, k_next_kslot := 3\<rparr>"

lemma demo_two_rest: "at_rest demo_two"
proof -
  have t: "tmap (k_tasks demo_two) = [1 \<mapsto> demo_task, 2 \<mapsto> demo_second]"
    by (auto simp: demo_two_def tmap_def demo_task_def demo_second_def fun_eq_iff)
  have e: "emap (k_endpoints demo_two) = [0 \<mapsto> \<lparr>ep_pending_callers = [], ep_active_caller = None, ep_active_server = None\<rparr>]"
    by (auto simp: demo_two_def demo_kernel_def emap_def fun_eq_iff unat_eq_0)
  have c: "Some c \<in> set (t_caps demo_task) \<Longrightarrow> c = Endpoint 0 7 \<or> c = Block 1 2 8 3"
    "Some c \<in> set (t_caps demo_second) \<Longrightarrow> c = Endpoint 0 7 \<or> c = Block 1 2 8 3" for c
    by (auto simp: demo_task_def demo_second_def dest!: set_install_caps)
  have k: "kstack_top 1 \<noteq> kstack_top 2" using kstack_top_inj [of 1 2] by auto
  have "queue_ok None [1 \<mapsto> demo_task, 2 \<mapsto> demo_second] [2]" by (auto simp: queue_ok_def demo_task_def demo_second_def)
  moreover have "stack_ok [1 \<mapsto> demo_task, 2 \<mapsto> demo_second] 3"
  proof -
    have "\<exists>s. 0 < s \<and> s < 3 \<and> s < 4096 \<and> kstack_top 1 = kstack_top s" by (rule exI [of _ 1]) simp
    moreover have "\<exists>s. 0 < s \<and> s < 3 \<and> s < 4096 \<and> kstack_top 2 = kstack_top s" by (rule exI [of _ 2]) simp
    ultimately show ?thesis using k unfolding stack_ok_def by (auto simp: demo_task_def demo_second_def)
  qed
  moreover have "caps_ok [1 \<mapsto> demo_task, 2 \<mapsto> demo_second] (emap (k_endpoints demo_two))"
    unfolding e by (auto simp: caps_ok_def cap_ok_def dest!: c) (simp_all add: demo_task_def demo_second_def)
  moreover have "ipc_ok [1 \<mapsto> demo_task, 2 \<mapsto> demo_second] (emap (k_endpoints demo_two))"
    unfolding e by (auto simp: ipc_ok_def ep_ok_def task_ipc_ok_def demo_task_def demo_second_def)
  moreover have "fam_ok [1 \<mapsto> demo_task, 2 \<mapsto> demo_second]" "input_ok [1 \<mapsto> demo_task, 2 \<mapsto> demo_second] []"
    by (auto simp: fam_ok_def input_ok_def demo_task_def demo_second_def)
  ultimately have "core_ok None demo_two" unfolding core_def t by (simp add: demo_two_def demo_kernel_def)
  then show ?thesis
    unfolding at_rest_def t by (auto simp: ids_ok_def run_ok_def rsp0_ok_def demo_two_def demo_kernel_def demo_task_def demo_second_def)
qed

primrec demo_path :: "nat \<Rightarrow> cpu \<times> kernel_state" where
  "demo_path 0 = (Resume (kstack_top 1 - FRAME_BYTES), demo_two)"
| "demo_path (Suc i) =
     (let k = snd (demo_path i) in the (handle_trap demo_env (k_rsp0 k - FRAME_BYTES) VECTOR_TIMER (user_runs [] demo_regs k)))"

lemma reap_switch:
  "pick_next ex k = (r, k') \<Longrightarrow> k_reap k' = k_reap k" "resume x k = Some (c, k') \<Longrightarrow> k_reap k' = k_reap k"
  "requeue_current x fp k = Some k' \<Longrightarrow> k_reap k' = k_reap k"
  by (auto simp: pick_next_def resume_def requeue_current_def upd_task_def make_ready_def set_current_def Let_def
      split: prod.splits option.splits)

lemma reap_wake: "k_reap (wake_expired k) = k_reap k"
  by (simp add: wake_expired_def fold_make_ready split: prod.split)

lemma reap_preempt: "maybe_preempt fp k = Some (c, k') \<Longrightarrow> k_reap k' = k_reap k"
  by (auto simp: maybe_preempt_def Let_def split: if_splits prod.splits option.splits bind_splits dest!: reap_switch)

lemma timer_reap: "timer_trap fp k = Some (c, k') \<Longrightarrow> k_reap k' = k_reap k"
  by (auto simp: timer_trap_def reap_wake bump_tick_def dest!: reap_preempt)

lemma demo_tick:
  assumes "at_rest k" and "k_reap k = []"
  shows "\<exists>c k'. handle_trap demo_env (k_rsp0 k - FRAME_BYTES) VECTOR_TIMER (user_runs [] demo_regs k) = Some (c, k') \<and>
    at_rest k' \<and> k_reap k' = []"
proof -
  let ?k = "user_runs [] demo_regs k"
  have r: "at_rest ?k" "k_reap ?k = []"
    using assms at_rest_quiet [OF quiet_user_runs] by (simp_all add: user_runs_def set_frame_def)
  obtain c k' where t: "timer_trap (k_rsp0 k - FRAME_BYTES) ?k = Some (c, k')" "at_rest k'"
    using timer_trap_ok [OF r(1), of "k_rsp0 k - FRAME_BYTES"] by (auto simp: returns_ok_def)
  have "drain_reaper ?k = Some ?k" using r(2) by (simp add: drain_reaper_def)
  then have "handle_trap demo_env (k_rsp0 k - FRAME_BYTES) VECTOR_TIMER ?k = Some (c, k')" using t(1) by (simp add: handle_trap_def)
  moreover have "k_reap k' = []" using timer_reap [OF t(1)] r(2) by simp
  ultimately show ?thesis using t(2) by blast
qed

declare demo_path.simps [simp del]

lemma demo_path_rest: "at_rest (snd (demo_path i)) \<and> k_reap (snd (demo_path i)) = []"
proof (induction i)
  case 0
  have "k_reap demo_two = []" by (simp add: demo_two_def demo_kernel_def)
  then show ?case using demo_two_rest by (simp add: demo_path.simps)
next
  case (Suc i)
  then obtain c k' where "handle_trap demo_env (k_rsp0 (snd (demo_path i)) - FRAME_BYTES) VECTOR_TIMER
      (user_runs [] demo_regs (snd (demo_path i))) = Some (c, k')" "at_rest k'" "k_reap k' = []"
    using demo_tick [of "snd (demo_path i)"] by blast
  then show ?case by (simp add: demo_path.simps Let_def)
qed

lemma demo_path_step: "timer_step (demo_path i) (demo_path (Suc i))"
proof -
  let ?k = "snd (demo_path i)"
  obtain c k' where t: "handle_trap demo_env (k_rsp0 ?k - FRAME_BYTES) VECTOR_TIMER (user_runs [] demo_regs ?k) = Some (c, k')"
    using demo_tick [of ?k] demo_path_rest [of i] by blast
  have n: "demo_path (Suc i) = (c, k')" using t by (simp add: demo_path.simps Let_def)
  have "timer_step (fst (demo_path i), ?k) (c, k')"
  proof (cases "k_current ?k")
    case None
    moreover have "user_runs [] demo_regs ?k = set_frame (k_rsp0 ?k - FRAME_BYTES) (\<lambda>_. demo_regs) ?k" by (simp add: user_runs_def)
    ultimately show ?thesis using t tick_idle [of ?k demo_env demo_regs "(c, k')" "fst (demo_path i)"] by simp
  next
    case (Some tid)
    then show ?thesis using t by (rule tick_user)
  qed
  then show ?thesis unfolding n by simp
qed

section \<open>Property\<close>

text \<open>C5: no ready task starves among computing programs. While the timer is the only way into the kernel, a ready task
  runs after at most 20 ticks for each queue entry before it and each bounded wait in the system, and the rest of the
  current quantum, whatever the programs compute and store.\<close>

theorem ready_task_runs:
  assumes "path 0 = (c, k)" and "at_rest k" and "tmap (k_tasks k) tid = Some t" and "t_state t = Ready"
    and "k_since_switch k < QUANTUM_TICKS"
    and "\<forall>i < 20 * (ahead tid (k_ready k) + waits (k_tasks k)) + 20. timer_step (path i) (path (Suc i))"
  shows "\<exists>i \<le> 20 * (ahead tid (k_ready k) + waits (k_tasks k)) + 20. k_current (snd (path i)) = Some tid"
proof -
  have p: "patience tid k \<le> 20 * (ahead tid (k_ready k) + waits (k_tasks k)) + 20" by (simp add: patience_def)
  have "is_waiting tid k" using assms(3-5) by (auto simp: is_waiting_def)
  moreover have s: "snd (path 0) = k" using assms(1) by simp
  ultimately have "\<exists>i \<le> patience tid k. k_current (snd (path i)) = Some tid"
    using eventually_runs [of tid path, unfolded s] assms(2,6) p by (meson less_le_trans)
  then show ?thesis using p le_trans by blast
qed

theorem ready_task_runs_witness:
  "tmap (k_tasks demo_two) 2 = Some demo_second \<and> t_state demo_second = Ready \<and>
   (\<exists>i \<le> 20. k_current (snd (demo_path i)) = Some 2)"
proof -
  have "tmap (k_tasks demo_two) 2 = Some demo_second" "t_state demo_second = Ready" "k_since_switch demo_two < QUANTUM_TICKS"
    "ahead 2 (k_ready demo_two) = 0" "waits (k_tasks demo_two) = 0"
    by (simp_all add: demo_two_def demo_kernel_def demo_second_def demo_task_def tmap_def ahead_def waits_def QUANTUM_TICKS_def)
  then show ?thesis
    using ready_task_runs [where path = demo_path and tid = 2 and t = demo_second, OF demo_path.simps(1) demo_two_rest] demo_path_step
    by simp
qed

end
