(* ===== verification/Page_Ledger.thy ===== *)
theory Page_Ledger
  imports Mmu
begin

text \<open>
  The contract between the frame allocator and its clients, page by page. The ledger of
  \<^verbatim>\<open>frame.rs\<close> speaks of bytes; page tables, stacks and user memory are made of pages.
  \<open>holds fa P Q\<close> says that the pages \<open>P\<close> are held and that the pages \<open>Q\<close> will never be handed
  out, whoever they belong to. An allocation returns pages outside both; returning pages of \<open>P\<close>
  never trips an assertion.
\<close>

definition page :: "u64 \<Rightarrow> nat set" where
  "page p = {unat p ..< unat p + 4096}"

definition aligned :: "u64 \<Rightarrow> bool" where
  "aligned p \<longleftrightarrow> 4096 dvd unat p"

definition block :: "u64 \<Rightarrow> nat \<Rightarrow> u64 set" where
  "block b n = (\<lambda>i. b + of_nat i * 4096) ` {..<n}"

definition holds :: "frame_alloc \<Rightarrow> u64 set \<Rightarrow> u64 set \<Rightarrow> bool" where
  "holds fa P Q \<longleftrightarrow> (\<exists>H. ledger fa H \<and> (\<forall>p \<in> P. aligned p \<and> page p \<subseteq> H)) \<and>
     (\<forall>q \<in> Q. aligned q \<and> page q \<inter> available fa = {})"

lemma holds_mono: "holds fa P Q \<Longrightarrow> P' \<subseteq> P \<Longrightarrow> Q' \<subseteq> Q \<Longrightarrow> holds fa P' Q'"
  unfolding holds_def by (meson subsetD)

text \<open>A held page is not handed out.\<close>

lemma holds_pin:
  assumes "holds fa P Q" and "Q' \<subseteq> P \<union> Q"
  shows "holds fa P Q'"
proof -
  from assms(1) obtain H where H: "ledger fa H" "\<forall>p \<in> P. aligned p \<and> page p \<subseteq> H"
    and Q: "\<forall>q \<in> Q. aligned q \<and> page q \<inter> available fa = {}" by (auto simp: holds_def)
  have "H \<inter> available fa = {}" using H(1) by (simp add: ledger_def)
  then have "\<forall>p \<in> P. aligned p \<and> page p \<inter> available fa = {}" using H(2) by blast
  with Q assms(2) have "\<forall>q \<in> Q'. aligned q \<and> page q \<inter> available fa = {}" by blast
  with H show ?thesis by (auto simp: holds_def)
qed

lemma page_inj: "aligned p \<Longrightarrow> aligned q \<Longrightarrow> x \<in> page p \<Longrightarrow> x \<in> page q \<Longrightarrow> p = q"
proof -
  assume a: "aligned p" "aligned q" "x \<in> page p" "x \<in> page q"
  then have "unat p = x div 4096 * 4096" "unat q = x div 4096 * 4096"
    by (auto simp: aligned_def page_def elim!: dvdE)
  then show ?thesis by (metis word_unat_eq_iff)
qed

lemma page_self: "unat p \<in> page p"
  by (simp add: page_def)

text \<open>The pages of a block whose bytes do not run over the address space.\<close>

lemma block_page:
  assumes "aligned b" and "unat b + 4096 * n \<le> 2 ^ 52" and "i < n"
  shows "unat (b + of_nat i * 4096) = unat b + 4096 * i" and "aligned (b + of_nat i * 4096)"
proof -
  have "4096 * i < 2 ^ 52" using assms(2,3) by linarith
  then have "i < 2 ^ 64" by simp
  then have "unat (of_nat i * 4096 :: u64) = 4096 * i"
    using \<open>4096 * i < 2 ^ 52\<close> by (simp add: unat_word_ariths unat_of_nat)
  moreover have "unat b + 4096 * i < 2 ^ 64" using assms(2,3) by simp
  ultimately show u: "unat (b + of_nat i * 4096) = unat b + 4096 * i"
    by (simp add: unat_word_ariths)
  show "aligned (b + of_nat i * 4096)"
    using assms(1) unfolding aligned_def u by simp
qed

lemma block_bytes:
  assumes "aligned b" and "unat b + 4096 * n \<le> 2 ^ 52"
  shows "\<Union> (page ` block b n) = {unat b ..< unat b + 4096 * n}" (is "?L = ?R")
proof
  show "?L \<subseteq> ?R"
    using block_page(1) [OF assms] by (fastforce simp: block_def page_def)
  show "?R \<subseteq> ?L"
  proof
    fix x assume x: "x \<in> ?R"
    define i where "i = (x - unat b) div 4096"
    have i: "i < n" using x unfolding i_def by (intro less_mult_imp_div_less) auto
    have "x - unat b = 4096 * i + (x - unat b) mod 4096" by (simp add: i_def)
    moreover have "(x - unat b) mod 4096 < 4096" by simp
    ultimately have "x \<in> page (b + of_nat i * 4096)"
      using x block_page(1) [OF assms i] unfolding page_def by auto
    with i show "x \<in> ?L" by (auto simp: block_def)
  qed
qed

lemma block_base: "0 < n \<Longrightarrow> b \<in> block b n"
  by (auto simp: block_def intro!: image_eqI [of _ _ 0])

lemma block_one [simp]: "block b (Suc 0) = {b}"
  by (auto simp: block_def)

text \<open>Frames fit the address field of a page-table entry.\<close>

definition frame_addr :: "u64 \<Rightarrow> bool" where
  "frame_addr p \<longleftrightarrow> aligned p \<and> unat p < 2 ^ 52"

lemma holds_frame_addr: "holds fa P Q \<Longrightarrow> p \<in> P \<Longrightarrow> frame_addr p"
proof -
  assume "holds fa P Q" "p \<in> P"
  then obtain H where H: "ledger fa H" "aligned p" "page p \<subseteq> H" by (auto simp: holds_def)
  then have "unat p \<in> ranges (fa_regions fa)"
    using page_self [of p] by (auto simp: ledger_def)
  with ledger_bound [OF H(1)] H(2) show ?thesis by (auto simp: frame_addr_def)
qed

section \<open>Allocation\<close>

lemma holds_alloc:
  assumes "holds fa P Q" and "alloc_frames n fa = (Some b, fa')" and "0 < unat n" and "unat n < 2 ^ 40"
  shows "holds fa' (P \<union> block b (unat n)) Q" and "block b (unat n) \<inter> (P \<union> Q) = {}"
    and "aligned b" and "unat b + 4096 * unat n \<le> 2 ^ 52"
proof -
  from assms(1) obtain H where H: "ledger fa H" "\<forall>p \<in> P. aligned p \<and> page p \<subseteq> H"
    and Q: "\<forall>q \<in> Q. aligned q \<and> page q \<inter> available fa = {}" by (auto simp: holds_def)
  let ?R = "{unat b ..< unat b + 4096 * unat n}"
  have inv: "fa_inv fa" using H(1) by (simp add: ledger_def)
  have m: "max n 1 = n" using assms(3) by (auto simp: max_def word_le_nat_alt intro: word_unat_eq_iff [THEN iffD2])
  from alloc_cases [OF inv assms(4,2)] obtain g where a: "fa_inv fa'" "fa_regions fa' = fa_regions fa"
    "?R \<subseteq> available fa" "available fa' \<subseteq> available fa - ?R" "fa_allocated fa' = fa_allocated fa + n"
    "4096 dvd unat b" "g \<in> set (fa_regions fa)" "fst g \<le> b" "unat b + 4096 * unat n \<le> unat (snd g)"
    by (auto simp: Let_def m)
  note t = ledger_take [OF H(1) a(1-5) a(7-9)]
  show al: "aligned b" using a(6) by (simp add: aligned_def)
  have "regions_ok (fa_regions fa)" using inv by (simp add: fa_inv_def)
  then have "page_range g" using a(7) by (simp add: regions_ok_def list_all_iff)
  then show bd: "unat b + 4096 * unat n \<le> 2 ^ 52" using a(9) by (cases g) auto
  note bytes = block_bytes [OF al bd] and pg = block_page(2) [OF al bd]
  have blk: "aligned p \<and> page p \<subseteq> ?R" if "p \<in> block b (unat n)" for p
    using that bytes pg by (auto simp: block_def)
  show "holds fa' (P \<union> block b (unat n)) Q"
    unfolding holds_def
  proof (intro conjI exI [of _ "H \<union> ?R"] ballI)
    show "ledger fa' (H \<union> ?R)" by (rule t(2))
  next
    fix p assume "p \<in> P \<union> block b (unat n)"
    then show "aligned p" "page p \<subseteq> H \<union> ?R" using H(2) blk by blast+
  next
    fix q assume "q \<in> Q"
    then show "aligned q" "page q \<inter> available fa' = {}" using Q a(4) by blast+
  qed
  show "block b (unat n) \<inter> (P \<union> Q) = {}"
  proof -
    have "\<not> page p \<subseteq> H" if "p \<in> block b (unat n)" for p
      using blk [OF that] page_self [of p] t(1) by blast
    moreover have "page p \<inter> available fa \<noteq> {}" if "p \<in> block b (unat n)" for p
      using blk [OF that] page_self [of p] a(3) by blast
    ultimately show ?thesis using H(2) Q by blast
  qed
qed

lemma holds_alloc_fail:
  assumes "holds fa P Q" and "alloc_frames n fa = (None, fa')" and "unat n < 2 ^ 40"
  shows "holds fa' P Q"
proof -
  from assms(1) obtain H where H: "ledger fa H" "\<forall>p \<in> P. aligned p \<and> page p \<subseteq> H"
    and Q: "\<forall>q \<in> Q. aligned q \<and> page q \<inter> available fa = {}" by (auto simp: holds_def)
  have inv: "fa_inv fa" using H(1) by (simp add: ledger_def)
  from alloc_cases [OF inv assms(3,2)] have a: "fa_inv fa'" "fa_regions fa' = fa_regions fa"
    "available fa' \<subseteq> available fa" "fa_allocated fa' = fa_allocated fa" by auto
  have "ledger fa' H" using H(1) a by (auto simp: ledger_def)
  with H(2) Q a(3) show ?thesis unfolding holds_def by blast
qed

section \<open>Returning pages\<close>

text \<open>
  Managed regions do not touch, so consecutive bytes that are all managed lie in one region.
\<close>

lemma regions_apart:
  assumes "regions_ok xs" and "g \<in> set xs" and "h \<in> set xs" and "unat (snd g) = unat (fst h)"
  shows False
proof -
  have ne: "fst g < snd g" "fst h < snd h"
    using assms(1-3) by (auto simp: regions_ok_def list_all_iff intro: page_range_less)
  show False
  proof (cases "g = h")
    case True
    with ne assms(4) show False by (simp add: word_less_nat_alt)
  next
    case False
    with assms(1-3) have "before g h \<or> before h g"
      unfolding regions_ok_def by (metis (no_types, lifting) in_set_conv_nth linorder_neqE_nat sorted_wrt_iff_nth_less)
    with ne assms(4) show False by (cases g; cases h) (auto simp: word_less_nat_alt)
  qed
qed

lemma one_region:
  assumes "regions_ok xs" and "{a ..< a + n} \<subseteq> ranges xs" and "0 < n"
  shows "\<exists>g \<in> set xs. unat (fst g) \<le> a \<and> a + n \<le> unat (snd g)"
  using assms(2,3)
proof (induction n)
  case 0
  then show ?case by simp
next
  case (Suc n)
  show ?case
  proof (cases "n = 0")
    case True
    then have "a \<in> ranges xs" using Suc.prems by auto
    then show ?thesis using True by (auto simp: ranges_def range_of_eq)
  next
    case False
    then obtain g where g: "g \<in> set xs" "unat (fst g) \<le> a" "a + n \<le> unat (snd g)"
      using Suc by fastforce
    have "a + n \<in> ranges xs" using Suc.prems by auto
    then obtain h where h: "h \<in> set xs" "unat (fst h) \<le> a + n" "a + n < unat (snd h)"
      by (auto simp: ranges_def range_of_eq)
    show ?thesis
    proof (cases "a + n < unat (snd g)")
      case True
      with g show ?thesis by (auto intro!: bexI [of _ g])
    next
      case F: False
      then have e: "unat (snd g) = a + n" using g by simp
      have "unat (fst h) \<noteq> a + n" using regions_apart [OF assms(1) g(1) h(1)] e by auto
      then have "unat (fst h) \<le> a + n - 1" using h(2) by simp
      show ?thesis
      proof (cases "h = g")
        case True
        with h e show ?thesis by simp
      next
        case ne: False
        with assms(1) g(1) h(1) have "before g h \<or> before h g"
          unfolding regions_ok_def by (metis (no_types, lifting) in_set_conv_nth linorder_neqE_nat sorted_wrt_iff_nth_less)
        then show ?thesis
          using e h(2,3) \<open>unat (fst h) \<le> a + n - 1\<close> g(2,3) False
          by (cases g; cases h) (auto simp: word_less_nat_alt)
      qed
    qed
  qed
qed

lemma holds_free:
  assumes "holds fa P Q" and "block b (unat n) \<subseteq> P" and "block b (unat n) \<inter> Q = {}" and "0 < unat n"
    and "unat b + 4096 * unat n \<le> 2 ^ 52"
  shows "\<exists>fa'. free_frames b n fa = Some fa' \<and> holds fa' (P - block b (unat n)) Q"
proof -
  from assms(1) obtain H where H: "ledger fa H" "\<forall>p \<in> P. aligned p \<and> page p \<subseteq> H"
    and Q: "\<forall>q \<in> Q. aligned q \<and> page q \<inter> available fa = {}" by (auto simp: holds_def)
  let ?R = "{unat b ..< unat b + 4096 * unat n}"
  have "b \<in> block b (unat n)" using assms(4) by (rule block_base)
  then have al: "aligned b" using assms(2) H(2) by blast
  note bytes = block_bytes [OF al assms(5)] and pg = block_page(2) [OF al assms(5)]
  have R: "?R \<subseteq> H" using assms(2) H(2) unfolding bytes [symmetric] by blast
  have reg: "regions_ok (fa_regions fa)" and sub: "H \<subseteq> ranges (fa_regions fa)"
    using H(1) by (auto simp: ledger_def fa_inv_def)
  obtain g where g: "g \<in> set (fa_regions fa)" "fst g \<le> b" "unat b + 4096 * unat n \<le> unat (snd g)"
    using one_region [OF reg order_trans [OF R sub]] assms(4) by (auto simp: word_le_nat_alt)
  have "n \<noteq> 0" using assms(4) by (simp add: unat_gt_0)
  from free_frames_ledger_aux [OF H(1) this _ R g] al obtain fa' where
    f: "free_frames b n fa = Some fa'" "ledger fa' (H - ?R)" "available fa' = available fa \<union> ?R"
    by (auto simp: aligned_def)
  have "holds fa' (P - block b (unat n)) Q"
    unfolding holds_def
  proof (intro conjI exI [of _ "H - ?R"] ballI)
    show "ledger fa' (H - ?R)" by (rule f(2))
  next
    fix p assume p: "p \<in> P - block b (unat n)"
    then show "aligned p" using H(2) by blast
    have "page p \<inter> ?R = {}"
      using p H(2) page_inj [of p] pg unfolding bytes [symmetric] block_def by blast
    then show "page p \<subseteq> H - ?R" using p H(2) by blast
  next
    fix q assume q: "q \<in> Q"
    then show "aligned q" using Q by blast
    have "page q \<inter> ?R = {}"
      using q Q assms(3) page_inj [of q] pg unfolding bytes [symmetric] block_def by blast
    then show "page q \<inter> available fa' = {}" using q Q f(3) by blast
  qed
  with f(1) show ?thesis by blast
qed

end
