(* ===== verification/Page_Tree.thy ===== *)
theory Page_Tree
  imports Page_Ledger "HOL-Library.Sublist"
begin

text \<open>
  Page tables as trees. \<open>node mem t p\<close> is the page that the walk along the indices \<open>p\<close> reaches
  from the table \<open>t\<close>; the walk of \<^verbatim>\<open>paging::translate\<close> is the walk along the four indices of an
  address. What the operations of \<^verbatim>\<open>paging.rs\<close> do is described by what they do to the nodes.

  User memory is below entry 0 of a root; the kernel's heap and stacks are below entries 224 and 384. \<open>space_inv\<close> says
  that every page below entry 0 of a root in \<open>R\<close>, and the root itself, has one owner: one root and
  one path. The pages \<open>X\<close> are held outside all trees. The tables of the kernel stacks may be shared
  between the roots, but a table serves at one level only and is no user page.
\<close>

section \<open>Walks\<close>

primrec node :: "physmem \<Rightarrow> u64 \<Rightarrow> nat list \<Rightarrow> u64 option" where
  "node mem t [] = Some t"
| "node mem t (i # p) = (if mem t i = 0 then None else node mem (pte_addr (mem t i)) p)"

definition va_path :: "u64 \<Rightarrow> nat list" where
  "va_path v = [p4_index v, p3_index v, p2_index v, p1_index v]"

lemma translate_node:
  "translate mem t v = map_option (\<lambda>a. a + (v AND 0xfff)) (node mem t (va_path v))"
  by (simp add: translate_def va_path_def Let_def)

lemma node_append:
  "node mem t (p @ q) = (case node mem t p of None \<Rightarrow> None | Some a \<Rightarrow> node mem a q)"
  by (induction p arbitrary: t) auto

lemma node_snoc:
  "node mem t (p @ [i]) = (case node mem t p of None \<Rightarrow> None
     | Some a \<Rightarrow> if mem a i = 0 then None else Some (pte_addr (mem a i)))"
  by (auto simp: node_append split: option.split)

lemma node_prefix_None: "node mem t p = None \<Longrightarrow> prefix p q \<Longrightarrow> node mem t q = None"
  by (auto simp: prefix_def node_append)

text \<open>A walk is determined by the entries it reads.\<close>

lemma node_cong:
  assumes "\<And>q i a. prefix (q @ [i]) p \<Longrightarrow> node mem t q = Some a \<Longrightarrow> mem' a i = mem a i"
  shows "node mem' t p = node mem t p"
  using assms
proof (induction p rule: rev_induct)
  case Nil
  then show ?case by simp
next
  case (snoc i p)
  then have "node mem' t p = node mem t p" by (meson prefix_snoc)
  then show ?case using snoc.prems [of p i] by (auto simp: node_snoc split: option.split)
qed

lemma node_set_word_other:
  assumes "\<And>q. prefix (q @ [i]) p \<Longrightarrow> node mem t q \<noteq> Some a"
  shows "node (set_word a i w mem) t p = node mem t p"
  by (rule node_cong) (use assms in \<open>auto simp: set_word_def\<close>)

text \<open>Writing one entry, reached along \<open>p\<close> only, redirects the walks that continue through it.\<close>

lemma node_set_word_below:
  assumes "node mem t p = Some a" and "\<And>q. prefix (q @ [i]) p \<Longrightarrow> node mem t q \<noteq> Some a"
  shows "node (set_word a i w mem) t (p @ i # r) =
    (if w = 0 then None else node (set_word a i w mem) (pte_addr w) r)"
proof -
  have "node (set_word a i w mem) t p = Some a"
    using node_set_word_other [OF assms(2)] assms(1) by simp
  then show ?thesis by (simp add: node_append) (simp add: set_word_def)
qed

section \<open>Entries\<close>

lemma page_floor_aligned_id: "aligned p \<Longrightarrow> page_floor p = p"
  by (auto simp: word_unat_eq_iff unat_page_floor aligned_def)

lemma aligned_page_floor: "aligned (page_floor p)"
  by (simp only: aligned_def unat_page_floor dvd_triv_right)

lemma addr_mask_eq: "ADDR_MASK = mask 52 AND NOT (mask 12)"
  by (simp add: consts_def mask_eq_exp_minus_1)

lemma frame_addr_masked: "frame_addr f \<Longrightarrow> f AND ADDR_MASK = f"
proof -
  assume f: "frame_addr f"
  then have "take_bit 52 f = f"
    by (simp add: frame_addr_def word_unat_eq_iff unsigned_take_bit_eq take_bit_nat_eq_self_iff)
  moreover have "f AND NOT (mask 12) = f"
    using f page_floor_aligned_id by (simp add: frame_addr_def flip: page_floor_eq)
  ultimately show ?thesis
    by (simp add: addr_mask_eq take_bit_eq_mask and.left_commute and.assoc [symmetric])
qed

lemma aligned_pte_addr: "aligned (pte_addr w)"
proof -
  have "pte_addr w = page_floor (w AND mask 52)"
    by (simp add: pte_addr_def addr_mask_eq page_floor_eq and.assoc)
  then show ?thesis by (simp add: aligned_page_floor)
qed

lemma pte_addr_pte:
  "frame_addr f \<Longrightarrow> flags AND ADDR_MASK = 0 \<Longrightarrow> pte_addr (pte f flags) = f"
  by (simp add: pte_addr_def pte_def bit.conj_disj_distrib2 frame_addr_masked)

lemma pte_nonzero: "flags AND PRESENT \<noteq> 0 \<Longrightarrow> pte f flags \<noteq> 0"
  by (metis pte_def and_zero_eq or_eq_0_iff zero_and_eq)

text \<open>The flags the kernel uses are present and stay out of the address field.\<close>

definition flags_ok :: "u64 \<Rightarrow> bool" where
  "flags_ok flags \<longleftrightarrow> flags AND ADDR_MASK = 0 \<and> flags AND PRESENT \<noteq> 0"

lemma flags_ok_table: "flags_ok TABLE_FLAGS"
  by (simp add: flags_ok_def consts_def)

lemma flags_ok_kstack: "flags_ok KSTACK_FLAGS"
  by (simp add: flags_ok_def consts_def)

lemma pte_ok:
  "frame_addr f \<Longrightarrow> flags_ok flags \<Longrightarrow> pte_addr (pte f flags) = f \<and> pte f flags \<noteq> 0"
  by (auto simp: flags_ok_def pte_addr_pte pte_nonzero)

lemma pte_not_huge: "aligned f \<Longrightarrow> pte f TABLE_FLAGS AND HUGE_PAGE = 0"
proof -
  assume "aligned f"
  then have "f AND HUGE_PAGE = page_floor f AND HUGE_PAGE" by (simp add: page_floor_aligned_id)
  also have "\<dots> = 0" by (simp add: page_floor_def consts_def and.assoc)
  finally show ?thesis by (simp add: pte_def bit.conj_disj_distrib2 consts_def)
qed

lemma index_less [simp]:
  "p4_index v < 512" "p3_index v < 512" "p2_index v < 512" "p1_index v < 512"
proof -
  have "unat (w AND 0x1ff) < 512" for w :: u64
    using word_and_le1 [of w "0x1ff"] by (simp add: word_le_nat_alt)
  then show "p4_index v < 512" "p3_index v < 512" "p2_index v < 512" "p1_index v < 512"
    by (simp_all only: p4_index_def p3_index_def p2_index_def p1_index_def)
qed

section \<open>The trees of an address space\<close>

definition indices :: "nat list \<Rightarrow> bool" where
  "indices p \<longleftrightarrow> (\<forall>i \<in> set p. i < 512)"

definition user_path :: "nat list \<Rightarrow> bool" where
  "user_path p \<longleftrightarrow> length p \<le> 4 \<and> indices p \<and> (p = [] \<or> hd p = 0)"

text \<open>The entries of a root that hold the kernel's heap and its stacks.\<close>

definition kernel_slot :: "nat \<Rightarrow> bool" where
  "kernel_slot i \<longleftrightarrow> i = 224 \<or> i = 384"

lemma kernel_slot_simps [simp]: "\<not> kernel_slot 0" "kernel_slot 224" "kernel_slot 384"
  by (simp_all add: kernel_slot_def)

lemma kernel_slot_less: "kernel_slot i \<Longrightarrow> 0 < i \<and> i < 512"
  by (auto simp: kernel_slot_def)

definition kern_path :: "nat list \<Rightarrow> bool" where
  "kern_path p \<longleftrightarrow> length p \<le> 3 \<and> indices p \<and> (p = [] \<or> kernel_slot (hd p))"

lemma user_path_prefix: "user_path q \<Longrightarrow> prefix p q \<Longrightarrow> user_path p"
  by (auto simp: user_path_def indices_def prefix_def hd_append split: if_splits)

lemma kern_path_prefix: "kern_path q \<Longrightarrow> prefix p q \<Longrightarrow> kern_path p"
  by (auto simp: kern_path_def indices_def prefix_def hd_append split: if_splits)

lemma user_path_Nil [simp]: "user_path []" and kern_path_Nil [simp]: "kern_path []"
  by (simp_all add: user_path_def kern_path_def indices_def)

lemma user_path_snoc:
  "user_path (p @ [i]) \<longleftrightarrow> user_path p \<and> length p < 4 \<and> i < 512 \<and> (p = [] \<longrightarrow> i = 0)"
  by (cases p) (auto simp: user_path_def indices_def)

lemma kern_path_snoc:
  "kern_path (p @ [i]) \<longleftrightarrow> kern_path p \<and> length p < 3 \<and> i < 512 \<and> (p = [] \<longrightarrow> kernel_slot i)"
  by (cases p) (auto simp: kern_path_def indices_def)

text \<open>User pages (roots included), and the tables for heap and stacks (roots not included).\<close>

definition upages :: "physmem \<Rightarrow> u64 set \<Rightarrow> u64 set" where
  "upages mem R = {a. \<exists>s \<in> R. \<exists>p. user_path p \<and> node mem s p = Some a}"

definition ktables :: "physmem \<Rightarrow> u64 set \<Rightarrow> u64 set" where
  "ktables mem R = {a. \<exists>s \<in> R. \<exists>p. kern_path p \<and> p \<noteq> [] \<and> node mem s p = Some a}"

definition one_owner :: "physmem \<Rightarrow> u64 set \<Rightarrow> bool" where
  "one_owner mem R \<longleftrightarrow> (\<forall>s \<in> R. \<forall>s' \<in> R. \<forall>p p' a. user_path p \<longrightarrow> user_path p' \<longrightarrow>
     node mem s p = Some a \<longrightarrow> node mem s' p' = Some a \<longrightarrow> s = s' \<and> p = p')"

definition one_level :: "physmem \<Rightarrow> u64 set \<Rightarrow> bool" where
  "one_level mem R \<longleftrightarrow> (\<forall>s \<in> R. \<forall>s' \<in> R. \<forall>p p' a. kern_path p \<longrightarrow> kern_path p' \<longrightarrow>
     node mem s p = Some a \<longrightarrow> node mem s' p' = Some a \<longrightarrow> length p = length p')"

text \<open>
  What ring 3 can reach: nothing above entry 0. The entries of a root other than 0, 224 and 384 grant user
  mode nothing, and neither do the entries for pages of the heap and of stacks; no table holds a huge page.
\<close>

definition entry_ok :: "nat list \<Rightarrow> u64 \<Rightarrow> bool" where
  "entry_ok p e \<longleftrightarrow>
     (if p = [] then True
      else if length p < 3 then e AND HUGE_PAGE = 0
      else kernel_slot (hd p) \<longrightarrow> \<not> grants e)"

definition shielded :: "physmem \<Rightarrow> u64 \<Rightarrow> u64 set \<Rightarrow> bool" where
  "shielded mem kr R \<longleftrightarrow>
     (\<forall>s \<in> insert kr R. \<forall>i < 512. i \<noteq> 0 \<longrightarrow> \<not> kernel_slot i \<longrightarrow> \<not> grants (mem s i)) \<and>
     (\<forall>s \<in> insert kr R. \<forall>p t j. kern_path p \<longrightarrow> node mem s p = Some t \<longrightarrow> entry_ok p (mem t j)) \<and>
     (\<forall>s \<in> R. \<forall>p t j. user_path p \<longrightarrow> length p < 4 \<longrightarrow> node mem s p = Some t \<longrightarrow> entry_ok p (mem t j))"

lemma shieldedD:
  "shielded mem kr R \<Longrightarrow> s \<in> insert kr R \<Longrightarrow> i < 512 \<Longrightarrow> i \<noteq> 0 \<Longrightarrow> \<not> kernel_slot i \<Longrightarrow> \<not> grants (mem s i)"
  "shielded mem kr R \<Longrightarrow> s \<in> insert kr R \<Longrightarrow> kern_path p \<Longrightarrow> node mem s p = Some t \<Longrightarrow> entry_ok p (mem t j)"
  "shielded mem kr R \<Longrightarrow> s \<in> R \<Longrightarrow> user_path p \<Longrightarrow> length p < 4 \<Longrightarrow> node mem s p = Some t \<Longrightarrow> entry_ok p (mem t j)"
  unfolding shielded_def by blast+

lemma entry_ok_0 [simp]: "entry_ok p 0" and entry_ok_Nil [simp]: "entry_ok [] e"
  by (simp_all add: entry_ok_def grants_def consts_def)

definition space_inv :: "physmem \<Rightarrow> frame_alloc \<Rightarrow> u64 \<Rightarrow> u64 set \<Rightarrow> u64 set \<Rightarrow> bool" where
  "space_inv mem fa kr R X \<longleftrightarrow>
     one_owner mem R \<and> one_level mem (insert kr R) \<and> shielded mem kr R \<and>
     upages mem R \<inter> X = {} \<and>
     (upages mem R \<union> X) \<inter> insert kr (ktables mem (insert kr R)) = {} \<and>
     holds fa (upages mem R \<union> X) (insert kr (ktables mem (insert kr R)))"

text \<open>
  The spaces of \<open>R\<close> are untouched between two memories: the same pages at the same places, and the
  same contents in the leaf pages.
\<close>

definition keeps :: "u64 set \<Rightarrow> physmem \<Rightarrow> physmem \<Rightarrow> bool" where
  "keeps R mem mem' \<longleftrightarrow> (\<forall>s \<in> R. \<forall>p. user_path p \<longrightarrow> node mem' s p = node mem s p \<and>
     (length p = 4 \<longrightarrow> (\<forall>a. node mem s p = Some a \<longrightarrow> mem' a = mem a)))"

lemma keeps_refl [simp]: "keeps R mem mem"
  by (simp add: keeps_def)

lemma keeps_trans: "keeps R mem mem' \<Longrightarrow> keeps R mem' mem'' \<Longrightarrow> keeps R mem mem''"
  by (auto simp: keeps_def)

lemma keeps_mono: "keeps R mem mem' \<Longrightarrow> R' \<subseteq> R \<Longrightarrow> keeps R' mem mem'"
  by (auto simp: keeps_def)

lemma upagesI: "s \<in> R \<Longrightarrow> user_path p \<Longrightarrow> node mem s p = Some a \<Longrightarrow> a \<in> upages mem R"
  by (auto simp: upages_def)

lemma ktablesI: "s \<in> R \<Longrightarrow> kern_path p \<Longrightarrow> p \<noteq> [] \<Longrightarrow> node mem s p = Some a \<Longrightarrow> a \<in> ktables mem R"
  by (auto simp: ktables_def)

lemma one_ownerD:
  "one_owner mem R \<Longrightarrow> s \<in> R \<Longrightarrow> s' \<in> R \<Longrightarrow> user_path p \<Longrightarrow> user_path p' \<Longrightarrow>
   node mem s p = Some a \<Longrightarrow> node mem s' p' = Some a \<Longrightarrow> s = s' \<and> p = p'"
  unfolding one_owner_def by blast

lemma one_levelD:
  "one_level mem R \<Longrightarrow> s \<in> R \<Longrightarrow> s' \<in> R \<Longrightarrow> kern_path p \<Longrightarrow> kern_path p' \<Longrightarrow>
   node mem s p = Some a \<Longrightarrow> node mem s' p' = Some a \<Longrightarrow> length p = length p'"
  unfolding one_level_def by blast

lemma space_invD:
  assumes "space_inv mem fa kr R X"
  shows "one_owner mem R" "one_level mem (insert kr R)" "upages mem R \<inter> X = {}"
    "(upages mem R \<union> X) \<inter> insert kr (ktables mem (insert kr R)) = {}"
    "holds fa (upages mem R \<union> X) (insert kr (ktables mem (insert kr R)))" "shielded mem kr R"
  using assms by (simp_all add: space_inv_def)

lemma root_upage: "s \<in> R \<Longrightarrow> s \<in> upages mem R"
  by (rule upagesI [of s _ "[]"]) simp_all

lemma space_inv_kr: "space_inv mem fa kr R X \<Longrightarrow> kr \<notin> R"
  using space_invD(4) root_upage by blast

text \<open>Pages outside the user trees and the tables can change freely.\<close>

lemma nodes_outside:
  assumes "\<And>a. a \<in> upages mem R \<Longrightarrow> mem' a = mem a" and "s \<in> R" and "user_path p"
  shows "node mem' s p = node mem s p"
proof (rule node_cong)
  fix q i a assume "prefix (q @ [i]) p" "node mem s q = Some a"
  moreover from this have "user_path q" using assms(3) user_path_prefix [of p q] by (meson append_prefixD)
  ultimately have "a \<in> upages mem R" using assms(2) by (intro upagesI)
  then show "mem' a i = mem a i" using assms(1) by simp
qed

lemma knodes_outside:
  assumes "\<And>a. a \<in> insert kr (R \<union> ktables mem (insert kr R)) \<Longrightarrow> mem' a = mem a"
    and "s \<in> insert kr R" and "kern_path p"
  shows "node mem' s p = node mem s p"
proof (rule node_cong)
  fix q i a assume q: "prefix (q @ [i]) p" "node mem s q = Some a"
  then have "kern_path q" using assms(3) kern_path_prefix [of p q] by (meson append_prefixD)
  with q have "a \<in> insert kr (R \<union> ktables mem (insert kr R))"
    using assms(2) ktablesI [of s "insert kr R" q mem a] by (cases "q = []") auto
  then show "mem' a i = mem a i" using assms(1) by simp
qed

text \<open>The invariant depends on the nodes only.\<close>

lemma upages_cong:
  "(\<And>s p. s \<in> R \<Longrightarrow> user_path p \<Longrightarrow> node mem' s p = node mem s p) \<Longrightarrow> upages mem' R = upages mem R"
  unfolding upages_def by (rule Collect_cong) (metis (no_types))

lemma ktables_cong:
  "(\<And>s p. s \<in> R \<Longrightarrow> kern_path p \<Longrightarrow> node mem' s p = node mem s p) \<Longrightarrow> ktables mem' R = ktables mem R"
  unfolding ktables_def by (rule Collect_cong) (metis (no_types))

lemma one_owner_cong:
  "(\<And>s p. s \<in> R \<Longrightarrow> user_path p \<Longrightarrow> node mem' s p = node mem s p) \<Longrightarrow> one_owner mem' R = one_owner mem R"
  by (simp add: one_owner_def)

lemma one_level_cong:
  "(\<And>s p. s \<in> R \<Longrightarrow> kern_path p \<Longrightarrow> node mem' s p = node mem s p) \<Longrightarrow> one_level mem' R = one_level mem R"
  by (simp add: one_level_def)

lemma space_inv_cong:
  assumes "\<And>s p. s \<in> R \<Longrightarrow> user_path p \<Longrightarrow> node mem' s p = node mem s p"
    and "\<And>s p. s \<in> insert kr R \<Longrightarrow> kern_path p \<Longrightarrow> node mem' s p = node mem s p"
    and "shielded mem' kr R" and "space_inv mem fa kr R X"
  shows "space_inv mem' fa kr R X"
  using assms(3,4)
  by (simp only: space_inv_def upages_cong [OF assms(1)] ktables_cong [OF assms(2)]
      one_owner_cong [OF assms(1)] one_level_cong [OF assms(2)] simp_thms)

text \<open>The shield depends on the tables only.\<close>

lemma shielded_cong:
  assumes "shielded mem kr R"
    and "\<And>s p. s \<in> R \<Longrightarrow> user_path p \<Longrightarrow> node mem' s p = node mem s p"
    and "\<And>s p. s \<in> insert kr R \<Longrightarrow> kern_path p \<Longrightarrow> node mem' s p = node mem s p"
    and "\<And>s i. s \<in> insert kr R \<Longrightarrow> i < 512 \<Longrightarrow> i \<noteq> 0 \<Longrightarrow> \<not> kernel_slot i \<Longrightarrow> mem' s i = mem s i"
    and "\<And>s p t j. s \<in> insert kr R \<Longrightarrow> kern_path p \<Longrightarrow> node mem s p = Some t \<Longrightarrow> entry_ok p (mem t j) \<Longrightarrow> entry_ok p (mem' t j)"
    and "\<And>s p t j. s \<in> R \<Longrightarrow> user_path p \<Longrightarrow> length p < 4 \<Longrightarrow> node mem s p = Some t \<Longrightarrow> entry_ok p (mem t j) \<Longrightarrow> entry_ok p (mem' t j)"
  shows "shielded mem' kr R"
  unfolding shielded_def
proof (intro conjI ballI allI impI)
  fix s i assume "s \<in> insert kr R" "i < (512 :: nat)" "i \<noteq> 0" "\<not> kernel_slot i"
  with shieldedD(1) [OF assms(1)] assms(4) show "\<not> grants (mem' s i)" by simp
next
  fix s p t j assume a: "s \<in> insert kr R" "kern_path p" "node mem' s p = Some t"
  then have n: "node mem s p = Some t" using assms(3) [OF a(1,2)] by simp
  from shieldedD(2) [OF assms(1) a(1,2) this] have "entry_ok p (mem t j)" .
  from assms(5) [OF a(1,2) n this] show "entry_ok p (mem' t j)" .
next
  fix s p t j assume a: "s \<in> R" "user_path p" "length p < 4" "node mem' s p = Some t"
  then have n: "node mem s p = Some t" using assms(2) [OF a(1,2)] by simp
  from shieldedD(3) [OF assms(1) a(1-3) this] have "entry_ok p (mem t j)" .
  from assms(6) [OF a(1-3) n this] show "entry_ok p (mem' t j)" .
qed

text \<open>A write to loose pages, or to pages nobody holds, disturbs no space.\<close>

lemma space_inv_outside:
  assumes "space_inv mem fa kr R X"
    and "\<forall>a \<in> upages mem R \<union> insert kr (ktables mem (insert kr R)). mem' a = mem a"
  shows "space_inv mem' fa kr R X" and "keeps R mem mem'"
proof -
  have u: "node mem' s p = node mem s p" if "s \<in> R" "user_path p" for s p
  proof (rule nodes_outside [OF _ that])
    show "mem' a = mem a" if "a \<in> upages mem R" for a using assms(2) that by simp
  qed
  have k: "node mem' s p = node mem s p" if "s \<in> insert kr R" "kern_path p" for s p
  proof (rule knodes_outside [OF _ that])
    show "mem' a = mem a" if "a \<in> insert kr (R \<union> ktables mem (insert kr R))" for a
      using assms(2) that root_upage [of a R mem] by blast
  qed
  have kp: "mem' t = mem t" if "s \<in> insert kr R" "kern_path p" "node mem s p = Some t" for s p t
    using assms(2) that ktablesI [OF that(1,2) _ that(3)] root_upage [of s R mem] by (cases "p = []") auto
  have up: "mem' t = mem t" if "s \<in> R" "user_path p" "node mem s p = Some t" for s p t
    using assms(2) upagesI [OF that] by blast
  have "shielded mem' kr R"
  proof (rule shielded_cong [OF space_invD(6) [OF assms(1)] u k])
    show "mem' s i = mem s i" if "s \<in> insert kr R" for s i
      using kp [OF that kern_path_Nil] by simp
  qed (use kp up in simp_all)
  then show "space_inv mem' fa kr R X" using space_inv_cong [OF u k _ assms(1)] by blast
  have "mem' a = mem a" if "s \<in> R" "user_path p" "node mem s p = Some a" for s p a
    using assms(2) upagesI [OF that] by blast
  with u show "keeps R mem mem'" by (simp add: keeps_def)
qed

end
