(* ===== verification/Page_Ops.thy ===== *)
theory Page_Ops
  imports Page_Tree
begin

text \<open>
  What single steps do to the ownership of pages: linking a loose page into a tree, cutting a
  subtree off, taking and returning frames, adding and dropping a root.
\<close>

section \<open>One entry of a user table\<close>

text \<open>An entry of a user table is read by the walks through it and by no other.\<close>

lemma user_entry_other:
  assumes "space_inv mem fa kr R X" and "s \<in> R" and "user_path (p @ [i])" and "node mem s p = Some t"
  shows "s' \<in> R \<Longrightarrow> user_path q \<Longrightarrow> \<not> (s' = s \<and> prefix (p @ [i]) q) \<Longrightarrow>
      node (set_word t i w mem) s' q = node mem s' q"
    and "s' \<in> insert kr R \<Longrightarrow> kern_path q \<Longrightarrow> node (set_word t i w mem) s' q = node mem s' q"
proof -
  note inv = space_invD [OF assms(1)]
  have up: "user_path p" using assms(3) by (simp add: user_path_snoc)
  then have tu: "t \<in> upages mem R" using assms(2,4) by (intro upagesI)
  show "node (set_word t i w mem) s' q = node mem s' q"
    if "s' \<in> R" "user_path q" "\<not> (s' = s \<and> prefix (p @ [i]) q)"
  proof (rule node_set_word_other)
    fix r assume r: "prefix (r @ [i]) q"
    then have "user_path r" using that(2) user_path_prefix [of q r] by (meson append_prefixD)
    then show "node mem s' r \<noteq> Some t"
      using one_ownerD [OF inv(1) that(1) assms(2) _ up _ assms(4), of r] that(3) r by blast
  qed
  show "node (set_word t i w mem) s' q = node mem s' q" if s': "s' \<in> insert kr R" and q: "kern_path q"
  proof (rule node_set_word_other)
    fix r assume r: "prefix (r @ [i]) q"
    then have kr: "kern_path (r @ [i])" using q kern_path_prefix by blast
    show "node mem s' r \<noteq> Some t"
    proof
      assume t: "node mem s' r = Some t"
      show False
      proof (cases "r = []")
        case False
        then have "t \<in> ktables mem (insert kr R)"
          using s' t kr by (intro ktablesI) (auto simp: kern_path_snoc)
        with tu inv(4) show False by blast
      next
        case True
        with t kr have "s' = t" "kernel_slot i" by (auto simp: kern_path_def)
        with tu inv(4) s' have "s' \<in> R" by blast
        with one_ownerD [OF inv(1) _ assms(2) user_path_Nil up _ assms(4), of s'] \<open>s' = t\<close>
        have "p = []" by simp
        with assms(3) \<open>kernel_slot i\<close> show False by (simp add: user_path_def)
      qed
    qed
  qed
qed

lemma user_entry_below:
  assumes "space_inv mem fa kr R X" and "s \<in> R" and "user_path (p @ [i])" and "node mem s p = Some t"
  shows "node (set_word t i w mem) s (p @ i # r) =
    (if w = 0 then None else node (set_word t i w mem) (pte_addr w) r)"
proof (rule node_set_word_below [OF assms(4)])
  fix q assume q: "prefix (q @ [i]) p"
  have "user_path p" using assms(3) by (simp add: user_path_snoc)
  moreover from this have "user_path q" using q user_path_prefix by (meson append_prefixD)
  ultimately show "node mem s q \<noteq> Some t"
    using one_ownerD [OF space_invD(1) [OF assms(1)] assms(2,2), of q p t] assms(4) q by auto
qed

text \<open>
  A new value of one user entry: the nodes below it in \<open>s\<close> are replaced by \<open>leaf\<close> (or by nothing),
  a page that was loose.
\<close>

lemma user_entry_shielded:
  assumes "space_inv mem fa kr R X" and "s \<in> R" and "user_path (p @ [i])" and "node mem s p = Some t"
    and nodes: "\<And>q. user_path q \<Longrightarrow> prefix (p @ [i]) q \<Longrightarrow>
      node (set_word t i w mem) s q = (if q = p @ [i] then new else None)"
    and new: "\<And>f. new = Some f \<Longrightarrow> f \<in> X \<or> node mem s (p @ [i]) = Some f"
    and w: "entry_ok p w" and below: "\<And>f j. new = Some f \<Longrightarrow> length p < 3 \<Longrightarrow> mem f j = 0"
  shows "shielded (set_word t i w mem) kr R"
proof -
  note inv = space_invD [OF assms(1)]
  let ?mem = "set_word t i w mem"
  note other = user_entry_other [OF assms(1-4)]
  have up: "user_path p" using assms(3) by (simp add: user_path_snoc)
  have tu: "t \<in> upages mem R" by (rule upagesI [OF assms(2) up assms(4)])
  have kt: "?mem b j = mem b j" if "s' \<in> insert kr R" "kern_path q" "node mem s' q = Some b" "q \<noteq> [] \<or> j \<noteq> 0" for s' q b j
  proof (cases "b = t \<and> j = i")
    case True
    then have "q = []" using ktablesI [OF that(1,2) _ that(3)] tu inv(4) by blast
    with that True have "s' = t" "j \<noteq> 0" by auto
    with tu inv(4) that(1) have "s' \<in> R" by blast
    with one_ownerD [OF inv(1) _ assms(2) user_path_Nil up _ assms(4), of s'] \<open>s' = t\<close> have "p = []" by simp
    with assms(3) True \<open>j \<noteq> 0\<close> show ?thesis by (simp add: user_path_def)
  qed (auto simp: set_word_def)
  show ?thesis
    unfolding shielded_def
  proof (intro conjI ballI allI impI)
    fix s' j assume a: "s' \<in> insert kr R" "j < (512 :: nat)" "j \<noteq> 0" "\<not> kernel_slot j"
    with kt [OF a(1) kern_path_Nil, of s' j] shieldedD(1) [OF inv(6) a] show "\<not> grants (?mem s' j)" by simp
  next
    fix s' q b j assume a: "s' \<in> insert kr R" "kern_path q" "node ?mem s' q = Some b"
    then have n: "node mem s' q = Some b" using other(2) by simp
    from shieldedD(2) [OF inv(6) a(1,2) this] have "entry_ok q (mem b j)" .
    with kt [OF a(1,2) n, of j] show "entry_ok q (?mem b j)" by (cases "q = []") auto
  next
    fix s' q b j assume a: "s' \<in> R" "user_path q" "length q < 4" "node ?mem s' q = Some b"
    show "entry_ok q (?mem b j)"
    proof (cases "s' = s \<and> prefix (p @ [i]) q")
      case True
      then have q: "q = p @ [i]" "new = Some b" using nodes [OF a(2)] a(4) by (auto split: if_splits)
      then have "length p < 3" using a(3) by simp
      then have "mem b j = 0" by (rule below [OF q(2)])
      moreover have "b \<noteq> t"
        using new [OF q(2)] tu inv(3) one_ownerD [OF inv(1) assms(2,2) assms(3) up _ assms(4)] by auto
      ultimately show ?thesis by (auto simp: set_word_def)
    next
      case False
      then have n: "node mem s' q = Some b" using other(1) [OF a(1,2)] a(4) by simp
      note e = shieldedD(3) [OF inv(6) a(1-3) this, of j]
      show ?thesis
      proof (cases "b = t \<and> j = i")
        case True
        with one_ownerD [OF inv(1) a(1) assms(2) a(2) up n] assms(4) have "q = p" by simp
        with w True show ?thesis by (simp add: set_word_def)
      qed (use e in \<open>auto simp: set_word_def\<close>)
    qed
  qed
qed

lemma user_entry_inv:
  assumes "space_inv mem fa kr R X" and "s \<in> R" and "user_path (p @ [i])" and "node mem s p = Some t"
    and nodes: "\<And>q. user_path q \<Longrightarrow> prefix (p @ [i]) q \<Longrightarrow>
      node (set_word t i w mem) s q = (if q = p @ [i] then new else None)"
    and new: "\<And>f. new = Some f \<Longrightarrow> f \<in> X \<or> node mem s (p @ [i]) = Some f"
    and X': "X' \<subseteq> (X \<union> {c. node mem s (p @ [i]) = Some c}) - {f. new = Some f}"
    and w: "entry_ok p w" and below: "\<And>f j. new = Some f \<Longrightarrow> length p < 3 \<Longrightarrow> mem f j = 0"
  shows "space_inv (set_word t i w mem) fa kr R X'"
proof -
  note inv = space_invD [OF assms(1)]
  let ?mem = "set_word t i w mem"
  note other = user_entry_other [OF assms(1-4)]
  let ?cut = "\<lambda>s' q. s' = s \<and> prefix (p @ [i]) q"
  have val: "node ?mem s' q = (if ?cut s' q then if q = p @ [i] then new else None else node mem s' q)"
    if "s' \<in> R" "user_path q" for s' q
    using that other(1) nodes by auto
  have old: "(node mem s' q = Some a \<and> \<not> ?cut s' q) \<or> (s' = s \<and> q = p @ [i] \<and> new = Some a)"
    if "s' \<in> R" "user_path q" "node ?mem s' q = Some a" for s' q a
    using that val [OF that(1,2)] by (auto split: if_splits)
  have newX: "f \<notin> upages mem R \<or> node mem s (p @ [i]) = Some f" if "new = Some f" for f
    using new [OF that] inv(3) by blast
  have k: "ktables ?mem (insert kr R) = ktables mem (insert kr R)" by (rule ktables_cong [OF other(2)])
  have own: "one_owner ?mem R"
    unfolding one_owner_def
  proof (intro ballI allI impI)
    fix s1 s2 p1 p2 a
    assume a: "s1 \<in> R" "s2 \<in> R" "user_path p1" "user_path p2" "node ?mem s1 p1 = Some a" "node ?mem s2 p2 = Some a"
    note o = one_ownerD [OF inv(1)]
    have x: False if "s' \<in> R" "user_path q" "node mem s' q = Some a" "\<not> ?cut s' q" "new = Some a" for s' q
      using newX [OF that(5)] o [OF that(1) assms(2) that(2) assms(3) that(3)] upagesI [OF that(1-3)] that(4) by blast
    from old [OF a(1,3,5)] old [OF a(2,4,6)] show "s1 = s2 \<and> p1 = p2"
      using o [OF a(1-4)] x a by blast
  qed
  have up: "upages ?mem R \<subseteq> upages mem R \<union> {f. new = Some f}"
  proof
    fix a assume "a \<in> upages ?mem R"
    then obtain s' q where "s' \<in> R" "user_path q" "node ?mem s' q = Some a" by (auto simp: upages_def)
    from old [OF this] this(1,2) upagesI show "a \<in> upages mem R \<union> {f. new = Some f}" by blast
  qed
  have cuts: "c \<notin> upages ?mem R" if c: "node mem s (p @ [i]) = Some c" "new \<noteq> Some c" for c
  proof
    assume "c \<in> upages ?mem R"
    then obtain s' q where q: "s' \<in> R" "user_path q" "node ?mem s' q = Some c" by (auto simp: upages_def)
    from old [OF this] show False
      using one_ownerD [OF inv(1) q(1) assms(2) q(2) assms(3) _ c(1)] c(2) by auto
  qed
  have c_up: "c \<in> upages mem R" if "node mem s (p @ [i]) = Some c" for c
    using upagesI [OF assms(2,3) that] .
  have sub: "upages ?mem R \<union> X' \<subseteq> upages mem R \<union> X"
    using up X' new c_up by blast
  have disj: "upages ?mem R \<inter> X' = {}"
    using up X' cuts inv(3) new by blast
  show ?thesis
    unfolding space_inv_def k
  proof (intro conjI)
    show "one_level ?mem (insert kr R)" using one_level_cong [OF other(2)] inv(2) by blast
    show "shielded ?mem kr R"
      by (rule user_entry_shielded [OF assms(1-4) nodes new w below])
    show "(upages ?mem R \<union> X') \<inter> insert kr (ktables mem (insert kr R)) = {}" using sub inv(4) by blast
    show "holds fa (upages ?mem R \<union> X') (insert kr (ktables mem (insert kr R)))"
      by (rule holds_mono [OF inv(5) sub order_refl])
  qed (fact own disj)+
qed

text \<open>The other spaces do not notice.\<close>

lemma user_entry_keeps:
  assumes "space_inv mem fa kr R X" and "s \<in> R" and "user_path (p @ [i])" and "node mem s p = Some t"
  shows "keeps (R - {s}) mem (set_word t i w mem)"
    and "s' \<in> R \<Longrightarrow> user_path q \<Longrightarrow> length q = 4 \<Longrightarrow> node mem s' q = Some a \<Longrightarrow> set_word t i w mem a = mem a"
proof -
  have p: "user_path p" "length p < 4" using assms(3) by (auto simp: user_path_snoc)
  show leaf: "set_word t i w mem a = mem a"
    if "s' \<in> R" "user_path q" "length q = 4" "node mem s' q = Some a" for s' q a
  proof -
    have "a \<noteq> t"
      using one_ownerD [OF space_invD(1) [OF assms(1)] that(1) assms(2) that(2) p(1)] that assms(4) p(2) by auto
    then show ?thesis by (simp add: set_word_def)
  qed
  show "keeps (R - {s}) mem (set_word t i w mem)"
    unfolding keeps_def using user_entry_other(1) [OF assms] leaf by auto
qed

section \<open>Frames\<close>

lemma space_inv_alloc:
  assumes "space_inv mem fa kr R X" and "alloc_frames n fa = (Some b, fa')" and "0 < unat n" and "unat n < 2 ^ 40"
  shows "space_inv mem fa' kr R (X \<union> block b (unat n))"
    and "block b (unat n) \<inter> (upages mem R \<union> X \<union> insert kr (ktables mem (insert kr R))) = {}"
    and "unat b + 4096 * unat n \<le> 2 ^ 52"
proof -
  note inv = space_invD [OF assms(1)]
  note a = holds_alloc [OF inv(5) assms(2-4)]
  show d: "block b (unat n) \<inter> (upages mem R \<union> X \<union> insert kr (ktables mem (insert kr R))) = {}" by (rule a(2))
  show "unat b + 4096 * unat n \<le> 2 ^ 52" by (rule a(4))
  have "upages mem R \<union> (X \<union> block b (unat n)) = upages mem R \<union> X \<union> block b (unat n)" by blast
  then show "space_inv mem fa' kr R (X \<union> block b (unat n))"
    unfolding space_inv_def using inv(1-4,6) a(1) d by auto
qed

lemma space_inv_alloc_fail:
  "space_inv mem fa kr R X \<Longrightarrow> alloc_frames n fa = (None, fa') \<Longrightarrow> unat n < 2 ^ 40 \<Longrightarrow> space_inv mem fa' kr R X"
  unfolding space_inv_def using holds_alloc_fail by blast

lemma space_inv_loose_frame: "space_inv mem fa kr R X \<Longrightarrow> f \<in> X \<Longrightarrow> frame_addr f"
  using space_invD(5) holds_frame_addr by blast

lemma space_inv_user_frame: "space_inv mem fa kr R X \<Longrightarrow> f \<in> upages mem R \<Longrightarrow> frame_addr f"
  using space_invD(5) holds_frame_addr by blast

lemma space_inv_free:
  assumes "space_inv mem fa kr R X" and "block b (unat n) \<subseteq> X" and "0 < unat n"
    and "unat b + 4096 * unat n \<le> 2 ^ 52"
  shows "\<exists>fa'. free_frames b n fa = Some fa' \<and> space_inv mem fa' kr R (X - block b (unat n))"
proof -
  note inv = space_invD [OF assms(1)]
  have "block b (unat n) \<subseteq> upages mem R \<union> X" using assms(2) by blast
  moreover have "block b (unat n) \<inter> insert kr (ktables mem (insert kr R)) = {}" using assms(2) inv(4) by blast
  ultimately obtain fa' where f: "free_frames b n fa = Some fa'"
    "holds fa' (upages mem R \<union> X - block b (unat n)) (insert kr (ktables mem (insert kr R)))"
    using holds_free [OF inv(5) _ _ assms(3,4)] by blast
  have "upages mem R \<union> X - block b (unat n) = upages mem R \<union> (X - block b (unat n))"
    using assms(2) inv(3) by blast
  with f inv(1-4,6) have "space_inv mem fa' kr R (X - block b (unat n))"
    unfolding space_inv_def by auto
  with f(1) show ?thesis by blast
qed

lemma space_inv_free1:
  assumes "space_inv mem fa kr R X" and "c \<in> X"
  shows "\<exists>fa'. free_frames c 1 fa = Some fa' \<and> space_inv mem fa' kr R (X - {c})"
proof -
  have "4096 dvd unat c" "unat c < 2 ^ 52"
    using space_inv_loose_frame [OF assms] by (auto simp: frame_addr_def aligned_def)
  then have "unat c + 4096 \<le> 2 ^ 52" by (auto elim!: dvdE)
  then show ?thesis using space_inv_free [OF assms(1), of c 1] assms(2) by simp
qed

lemma space_inv_less: "space_inv mem fa kr R X \<Longrightarrow> X' \<subseteq> X \<Longrightarrow> space_inv mem fa kr R X'"
  unfolding space_inv_def by (auto intro: holds_mono)

section \<open>Roots\<close>

lemma upages_insert: "upages mem (insert s R) = upages mem {s} \<union> upages mem R"
  by (auto simp: upages_def)

lemma space_inv_drop_root:
  assumes "space_inv mem fa kr R X" and "s \<in> R"
  shows "space_inv mem fa kr (R - {s}) (insert s X)"
proof -
  note inv = space_invD [OF assms(1)]
  have u: "upages mem (R - {s}) \<subseteq> upages mem R" by (auto simp: upages_def)
  have k: "ktables mem (insert kr (R - {s})) \<subseteq> ktables mem (insert kr R)" by (auto simp: ktables_def)
  have "s \<notin> upages mem (R - {s})"
  proof
    assume "s \<in> upages mem (R - {s})"
    then obtain s' p where "s' \<in> R - {s}" "user_path p" "node mem s' p = Some s" by (auto simp: upages_def)
    then show False using one_ownerD [OF inv(1) _ assms(2) _ user_path_Nil, of s' p s] by auto
  qed
  moreover have s: "s \<in> upages mem R" by (rule root_upage [OF assms(2)])
  moreover have "one_owner mem (R - {s})" "one_level mem (insert kr (R - {s}))"
    using inv(1,2) unfolding one_owner_def one_level_def by blast+
  moreover have "holds fa (upages mem (R - {s}) \<union> insert s X) (insert kr (ktables mem (insert kr (R - {s}))))"
    by (rule holds_mono [OF inv(5)]) (use u k s in blast)+
  moreover have "shielded mem kr (R - {s})" using inv(6) unfolding shielded_def by blast
  ultimately show ?thesis unfolding space_inv_def using inv(3,4) u k by blast
qed

lemma space_inv_add_root:
  assumes "space_inv mem fa kr R X" and "f \<in> X" and "mem f 0 = 0" and "c \<in> insert kr R" and "\<And>i. 0 < i \<Longrightarrow> i < 512 \<Longrightarrow> mem f i = mem c i"
  shows "space_inv mem fa kr (insert f R) (X - {f})"
proof -
  note inv = space_invD [OF assms(1)]
  have fR: "f \<notin> upages mem R" using assms(2) inv(3) by blast
  have un: "user_path p \<Longrightarrow> node mem f p = (if p = [] then Some f else None)" for p
    using assms(3) by (cases p) (auto simp: user_path_def)
  have kn: "kern_path p \<Longrightarrow> p \<noteq> [] \<Longrightarrow> node mem f p = node mem c p" for p
    using assms(5) by (cases p) (auto simp: kern_path_def dest: kernel_slot_less)
  have U: "upages mem (insert f R) = insert f (upages mem R)"
  proof -
    have "a = f" if "a \<in> upages mem {f}" for a
    proof -
      from that obtain p where "user_path p" "node mem f p = Some a" by (auto simp: upages_def)
      with un [of p] show ?thesis by (simp split: if_splits)
    qed
    then have "upages mem {f} = {f}" using root_upage [of f "{f}" mem] by blast
    then show ?thesis using upages_insert [of mem f R] by blast
  qed
  have K: "ktables mem (insert kr (insert f R)) = ktables mem (insert kr R)"
  proof
    show "ktables mem (insert kr (insert f R)) \<subseteq> ktables mem (insert kr R)"
    proof
      fix a assume "a \<in> ktables mem (insert kr (insert f R))"
      then obtain s p where p: "s \<in> insert kr (insert f R)" "kern_path p" "p \<noteq> []" "node mem s p = Some a"
        by (auto simp: ktables_def)
      show "a \<in> ktables mem (insert kr R)"
      proof (cases "s = f")
        case True
        with p kn [OF p(2,3)] show ?thesis by (intro ktablesI [OF assms(4) p(2,3)]) simp
      next
        case False
        with p show ?thesis by (intro ktablesI [OF _ p(2-4)]) simp
      qed
    qed
  qed (auto simp: ktables_def)
  have own: "one_owner mem (insert f R)"
    unfolding one_owner_def
  proof (intro ballI allI impI)
    fix s s' p p' a
    assume a: "s \<in> insert f R" "s' \<in> insert f R" "user_path p" "user_path p'"
      "node mem s p = Some a" "node mem s' p' = Some a"
    have R: "f \<noteq> a" if "s0 \<in> R" "user_path q" "node mem s0 q = Some a" for s0 q
      using upagesI [OF that] fR by blast
    show "s = s' \<and> p = p'"
    proof (cases "s = f"; cases "s' = f")
      show "s = s' \<and> p = p'" if "s = f" "s' = f"
        using that a un [OF a(3)] un [OF a(4)] by (auto split: if_splits)
      show "s = s' \<and> p = p'" if "s = f" "s' \<noteq> f"
        using that a un [OF a(3)] R [of s' p'] by (auto split: if_splits)
      show "s = s' \<and> p = p'" if "s \<noteq> f" "s' = f"
        using that a un [OF a(4)] R [of s p] by (auto split: if_splits)
      show "s = s' \<and> p = p'" if "s \<noteq> f" "s' \<noteq> f" using that a one_ownerD [OF inv(1)] by (metis insertE)
    qed
  qed
  have fK: "f \<notin> insert kr (ktables mem (insert kr R))" using assms(2) inv(4) by blast
  have lev: "one_level mem (insert kr (insert f R))"
    unfolding one_level_def
  proof (intro ballI allI impI)
    fix s s' p p' a
    assume a: "s \<in> insert kr (insert f R)" "s' \<in> insert kr (insert f R)" "kern_path p" "kern_path p'"
      "node mem s p = Some a" "node mem s' p' = Some a"
    define r where "r z q = (if z = f \<and> q \<noteq> [] then c else z)" for z and q :: "nat list"
    have r: "z \<in> insert kr (insert f R) \<Longrightarrow> \<not> (z = f \<and> q = []) \<Longrightarrow> r z q \<in> insert kr R" for z q
      using assms(4) by (auto simp: r_def)
    have n: "kern_path q \<Longrightarrow> node mem (r z q) q = node mem z q" for z q
      using kn [of q] by (simp add: r_def)
    have x: "a \<noteq> f" if "z \<in> insert kr (insert f R)" "kern_path q" "node mem z q = Some a" "\<not> (z = f \<and> q = [])" for z q
    proof (cases "q = []")
      case True
      with that fK fR root_upage [of z R mem] show ?thesis by auto
    next
      case False
      with that r [of z q] n [of q z] have "a \<in> ktables mem (insert kr R)"
        by (intro ktablesI [of "r z q" _ q]) auto
      with fK show ?thesis by blast
    qed
    show "length p = length p'"
    proof (cases "(s = f \<and> p = []) \<or> (s' = f \<and> p' = [])")
      case True
      then have "a = f" using a(5,6) by auto
      with x [OF a(1,3,5)] x [OF a(2,4,6)] show ?thesis by auto
    next
      case False
      then show ?thesis
        using one_levelD [OF inv(2) r [OF a(1), of p] r [OF a(2), of p'] a(3,4)]
          n [OF a(3), of s] n [OF a(4), of s'] a(5,6) by simp
    qed
  qed
  have eq: "upages mem (insert f R) \<union> (X - {f}) = upages mem R \<union> X" using U assms(2) by auto
  show ?thesis
    unfolding space_inv_def K eq
  proof (intro conjI)
    show "upages mem (insert f R) \<inter> (X - {f}) = {}" unfolding U using inv(3) by blast
    show "shielded mem kr (insert f R)"
      unfolding shielded_def
    proof (intro conjI ballI allI impI)
      fix s i assume a: "s \<in> insert kr (insert f R)" "i < (512 :: nat)" "i \<noteq> 0" "\<not> kernel_slot i"
      show "\<not> grants (mem s i)"
      proof (cases "s = f")
        case True
        then show ?thesis using assms(5) [of i] shieldedD(1) [OF inv(6) assms(4) a(2-4)] a by simp
      next
        case False
        then have "s \<in> insert kr R" using a(1) by blast
        then show ?thesis by (rule shieldedD(1) [OF inv(6) _ a(2-4)])
      qed
    next
      fix s p t j assume a: "s \<in> insert kr (insert f R)" "kern_path p" "node mem s p = Some t"
      show "entry_ok p (mem t j)"
      proof (cases "p = []")
        case False
        show ?thesis
        proof (cases "s = f")
          case True
          then have "node mem c p = Some t" using kn [OF a(2) False] a(3) by simp
          then show ?thesis by (rule shieldedD(2) [OF inv(6) assms(4) a(2)])
        next
          case False
          then have "s \<in> insert kr R" using a(1) by blast
          then show ?thesis by (rule shieldedD(2) [OF inv(6) _ a(2,3)])
        qed
      qed simp
    next
      fix s p t j assume a: "s \<in> insert f R" "user_path p" "length p < 4" "node mem s p = Some t"
      show "entry_ok p (mem t j)"
      proof (cases "s = f")
        case True
        with un [OF a(2)] a(4) show ?thesis by (simp split: if_splits)
      next
        case False
        then have "s \<in> R" using a(1) by blast
        then show ?thesis by (rule shieldedD(3) [OF inv(6) _ a(2-4)])
      qed
    qed
  qed (fact own lev inv)+
qed

end
