(* ===== verification/Page_Map.thy ===== *)
theory Page_Map
  imports Page_Ops
begin

text \<open>
  The operations of \<^verbatim>\<open>paging.rs\<close> on user memory: mapping, unmapping, and walking a tree to
  tear it down.
\<close>

abbreviation minv :: "mm \<Rightarrow> u64 \<Rightarrow> u64 set \<Rightarrow> u64 set \<Rightarrow> bool" where
  "minv m \<equiv> space_inv (mm_mem m) (mm_fa m)"

text \<open>What no operation on page tables touches.\<close>

definition same_regs :: "mm \<Rightarrow> mm \<Rightarrow> bool" where
  "same_regs m m' \<longleftrightarrow> mm_spaces m' = mm_spaces m \<and> mm_kstacks m' = mm_kstacks m \<and> mm_cr3 m' = mm_cr3 m"

lemma same_regs_refl [simp]: "same_regs m m"
  by (simp add: same_regs_def)

lemma same_regs_trans: "same_regs m m' \<Longrightarrow> same_regs m' m'' \<Longrightarrow> same_regs m m''"
  by (simp add: same_regs_def)

lemma same_regs_upd [simp]:
  "same_regs m (m\<lparr>mm_fa := fa\<rparr>)" "same_regs m (m\<lparr>mm_mem := mem\<rparr>)" "same_regs m (m\<lparr>mm_fa := fa, mm_mem := mem\<rparr>)"
  by (simp_all add: same_regs_def)

text \<open>
  The leaves of the spaces in \<open>R\<close> are as before, except that in \<open>s\<close> the leaf at \<open>path\<close> is now \<open>new\<close>.
\<close>

definition leaves_upd :: "u64 set \<Rightarrow> u64 \<Rightarrow> nat list \<Rightarrow> u64 option \<Rightarrow> physmem \<Rightarrow> physmem \<Rightarrow> bool" where
  "leaves_upd R s path new mem mem' \<longleftrightarrow> (\<forall>s' \<in> R. \<forall>q. user_path q \<longrightarrow> length q = 4 \<longrightarrow>
     node mem' s' q = (if s' = s \<and> q = path then new else node mem s' q))"

definition leaf_pages_kept :: "u64 set \<Rightarrow> physmem \<Rightarrow> physmem \<Rightarrow> bool" where
  "leaf_pages_kept R mem mem' \<longleftrightarrow> (\<forall>s \<in> R. \<forall>q a. user_path q \<longrightarrow> length q = 4 \<longrightarrow>
     node mem s q = Some a \<longrightarrow> mem' a = mem a)"

section \<open>The next table\<close>

text \<open>From \<open>m\<close> to \<open>m'\<close> the tree of \<open>s\<close> at most gains or changes the table at \<open>p\<close>.\<close>

definition grows :: "u64 \<Rightarrow> u64 set \<Rightarrow> u64 set \<Rightarrow> u64 \<Rightarrow> nat list \<Rightarrow> mm \<Rightarrow> mm \<Rightarrow> bool" where
  "grows kr R X s p m m' \<longleftrightarrow> minv m' kr R X \<and> same_regs m m' \<and> keeps (R - {s}) (mm_mem m) (mm_mem m') \<and>
     (\<forall>q. user_path q \<longrightarrow> q \<noteq> p \<longrightarrow> node (mm_mem m') s q = node (mm_mem m) s q) \<and>
     (\<forall>a \<in> X. mm_mem m' a = mm_mem m a) \<and> leaf_pages_kept R (mm_mem m) (mm_mem m')"

lemma grows_refl: "minv m kr R X \<Longrightarrow> grows kr R X s p m m"
  by (simp add: grows_def leaf_pages_kept_def)

text \<open>A fresh table, cleared and entered at an empty entry.\<close>

lemma fresh_table_nodes:
  assumes "space_inv mem fa kr R X" and "s \<in> R" and "user_path (p @ [i])" and "node mem s p = Some t"
    and "f \<noteq> t" and "mem f = (\<lambda>_. 0)" and "pte_addr w = f" and "w \<noteq> 0" and "prefix (p @ [i]) q"
  shows "node (set_word t i w mem) s q = (if q = p @ [i] then Some f else None)"
proof -
  from assms(9) obtain rest where q: "q = p @ i # rest" by (auto simp: prefix_def)
  show ?thesis
    using user_entry_below [OF assms(1-4), of w rest] assms(5-8) unfolding q
    by (cases rest) (simp_all add: set_word_def)
qed

lemma fresh_table_grows:
  assumes "minv m kr R X" and "s \<in> R" and "user_path (p @ [i])" and "node (mm_mem m) s p = Some t"
    and "mm_mem m t i = 0" and "alloc_frames 1 (mm_fa m) = (Some f, fa)" and "length p < 3"
  shows "grows kr R X s (p @ [i]) m
      (m\<lparr>mm_fa := fa, mm_mem := set_word t i (pte f TABLE_FLAGS) (zero_page f (mm_mem m))\<rparr>)" (is ?g)
    and "node (set_word t i (pte f TABLE_FLAGS) (zero_page f (mm_mem m))) s (p @ [i]) = Some f"
    and "pte_addr (pte f TABLE_FLAGS) = f"
proof -
  note al = space_inv_alloc [OF assms(1,6), simplified]
  define z where "z = zero_page f (mm_mem m)"
  define w where "w = pte f TABLE_FLAGS"
  have w0: "pte_addr (pte f TABLE_FLAGS) = f" "w \<noteq> 0"
    using pte_ok [OF space_inv_loose_frame [OF al(1)] flags_ok_table] by (simp_all add: w_def)
  then show "pte_addr (pte f TABLE_FLAGS) = f" by simp
  have tu: "t \<in> upages (mm_mem m) R"
    using assms(2-4) by (intro upagesI) (auto simp: user_path_snoc)
  with al(2) have ft: "f \<noteq> t" by auto
  have out: "\<forall>a \<in> upages (mm_mem m) R \<union> insert kr (ktables (mm_mem m) (insert kr R)). z a = mm_mem m a"
    using al(2) by (auto simp: z_def zero_page_def)
  note zi = space_inv_outside [OF al(1) out]
  have zn: "node z s' q = node (mm_mem m) s' q" if "s' \<in> R" "user_path q" for s' q
    using zi(2) that by (simp add: keeps_def)
  have t0: "node z s p = Some t" using zn [OF assms(2)] assms(3,4) by (simp add: user_path_snoc)
  have nodes: "node (set_word t i w z) s q = (if q = p @ [i] then Some f else None)" if "prefix (p @ [i]) q" for q
    using w0(1) by (intro fresh_table_nodes [OF zi(1) assms(2,3) t0 ft _ _ w0(2) that]) (auto simp: z_def zero_page_def w_def)
  then show "node (set_word t i (pte f TABLE_FLAGS) (zero_page f (mm_mem m))) s (p @ [i]) = Some f"
    by (simp add: z_def w_def)
  have inv: "space_inv (set_word t i w z) fa kr R X"
  proof (rule user_entry_inv [OF zi(1) assms(2,3) t0 nodes])
    show "X \<subseteq> (insert f X \<union> {c. node z s (p @ [i]) = Some c}) - {fa. Some f = Some fa}"
      using al(2) by auto
    have "aligned f" using space_inv_loose_frame [OF al(1), of f] by (simp add: frame_addr_def)
    then show "entry_ok p w" using pte_not_huge assms(7) by (simp add: entry_ok_def w_def)
  qed (auto simp: z_def zero_page_def)
  note ke = user_entry_keeps [OF zi(1) assms(2,3) t0, where w = w]
  have "keeps (R - {s}) (mm_mem m) (set_word t i w z)"
    using keeps_trans [OF keeps_mono [OF zi(2)] ke(1)] by blast
  moreover have "node (set_word t i w z) s q = node (mm_mem m) s q" if "user_path q" "q \<noteq> p @ [i]" for q
  proof (cases "prefix (p @ [i]) q")
    case True
    then have "node (mm_mem m) s q = None" using assms(4,5) by (auto simp: prefix_def node_append)
    with nodes [OF True] that show ?thesis by simp
  next
    case False
    then show ?thesis
      using user_entry_other(1) [OF zi(1) assms(2,3) t0 assms(2) that(1)] zn [OF assms(2) that(1)] by simp
  qed
  moreover have "\<forall>a \<in> X. set_word t i w z a = mm_mem m a"
    using al(2) tu space_invD(3) [OF assms(1)] by (auto simp: set_word_def z_def zero_page_def)
  moreover have "leaf_pages_kept R (mm_mem m) (set_word t i w z)"
    unfolding leaf_pages_kept_def
  proof (intro ballI allI impI)
    fix s' q a assume a: "s' \<in> R" "user_path q" "length q = 4" "node (mm_mem m) s' q = Some a"
    have "node z s' q = Some a" using zn [OF a(1,2)] a(4) by simp
    from ke(2) [OF a(1-3) this] out upagesI [OF a(1,2,4)]
    show "set_word t i w z a = mm_mem m a" by simp
  qed
  ultimately show ?g using inv by (simp add: grows_def flip: z_def w_def)
qed

lemma next_table_user:
  assumes "minv m kr R X" and "s \<in> R" and "user_path (p @ [i])"
    and "node (mm_mem m) s p = Some t" and "next_table_mut t i m = (r, m')" and "length p < 3"
  shows "grows kr R X s (p @ [i]) m m'"
    and "\<And>t'. r = Some t' \<Longrightarrow> node (mm_mem m') s (p @ [i]) = Some t'"
proof -
  have "grows kr R X s (p @ [i]) m m' \<and> (\<forall>t'. r = Some t' \<longrightarrow> node (mm_mem m') s (p @ [i]) = Some t')"
  proof (cases "mm_mem m t i = 0")
    case False
    with assms(5) have "m' = m" "r = Some (pte_addr (mm_mem m t i))" by (auto simp: next_table_mut_def)
    with assms(1,4) False show ?thesis by (simp add: node_snoc grows_refl)
  next
    case empty: True
    obtain ro fa where al: "alloc_frames 1 (mm_fa m) = (ro, fa)" by (cases "alloc_frames 1 (mm_fa m)")
    show ?thesis
    proof (cases ro)
      case None
      with assms(5) empty al have "m' = m\<lparr>mm_fa := fa\<rparr>" "r = None" by (auto simp: next_table_mut_def)
      with space_inv_alloc_fail [OF assms(1)] al None show ?thesis
        by (simp add: grows_def leaf_pages_kept_def)
    next
      case (Some f)
      note fr = fresh_table_grows [OF assms(1-4) empty al [unfolded Some] assms(6)]
      have "m' = m\<lparr>mm_fa := fa, mm_mem := set_word t i (pte f TABLE_FLAGS) (zero_page f (mm_mem m))\<rparr>"
        "r = Some f"
        using assms(5) empty al Some fr(3) by (auto simp: next_table_mut_def Let_def set_word_def)
      with fr(1,2) show ?thesis by simp
    qed
  qed
  then show "grows kr R X s (p @ [i]) m m'"
    and "\<And>t'. r = Some t' \<Longrightarrow> node (mm_mem m') s (p @ [i]) = Some t'" by auto
qed

section \<open>Mapping a page\<close>

text \<open>Only tables changed: all leaves are where they were, with their contents.\<close>

definition tables_only :: "u64 \<Rightarrow> u64 set \<Rightarrow> u64 set \<Rightarrow> u64 \<Rightarrow> mm \<Rightarrow> mm \<Rightarrow> bool" where
  "tables_only kr R X s m m' \<longleftrightarrow> minv m' kr R X \<and> same_regs m m' \<and> keeps (R - {s}) (mm_mem m) (mm_mem m') \<and>
     (\<forall>q. user_path q \<longrightarrow> length q = 4 \<longrightarrow> node (mm_mem m') s q = node (mm_mem m) s q) \<and>
     (\<forall>a \<in> X. mm_mem m' a = mm_mem m a) \<and> leaf_pages_kept R (mm_mem m) (mm_mem m')"

lemma grows_tables_only: "grows kr R X s p m m' \<Longrightarrow> length p < 4 \<Longrightarrow> tables_only kr R X s m m'"
  by (auto simp: grows_def tables_only_def)

lemma tables_only_trans:
  assumes "tables_only kr R X s m m'" and "tables_only kr R X s m' m''"
  shows "tables_only kr R X s m m''"
proof -
  have "leaf_pages_kept R (mm_mem m) (mm_mem m'')"
    unfolding leaf_pages_kept_def
  proof (intro ballI allI impI)
    fix s' q a assume a: "s' \<in> R" "user_path q" "length q = 4" "node (mm_mem m) s' q = Some a"
    have "node (mm_mem m') s' q = Some a"
      using assms(1) a by (cases "s' = s") (auto simp: tables_only_def keeps_def)
    with a assms show "mm_mem m'' a = mm_mem m a"
      unfolding tables_only_def leaf_pages_kept_def by metis
  qed
  with assms show ?thesis
    unfolding tables_only_def by (auto intro: same_regs_trans keeps_trans)
qed

text \<open>The three tables on the way to a page.\<close>

definition tables_of :: "u64 \<Rightarrow> nat list" where
  "tables_of va = [p4_index va, p3_index va, p2_index va]"

lemma va_path_tables: "va_path va = tables_of va @ [p1_index va]"
  by (simp add: va_path_def tables_of_def)

lemma length_va_path: "length (va_path va) = 4" and length_tables_of: "length (tables_of va) = 3"
  by (simp_all add: va_path_def tables_of_def)

lemma user_va_path:
  assumes "p4_index va = 0"
  shows "user_path [p4_index va]" "user_path [p4_index va, p3_index va]" "user_path (tables_of va)"
    "user_path (va_path va)"
  using assms by (simp_all add: user_path_def indices_def tables_of_def va_path_def)

text \<open>\<^verbatim>\<open>map_page_in\<close> up to the write of the entry: the three calls of \<^verbatim>\<open>next_table_mut\<close>.\<close>

definition reach_table :: "u64 \<Rightarrow> u64 \<Rightarrow> mm \<Rightarrow> u64 option \<times> mm" where
  "reach_table root va m =
     (case next_table_mut root (p4_index va) m of
        (None, m) \<Rightarrow> (None, m)
      | (Some l3, m) \<Rightarrow>
          (case next_table_mut l3 (p3_index va) m of
             (None, m) \<Rightarrow> (None, m)
           | (Some l2, m) \<Rightarrow> next_table_mut l2 (p2_index va) m))"

lemma map_page_in_reach:
  "map_page_in root va phys flags m =
     (case reach_table root va m of
        (None, m) \<Rightarrow> (False, m)
      | (Some l1, m) \<Rightarrow>
          (True, m\<lparr>mm_mem := set_word l1 (p1_index va) (pte (page_floor phys) flags) (mm_mem m)\<rparr>))"
  by (simp add: map_page_in_def reach_table_def split: prod.split option.split)

lemma reach_table_user:
  assumes "minv m kr R X" and "s \<in> R" and "p4_index va = 0" and "reach_table s va m = (r, m')"
  shows "tables_only kr R X s m m'"
    and "r = Some l1 \<Longrightarrow> node (mm_mem m') s (tables_of va) = Some l1"
proof -
  note up = user_va_path [OF assms(3)]
  have len: "length ([] :: nat list) < 3" "length [p4_index va] < 3" "length [p4_index va, p3_index va] < 3" by simp_all
  obtain r3 m3 where 3: "next_table_mut s (p4_index va) m = (r3, m3)" by fastforce
  note n3 = next_table_user [OF assms(1,2), where p = "[]", unfolded append_Nil, OF up(1) node.simps(1) 3 len(1)]
  have t3: "tables_only kr R X s m m3" by (rule grows_tables_only [OF n3(1)]) simp
  have goal: "tables_only kr R X s m m' \<and> (r = Some l1 \<longrightarrow> node (mm_mem m') s (tables_of va) = Some l1)" for l1
  proof (cases r3)
    case None
    with 3 assms(4) t3 show ?thesis by (auto simp: reach_table_def)
  next
    case (Some l3)
    obtain r2 m2 where 2: "next_table_mut l3 (p3_index va) m3 = (r2, m2)" by fastforce
    have i3: "minv m3 kr R X" using t3 by (simp add: tables_only_def)
    note n2 = next_table_user [OF i3 assms(2), where p = "[p4_index va]", unfolded append_Cons append_Nil, OF up(2) n3(2) [OF Some] 2 len(2)]
    have t2: "tables_only kr R X s m m2"
      by (rule tables_only_trans [OF t3 grows_tables_only [OF n2(1)]]) simp
    show ?thesis
    proof (cases r2)
      case None
      with 3 2 Some assms(4) t2 show ?thesis by (auto simp: reach_table_def)
    next
      case l2: (Some l2)
      have i2: "minv m2 kr R X" using t2 by (simp add: tables_only_def)
      have 1: "next_table_mut l2 (p2_index va) m2 = (r, m')"
        using 3 2 Some l2 assms(4) by (simp add: reach_table_def)
      note n1 = next_table_user [OF i2 assms(2), where p = "[p4_index va, p3_index va]",
          unfolded append_Cons append_Nil, OF up(3) [unfolded tables_of_def] n2(2) [OF l2] 1 len(3)]
      have "tables_only kr R X s m m'"
        by (rule tables_only_trans [OF t2 grows_tables_only [OF n1(1)]]) simp
      with n1(2) show ?thesis by (simp add: tables_of_def)
    qed
  qed
  from goal show "tables_only kr R X s m m'" by blast
  from goal show "r = Some l1 \<Longrightarrow> node (mm_mem m') s (tables_of va) = Some l1" by blast
qed

text \<open>
  A page that is loose, or is mapped there already, is mapped at \<open>va\<close>; every other page of every space
  stays in place.
\<close>

definition map_result :: "u64 \<Rightarrow> u64 set \<Rightarrow> u64 set \<Rightarrow> u64 \<Rightarrow> u64 \<Rightarrow> u64 \<Rightarrow> bool \<Rightarrow> mm \<Rightarrow> mm \<Rightarrow> bool" where
  "map_result kr R X s va pg ok m m' \<longleftrightarrow>
     minv m' kr R (if ok then X - {pg} else X) \<and> same_regs m m' \<and>
     keeps (R - {s}) (mm_mem m) (mm_mem m') \<and> leaf_pages_kept R (mm_mem m) (mm_mem m') \<and>
     (\<forall>a \<in> X. mm_mem m' a = mm_mem m a) \<and>
     (\<forall>q. user_path q \<longrightarrow> length q = 4 \<longrightarrow>
        node (mm_mem m') s q = (if ok \<and> q = va_path va then Some pg else node (mm_mem m) s q))"

lemma map_user:
  assumes "minv m kr R X" and "s \<in> R" and "p4_index va = 0" and "flags_ok flags"
    and "pg \<in> X \<or> node (mm_mem m) s (va_path va) = Some pg" and "page_floor phys = pg"
    and "map_page_in s va phys flags m = (ok, m')"
  shows "map_result kr R X s va pg ok m m'"
proof -
  obtain r m1 where r: "reach_table s va m = (r, m1)" by fastforce
  note t = reach_table_user [OF assms(1-3) r]
  note to = t(1) [unfolded tables_only_def]
  show ?thesis
  proof (cases r)
    case None
    with assms(7) r have "\<not> ok" "m' = m1" by (auto simp: map_page_in_reach)
    with to show ?thesis by (simp add: map_result_def)
  next
    case (Some l1)
    note l1 = t(2) [OF Some]
    have i1: "minv m1 kr R X" using to by blast
    note up = user_va_path(4) [OF assms(3), unfolded va_path_tables]
    let ?w = "pte pg flags" and ?i = "p1_index va"
    have m': "ok" "m' = m1\<lparr>mm_mem := set_word l1 ?i ?w (mm_mem m1)\<rparr>"
      using assms(6,7) r Some by (auto simp: map_page_in_reach)
    have pg: "pg \<in> X \<or> node (mm_mem m1) s (tables_of va @ [?i]) = Some pg"
      using assms(5) to user_va_path(4) [OF assms(3)] length_va_path unfolding va_path_tables by metis
    then have "frame_addr pg"
      using space_inv_loose_frame [OF i1] space_inv_user_frame [OF i1 upagesI [OF assms(2) up]] by blast
    then have w: "pte_addr ?w = pg" "?w \<noteq> 0" using pte_ok [OF _ assms(4)] by simp_all
    have nodes: "node (set_word l1 ?i ?w (mm_mem m1)) s q = (if q = tables_of va @ [?i] then Some pg else None)"
      if "user_path q" "prefix (tables_of va @ [?i]) q" for q
    proof -
      have "q = tables_of va @ [?i]"
        using that by (auto simp: prefix_def user_path_def tables_of_def)
      then show ?thesis
        using user_entry_below [OF i1 assms(2) up l1, of ?w "[]"] w by simp
    qed
    have inv: "minv m' kr R (X - {pg})"
      unfolding m'
      using user_entry_inv [OF i1 assms(2) up l1 nodes, of "X - {pg}"] pg assms(3)
      by (auto simp: entry_ok_def tables_of_def)
    note ke = user_entry_keeps [OF i1 assms(2) up l1, where w = ?w]
    have n: "node (mm_mem m') s q = (if q = va_path va then Some pg else node (mm_mem m) s q)"
      if "user_path q" "length q = 4" for q
    proof (cases "prefix (tables_of va @ [?i]) q")
      case True
      then have "q = va_path va" using that by (auto simp: prefix_def tables_of_def va_path_tables)
      with nodes [OF that(1) True] m' show ?thesis by (simp add: va_path_tables)
    next
      case False
      then have "q \<noteq> va_path va" by (auto simp: va_path_tables)
      with user_entry_other(1) [OF i1 assms(2) up l1 assms(2) that(1), of ?w] False m' to that
      show ?thesis by simp
    qed
    have lf: "leaf_pages_kept R (mm_mem m) (mm_mem m')"
      unfolding leaf_pages_kept_def
    proof (intro ballI allI impI)
      fix s' q a assume a: "s' \<in> R" "user_path q" "length q = 4" "node (mm_mem m) s' q = Some a"
      then have "node (mm_mem m1) s' q = Some a"
        using to by (cases "s' = s") (auto simp: keeps_def)
      from ke(2) [OF a(1-3) this] a to m' show "mm_mem m' a = mm_mem m a"
        by (simp add: leaf_pages_kept_def)
    qed
    have "l1 \<in> upages (mm_mem m1) R" using l1 assms(2) user_va_path(3) [OF assms(3)] by (intro upagesI)
    then have "\<forall>a \<in> X. mm_mem m' a = mm_mem m a"
      using to m' space_invD(3) [OF i1] by (auto simp: set_word_def)
    moreover have "keeps (R - {s}) (mm_mem m) (mm_mem m')" using to ke(1) m' by (auto intro: keeps_trans)
    ultimately show ?thesis
      using inv n lf to m' by (simp add: map_result_def same_regs_def)
  qed
qed

end
