(* ===== verification/Page_Free.thy ===== *)
theory Page_Free
  imports Page_Map
begin

text \<open>
  Unmapping, and the tear-down of an address space: \<^verbatim>\<open>free_user_subtree\<close> returns every page
  of a space to the allocator, never panics, and leaves every other space alone.
\<close>

section \<open>Cutting an entry\<close>

text \<open>The nodes of \<open>s\<close> that satisfy \<open>P\<close> are gone; nothing else changed in any space.\<close>

definition clears :: "u64 \<Rightarrow> u64 set \<Rightarrow> u64 set \<Rightarrow> u64 \<Rightarrow> (nat list \<Rightarrow> bool) \<Rightarrow> mm \<Rightarrow> mm \<Rightarrow> bool" where
  "clears kr R X s P m m' \<longleftrightarrow> minv m' kr R X \<and> same_regs m m' \<and> keeps (R - {s}) (mm_mem m) (mm_mem m') \<and>
     (\<forall>q. user_path q \<longrightarrow> node (mm_mem m') s q = (if P q then None else node (mm_mem m) s q))"

lemma clears_trans:
  "clears kr R X s P m m' \<Longrightarrow> clears kr R X s Q m' m'' \<Longrightarrow> clears kr R X s (\<lambda>q. P q \<or> Q q) m m''"
  unfolding clears_def by (auto intro: same_regs_trans keeps_trans)

lemma clears_cong:
  "clears kr R X s P m m' \<Longrightarrow> (\<And>q. user_path q \<Longrightarrow> P q = Q q) \<Longrightarrow> clears kr R X s Q m m'"
  unfolding clears_def by auto

lemma clears_refl:
  "minv m kr R X \<Longrightarrow> (\<And>q. user_path q \<Longrightarrow> P q \<Longrightarrow> node (mm_mem m) s q = None) \<Longrightarrow> clears kr R X s P m m"
  unfolding clears_def by auto

lemma clears_inv: "clears kr R X s P m m' \<Longrightarrow> minv m' kr R X"
  by (simp add: clears_def)

lemma clears_node:
  "clears kr R X s P m m' \<Longrightarrow> user_path q \<Longrightarrow> \<not> P q \<Longrightarrow> node (mm_mem m') s q = node (mm_mem m) s q"
  by (simp add: clears_def)

text \<open>Clearing an entry that is in use: the page it named becomes loose.\<close>

lemma cut_user:
  assumes "minv m kr R X" and "s \<in> R" and "user_path (p @ [i])" and "node (mm_mem m) s p = Some t"
  shows "clears kr R (X \<union> {c. node (mm_mem m) s (p @ [i]) = Some c}) s (prefix (p @ [i])) m
    (m\<lparr>mm_mem := set_word t i 0 (mm_mem m)\<rparr>)"
proof -
  let ?m = "set_word t i 0 (mm_mem m)"
  have below: "node ?m s q = None" if "prefix (p @ [i]) q" for q
  proof -
    from that obtain rest where "q = p @ i # rest" by (auto simp: prefix_def)
    with user_entry_below [OF assms, of 0 rest] show ?thesis by simp
  qed
  have "space_inv ?m (mm_fa m) kr R (X \<union> {c. node (mm_mem m) s (p @ [i]) = Some c})"
    using below by (intro user_entry_inv [OF assms, where new = None]) auto
  moreover have "node ?m s q = (if prefix (p @ [i]) q then None else node (mm_mem m) s q)" if "user_path q" for q
    using below user_entry_other(1) [OF assms assms(2) that] by auto
  ultimately show ?thesis
    using user_entry_keeps(1) [OF assms, where w = 0] by (simp add: clears_def)
qed

text \<open>\<^verbatim>\<open>unmap_page_in\<close>: the leaf becomes loose, if there was one.\<close>

lemma unmap_page_in_node:
  "unmap_page_in s va m = (case node (mm_mem m) s (tables_of va) of
     None \<Rightarrow> m | Some l1 \<Rightarrow> m\<lparr>mm_mem := set_word l1 (p1_index va) 0 (mm_mem m)\<rparr>)"
  by (simp add: unmap_page_in_def tables_of_def Let_def)

lemma unmap_user:
  assumes "minv m kr R X" and "s \<in> R" and "p4_index va = 0"
  shows "clears kr R (X \<union> {c. node (mm_mem m) s (va_path va) = Some c}) s (\<lambda>q. q = va_path va) m
    (unmap_page_in s va m)"
proof (cases "node (mm_mem m) s (tables_of va)")
  case None
  then have "node (mm_mem m) s (va_path va) = None" by (simp add: va_path_tables node_append)
  with None assms(1) show ?thesis by (auto simp: unmap_page_in_node intro: clears_refl)
next
  case (Some l1)
  have "prefix (va_path va) q \<longleftrightarrow> q = va_path va" if "user_path q" for q
    using that length_va_path [of va] by (auto simp: prefix_def user_path_def)
  with cut_user [OF assms(1,2) _ Some, of "p1_index va"] user_va_path(4) [OF assms(3)] Some
  show ?thesis unfolding va_path_tables
    by (simp add: unmap_page_in_node) (erule clears_cong, simp add: va_path_tables)
qed

section \<open>Tear-down\<close>

text \<open>One entry of a table: its page is returned once nothing hangs below it.\<close>

lemma free_entry:
  assumes "minv m kr R X" and "s \<in> R" and "user_path (p @ [i])" and "node (mm_mem m) s p = Some t"
    and "node (mm_mem m) s (p @ [i]) = Some c"
  shows "\<exists>fa'. free_frames c 1 (mm_fa m) = Some fa' \<and>
    clears kr R X s (prefix (p @ [i])) m (m\<lparr>mm_fa := fa', mm_mem := set_word t i 0 (mm_mem m)\<rparr>)"
proof -
  note cut = cut_user [OF assms(1-4)]
  have X: "X \<union> {c. node (mm_mem m) s (p @ [i]) = Some c} = insert c X" using assms(5) by auto
  have "c \<in> upages (mm_mem m) R" using assms(2,3,5) by (intro upagesI)
  then have "c \<notin> X" using space_invD(3) [OF assms(1)] by blast
  then have "insert c X - {c} = X" by blast
  with space_inv_free1 [of "set_word t i 0 (mm_mem m)" "mm_fa m" kr R "insert c X" c] clears_inv [OF cut]
  obtain fa' where "free_frames c 1 (mm_fa m) = Some fa'" "space_inv (set_word t i 0 (mm_mem m)) fa' kr R X"
    unfolding X by auto
  with cut show ?thesis by (auto simp: clears_def same_regs_def)
qed

lemma pte_node:
  "node mem s p = Some t \<Longrightarrow> node mem s (p @ [i]) = Some c \<Longrightarrow> mem t i \<noteq> 0 \<and> pte_addr (mem t i) = c"
  by (simp add: node_snoc split: if_splits)

text \<open>The body of the loop of \<^verbatim>\<open>walk\<close>, for a recursive call that clears what is below the entry.\<close>

lemma walk_entry:
  assumes "minv m kr R X" and "s \<in> R" and "user_path (p @ [i])" and "node (mm_mem m) s p = Some t"
    and rec: "\<And>c. node (mm_mem m) s (p @ [i]) = Some c \<Longrightarrow>
      \<exists>m'. sub c m = Some m' \<and> (clears kr R X s (strict_prefix (p @ [i])) m m' \<or> m' = m)"
  shows "\<exists>m'. (let e = mm_mem m t i in
       if e = 0 then Some m
       else do {
         m \<leftarrow> sub (pte_addr e) m;
         m \<leftarrow> free_frame_mm (pte_addr (mm_mem m t i)) 1 m;
         Some (m\<lparr>mm_mem := set_word t i 0 (mm_mem m)\<rparr>)
       }) = Some m' \<and> clears kr R X s (prefix (p @ [i])) m m'"
proof (cases "mm_mem m t i = 0")
  case True
  then have "node (mm_mem m) s (p @ [i]) = None" using assms(4) by (simp add: node_snoc)
  with True assms(1) show ?thesis by (auto intro!: clears_refl dest: node_prefix_None)
next
  case False
  define c where "c = pte_addr (mm_mem m t i)"
  have c: "node (mm_mem m) s (p @ [i]) = Some c" using False assms(4) by (simp add: node_snoc c_def)
  from rec [OF c] obtain m1 where m1: "sub c m = Some m1"
    "clears kr R X s (strict_prefix (p @ [i])) m m1 \<or> m1 = m" by blast
  have up: "user_path p" using assms(3) by (simp add: user_path_snoc)
  have i1: "minv m1 kr R X" and t1: "node (mm_mem m1) s p = Some t"
    and c1: "node (mm_mem m1) s (p @ [i]) = Some c"
    using m1(2) assms(1,3,4) up c by (auto simp: clears_def strict_prefix_def)
  from free_entry [OF i1 assms(2,3) t1 c1] obtain fa' where f: "free_frames c 1 (mm_fa m1) = Some fa'"
    "clears kr R X s (prefix (p @ [i])) m1 (m1\<lparr>mm_fa := fa', mm_mem := set_word t i 0 (mm_mem m1)\<rparr>)" by blast
  have "clears kr R X s (prefix (p @ [i])) m (m1\<lparr>mm_fa := fa', mm_mem := set_word t i 0 (mm_mem m1)\<rparr>)"
    using m1(2)
  proof
    assume "clears kr R X s (strict_prefix (p @ [i])) m m1"
    from clears_trans [OF this f(2)] show ?thesis by (rule clears_cong) (auto simp: strict_prefix_def)
  next
    assume "m1 = m"
    with f(2) show ?thesis by simp
  qed
  moreover have "pte_addr (mm_mem m1 t i) = c" using pte_node [OF t1 c1] by simp
  ultimately show ?thesis
    using m1(1) f(1) False by (simp add: free_frame_mm_def flip: c_def)
qed

lemma walk_loop:
  assumes "minv m kr R X" and "s \<in> R" and "user_path p" and "length p < 4" and "p \<noteq> []"
    and "node (mm_mem m) s p = Some t" and "\<forall>i \<in> set xs. i < 512"
    and step: "\<And>m i. minv m kr R X \<Longrightarrow> node (mm_mem m) s p = Some t \<Longrightarrow> user_path (p @ [i]) \<Longrightarrow>
      \<exists>m'. g i m = Some m' \<and> clears kr R X s (prefix (p @ [i])) m m'"
  shows "\<exists>m'. ofold g xs m = Some m' \<and> clears kr R X s (\<lambda>q. \<exists>i \<in> set xs. prefix (p @ [i]) q) m m'"
  using assms(1,6,7)
proof (induction xs arbitrary: m)
  case Nil
  then show ?case by (simp add: clears_refl)
next
  case (Cons i xs)
  then have up: "user_path (p @ [i])" using assms(3-5) by (simp add: user_path_snoc)
  from step [OF Cons.prems(1,2) this] obtain m1 where
    m1: "g i m = Some m1" "clears kr R X s (prefix (p @ [i])) m m1" by blast
  have "node (mm_mem m1) s p = Some t"
    using clears_node [OF m1(2) assms(3)] Cons.prems(2) by (simp add: prefix_def)
  with Cons.IH [of m1] clears_inv [OF m1(2)] Cons.prems(3) obtain m2 where
    m2: "ofold g xs m1 = Some m2" "clears kr R X s (\<lambda>q. \<exists>i \<in> set xs. prefix (p @ [i]) q) m1 m2" by auto
  from clears_trans [OF m1(2) m2(2)] m1(1) m2(1) show ?case by (auto elim: clears_cong)
qed

lemma strict_prefix_index:
  "user_path q \<Longrightarrow> strict_prefix p q \<longleftrightarrow> (\<exists>i \<in> set [0..<512]. prefix (p @ [i]) q)"
proof -
  assume "user_path q"
  then have "i < 512" if "prefix (p @ [i]) q" for i
    using that by (auto simp: prefix_def user_path_def indices_def)
  moreover have "strict_prefix p q \<longleftrightarrow> (\<exists>i. prefix (p @ [i]) q)"
    by (metis prefix_snocD strict_prefix_def append_Cons append_Nil2 not_Cons_self2 prefix_def
        append_assoc append_Nil neq_Nil_conv)
  ultimately show ?thesis by auto
qed

lemma walk_clears:
  assumes "minv m kr R X" and "s \<in> R" and "user_path p" and "p \<noteq> []" and "length p + level = 4"
    and "1 \<le> level" and "level \<le> guard" and "node (mm_mem m) s p = Some t"
  shows "\<exists>m'. walk guard level t m = Some m' \<and> clears kr R X s (strict_prefix p) m m'"
  using assms
proof (induction guard arbitrary: level p t m)
  case 0
  then show ?case by simp
next
  case (Suc guard)
  let ?sub = "\<lambda>e c m. if e AND HUGE_PAGE = 0 \<and> 1 < level then walk guard (level - 1) c m else Some m"
  let ?g = "\<lambda>i m. let e = mm_mem m t i in
       if e = 0 then Some m
       else do {
         m \<leftarrow> ?sub e (pte_addr e) m;
         m \<leftarrow> free_frame_mm (pte_addr (mm_mem m t i)) 1 m;
         Some (m\<lparr>mm_mem := set_word t i 0 (mm_mem m)\<rparr>)
       }"
  have step: "\<exists>m'. ?g i m = Some m' \<and> clears kr R X s (prefix (p @ [i])) m m'"
    if "minv m kr R X" "node (mm_mem m) s p = Some t" "user_path (p @ [i])" for m i
  proof -
    have "\<exists>m'. ?sub (mm_mem m t i) c m = Some m' \<and> (clears kr R X s (strict_prefix (p @ [i])) m m' \<or> m' = m)"
      if c: "node (mm_mem m) s (p @ [i]) = Some c" for c
    proof (cases "mm_mem m t i AND HUGE_PAGE = 0 \<and> 1 < level")
      case True
      then have "length (p @ [i]) + (level - 1) = 4" "1 \<le> level - 1" "level - 1 \<le> guard"
        using Suc.prems(5,7) by auto
      from Suc.IH [OF \<open>minv m kr R X\<close> Suc.prems(2) \<open>user_path (p @ [i])\<close> _ this c] True
      show ?thesis by auto
    qed auto
    from walk_entry [where sub = "?sub (mm_mem m t i)", OF that(1) Suc.prems(2) that(3,2) this]
    show ?thesis by (simp add: Let_def)
  qed
  have "length p < 4" using Suc.prems(5,6) by linarith
  moreover have "\<forall>i \<in> set [0..<512]. i < (512 :: nat)" by (simp only: set_upt) simp
  ultimately obtain m' where m': "ofold ?g [0..<512] m = Some m'"
    "clears kr R X s (\<lambda>q. \<exists>i \<in> set [0..<512]. prefix (p @ [i]) q) m m'"
    using walk_loop [where xs = "[0..<512]" and g = ?g, OF Suc.prems(1-3) _ Suc.prems(4,8) _ step] by blast
  from m'(2) have "clears kr R X s (strict_prefix p) m m'"
    by (rule clears_cong) (simp only: strict_prefix_index)
  with m'(1) show ?case unfolding walk.simps by blast
qed

text \<open>The whole tree, and the root.\<close>

lemma drop_root:
  assumes "minv m kr R X" and "s \<in> R"
  shows "\<exists>m'. free_frame_mm s 1 m = Some m' \<and> minv m' kr (R - {s}) X \<and> same_regs m m' \<and> mm_mem m' = mm_mem m"
proof -
  note d = space_inv_drop_root [OF assms]
  have "s \<notin> X" using root_upage [OF assms(2)] space_invD(3) [OF assms(1)] by blast
  then have "insert s X - {s} = X" by blast
  with space_inv_free1 [OF d, of s] show ?thesis by (auto simp: free_frame_mm_def)
qed

lemma free_user_subtree_ok:
  assumes "minv m kr R X" and "s \<in> R"
  shows "\<exists>m'. free_user_subtree s m = Some m' \<and> minv m' kr (R - {s}) X \<and> same_regs m m' \<and>
    keeps (R - {s}) (mm_mem m) (mm_mem m')"
proof -
  have up: "user_path ([] @ [0])" "user_path [0]" by (simp_all add: user_path_def indices_def)
  have n0: "node (mm_mem m) s [] = Some s" for m by simp
  let ?sub = "\<lambda>c m. walk 8 3 c m"
  have "\<exists>m'. walk 8 3 c m = Some m' \<and> (clears kr R X s (strict_prefix ([] @ [0])) m m' \<or> m' = m)"
    if "node (mm_mem m) s ([] @ [0]) = Some c" for c
    using walk_clears [OF assms up(2), of 3 8 c] that by simp blast
  from walk_entry [where sub = ?sub, OF assms up(1) n0 this] obtain m1 where
    m1: "(let e = mm_mem m s 0 in if e = 0 then Some m
       else do {
         m \<leftarrow> walk 8 3 (pte_addr e) m;
         m \<leftarrow> free_frame_mm (pte_addr (mm_mem m s 0)) 1 m;
         Some (m\<lparr>mm_mem := set_word s 0 0 (mm_mem m)\<rparr>)
       }) = Some m1" "clears kr R X s (prefix ([] @ [0])) m m1" by blast
  from drop_root [OF clears_inv [OF m1(2)] assms(2)] obtain m2 where
    "free_frame_mm s 1 m1 = Some m2" "minv m2 kr (R - {s}) X" "same_regs m1 m2" "mm_mem m2 = mm_mem m1" by blast
  with m1 show ?thesis
    by (auto simp: free_user_subtree_def clears_def intro: same_regs_trans)
qed

text \<open>\<^verbatim>\<open>destroy_address_space\<close>.\<close>

definition other_spaces :: "u64 \<Rightarrow> mm \<Rightarrow> mm \<Rightarrow> bool" where
  "other_spaces s m m' \<longleftrightarrow> mm_spaces m' = filter (\<lambda>p. p \<noteq> s) (mm_spaces m) \<and>
     mm_kstacks m' = mm_kstacks m \<and> mm_cr3 m' = mm_cr3 m"

lemma destroy_ok:
  assumes "minv m kr R X" and "s \<in> R"
  shows "\<exists>m'. destroy_address_space s m = Some m' \<and> minv m' kr (R - {s}) X \<and> other_spaces s m m' \<and>
    keeps (R - {s}) (mm_mem m) (mm_mem m')"
  using free_user_subtree_ok [OF assms]
  by (auto simp: destroy_address_space_def same_regs_def other_spaces_def)

end
