(* ===== verification/Page_Kern.thy ===== *)
theory Page_Kern
  imports Page_Free
begin

text \<open>
  Mapping and unmapping kernel stacks. Their tables are shared between address spaces; no
  user page is touched, and a table keeps its level.
\<close>

section \<open>One entry of a kernel table\<close>

text \<open>Below the roots, tables of kernel stacks are not user pages; at a root, the entry is a kernel slot.\<close>

lemma kern_entry_user:
  assumes "space_inv mem fa kr R X" and "s \<in> insert kr R" and "kern_path p" and "p = [] \<longrightarrow> kernel_slot i"
    and "node mem s p = Some t"
  shows "keeps R mem (set_word t i w mem)"
proof -
  note inv = space_invD [OF assms(1)]
  have t: "t \<in> insert kr (ktables mem (insert kr R)) \<or> (t \<in> R \<and> kernel_slot i)"
    using assms(2-5) ktablesI [of s "insert kr R" p mem t] by (cases "p = []") auto
  have rd: "a \<noteq> t \<or> i \<noteq> j" if "s' \<in> R" "user_path (q @ [j])" "node mem s' q = Some a" for s' q j a
  proof (cases "t \<in> R")
    case False
    have "a \<in> upages mem R" using that by (intro upagesI) (auto simp: user_path_snoc)
    with False t inv(4) show ?thesis by blast
  next
    case True
    with t root_upage [of t R mem] inv(4) have "kernel_slot i" by blast
    moreover have "q = []" if "a = t"
      using one_ownerD [OF inv(1) \<open>s' \<in> R\<close> True _ user_path_Nil, of q a] that \<open>user_path (q @ [j])\<close>
        \<open>node mem s' q = Some a\<close> by (simp add: user_path_snoc)
    ultimately show ?thesis using that(2) by (auto simp: user_path_def)
  qed
  have n: "node (set_word t i w mem) s' q = node mem s' q" if "s' \<in> R" "user_path q" for s' q
  proof (rule node_set_word_other)
    fix r assume "prefix (r @ [i]) q"
    then have "user_path (r @ [i])" using that(2) user_path_prefix by blast
    then show "node mem s' r \<noteq> Some t" using rd [OF that(1)] by blast
  qed
  have "set_word t i w mem a = mem a" if "s' \<in> R" "user_path q" "length q = 4" "node mem s' q = Some a" for s' q a
  proof -
    have "a \<noteq> t"
    proof
      assume "a = t"
      with upagesI [OF that(1,2,4)] t inv(4) have "t \<in> R" by blast
      with one_ownerD [OF inv(1) that(1) _ that(2) user_path_Nil that(4)] \<open>a = t\<close> that(3) show False by auto
    qed
    then show ?thesis by (simp add: set_word_def)
  qed
  with n show ?thesis by (simp add: keeps_def)
qed

text \<open>A fresh table entered at an empty entry.\<close>

lemma kern_fresh_nodes:
  assumes "space_inv mem fa kr R X" and "s \<in> insert kr R" and "kern_path p" and "node mem s p = Some t"
    and "f \<in> X" and "mem f = (\<lambda>_. 0)" and "pte_addr w = f"
    and "s' \<in> insert kr R" and "kern_path q" and "node (set_word t i w mem) s' q = Some b"
  shows "node mem s' q = Some b \<or> (b = f \<and> length q = Suc (length p))"
  using assms(9,10)
proof (induction q arbitrary: b rule: rev_induct)
  case Nil
  then show ?case by simp
next
  case (snoc j q)
  note inv = space_invD [OF assms(1)]
  have kq: "kern_path q" using snoc.prems(1) by (simp add: kern_path_snoc)
  from snoc.prems(2) obtain a where a: "node (set_word t i w mem) s' q = Some a"
    "set_word t i w mem a j \<noteq> 0" "pte_addr (set_word t i w mem a j) = b"
    by (auto simp: node_snoc split: option.splits if_splits)
  have root: "z \<notin> X" if "z \<in> insert kr R" for z
    using that root_upage [of z R mem] inv(3,4) by blast
  have tX: "t \<notin> X"
    using ktablesI [OF assms(2,3) _ assms(4)] inv(4) root [OF assms(2)] assms(4) by (cases "p = []") auto
  show ?case
  proof (cases "node mem s' q = Some a")
    case True
    have "a \<notin> X"
      using ktablesI [OF assms(8) kq _ True] inv(4) root [OF assms(8)] True by (cases "q = []") auto
    with True a one_levelD [OF inv(2) assms(2,8,3) kq assms(4), of] assms(7) show ?thesis
      by (cases "a = t \<and> j = i") (auto simp: node_snoc set_word_def split: if_splits)
  next
    case False
    with snoc.IH [OF kq a(1)] have "a = f" by simp
    with a(2) assms(5,6) tX show ?thesis by (auto simp: set_word_def split: if_splits)
  qed
qed

text \<open>Writing an entry for the kernel's stacks keeps the shield, if the entry is in order at its level.\<close>

lemma kern_entry_roots:
  assumes "space_inv mem fa kr R X" and "s \<in> insert kr R" and "kern_path p" and "p = [] \<longrightarrow> kernel_slot i"
    and "node mem s p = Some t" and "s' \<in> insert kr R" and "\<not> kernel_slot j"
  shows "set_word t i w mem s' j = mem s' j"
proof (cases "s' = t")
  case True
  then have "p = []"
    using one_levelD [OF space_invD(2) [OF assms(1)] assms(2,6,3) kern_path_Nil assms(5)] by simp
  with assms(4,7) have "i \<noteq> j" by auto
  then show ?thesis by (simp add: set_word_def)
qed (simp add: set_word_def)

lemma kern_entry_user_tables:
  assumes "space_inv mem fa kr R X" and "s \<in> insert kr R" and "kern_path p" and "p = [] \<longrightarrow> kernel_slot i"
    and "node mem s p = Some t" and "s' \<in> R" and "user_path q" and "length q < 4" and "node mem s' q = Some b"
  shows "entry_ok q (set_word t i w mem b j)"
proof (cases "b = t")
  case False
  with shieldedD(3) [OF space_invD(6) [OF assms(1)] assms(6-9)] show ?thesis by (simp add: set_word_def)
next
  case True
  note inv = space_invD [OF assms(1)]
  have "b \<in> upages mem R" by (rule upagesI [OF assms(6,7,9)])
  then have "p = []" using True ktablesI [OF assms(2,3) _ assms(5)] inv(4) by blast
  with assms(5) True have "b = s" by simp
  with \<open>b \<in> upages mem R\<close> inv(4) assms(2) have "b \<in> R" by blast
  with one_ownerD [OF inv(1) assms(6) _ assms(7) user_path_Nil assms(9)] have "q = []" by simp
  then show ?thesis by simp
qed

lemma kern_fresh_shielded:
  assumes "space_inv mem fa kr R X" and "s \<in> insert kr R" and "kern_path (p @ [i])"
    and "node mem s p = Some t" and "f \<in> X" and "mem f = (\<lambda>_. 0)" and "pte_addr w = f" and "w AND HUGE_PAGE = 0"
  shows "shielded (set_word t i w mem) kr R"
proof -
  note inv = space_invD [OF assms(1)]
  have kp: "kern_path p" "p = [] \<longrightarrow> kernel_slot i" "length p < 3" using assms(3) by (auto simp: kern_path_snoc)
  have ke: "keeps R mem (set_word t i w mem)" by (rule kern_entry_user [OF assms(1,2) kp(1,2) assms(4)])
  show ?thesis
    unfolding shielded_def
  proof (intro conjI ballI allI impI)
    fix s' j assume a: "s' \<in> insert kr R" "j < (512 :: nat)" "j \<noteq> 0" "\<not> kernel_slot j"
    show "\<not> grants (set_word t i w mem s' j)"
      unfolding kern_entry_roots [OF assms(1,2) kp(1,2) assms(4) a(1,4)] by (rule shieldedD(1) [OF inv(6) a])
  next
    fix s' q b j assume a: "s' \<in> insert kr R" "kern_path q" "node (set_word t i w mem) s' q = Some b"
    from kern_fresh_nodes [OF assms(1,2) kp(1) assms(4-7) a]
    show "entry_ok q (set_word t i w mem b j)"
    proof
      assume n: "node mem s' q = Some b"
      have "length q = length p" if "b = t"
        using one_levelD [OF inv(2) a(1) assms(2) a(2) kp(1) n] assms(4) that by simp
      with shieldedD(2) [OF inv(6) a(1,2) n, of j] kp(3) assms(8) show ?thesis
        by (auto simp: set_word_def entry_ok_def)
    next
      assume f: "b = f \<and> length q = Suc (length p)"
      have "t \<notin> X"
        using ktablesI [OF assms(2) kp(1) _ assms(4)] inv(3,4) assms(2,4) root_upage [of s R mem] by (cases "p = []") auto
      with f assms(5,6) show ?thesis by (auto simp: set_word_def)
    qed
  next
    fix s' q b j assume a: "s' \<in> R" "user_path q" "length q < 4" "node (set_word t i w mem) s' q = Some b"
    then have "node mem s' q = Some b" using ke by (simp add: keeps_def)
    from kern_entry_user_tables [OF assms(1,2) kp(1,2) assms(4) a(1-3) this]
    show "entry_ok q (set_word t i w mem b j)" .
  qed
qed

lemma kern_fresh_inv:
  assumes "space_inv mem fa kr R (insert f X)" and "s \<in> insert kr R" and "kern_path (p @ [i])"
    and "node mem s p = Some t" and "f \<notin> X" and "mem f = (\<lambda>_. 0)" and "pte_addr w = f" and "w AND HUGE_PAGE = 0"
  shows "space_inv (set_word t i w mem) fa kr R X"
proof -
  note inv = space_invD [OF assms(1)]
  have kp: "kern_path p" and p0: "p = [] \<longrightarrow> kernel_slot i" using assms(3) by (auto simp: kern_path_snoc)
  have fX: "f \<in> insert f X" by simp
  note new = kern_fresh_nodes [OF assms(1,2) kp assms(4) fX assms(6,7)]
  have ke: "keeps R mem (set_word t i w mem)" by (rule kern_entry_user [OF assms(1,2) kp p0 assms(4)])
  have u: "node (set_word t i w mem) s' q = node mem s' q" if "s' \<in> R" "user_path q" for s' q
    using ke that by (simp add: keeps_def)
  have uc: "upages (set_word t i w mem) R = upages mem R" by (rule upages_cong [OF u])
  have K: "ktables (set_word t i w mem) (insert kr R) \<subseteq> insert f (ktables mem (insert kr R))"
    using new by (fastforce simp: ktables_def)
  have ff: "f \<notin> insert kr (ktables mem (insert kr R))" using inv(4) by blast
  have fR: "f \<notin> R" using root_upage [of f R mem] inv(3) by blast
  have no: "node mem s' q \<noteq> Some f" if "s' \<in> insert kr R" "kern_path q" for s' q
    using ktablesI [OF that, of mem f] ff fR that by (cases "q = []") auto
  have lev: "one_level (set_word t i w mem) (insert kr R)"
    unfolding one_level_def
  proof (intro ballI allI impI)
    fix s1 s2 p1 p2 a
    assume a: "s1 \<in> insert kr R" "s2 \<in> insert kr R" "kern_path p1" "kern_path p2"
      "node (set_word t i w mem) s1 p1 = Some a" "node (set_word t i w mem) s2 p2 = Some a"
    from new [OF a(1,3,5)] new [OF a(2,4,6)] no [OF a(1,3)] no [OF a(2,4)]
      one_levelD [OF inv(2) a(1-4)] show "length p1 = length p2" by auto
  qed
  show ?thesis
    unfolding space_inv_def uc
  proof (intro conjI)
    show "one_owner (set_word t i w mem) R" using one_owner_cong [OF u] inv(1) by blast
    show "shielded (set_word t i w mem) kr R"
      by (rule kern_fresh_shielded [OF assms(1-4) fX assms(6-8)])
    show "upages mem R \<inter> X = {}" using inv(3) by blast
    show "(upages mem R \<union> X) \<inter> insert kr (ktables (set_word t i w mem) (insert kr R)) = {}"
      using K inv(3,4) assms(5) by blast
    have "holds fa (upages mem R \<union> insert f X) (insert kr (ktables (set_word t i w mem) (insert kr R)))"
      by (rule holds_pin [OF inv(5)]) (use K in blast)
    then show "holds fa (upages mem R \<union> X) (insert kr (ktables (set_word t i w mem) (insert kr R)))"
      by (rule holds_mono) auto
  qed (fact lev)
qed

text \<open>The entry for a page of a stack itself: the table is at the last level.\<close>

lemma kern_leaf_inv:
  assumes "space_inv mem fa kr R X" and "s \<in> insert kr R" and "kern_path p" and "length p = 3"
    and "node mem s p = Some t" and "\<not> grants w"
  shows "space_inv (set_word t i w mem) fa kr R X" and "keeps R mem (set_word t i w mem)"
proof -
  show ke: "keeps R mem (set_word t i w mem)"
    using assms by (intro kern_entry_user) auto
  have k: "node (set_word t i w mem) s' q = node mem s' q" if "s' \<in> insert kr R" "kern_path q" for s' q
  proof (rule node_set_word_other)
    fix r assume r: "prefix (r @ [i]) q"
    then have kr: "kern_path (r @ [i])" using that(2) kern_path_prefix by blast
    then show "node mem s' r \<noteq> Some t"
      using one_levelD [OF space_invD(2) [OF assms(1)] assms(2) that(1) assms(3) _ assms(5), of r] assms(4)
      by (auto simp: kern_path_snoc)
  qed
  have u: "node (set_word t i w mem) s' q = node mem s' q" if "s' \<in> R" "user_path q" for s' q
    using ke that by (simp add: keeps_def)
  have p0: "p = [] \<longrightarrow> kernel_slot i" using assms(4) by auto
  have "shielded (set_word t i w mem) kr R"
  proof (rule shielded_cong [OF space_invD(6) [OF assms(1)] u k])
    show "set_word t i w mem s' j = mem s' j" if "s' \<in> insert kr R" "\<not> kernel_slot j" for s' j
      by (rule kern_entry_roots [OF assms(1-3) p0 assms(5) that])
    show "entry_ok q (set_word t i w mem b j)"
      if "s' \<in> insert kr R" "kern_path q" "node mem s' q = Some b" "entry_ok q (mem b j)" for s' q b j
    proof -
      have "length q = 3" if "b = t"
        using one_levelD [OF space_invD(2) [OF assms(1)] \<open>s' \<in> insert kr R\<close> assms(2) \<open>kern_path q\<close> assms(3)
            \<open>node mem s' q = Some b\<close>] assms(4,5) that by simp
      with that(4) assms(6) show ?thesis by (auto simp: set_word_def entry_ok_def)
    qed
    show "entry_ok q (set_word t i w mem b j)"
      if "s' \<in> R" "user_path q" "length q < 4" "node mem s' q = Some b" for s' q b j
      by (rule kern_entry_user_tables [OF assms(1-3) p0 assms(5) that])
  qed
  then show "space_inv (set_word t i w mem) fa kr R X" using space_inv_cong [OF u k _ assms(1)] by blast
qed

section \<open>The operations\<close>

definition stays :: "u64 \<Rightarrow> u64 set \<Rightarrow> u64 set \<Rightarrow> mm \<Rightarrow> mm \<Rightarrow> bool" where
  "stays kr R X m m' \<longleftrightarrow> minv m' kr R X \<and> same_regs m m' \<and> keeps R (mm_mem m) (mm_mem m')"

lemma stays_refl: "minv m kr R X \<Longrightarrow> stays kr R X m m"
  by (simp add: stays_def)

lemma stays_trans: "stays kr R X m m' \<Longrightarrow> stays kr R X m' m'' \<Longrightarrow> stays kr R X m m''"
  by (auto simp: stays_def intro: same_regs_trans keeps_trans)

lemma stays_inv: "stays kr R X m m' \<Longrightarrow> minv m' kr R X"
  by (simp add: stays_def)

lemma kern_table_fresh:
  assumes "minv m kr R X" and "s \<in> insert kr R" and "kern_path (p @ [i])"
    and "node (mm_mem m) s p = Some t" and "alloc_frames 1 (mm_fa m) = (Some f, fa)"
  shows "stays kr R X m (m\<lparr>mm_fa := fa, mm_mem := set_word t i (pte f TABLE_FLAGS) (zero_page f (mm_mem m))\<rparr>)"
    and "node (set_word t i (pte f TABLE_FLAGS) (zero_page f (mm_mem m))) s (p @ [i]) = Some f"
    and "pte_addr (pte f TABLE_FLAGS) = f"
proof -
  note al = space_inv_alloc [OF assms(1,5), simplified]
  define z where "z = zero_page f (mm_mem m)"
  define w where "w = pte f TABLE_FLAGS"
  have w: "pte_addr w = f" "w \<noteq> 0"
    using pte_ok [OF space_inv_loose_frame [OF al(1)] flags_ok_table] by (simp_all add: w_def)
  then show "pte_addr (pte f TABLE_FLAGS) = f" by (simp add: w_def)
  have kp: "kern_path p" "p = [] \<longrightarrow> kernel_slot i" using assms(3) by (auto simp: kern_path_snoc)
  have out: "\<forall>a \<in> upages (mm_mem m) R \<union> insert kr (ktables (mm_mem m) (insert kr R)). z a = mm_mem m a"
    using al(2) by (auto simp: z_def zero_page_def)
  note zi = space_inv_outside [OF al(1) out]
  have "node z s p = node (mm_mem m) s p"
    using out root_upage [of _ R "mm_mem m"] by (intro knodes_outside [OF _ assms(2) kp(1)]) blast
  then have t: "node z s p = Some t" using assms(4) by simp
  have "aligned f" using space_inv_loose_frame [OF al(1), of f] by (simp add: frame_addr_def)
  then have "w AND HUGE_PAGE = 0" unfolding w_def by (rule pte_not_huge)
  then have "space_inv (set_word t i w z) fa kr R X"
    using kern_fresh_inv [OF zi(1) assms(2,3) t _ _ w(1)] al(2) by (auto simp: z_def zero_page_def)
  moreover have "keeps R (mm_mem m) (set_word t i w z)"
    by (rule keeps_trans [OF zi(2) kern_entry_user [OF zi(1) assms(2) kp t]])
  ultimately show "stays kr R X m (m\<lparr>mm_fa := fa, mm_mem := set_word t i (pte f TABLE_FLAGS) (zero_page f (mm_mem m))\<rparr>)"
    by (simp add: stays_def z_def w_def)
  have "node (set_word t i w z) s p = Some t"
  proof (subst node_set_word_other)
    fix r assume r: "prefix (r @ [i]) p"
    then have "kern_path r" "length r < length p"
      using kp(1) kern_path_prefix [of p r] by (auto simp: prefix_def)
    then show "node z s r \<noteq> Some t"
      using one_levelD [OF space_invD(2) [OF zi(1)] assms(2,2) _ kp(1) _ t, of r] by auto
  qed (fact t)
  then show "node (set_word t i (pte f TABLE_FLAGS) (zero_page f (mm_mem m))) s (p @ [i]) = Some f"
    using w by (simp add: node_snoc set_word_def z_def w_def)
qed

lemma next_table_kern:
  assumes "minv m kr R X" and "s \<in> insert kr R" and "kern_path (p @ [i])"
    and "node (mm_mem m) s p = Some t" and "next_table_mut t i m = (r, m')"
  shows "stays kr R X m m'" and "\<And>t'. r = Some t' \<Longrightarrow> node (mm_mem m') s (p @ [i]) = Some t'"
proof -
  have "stays kr R X m m' \<and> (\<forall>t'. r = Some t' \<longrightarrow> node (mm_mem m') s (p @ [i]) = Some t')"
  proof (cases "mm_mem m t i = 0")
    case False
    with assms(5) have "m' = m" "r = Some (pte_addr (mm_mem m t i))" by (auto simp: next_table_mut_def)
    with assms(1,4) False show ?thesis by (simp add: node_snoc stays_refl)
  next
    case empty: True
    obtain ro fa where al: "alloc_frames 1 (mm_fa m) = (ro, fa)" by fastforce
    show ?thesis
    proof (cases ro)
      case None
      with assms(5) empty al have "m' = m\<lparr>mm_fa := fa\<rparr>" "r = None" by (auto simp: next_table_mut_def)
      with space_inv_alloc_fail [OF assms(1)] al None show ?thesis by (simp add: stays_def)
    next
      case (Some f)
      note fr = kern_table_fresh [OF assms(1-4) al [unfolded Some]]
      have "m' = m\<lparr>mm_fa := fa, mm_mem := set_word t i (pte f TABLE_FLAGS) (zero_page f (mm_mem m))\<rparr>"
        "r = Some f"
        using assms(5) empty al Some fr(3) by (auto simp: next_table_mut_def Let_def set_word_def)
      with fr(1,2) show ?thesis by simp
    qed
  qed
  then show "stays kr R X m m'" and "\<And>t'. r = Some t' \<Longrightarrow> node (mm_mem m') s (p @ [i]) = Some t'" by auto
qed

lemma kern_va_path:
  assumes "kernel_slot (p4_index va)"
  shows "kern_path [p4_index va]" "kern_path [p4_index va, p3_index va]" "kern_path (tables_of va)"
  using assms by (simp_all add: kern_path_def indices_def tables_of_def)

lemma reach_table_kern:
  assumes "minv m kr R X" and "s \<in> insert kr R" and "kernel_slot (p4_index va)" and "reach_table s va m = (r, m')"
  shows "stays kr R X m m'" and "\<And>l1. r = Some l1 \<Longrightarrow> node (mm_mem m') s (tables_of va) = Some l1"
proof -
  note kp = kern_va_path [OF assms(3)]
  obtain r3 m3 where 3: "next_table_mut s (p4_index va) m = (r3, m3)" by fastforce
  note n3 = next_table_kern [OF assms(1,2), where p = "[]", unfolded append_Nil, OF kp(1) node.simps(1) 3]
  have "stays kr R X m m' \<and> (\<forall>l1. r = Some l1 \<longrightarrow> node (mm_mem m') s (tables_of va) = Some l1)"
  proof (cases r3)
    case None
    with 3 assms(4) n3(1) show ?thesis by (auto simp: reach_table_def)
  next
    case (Some l3)
    obtain r2 m2 where 2: "next_table_mut l3 (p3_index va) m3 = (r2, m2)" by fastforce
    note n2 = next_table_kern [OF stays_inv [OF n3(1)] assms(2), where p = "[p4_index va]",
        unfolded append_Cons append_Nil, OF kp(2) n3(2) [OF Some] 2]
    show ?thesis
    proof (cases r2)
      case None
      with 3 2 Some assms(4) stays_trans [OF n3(1) n2(1)] show ?thesis by (auto simp: reach_table_def)
    next
      case l2: (Some l2)
      have 1: "next_table_mut l2 (p2_index va) m2 = (r, m')"
        using 3 2 Some l2 assms(4) by (simp add: reach_table_def)
      note n1 = next_table_kern [OF stays_inv [OF n2(1)] assms(2), where p = "[p4_index va, p3_index va]",
          unfolded append_Cons append_Nil, OF kp(3) [unfolded tables_of_def] n2(2) [OF l2] 1]
      show ?thesis
        using stays_trans [OF stays_trans [OF n3(1) n2(1)] n1(1)] n1(2) by (simp add: tables_of_def)
    qed
  qed
  then show "stays kr R X m m'" and "\<And>l1. r = Some l1 \<Longrightarrow> node (mm_mem m') s (tables_of va) = Some l1" by blast+
qed

lemma kstack_not_granted: "aligned f \<Longrightarrow> \<not> grants (pte f KSTACK_FLAGS)"
proof
  assume f: "aligned f" and g: "grants (pte f KSTACK_FLAGS)"
  from g have "pte f KSTACK_FLAGS AND 7 = 7" by (simp add: grants_def consts_def)
  then have "(pte f KSTACK_FLAGS AND 7) AND 4 = 4" by simp
  then have "pte f KSTACK_FLAGS AND USER_ACCESSIBLE = USER_ACCESSIBLE" by (simp only: and.assoc) (simp add: consts_def)
  moreover have "f AND USER_ACCESSIBLE = page_floor f AND USER_ACCESSIBLE" using f by (simp add: page_floor_aligned_id)
  then have "f AND USER_ACCESSIBLE = 0" by (simp add: page_floor_def consts_def and.assoc)
  then have "pte f KSTACK_FLAGS AND USER_ACCESSIBLE = 0" by (simp add: pte_def bit.conj_disj_distrib2 consts_def)
  ultimately show False by (simp add: consts_def)
qed

lemma map_kern:
  assumes "minv m kr R X" and "s \<in> insert kr R" and "kernel_slot (p4_index va)"
    and "map_page_in s va phys KSTACK_FLAGS m = (ok, m')"
  shows "stays kr R X m m'"
proof -
  obtain r m1 where r: "reach_table s va m = (r, m1)" by fastforce
  note t = reach_table_kern [OF assms(1-3) r]
  show ?thesis
  proof (cases r)
    case None
    with assms(4) r t(1) show ?thesis by (simp add: map_page_in_reach)
  next
    case (Some l1)
    let ?m = "m1\<lparr>mm_mem := set_word l1 (p1_index va) (pte (page_floor phys) KSTACK_FLAGS) (mm_mem m1)\<rparr>"
    have "m' = ?m" using assms(4) r Some by (simp add: map_page_in_reach)
    moreover have "stays kr R X m1 ?m"
      using kern_leaf_inv [OF stays_inv [OF t(1)] assms(2) kern_va_path(3) [OF assms(3)] length_tables_of t(2) [OF Some]
          kstack_not_granted [OF aligned_page_floor]]
      by (simp add: stays_def)
    ultimately show ?thesis using stays_trans [OF t(1)] by simp
  qed
qed

lemma unmap_kern:
  assumes "minv m kr R X" and "s \<in> insert kr R" and "kernel_slot (p4_index va)"
  shows "stays kr R X m (unmap_page_in s va m)"
proof (cases "node (mm_mem m) s (tables_of va)")
  case None
  with assms(1) show ?thesis by (simp add: unmap_page_in_node stays_refl)
next
  case (Some l1)
  have "\<not> grants 0" by (simp add: grants_def consts_def)
  with kern_leaf_inv [OF assms(1,2) kern_va_path(3) [OF assms(3)] length_tables_of Some] Some
  show ?thesis by (simp add: unmap_page_in_node stays_def)
qed

section \<open>Kernel stacks in all address spaces\<close>

text \<open>The pages of a stack at \<open>base\<close> are addresses below a kernel slot.\<close>

definition stack_va :: "u64 \<Rightarrow> nat \<Rightarrow> bool" where
  "stack_va base n \<longleftrightarrow> (\<forall>i < n. kernel_slot (p4_index (base + of_nat i * 4096)))"

lemma map_in_all_ok:
  assumes "minv m kr R X" and "set ss \<subseteq> insert kr R" and "kernel_slot (p4_index va)"
    and "map_in_all ss va pa m = (ok, m')"
  shows "stays kr R X m m'"
  using assms(1,2,4)
proof (induction ss arbitrary: m)
  case Nil
  then show ?case by (simp add: stays_refl)
next
  case (Cons s ss)
  obtain b m1 where b: "map_page_in s va pa KSTACK_FLAGS m = (b, m1)" by fastforce
  have st: "stays kr R X m m1" using Cons.prems by (intro map_kern [OF _ _ assms(3) b]) auto
  show ?case
  proof (cases b)
    case False
    with b Cons.prems(3) st show ?thesis by simp
  next
    case True
    with b Cons.prems have "map_in_all ss va pa m1 = (ok, m')" by simp
    from stays_trans [OF st Cons.IH [OF stays_inv [OF st] _ this]] Cons.prems(2) show ?thesis by simp
  qed
qed

lemma unmap_in_all:
  assumes "minv m kr R X" and "set ss \<subseteq> insert kr R" and "kernel_slot (p4_index va)"
  shows "stays kr R X m (fold (\<lambda>p. unmap_page_in p va) ss m)"
  using assms(1,2)
proof (induction ss arbitrary: m)
  case Nil
  then show ?case by (simp add: stays_refl)
next
  case (Cons s ss)
  have st: "stays kr R X m (unmap_page_in s va m)" using Cons.prems by (intro unmap_kern [OF _ _ assms(3)]) auto
  from stays_trans [OF st Cons.IH [OF stays_inv [OF st]]] Cons.prems(2) show ?case by simp
qed

lemma stays_spaces: "stays kr R X m m' \<Longrightarrow> mm_spaces m' = mm_spaces m"
  by (simp add: stays_def same_regs_def)

lemma unmap_pages:
  assumes "minv m kr R X" and "set ss \<subseteq> insert kr R" and "\<forall>i \<in> set is. kernel_slot (p4_index (base + of_nat i * 4096))"
  shows "stays kr R X m (fold (\<lambda>i. fold (\<lambda>p. unmap_page_in p (base + of_nat i * 4096)) ss) is m)"
  using assms(1,3)
proof (induction "is" arbitrary: m)
  case Nil
  then show ?case by (simp add: stays_refl)
next
  case (Cons i "is")
  have st: "stays kr R X m (fold (\<lambda>p. unmap_page_in p (base + of_nat i * 4096)) ss m)"
    using Cons.prems by (intro unmap_in_all [OF _ assms(2)]) auto
  from stays_trans [OF st Cons.IH [OF stays_inv [OF st]]] Cons.prems(2) show ?case by simp
qed

lemma register_pages_ok:
  assumes "minv m kr R X" and "set (mm_spaces m) \<subseteq> insert kr R" and "stack_va base (i + n)"
    and "register_pages base frames i n m = (ok, m')"
  shows "stays kr R X m m'"
  using assms
proof (induction n arbitrary: i m)
  case 0
  then show ?case by (simp add: stays_refl)
next
  case (Suc n)
  obtain b m1 where b: "map_in_all (mm_spaces m) (base + of_nat i * 4096) (frames + of_nat i * 4096) m = (b, m1)"
    by fastforce
  have va: "kernel_slot (p4_index (base + of_nat i * 4096))" using Suc.prems(3) by (simp add: stack_va_def)
  have st: "stays kr R X m m1" by (rule map_in_all_ok [OF Suc.prems(1,2) va b])
  have sp: "set (mm_spaces m1) \<subseteq> insert kr R" using stays_spaces [OF st] Suc.prems(2) by simp
  show ?case
  proof (cases b)
    case True
    with b Suc.prems(4) have "register_pages base frames (Suc i) n m1 = (ok, m')" by simp
    from stays_trans [OF st Suc.IH [OF stays_inv [OF st] sp _ this]] Suc.prems(3) show ?thesis by simp
  next
    case False
    have "stays kr R X m1 (fold (\<lambda>j. fold (\<lambda>p. unmap_page_in p (base + of_nat j * 4096)) (mm_spaces m1)) [0..<Suc i] m1)"
      using Suc.prems(3) by (intro unmap_pages [OF stays_inv [OF st] sp]) (auto simp: stack_va_def)
    moreover have "m' = fold (\<lambda>j. fold (\<lambda>p. unmap_page_in p (base + of_nat j * 4096)) (mm_spaces m1)) [0..<Suc i] m1"
      using False b Suc.prems(4) by simp
    ultimately show ?thesis using stays_trans [OF st] by simp
  qed
qed

lemma replay_pages_ok:
  assumes "minv m kr R X" and "s \<in> insert kr R" and "\<forall>i \<in> set is. kernel_slot (p4_index (base + of_nat i * 4096))"
    and "replay_pages s base frames is m = (ok, m')"
  shows "stays kr R X m m'"
  using assms(1,3,4)
proof (induction "is" arbitrary: m)
  case Nil
  then show ?case by (simp add: stays_refl)
next
  case (Cons i "is")
  obtain b m1 where b: "map_page_in s (base + of_nat i * 4096) (frames + of_nat i * 4096) KSTACK_FLAGS m = (b, m1)"
    by fastforce
  have st: "stays kr R X m m1" using Cons.prems by (intro map_kern [OF _ assms(2) _ b]) auto
  show ?case
  proof (cases b)
    case False
    with b Cons.prems(3) st show ?thesis by simp
  next
    case True
    with b Cons.prems have "replay_pages s base frames is m1 = (ok, m')" by simp
    from stays_trans [OF st Cons.IH [OF stays_inv [OF st] _ this]] Cons.prems(2) show ?thesis by simp
  qed
qed

definition stacks_va :: "(u64 \<times> u64 \<times> u64) list \<Rightarrow> bool" where
  "stacks_va ks \<longleftrightarrow> list_all (\<lambda>(base, frames, pages). stack_va base (unat pages)) ks"

lemma replay_kstacks_ok:
  assumes "minv m kr R X" and "s \<in> insert kr R" and "stacks_va ks" and "replay_kstacks s ks m = (ok, m')"
  shows "stays kr R X m m'"
  using assms(1,3,4)
proof (induction ks arbitrary: m)
  case Nil
  then show ?case by (simp add: stays_refl)
next
  case (Cons k ks)
  obtain base frames pages where k: "k = (base, frames, pages)" by (cases k)
  obtain b m1 where b: "replay_pages s base frames [0..<unat pages] m = (b, m1)" by fastforce
  have st: "stays kr R X m m1"
    using Cons.prems k by (intro replay_pages_ok [OF _ assms(2) _ b]) (auto simp: stacks_va_def stack_va_def)
  show ?case
  proof (cases b)
    case False
    with k b Cons.prems(3) st show ?thesis by simp
  next
    case True
    with k b Cons.prems have "replay_kstacks s ks m1 = (ok, m')" by simp
    from stays_trans [OF st Cons.IH [OF stays_inv [OF st] _ this]] Cons.prems(2) k
    show ?thesis by (simp add: stacks_va_def)
  qed
qed

end
