(* ===== verification/Spaces.thy ===== *)
theory Spaces
  imports Page_Kern Task
begin

text \<open>
  Whole address spaces: creating them, loading an image, writing user memory, kernel stacks,
  and spawning. Each operation is total where the pages are in order (no assertion of the
  frame allocator fires), keeps them in order, and leaves every other space untouched.
\<close>

section \<open>The invariant of the memory state\<close>

text \<open>
  \<open>kr\<close> is the root the kernel booted with, \<open>R\<close> the roots of user spaces, \<open>X\<close> pages held outside
  all trees (the kernel stacks).
\<close>

definition mm_ok :: "mm \<Rightarrow> u64 \<Rightarrow> u64 set \<Rightarrow> u64 set \<Rightarrow> bool" where
  "mm_ok m kr R X \<longleftrightarrow> minv m kr R X \<and> stacks_va (mm_kstacks m) \<and> mm_cr3 m \<in> insert kr R \<and>
     mm_spaces m \<noteq> [] \<and> hd (mm_spaces m) = kr \<and> set (mm_spaces m) \<subseteq> insert kr R"

lemma mm_okD:
  "mm_ok m kr R X \<Longrightarrow> minv m kr R X"
  "mm_ok m kr R X \<Longrightarrow> stacks_va (mm_kstacks m)"
  "mm_ok m kr R X \<Longrightarrow> mm_cr3 m \<in> insert kr R"
  "mm_ok m kr R X \<Longrightarrow> set (mm_spaces m) \<subseteq> insert kr R"
  by (simp_all add: mm_ok_def)

lemma mm_ok_regs: "mm_ok m kr R X \<Longrightarrow> same_regs m m' \<Longrightarrow> minv m' kr R X' \<Longrightarrow> mm_ok m' kr R X'"
  by (auto simp: mm_ok_def same_regs_def)

lemma mm_ok_stays: "mm_ok m kr R X \<Longrightarrow> stays kr R X m m' \<Longrightarrow> mm_ok m' kr R X"
  by (auto simp: stays_def intro: mm_ok_regs)

lemma mm_ok_less: "mm_ok m kr R X \<Longrightarrow> X' \<subseteq> X \<Longrightarrow> mm_ok m kr R X'"
  by (auto simp: mm_ok_def intro: space_inv_less)

text \<open>A step that touches the space \<open>s\<close> at most.\<close>

definition within_space :: "u64 \<Rightarrow> u64 set \<Rightarrow> u64 set \<Rightarrow> u64 \<Rightarrow> mm \<Rightarrow> mm \<Rightarrow> bool" where
  "within_space kr R X s m m' \<longleftrightarrow> minv m' kr R X \<and> same_regs m m' \<and> keeps (R - {s}) (mm_mem m) (mm_mem m')"

lemma within_space_refl: "minv m kr R X \<Longrightarrow> within_space kr R X s m m"
  by (simp add: within_space_def)

lemma within_space_trans:
  "within_space kr R X s m m' \<Longrightarrow> within_space kr R X' s m' m'' \<Longrightarrow> within_space kr R X' s m m''"
  by (auto simp: within_space_def intro: same_regs_trans keeps_trans)

lemma within_space_inv: "within_space kr R X s m m' \<Longrightarrow> minv m' kr R X"
  by (simp add: within_space_def)

lemma within_space_clears: "clears kr R X s P m m' \<Longrightarrow> within_space kr R X s m m'"
  by (simp add: within_space_def clears_def)

lemma within_space_map:
  "map_result kr R X s va pg ok m m' \<Longrightarrow> within_space kr R (if ok then X - {pg} else X) s m m'"
  by (simp add: within_space_def map_result_def)

section \<open>User addresses\<close>

lemma low_p4: "unat va < 2 ^ 39 \<Longrightarrow> p4_index va = 0"
proof -
  assume a: "unat va < 2 ^ 39"
  have "unat (drop_bit 39 va) = 0" unfolding unsigned_drop_bit_eq using a by (simp add: drop_bit_eq_div take_bit_nat_def)
  then have "drop_bit 39 va = 0" by (simp only: unat_eq_zero)
  then show ?thesis by (simp add: p4_index_def)
qed

text \<open>Writing through the page tables changes one leaf of the space.\<close>

lemma page_floor_leaf:
  assumes "frame_addr a"
  shows "page_floor (a + (va AND 0xfff)) = a"
proof -
  have o: "unat (va AND 0xfff) < 4096"
    using word_and_le1 [of va "0xfff"] by (simp add: word_le_nat_alt)
  moreover have "unat a < 2 ^ 52" "4096 dvd unat a" using assms by (auto simp: frame_addr_def aligned_def)
  ultimately have "unat (a + (va AND 0xfff)) = unat a + unat (va AND 0xfff)" by (simp add: unat_word_ariths)
  with o \<open>4096 dvd unat a\<close> have "unat (page_floor (a + (va AND 0xfff))) = unat a"
    unfolding unat_page_floor by (auto elim!: dvdE)
  then show ?thesis by (simp add: word_unat_eq_iff)
qed

lemma write_byte_other: "a \<noteq> page_floor pa \<Longrightarrow> write_byte pa b mem a = mem a"
  by (simp add: write_byte_def Let_def set_word_def)

lemma leaf_write:
  assumes "space_inv mem fa kr R X" and "s \<in> R" and "user_path q" and "length q = 4"
    and "node mem s q = Some a" and "\<And>b. b \<noteq> a \<Longrightarrow> mem' b = mem b"
  shows "space_inv mem' fa kr R X" and "keeps (R - {s}) mem mem'"
    and "\<And>s' p. s' \<in> R \<Longrightarrow> user_path p \<Longrightarrow> node mem' s' p = node mem s' p"
proof -
  note inv = space_invD [OF assms(1)]
  have au: "a \<in> upages mem R" using assms(2,3,5) by (intro upagesI)
  show u: "node mem' s' p = node mem s' p" if "s' \<in> R" "user_path p" for s' p
  proof (rule node_cong)
    fix r i b assume r: "prefix (r @ [i]) p" "node mem s' r = Some b"
    then have "user_path (r @ [i])" using that(2) user_path_prefix by blast
    then have "b \<noteq> a"
      using one_ownerD [OF inv(1) that(1) assms(2) _ assms(3) r(2)] assms(4,5) by (auto simp: user_path_snoc)
    then show "mem' b i = mem b i" using assms(6) by simp
  qed
  have k: "node mem' s' p = node mem s' p" if "s' \<in> insert kr R" "kern_path p" for s' p
  proof (rule knodes_outside [OF _ that])
    fix b assume b: "b \<in> insert kr (R \<union> ktables mem (insert kr R))"
    have "a \<noteq> z" if "z \<in> R" for z
      using one_ownerD [OF inv(1) assms(2) that assms(3) user_path_Nil assms(5)] assms(4) by auto
    then have "b \<noteq> a" using b au inv(4) by blast
    then show "mem' b = mem b" by (rule assms(6))
  qed
  have "shielded mem' kr R"
  proof (rule shielded_cong [OF inv(6) u k])
    have tab: "b \<noteq> a" if "s' \<in> R" "user_path p" "length p < 4" "node mem s' p = Some b" for s' p b
      using one_ownerD [OF inv(1) that(1) assms(2) that(2) assms(3) that(4)] that(3) assms(4,5) by auto
    have kt: "mem' b = mem b" if "s' \<in> insert kr R" "kern_path p" "node mem s' p = Some b" for s' p b
    proof (cases "p = []")
      case True
      with that tab [of s' "[]"] au inv(4) show ?thesis by (cases "s' = kr") (auto intro!: assms(6))
    next
      case False
      with ktablesI [OF that(1,2) False that(3)] au inv(4) show ?thesis by (auto intro!: assms(6))
    qed
    show "mem' s' i = mem s' i" if "s' \<in> insert kr R" for s' i
      using kt [OF that kern_path_Nil] by simp
    show "entry_ok p (mem' t j)" if "s' \<in> insert kr R" "kern_path p" "node mem s' p = Some t" "entry_ok p (mem t j)" for s' p t j
      using kt [OF that(1-3)] that(4) by simp
    show "entry_ok p (mem' t j)" if "s' \<in> R" "user_path p" "length p < 4" "node mem s' p = Some t" "entry_ok p (mem t j)" for s' p t j
      using assms(6) [OF tab [OF that(1-4)]] that(5) by simp
  qed
  then show "space_inv mem' fa kr R X" using space_inv_cong [OF u k _ assms(1)] by blast
  have "mem' b = mem b" if "s' \<in> R - {s}" "user_path p" "node mem s' p = Some b" for s' p b
    using one_ownerD [OF inv(1) _ assms(2) that(2) assms(3) that(3)] that(1) assms(5) assms(6) [of b] by auto
  then show "keeps (R - {s}) mem mem'" using u by (auto simp: keeps_def)
qed

lemma write_byte_user:
  assumes "minv m kr R X" and "s \<in> R" and "p4_index va = 0" and "translate (mm_mem m) s va = Some pa"
  shows "within_space kr R X s m (m\<lparr>mm_mem := write_byte pa b (mm_mem m)\<rparr>)"
    and "\<And>s' p. s' \<in> R \<Longrightarrow> user_path p \<Longrightarrow> node (write_byte pa b (mm_mem m)) s' p = node (mm_mem m) s' p"
proof -
  from assms(4) obtain a where a: "node (mm_mem m) s (va_path va) = Some a" "pa = a + (va AND 0xfff)"
    by (auto simp: translate_node)
  note up = user_va_path(4) [OF assms(3)]
  have "frame_addr a" using space_inv_user_frame [OF assms(1)] upagesI [OF assms(2) up a(1)] by blast
  then have "\<And>z. z \<noteq> a \<Longrightarrow> write_byte pa b (mm_mem m) z = mm_mem m z"
    using page_floor_leaf [of a va] a(2) by (simp add: write_byte_other)
  from leaf_write [OF assms(1,2) up length_va_path a(1) this]
  show "within_space kr R X s m (m\<lparr>mm_mem := write_byte pa b (mm_mem m)\<rparr>)"
    and "\<And>s' p. s' \<in> R \<Longrightarrow> user_path p \<Longrightarrow> node (write_byte pa b (mm_mem m)) s' p = node (mm_mem m) s' p"
    by (simp_all add: within_space_def)
qed

lemma write_through_user:
  assumes "minv m kr R X" and "s \<in> R" and "unat va + length bs \<le> 2 ^ 39"
    and "write_through s va bs (mm_mem m) = (ok, mem')"
  shows "within_space kr R X s m (m\<lparr>mm_mem := mem'\<rparr>)"
    and "\<And>s' p. s' \<in> R \<Longrightarrow> user_path p \<Longrightarrow> node mem' s' p = node (mm_mem m) s' p"
proof -
  have "within_space kr R X s m (m\<lparr>mm_mem := mem'\<rparr>) \<and>
    (\<forall>s' p. s' \<in> R \<longrightarrow> user_path p \<longrightarrow> node mem' s' p = node (mm_mem m) s' p)"
    using assms(1,3,4)
  proof (induction bs arbitrary: va m)
    case Nil
    then show ?case by (simp add: within_space_def)
  next
    case (Cons b bs)
    show ?case
    proof (cases "translate (mm_mem m) s va")
      case None
      with Cons.prems show ?thesis by (simp add: within_space_def)
    next
      case (Some pa)
      let ?m = "m\<lparr>mm_mem := write_byte pa b (mm_mem m)\<rparr>"
      have "p4_index va = 0" using Cons.prems(2) by (intro low_p4) simp
      note w = write_byte_user [OF Cons.prems(1) assms(2) this Some, where b = b]
      have "unat (va + 1) = unat va + 1" using Cons.prems(2) by (simp add: unat_word_ariths)
      with Cons.IH [OF within_space_inv [OF w(1)], of "va + 1"] Cons.prems Some
      show ?thesis
        using within_space_trans [OF w(1)] w(2) by simp
    qed
  qed
  then show "within_space kr R X s m (m\<lparr>mm_mem := mem'\<rparr>)"
    and "\<And>s' p. s' \<in> R \<Longrightarrow> user_path p \<Longrightarrow> node mem' s' p = node (mm_mem m) s' p" by auto
qed

section \<open>Stores of user programs\<close>

text \<open>Ring 3 reaches pages of its own space only, at 4 KiB granularity.\<close>

lemma user_store_addr_own:
  assumes "space_inv mem fa kr R X" and "s \<in> R" and "user_store_addr mem s va = Some pa"
  shows "p4_index va = 0" and "translate mem s va = Some pa"
proof -
  note sh = space_invD(6) [OF assms(1)]
  define e4 where "e4 = mem s (p4_index va)"
  define e3 where "e3 = mem (pte_addr e4) (p3_index va)"
  define e2 where "e2 = mem (pte_addr e3) (p2_index va)"
  define e1 where "e1 = mem (pte_addr e2) (p1_index va)"
  note st = assms(3) [unfolded user_store_addr_def Let_def, folded e4_def, folded e3_def, folded e2_def, folded e1_def]
  have g4: "grants e4" and g3: "grants e3" using st by (simp_all split: if_splits)
  then have n4: "node mem s [p4_index va] = Some (pte_addr e4)" by (simp add: e4_def grants_nonzero)
  have p4: "p4_index va = 0 \<or> kernel_slot (p4_index va)"
    using shieldedD(1) [OF sh, of s "p4_index va"] assms(2) g4 by (auto simp: e4_def)
  have ok: "entry_ok p (mem t j)"
    if "p = [p4_index va] \<or> p = [p4_index va, p3_index va] \<or> p = tables_of va" "node mem s p = Some t" for p t j
    using p4
  proof
    assume z: "p4_index va = 0"
    have "user_path p" "length p < 4" using that(1) user_va_path [OF z] by (auto simp: tables_of_def)
    then show ?thesis by (rule shieldedD(3) [OF sh assms(2) _ _ that(2)])
  next
    assume z: "kernel_slot (p4_index va)"
    have "kern_path p" using that(1) kern_va_path [OF z] by auto
    then show ?thesis using assms(2) by (intro shieldedD(2) [OF sh _ _ that(2)]) simp
  qed
  have h3: "e3 AND HUGE_PAGE = 0" using ok [OF _ n4, of "p3_index va"] by (simp add: e3_def entry_ok_def)
  then have g2: "grants e2" using st g3 g4 by (simp split: if_splits)
  have n3: "node mem s [p4_index va, p3_index va] = Some (pte_addr e3)"
    using g3 g4 by (simp add: e3_def e4_def grants_nonzero)
  have h2: "e2 AND HUGE_PAGE = 0" using ok [OF _ n3, of "p2_index va"] by (simp add: e2_def entry_ok_def)
  then have g1: "grants e1" and pa: "pa = pte_addr e1 + (va AND 0xfff)" using st g2 g3 g4 h3 by (simp_all split: if_splits)
  have n2: "node mem s (tables_of va) = Some (pte_addr e2)"
    using g2 g3 g4 by (simp add: tables_of_def e2_def e3_def e4_def grants_nonzero)
  have "\<not> kernel_slot (p4_index va)" using ok [OF _ n2, of "p1_index va"] g1 by (auto simp: e1_def entry_ok_def tables_of_def)
  with p4 show "p4_index va = 0" by blast
  show "translate mem s va = Some pa"
    using g1 g2 g3 g4 pa by (simp add: translate_def Let_def e1_def e2_def e3_def e4_def grants_nonzero)
qed

lemma user_store_own:
  assumes "minv m kr R X" and "s \<in> R"
  shows "within_space kr R X s m (m\<lparr>mm_mem := user_store s st (mm_mem m)\<rparr>)"
proof (cases "user_store_addr (mm_mem m) s (fst st)")
  case None
  with assms(1) show ?thesis by (simp add: user_store_def within_space_def)
next
  case (Some pa)
  note o = user_store_addr_own [OF assms Some]
  with write_byte_user(1) [OF assms o] Some show ?thesis by (simp add: user_store_def)
qed

lemma user_stores_own:
  assumes "minv m kr R X" and "s \<in> R"
  shows "within_space kr R X s m (m\<lparr>mm_mem := fold (user_store s) sts (mm_mem m)\<rparr>)"
  using assms(1)
proof (induction sts arbitrary: m)
  case Nil
  then show ?case by (simp add: within_space_def)
next
  case (Cons st sts)
  note w = user_store_own [OF Cons.prems assms(2), of st]
  from within_space_trans [OF w Cons.IH [OF within_space_inv [OF w]]] show ?case by simp
qed

section \<open>Loading an image\<close>

lemma map_fresh_ok:
  assumes "minv m kr R X" and "s \<in> R" and "\<forall>va \<in> set pages. p4_index va = 0"
  shows "\<exists>r m'. map_fresh s pages n m = Some (r, m') \<and> within_space kr R X s m m'"
  using assms(1,3)
proof (induction pages arbitrary: n m)
  case Nil
  then show ?case by (simp add: within_space_refl)
next
  case (Cons va pages)
  obtain ro fa where al: "alloc_frames 1 (mm_fa m) = (ro, fa)" by fastforce
  show ?case
  proof (cases ro)
    case None
    with al space_inv_alloc_fail [OF Cons.prems(1)] show ?thesis by (simp add: within_space_def)
  next
    case (Some f)
    note a = space_inv_alloc [OF Cons.prems(1) al [unfolded Some], simplified]
    let ?m = "m\<lparr>mm_fa := fa, mm_mem := zero_page f (mm_mem m)\<rparr>"
    have "\<forall>a \<in> upages (mm_mem m) R \<union> insert kr (ktables (mm_mem m) (insert kr R)). zero_page f (mm_mem m) a = mm_mem m a"
      using a(2) by (auto simp: zero_page_def)
    note z = space_inv_outside [OF a(1) this]
    have w0: "within_space kr R (insert f X) s m ?m"
      using z by (auto simp: within_space_def intro: keeps_mono)
    obtain b m1 where b: "map_page_in s va f USER_RW ?m = (b, m1)" by fastforce
    have al_f: "aligned f" using space_inv_loose_frame [OF a(1)] by (simp add: frame_addr_def)
    have "flags_ok USER_RW" by (simp add: flags_ok_def consts_def)
    then have "map_result kr R (insert f X) s va f b ?m m1"
      using z(1) Cons.prems(2) by (intro map_user [OF _ assms(2) _ _ _ page_floor_aligned_id [OF al_f] b]) auto
    note w1 = within_space_trans [OF w0 within_space_map [OF this]]
    have X: "insert f X - {f} = X" using a(2) by auto
    show ?thesis
    proof (cases b)
      case True
      with w1 X have w: "within_space kr R X s m m1" by simp
      from Cons.IH [OF within_space_inv [OF w], of "n + 1"] Cons.prems(2) obtain r m' where
        "map_fresh s pages (n + 1) m1 = Some (r, m')" "within_space kr R X s m1 m'" by auto
      with within_space_trans [OF w] al Some b True show ?thesis by simp
    next
      case False
      with w1 have w: "within_space kr R (insert f X) s m m1" by simp
      from space_inv_free1 [OF within_space_inv [OF this], of f] X obtain fa' where
        "free_frames f 1 (mm_fa m1) = Some fa'" "space_inv (mm_mem m1) fa' kr R X" by auto
      with w al Some b False show ?thesis
        by (simp add: free_frame_mm_def within_space_def same_regs_def)
    qed
  qed
qed

lemma protect_pages_ok:
  assumes "minv m kr R X" and "s \<in> R" and "\<forall>va \<in> set pages. p4_index va = 0" and "flags_ok flags"
    and "protect_pages s pages flags m = (ok, m')"
  shows "within_space kr R X s m m'"
  using assms(1,3,5)
proof (induction pages arbitrary: m)
  case Nil
  then show ?case by (simp add: within_space_refl)
next
  case (Cons va pages)
  show ?case
  proof (cases "translate (mm_mem m) s va")
    case None
    with Cons.prems show ?thesis by (simp add: within_space_refl)
  next
    case (Some pa)
    then obtain a where a: "node (mm_mem m) s (va_path va) = Some a" "pa = a + (va AND 0xfff)"
      by (auto simp: translate_node)
    have "user_path (va_path va)" using Cons.prems(2) by (intro user_va_path) simp
    then have au: "a \<in> upages (mm_mem m) R" using assms(2) a(1) by (intro upagesI)
    then have pf: "page_floor pa = a"
      unfolding a(2) by (intro page_floor_leaf space_inv_user_frame [OF Cons.prems(1)])
    obtain b m1 where b: "map_page_in s va pa flags m = (b, m1)" by fastforce
    have "map_result kr R X s va a b m m1"
      using a(1) Cons.prems(2) by (intro map_user [OF Cons.prems(1) assms(2) _ assms(4) _ pf b]) auto
    moreover have "X - {a} = X" using au space_invD(3) [OF Cons.prems(1)] by blast
    ultimately have w: "within_space kr R X s m m1" using within_space_map [of kr R X s va a b m m1] by (simp split: if_splits)
    show ?thesis
    proof (cases b)
      case True
      with Some b Cons.prems have "protect_pages s pages flags m1 = (ok, m')" by simp
      from within_space_trans [OF w Cons.IH [OF within_space_inv [OF w] _ this]] Cons.prems(2)
      show ?thesis by simp
    next
      case False
      with Some b Cons.prems w show ?thesis by simp
    qed
  qed
qed

lemma flags_ok_final: "flags_ok (final_flags fl)"
  by (simp add: flags_ok_def final_flags_def consts_def)

text \<open>The pages of a validated segment are low.\<close>

lemma segment_low:
  assumes "segment_ok n s"
  shows "\<forall>va \<in> set (pages_of s). p4_index va = 0"
    and "unat (ls_vaddr s) + unat (ls_filesz s) \<le> 2 ^ 39"
    and "unat (ls_offset s + ls_filesz s) = unat (ls_offset s) + unat (ls_filesz s) \<or> 2 ^ 64 \<le> n"
proof -
  have e: "unat (ls_page_end s) \<le> 0x7eff0000" and le: "unat (ls_page_start s) < unat (ls_page_end s)"
    using assms by (auto simp: segment_ok_def consts_def word_le_nat_alt word_less_nat_alt)
  have "unat (ls_page_start s + of_nat i * 4096) < 2 ^ 39"
    if "i < (unat (ls_page_end s) - unat (ls_page_start s) + 4095) div 4096" for i
  proof -
    have i: "i * 4096 < 0x7eff1000" using that e by linarith
    then have "i < 2 ^ 64" by simp
    then have "unat (of_nat i * 4096 :: u64) = i * 4096" using i by (simp add: unat_word_ariths unat_of_nat)
    with i e le show ?thesis by (simp add: unat_word_ariths)
  qed
  then show "\<forall>va \<in> set (pages_of s). p4_index va = 0" by (auto simp: pages_of_def intro!: low_p4)
  show "unat (ls_vaddr s) + unat (ls_filesz s) \<le> 2 ^ 39"
    using assms e by (simp add: segment_ok_def)
  show "unat (ls_offset s + ls_filesz s) = unat (ls_offset s) + unat (ls_filesz s) \<or> 2 ^ 64 \<le> n"
    using assms by (auto simp: segment_ok_def unat_word_ariths)
qed

lemma load_one_ok:
  assumes "minv m kr R X" and "s \<in> R" and "segment_ok (length elf) seg" and "length elf < 2 ^ 63"
  shows "\<exists>r m'. load_one s elf seg n m = Some (r, m') \<and> within_space kr R X s m m'"
proof -
  note low = segment_low [OF assms(3)]
  from map_fresh_ok [OF assms(1,2) low(1)] obtain r m1 where
    1: "map_fresh s (pages_of seg) n m = Some (r, m1)" "within_space kr R X s m m1" by blast
  show ?thesis
  proof (cases r)
    case (Inl e)
    with 1 show ?thesis by (simp add: load_one_def)
  next
    case (Inr n')
    let ?b = "unat (ls_offset seg)" and ?e = "unat (ls_offset seg + ls_filesz seg)"
    have e: "?e = ?b + unat (ls_filesz seg)" "?e \<le> length elf"
      using low(3) assms(3,4) by (auto simp: segment_ok_def)
    then obtain data where d: "slice_chk elf ?b ?e = Some data" "length data = unat (ls_filesz seg)"
      by (auto simp: slice_chk_def length_rslice)
    obtain ok mem where w: "write_through s (ls_vaddr seg) data (mm_mem m1) = (ok, mem)" by fastforce
    have "within_space kr R X s m1 (m1\<lparr>mm_mem := mem\<rparr>)"
      using low(2) d(2) by (intro write_through_user(1) [OF within_space_inv [OF 1(2)] assms(2) _ w]) simp
    note 2 = within_space_trans [OF 1(2) this]
    obtain ok' m2 where p: "protect_pages s (pages_of seg) (final_flags (ls_flags seg)) (m1\<lparr>mm_mem := mem\<rparr>) = (ok', m2)"
      by fastforce
    note 3 = within_space_trans [OF 2 protect_pages_ok [OF within_space_inv [OF 2] assms(2) low(1) flags_ok_final p]]
    show ?thesis
      using 1(1) Inr d(1) w p 2 3 by (simp add: load_one_def split: bool.split)
  qed
qed

lemma load_segments_ok:
  assumes "minv m kr R X" and "s \<in> R" and "\<forall>seg \<in> set segs. segment_ok (length elf) seg" and "length elf < 2 ^ 63"
  shows "\<exists>r m'. load_segments s elf segs n m = Some (r, m') \<and> within_space kr R X s m m'"
  using assms(1,3)
proof (induction segs arbitrary: n m)
  case Nil
  then show ?case by (simp add: within_space_refl)
next
  case (Cons seg segs)
  from load_one_ok [OF Cons.prems(1) assms(2) _ assms(4), of seg n] Cons.prems(2) obtain r m1 where
    1: "load_one s elf seg n m = Some (r, m1)" "within_space kr R X s m m1" by auto
  show ?case
  proof (cases r)
    case (Inl e)
    with 1 show ?thesis by simp
  next
    case (Inr n')
    from Cons.IH [OF within_space_inv [OF 1(2)], of n'] Cons.prems(2) obtain r2 m2 where
      "load_segments s elf segs n' m1 = Some (r2, m2)" "within_space kr R X s m1 m2" by auto
    with 1 Inr within_space_trans [OF 1(2)] show ?thesis by simp
  qed
qed

lemma load_elf_ok:
  assumes "minv m kr R X" and "s \<in> R" and "length elf < 2 ^ 63"
  shows "\<exists>r m'. load_elf s elf m = Some (r, m') \<and> within_space kr R X s m m'"
proof -
  obtain p where p: "elf_plan elf = Some p" using elf_plan_total [OF assms(3)] by blast
  show ?thesis
  proof (cases p)
    case (Inl e)
    with p assms(1) show ?thesis by (simp add: load_elf_def within_space_refl)
  next
    case (Inr pl)
    obtain entry exec segs where pl: "pl = (entry, exec, segs)" by (cases pl)
    have "\<forall>seg \<in> set segs. segment_ok (length elf) seg"
      using elf_plan_ok p Inr pl by (auto simp: plan_ok_def)
    from load_segments_ok [OF assms(1,2) this assms(3), of 0] obtain r m1 where
      "load_segments s elf segs 0 m = Some (r, m1)" "within_space kr R X s m m1" by blast
    with p Inr pl show ?thesis by (cases r) (simp_all add: load_elf_def)
  qed
qed

section \<open>A new address space\<close>

lemma copy_root:
  assumes "minv m kr R X" and "c \<in> insert kr R" and "alloc_frames 1 (mm_fa m) = (Some f, fa)"
    and "mem = (mm_mem m)(f := (\<lambda>i. if 1 \<le> i \<and> i < 512 then mm_mem m c i else 0))"
  shows "space_inv mem fa kr (insert f R) X" and "keeps R (mm_mem m) mem" and "f \<notin> insert kr R" and "f \<notin> X"
    and "user_path q \<Longrightarrow> q \<noteq> [] \<Longrightarrow> node mem f q = None"
proof -
  note a = space_inv_alloc [OF assms(1,3), simplified]
  have "\<forall>a \<in> upages (mm_mem m) R \<union> insert kr (ktables (mm_mem m) (insert kr R)). mem a = mm_mem m a"
    using a(2) by (auto simp: assms(4))
  note o = space_inv_outside [OF a(1) this]
  show "keeps R (mm_mem m) mem" by (rule o(2))
  show fX: "f \<notin> X" using a(2) by blast
  show fR: "f \<notin> insert kr R" using a(2) root_upage [of f R "mm_mem m"] by blast
  then have "c \<noteq> f" using assms(2) by blast
  then have cp: "mem f i = mem c i" if "0 < i" "i < 512" for i using that by (simp add: assms(4))
  have "mem f 0 = 0" by (simp add: assms(4))
  from space_inv_add_root [OF o(1) _ this assms(2) cp] fX
  show "space_inv mem fa kr (insert f R) X" by simp
  show "user_path q \<Longrightarrow> q \<noteq> [] \<Longrightarrow> node mem f q = None"
    using \<open>mem f 0 = 0\<close> by (cases q) (auto simp: user_path_def)
qed

lemma new_address_space_ok:
  assumes "mm_ok m kr R X"
  shows "\<exists>r m'. new_address_space m = Some (r, m') \<and> keeps R (mm_mem m) (mm_mem m') \<and> mm_cr3 m' = mm_cr3 m \<and>
    (case r of
       None \<Rightarrow> mm_ok m' kr R X
     | Some s \<Rightarrow> s \<notin> insert kr R \<and> mm_ok m' kr (insert s R) X \<and>
         (\<forall>q. user_path q \<longrightarrow> q \<noteq> [] \<longrightarrow> node (mm_mem m') s q = None))"
proof -
  note inv = mm_okD [OF assms]
  obtain ro fa where al: "alloc_frames 1 (mm_fa m) = (ro, fa)" by fastforce
  show ?thesis
  proof (cases ro)
    case None
    have "mm_ok (m\<lparr>mm_fa := fa\<rparr>) kr R X"
      using space_inv_alloc_fail [OF inv(1)] al None by (intro mm_ok_regs [OF assms]) simp_all
    with al None show ?thesis by (simp add: new_address_space_def)
  next
    case (Some f)
    define mem where "mem = (mm_mem m)(f := (\<lambda>i. if 1 \<le> i \<and> i < 512 then mm_mem m (mm_cr3 m) i else 0))"
    note c = copy_root [OF inv(1,3) al [unfolded Some] mem_def]
    have "mm_cr3 m \<noteq> f" using c(3) inv(3) by blast
    then have mem: "(zero_page f (mm_mem m))(f := (\<lambda>i. if 1 \<le> i \<and> i < 512
        then zero_page f (mm_mem m) (mm_cr3 m) i else zero_page f (mm_mem m) f i)) = mem"
      by (auto simp: mem_def zero_page_def fun_eq_iff)
    let ?m = "m\<lparr>mm_fa := fa, mm_mem := mem\<rparr>"
    have i1: "minv ?m kr (insert f R) X" using c(1) by simp
    obtain ok m2 where r: "replay_kstacks f (mm_kstacks m) ?m = (ok, m2)" by fastforce
    have st: "stays kr (insert f R) X ?m m2"
      by (rule replay_kstacks_ok [OF i1 _ inv(2) r]) simp
    have regs: "same_regs m m2" using st by (simp add: stays_def same_regs_def)
    have k: "keeps R (mm_mem m) (mm_mem m2)"
      using st c(2) by (auto simp: stays_def intro: keeps_trans keeps_mono)
    have e: "node (mm_mem m2) f q = None" if "user_path q" "q \<noteq> []" for q
      using st that c(5) by (simp add: stays_def keeps_def)
    show ?thesis
    proof (cases ok)
      case True
      have "new_address_space m = Some (Some f, register_address_space f m2)"
        using al Some r True by (simp add: new_address_space_def Let_def mem [simplified])
      moreover have "mm_ok (register_address_space f m2) kr (insert f R) X"
        using assms stays_inv [OF st] regs by (auto simp: mm_ok_def register_address_space_def same_regs_def)
      ultimately show ?thesis
        using k c(3) regs e by (auto simp: register_address_space_def same_regs_def)
    next
      case False
      from free_user_subtree_ok [OF stays_inv [OF st], of f] c(3) obtain m3 where
        m3: "free_user_subtree f m2 = Some m3" "minv m3 kr R X" "same_regs m2 m3" "keeps R (mm_mem m2) (mm_mem m3)"
        by auto
      then have "new_address_space m = Some (None, m3)"
        using al Some r False by (simp add: new_address_space_def Let_def mem [simplified])
      with m3 keeps_trans [OF k m3(4)] mm_ok_regs [OF assms same_regs_trans [OF regs m3(3)] m3(2)]
        same_regs_trans [OF regs m3(3)] show ?thesis by (auto simp: same_regs_def)
    qed
  qed
qed

section \<open>The user stack\<close>

definition stack_page :: "nat \<Rightarrow> u64" where
  "stack_page j = (USER_STACK_TOP - USER_STACK_BYTES) + of_nat j * 4096"

lemma stack_page_index:
  assumes "j < 16"
  shows "p4_index (stack_page j) = 0" and "p1_index (stack_page j) = 496 + j"
proof -
  have "j = 0 \<or> j = 1 \<or> j = 2 \<or> j = 3 \<or> j = 4 \<or> j = 5 \<or> j = 6 \<or> j = 7 \<or> j = 8 \<or> j = 9 \<or>
    j = 10 \<or> j = 11 \<or> j = 12 \<or> j = 13 \<or> j = 14 \<or> j = 15" using assms by arith
  then show "p4_index (stack_page j) = 0" and "p1_index (stack_page j) = 496 + j"
    by (auto simp: stack_page_def consts_def p4_index_def p1_index_def)
qed

lemma stack_path_inj: "i < 16 \<Longrightarrow> j < 16 \<Longrightarrow> va_path (stack_page i) = va_path (stack_page j) \<Longrightarrow> i = j"
  using stack_page_index(2) by (auto simp: va_path_def)

text \<open>The rollback: the pages already mapped become loose again.\<close>

definition pages_from :: "u64 \<Rightarrow> nat set \<Rightarrow> u64 set" where
  "pages_from frames I = (\<lambda>j. frames + of_nat j * 4096) ` I"

lemma unmap_stack:
  assumes "minv m kr R X" and "s \<in> R" and "\<forall>j \<in> set js. j < 16" and "distinct js"
    and "\<forall>j \<in> set js. node (mm_mem m) s (va_path (stack_page j)) = Some (frames + of_nat j * 4096)"
  shows "within_space kr R (X \<union> pages_from frames (set js)) s m
    (fold (\<lambda>j. unmap_page_in s (stack_page j)) js m)"
  using assms(1,3-5)
proof (induction js arbitrary: X m)
  case Nil
  then show ?case by (simp add: within_space_refl pages_from_def)
next
  case (Cons j js)
  have j: "j < 16" using Cons.prems(2) by simp
  note c = unmap_user [OF Cons.prems(1) assms(2) stack_page_index(1) [OF j]]
  have X: "X \<union> {c. node (mm_mem m) s (va_path (stack_page j)) = Some c} = insert (frames + of_nat j * 4096) X"
    using Cons.prems(4) by auto
  note c' = c [unfolded X]
  have "node (mm_mem (unmap_page_in s (stack_page j) m)) s (va_path (stack_page i)) = Some (frames + of_nat i * 4096)"
    if "i \<in> set js" for i
  proof -
    have i: "i < 16" "i \<noteq> j" using that Cons.prems(2,3) by auto
    then have "va_path (stack_page i) \<noteq> va_path (stack_page j)" using stack_path_inj [of i j] j by auto
    with clears_node [OF c' user_va_path(4) [OF stack_page_index(1) [OF i(1)]]] Cons.prems(4) that
    show ?thesis by simp
  qed
  from within_space_trans [OF within_space_clears [OF c'] Cons.IH [OF clears_inv [OF c']]] this Cons.prems(2,3)
  show ?case by (simp add: pages_from_def)
qed

lemma block_pages_from: "block frames n = pages_from frames {..<n}"
  by (simp add: block_def pages_from_def)

lemma pages_from_inj:
  fixes frames :: u64
  assumes "unat frames + 4096 * n \<le> 2 ^ 52" and "i < n" and "j < n"
    and "frames + of_nat i * 4096 = frames + of_nat j * 4096"
  shows "i = j"
proof -
  have u: "unat (of_nat k * 4096 :: u64) = 4096 * k" if "k < n" for k
  proof -
    have "4096 * k < 2 ^ 52" using assms(1) that by linarith
    then have "k < 2 ^ 64" by simp
    with \<open>4096 * k < 2 ^ 52\<close> show ?thesis by (simp add: unat_word_ariths unat_of_nat)
  qed
  have "of_nat i * 4096 = (of_nat j * 4096 :: u64)" using assms(4) by (simp only: add_left_cancel)
  then have "4096 * i = 4096 * j" using u [OF assms(2)] u [OF assms(3)] by metis
  then show ?thesis by simp
qed

lemma map_user_stack_ok:
  assumes "minv m kr R (X \<union> pages_from frames {i..<i + n})" and "s \<in> R" and "i + n \<le> 16"
    and "unat frames + 4096 * (i + n) \<le> 2 ^ 52" and "X \<inter> pages_from frames {..<i + n} = {}" and "aligned frames"
    and "\<forall>j < i. node (mm_mem m) s (va_path (stack_page j)) = Some (frames + of_nat j * 4096)"
    and "map_user_stack s (USER_STACK_TOP - USER_STACK_BYTES) frames i n m = (ok, m')"
  shows "within_space kr R (if ok then X else X \<union> pages_from frames {..<i + n}) s m m'"
  using assms
proof (induction n arbitrary: i m)
  case 0
  then show ?case by (simp add: within_space_refl pages_from_def)
next
  case (Suc n)
  let ?pg = "frames + of_nat i * 4096" and ?Y = "X \<union> pages_from frames {i..<i + Suc n}"
  obtain b m1 where b: "map_page_in s (stack_page i) ?pg USER_RW m = (b, m1)" by fastforce
  have i: "i < 16" using Suc.prems(3) by simp
  have "aligned ?pg" by (rule block_page(2) [OF Suc.prems(6,4)]) simp
  moreover have "flags_ok USER_RW" by (simp add: flags_ok_def consts_def)
  moreover have "?pg \<in> ?Y" by (simp add: pages_from_def)
  ultimately have mr: "map_result kr R ?Y s (stack_page i) ?pg b m m1"
    by (intro map_user [OF Suc.prems(1,2) stack_page_index(1) [OF i] _ _ page_floor_aligned_id b]) auto
  have nodes: "node (mm_mem m1) s (va_path (stack_page j)) = (if b \<and> j = i then Some ?pg
      else node (mm_mem m) s (va_path (stack_page j)))" if "j < 16" for j
    using mr user_va_path(4) [OF stack_page_index(1) [OF that]] length_va_path stack_path_inj [OF that i]
    by (auto simp: map_result_def)
  show ?case
  proof (cases b)
    case True
    have "?Y - {?pg} = X \<union> pages_from frames {Suc i..<Suc i + n}"
    proof -
      have "?pg \<notin> X" using Suc.prems(5) by (auto simp: pages_from_def)
      moreover have "?pg \<notin> pages_from frames {Suc i..<Suc i + n}"
        using pages_from_inj [OF Suc.prems(4), of i] by (force simp: pages_from_def)
      moreover have "{i..<i + Suc n} = insert i {Suc i..<Suc i + n}" by auto
      ultimately show ?thesis by (auto simp: pages_from_def)
    qed
    with within_space_map [OF mr] True have w: "within_space kr R (X \<union> pages_from frames {Suc i..<Suc i + n}) s m m1"
      by simp
    have "map_user_stack s (USER_STACK_TOP - USER_STACK_BYTES) frames (Suc i) n m1 = (ok, m')"
      using b True Suc.prems(8) by (simp add: stack_page_def)
    moreover have "\<forall>j < Suc i. node (mm_mem m1) s (va_path (stack_page j)) = Some (frames + of_nat j * 4096)"
      using nodes Suc.prems(7) True i by (auto simp: less_Suc_eq)
    ultimately have "within_space kr R (if ok then X else X \<union> pages_from frames {..<Suc i + n}) s m1 m'"
      using Suc.prems by (intro Suc.IH [OF within_space_inv [OF w] Suc.prems(2)]) simp_all
    from within_space_trans [OF w this] show ?thesis by (simp only: add_Suc_shift)
  next
    case False
    with within_space_map [OF mr] have w: "within_space kr R ?Y s m m1" by simp
    have "\<forall>j \<in> set [0..<i]. node (mm_mem m1) s (va_path (stack_page j)) = Some (frames + of_nat j * 4096)"
      using nodes Suc.prems(7) False i by auto
    from unmap_stack [OF within_space_inv [OF w] Suc.prems(2) _ _ this] i
    have "within_space kr R (?Y \<union> pages_from frames (set [0..<i])) s m1 (fold (\<lambda>j. unmap_page_in s (stack_page j)) [0..<i] m1)"
      by simp
    moreover have "?Y \<union> pages_from frames (set [0..<i]) = X \<union> pages_from frames {..<i + Suc n}"
    proof -
      have "{..<i + Suc n} = {i..<i + Suc n} \<union> set [0..<i]" by auto
      then show ?thesis by (auto simp: pages_from_def)
    qed
    moreover have "\<not> ok" "m' = fold (\<lambda>j. unmap_page_in s (stack_page j)) [0..<i] m1"
      using b False Suc.prems(8) by (simp_all add: stack_page_def)
    ultimately show ?thesis using within_space_trans [OF w] by simp
  qed
qed

end
