(* ===== verification/Spawn.thy ===== *)
theory Spawn
  imports Spaces
begin

text \<open>
  Spawning and reaping, on the memory state: \<^verbatim>\<open>spawn_user\<close> up to the task table, kernel-stack
  slots, and the reaper.
\<close>

section \<open>The address space of a new task\<close>

lemma destroy_mm_ok:
  assumes "mm_ok m kr (insert s R) X" and "s \<notin> insert kr R" and "mm_cr3 m \<in> insert kr R"
  shows "\<exists>m'. destroy_address_space s m = Some m' \<and> mm_ok m' kr R X \<and> keeps R (mm_mem m) (mm_mem m') \<and>
    mm_cr3 m' = mm_cr3 m \<and> mm_kstacks m' = mm_kstacks m"
proof -
  have R: "insert s R - {s} = R" using assms(2) by blast
  from destroy_ok [OF mm_okD(1) [OF assms(1)], of s] obtain m' where
    d: "destroy_address_space s m = Some m'" "minv m' kr R X" "other_spaces s m m'" "keeps R (mm_mem m) (mm_mem m')"
    unfolding R by auto
  have "mm_spaces m = kr # tl (mm_spaces m)" using assms(1) by (metis list.collapse mm_ok_def)
  then have "mm_spaces m' = kr # filter (\<lambda>p. p \<noteq> s) (tl (mm_spaces m))"
    using d(3) assms(2) by (metis (mono_tags, lifting) filter.simps(2) insertI1 other_spaces_def)
  then have "mm_spaces m' \<noteq> []" "hd (mm_spaces m') = kr" by simp_all
  moreover have "mm_kstacks m' = mm_kstacks m" "mm_cr3 m' = mm_cr3 m" using d(3) by (simp_all add: other_spaces_def)
  moreover have "set (mm_spaces m') \<subseteq> insert kr R" using d(3) assms(1) by (auto simp: other_spaces_def mm_ok_def)
  ultimately have "mm_ok m' kr R X" using assms(1,3) d(2) by (simp add: mm_ok_def)
  with d show ?thesis by (auto simp: other_spaces_def)
qed

lemma zero_pages_other: "a \<notin> block base n \<Longrightarrow> zero_pages base n mem a = mem a"
  by (induction n) (auto simp: zero_pages_def block_def zero_page_def lessThan_Suc)

lemma STACK_PAGES_nat: "unat STACK_PAGES = 16"
  by (simp add: consts_def)

text \<open>Stack frames taken, cleared and mapped; on failure they are loose again.\<close>

lemma user_stack_ok:
  assumes "minv m kr R X" and "s \<in> R" and "alloc_frames STACK_PAGES (mm_fa m) = (Some f, fa)"
    and "map_user_stack s (USER_STACK_TOP - USER_STACK_BYTES) f 0 (unat STACK_PAGES)
      (m\<lparr>mm_fa := fa, mm_mem := zero_pages f (unat STACK_PAGES) (mm_mem m)\<rparr>) = (ok, m')"
  shows "within_space kr R (if ok then X else X \<union> block f 16) s m m'"
    and "X \<inter> block f 16 = {}" and "unat f + 4096 * 16 \<le> 2 ^ 52"
proof -
  have "0 < unat STACK_PAGES" "unat STACK_PAGES < 2 ^ 40" by (simp_all add: STACK_PAGES_nat)
  note a = space_inv_alloc [OF assms(1,3) this, unfolded STACK_PAGES_nat]
  let ?m = "m\<lparr>mm_fa := fa, mm_mem := zero_pages f 16 (mm_mem m)\<rparr>"
  show d: "X \<inter> block f 16 = {}" using a(2) by blast
  show b: "unat f + 4096 * 16 \<le> 2 ^ 52" by (rule a(3))
  have "\<forall>a \<in> upages (mm_mem m) R \<union> insert kr (ktables (mm_mem m) (insert kr R)). zero_pages f 16 (mm_mem m) a = mm_mem m a"
    using a(2) by (blast intro: zero_pages_other)
  note z = space_inv_outside [OF a(1) this]
  have "f \<in> block f 16" by (rule block_base) simp
  then have al: "aligned f" using space_inv_loose_frame [OF a(1), of f] by (simp add: frame_addr_def)
  have w0: "within_space kr R (X \<union> block f 16) s m ?m"
    using z by (auto simp: within_space_def intro: keeps_mono)
  have "within_space kr R (if ok then X else X \<union> pages_from f {..<0 + 16}) s ?m m'"
  proof (rule map_user_stack_ok)
    show "minv ?m kr R (X \<union> pages_from f {0..<0 + 16})"
      using z(1) by (simp add: block_pages_from lessThan_atLeast0)
    show "X \<inter> pages_from f {..<0 + 16} = {}" using d by (simp add: block_pages_from)
    show "map_user_stack s (USER_STACK_TOP - USER_STACK_BYTES) f 0 16 ?m = (ok, m')"
      using assms(4) by (simp add: STACK_PAGES_nat)
  qed (use assms(2) b al in auto)
  from within_space_trans [OF w0 this]
  show "within_space kr R (if ok then X else X \<union> block f 16) s m m'"
    by (simp only: block_pages_from add_0)
qed

lemma mm_ok_within:
  "mm_ok m kr R X \<Longrightarrow> within_space kr R X' s m m' \<Longrightarrow> mm_ok m' kr R X'"
  by (auto simp: within_space_def intro: mm_ok_regs)

lemma spawn_space_ok:
  assumes "mm_ok m kr R X" and "length elf < 2 ^ 63"
  shows "\<exists>r m'. spawn_space elf m = Some (r, m') \<and> keeps R (mm_mem m) (mm_mem m') \<and> mm_cr3 m' = mm_cr3 m \<and>
    (case r of None \<Rightarrow> mm_ok m' kr R X
     | Some (s, entry, pages) \<Rightarrow> s \<notin> insert kr R \<and> mm_ok m' kr (insert s R) X)"
proof -
  from new_address_space_ok [OF assms(1)] obtain r m1 where
    n: "new_address_space m = Some (r, m1)" "keeps R (mm_mem m) (mm_mem m1)" "mm_cr3 m1 = mm_cr3 m"
      "case r of None \<Rightarrow> mm_ok m1 kr R X
       | Some s \<Rightarrow> s \<notin> insert kr R \<and> mm_ok m1 kr (insert s R) X \<and>
           (\<forall>q. user_path q \<longrightarrow> q \<noteq> [] \<longrightarrow> node (mm_mem m1) s q = None)" by blast
  show ?thesis
  proof (cases r)
    case None
    with n show ?thesis by (simp add: spawn_space_def)
  next
    case (Some s)
    with n have s: "s \<notin> insert kr R" and ok1: "mm_ok m1 kr (insert s R) X" by auto
    have R: "insert s R - {s} = R" using s by blast
    have cr3: "mm_cr3 m \<in> insert kr R" by (rule mm_okD(3) [OF assms(1)])
    have undo: "\<exists>m''. destroy_address_space s m' = Some m'' \<and> mm_ok m'' kr R X \<and> keeps R (mm_mem m) (mm_mem m'') \<and>
        mm_cr3 m'' = mm_cr3 m"
      if "mm_ok m' kr (insert s R) X" "keeps R (mm_mem m) (mm_mem m')" "mm_cr3 m' = mm_cr3 m" for m'
      using destroy_mm_ok [OF that(1) s] that(2,3) cr3 keeps_trans by metis
    from load_elf_ok [OF mm_okD(1) [OF ok1] _ assms(2), of s] obtain r2 m2 where
      l: "load_elf s elf m1 = Some (r2, m2)" "within_space kr (insert s R) X s m1 m2" by auto
    have ok2: "mm_ok m2 kr (insert s R) X" by (rule mm_ok_within [OF ok1 l(2)])
    have k2: "keeps R (mm_mem m) (mm_mem m2)" "mm_cr3 m2 = mm_cr3 m"
      using l(2) n(2,3) R keeps_trans by (auto simp: within_space_def same_regs_def)
    show ?thesis
    proof (cases r2)
      case (Inl e)
      with undo [OF ok2 k2] n(1) Some l(1) show ?thesis by (auto simp: spawn_space_def)
    next
      case (Inr p)
      obtain entry pages where p: "p = (entry, pages)" by (cases p)
      obtain ro fa where al: "alloc_frames STACK_PAGES (mm_fa m2) = (ro, fa)" by fastforce
      show ?thesis
      proof (cases ro)
        case None
        have "mm_ok (m2\<lparr>mm_fa := fa\<rparr>) kr (insert s R) X"
          using space_inv_alloc_fail [OF mm_okD(1) [OF ok2] al [unfolded None]]
          by (intro mm_ok_regs [OF ok2]) (simp_all add: STACK_PAGES_nat)
        from undo [OF this] k2 n(1) Some l(1) Inr p al None show ?thesis by (auto simp: spawn_space_def)
      next
        case f: (Some f)
        obtain ok m3 where ms: "map_user_stack s (USER_STACK_TOP - USER_STACK_BYTES) f 0 (unat STACK_PAGES)
          (m2\<lparr>mm_fa := fa, mm_mem := zero_pages f (unat STACK_PAGES) (mm_mem m2)\<rparr>) = (ok, m3)" by fastforce
        note us = user_stack_ok [OF mm_okD(1) [OF ok2] _ al [unfolded f] ms, simplified]
        have k3: "keeps R (mm_mem m) (mm_mem m3)" "mm_cr3 m3 = mm_cr3 m"
          using us(1) k2 R keeps_trans by (auto simp: within_space_def same_regs_def)
        note ok3 = mm_ok_within [OF ok2 us(1)]
        show ?thesis
        proof (cases ok)
          case True
          with ok3 k3 s n(1) Some l(1) Inr p al f ms show ?thesis by (auto simp: spawn_space_def)
        next
          case False
          with ok3 have ok3: "mm_ok m3 kr (insert s R) (X \<union> block f 16)" by simp
          have "X \<union> block f 16 - block f 16 = X" using us(2) by blast
          with space_inv_free [OF mm_okD(1) [OF ok3], of f STACK_PAGES] us(3) obtain fa' where
            fr: "free_frames f STACK_PAGES (mm_fa m3) = Some fa'" "space_inv (mm_mem m3) fa' kr (insert s R) X"
            by (auto simp: STACK_PAGES_nat)
          have "mm_ok (m3\<lparr>mm_fa := fa'\<rparr>) kr (insert s R) X"
            using fr(2) by (intro mm_ok_regs [OF ok3]) simp_all
          from undo [OF this] k3 n(1) Some l(1) Inr p al f ms False fr(1) show ?thesis
            by (auto simp: spawn_space_def free_frame_mm_def)
        qed
      qed
    qed
  qed
qed

section \<open>Kernel stacks\<close>

lemma kstack_va:
  assumes "slot < 4096"
  shows "stack_va (KSTACK_REGION_BASE + slot * KSTACK_SLOT_BYTES + KSTACK_GUARD_PAGES * 4096) 8"
proof -
  have "p4_index (KSTACK_REGION_BASE + slot * KSTACK_SLOT_BYTES + KSTACK_GUARD_PAGES * 4096 + of_nat i * 4096) = 384"
    if "i < 8" for i
  proof -
    define x where "x = unat slot * 36864 + 4096 + i * 4096"
    have s: "unat slot < 4096" using assms by (simp add: word_less_nat_alt)
    then have x: "x < 2 ^ 39" using that by (simp add: x_def)
    have "of_nat x = slot * KSTACK_SLOT_BYTES + KSTACK_GUARD_PAGES * 4096 + of_nat i * (4096 :: u64)"
      by (simp add: x_def consts_def)
    then have eq: "KSTACK_REGION_BASE + slot * KSTACK_SLOT_BYTES + KSTACK_GUARD_PAGES * 4096 + of_nat i * 4096 =
        KSTACK_REGION_BASE + of_nat x" by (simp only: add.assoc)
    have u: "unat (KSTACK_REGION_BASE + of_nat x) = 0xFFFFC00000000000 + x"
      using x by (simp add: consts_def unat_word_ariths unat_of_nat)
    have "unat (drop_bit 39 (KSTACK_REGION_BASE + of_nat x)) = (0xFFFFC00000000000 + x) div 2 ^ 39"
      unfolding unsigned_drop_bit_eq u using x by (simp add: drop_bit_eq_div take_bit_nat_def)
    also have "\<dots> = 0x1FFFF80" using x by simp
    finally have "drop_bit 39 (KSTACK_REGION_BASE + of_nat x) = 0x1FFFF80" by (simp add: word_unat_eq_iff)
    then show ?thesis unfolding eq p4_index_def by simp
  qed
  then show ?thesis by (simp add: stack_va_def)
qed

lemma KSTACK_PAGES_nat: "unat KSTACK_PAGES = 8"
  by (simp add: consts_def)

lemma register_kstack_ok:
  assumes "mm_ok m kr R X" and "stack_va base 8" and "register_kstack base frames KSTACK_PAGES m = (ok, m')"
  shows "mm_ok m' kr R X" and "keeps R (mm_mem m) (mm_mem m')" and "mm_cr3 m' = mm_cr3 m"
proof -
  note inv = mm_okD [OF assms(1)]
  obtain b m1 where b: "register_pages base frames 0 8 m = (b, m1)" by fastforce
  have st: "stays kr R X m m1" using assms(2) by (intro register_pages_ok [OF inv(1,4) _ b]) simp
  note ok1 = mm_ok_stays [OF assms(1) st]
  show "mm_ok m' kr R X"
  proof (cases b)
    case True
    with assms(3) b have "m' = m1\<lparr>mm_kstacks := mm_kstacks m1 @ [(base, frames, KSTACK_PAGES)]\<rparr>"
      by (simp add: register_kstack_def KSTACK_PAGES_nat)
    with ok1 assms(2) show ?thesis by (simp add: mm_ok_def stacks_va_def KSTACK_PAGES_nat)
  next
    case False
    with assms(3) b ok1 show ?thesis by (simp add: register_kstack_def KSTACK_PAGES_nat)
  qed
  show "keeps R (mm_mem m) (mm_mem m')" and "mm_cr3 m' = mm_cr3 m"
    using st assms(3) b
    by (auto simp: register_kstack_def KSTACK_PAGES_nat stays_def same_regs_def split: bool.splits)
qed

lemma mm_ok_alloc:
  assumes "mm_ok m kr R X" and "alloc_frames n (mm_fa m) = (Some b, fa)" and "0 < unat n" and "unat n < 2 ^ 40"
  shows "mm_ok (m\<lparr>mm_fa := fa\<rparr>) kr R (X \<union> block b (unat n))" and "X \<inter> block b (unat n) = {}"
    and "unat b + 4096 * unat n \<le> 2 ^ 52"
proof -
  note a = space_inv_alloc [OF mm_okD(1) [OF assms(1)] assms(2-4)]
  show "mm_ok (m\<lparr>mm_fa := fa\<rparr>) kr R (X \<union> block b (unat n))"
    using a(1) by (intro mm_ok_regs [OF assms(1)]) simp_all
  show "X \<inter> block b (unat n) = {}" using a(2) by blast
  show "unat b + 4096 * unat n \<le> 2 ^ 52" by (rule a(3))
qed

lemma mm_ok_free:
  assumes "mm_ok m kr R X" and "block b (unat n) \<subseteq> X" and "0 < unat n" and "unat b + 4096 * unat n \<le> 2 ^ 52"
  shows "\<exists>m'. free_frame_mm b n m = Some m' \<and> mm_ok m' kr R (X - block b (unat n)) \<and>
    mm_mem m' = mm_mem m \<and> mm_cr3 m' = mm_cr3 m"
proof -
  from space_inv_free [OF mm_okD(1) [OF assms(1)] assms(2-4)] obtain fa where
    "free_frames b n (mm_fa m) = Some fa" "space_inv (mm_mem m) fa kr R (X - block b (unat n))" by blast
  moreover from this(2) have "mm_ok (m\<lparr>mm_fa := fa\<rparr>) kr R (X - block b (unat n))"
    by (intro mm_ok_regs [OF assms(1)]) simp_all
  ultimately show ?thesis by (simp add: free_frame_mm_def)
qed

text \<open>The frames of a kernel stack: eight loose pages, mapped below entry 384.\<close>

definition kstack_ok :: "u64 \<Rightarrow> u64 \<Rightarrow> bool" where
  "kstack_ok base frames \<longleftrightarrow> stack_va base 8 \<and> unat frames + 4096 * 8 \<le> 2 ^ 52"

lemma kstack_slot_ok:
  assumes "mm_ok m kr R X"
  shows "\<exists>r m'. kstack_slot slot m = Some (r, m') \<and> keeps R (mm_mem m) (mm_mem m') \<and> mm_cr3 m' = mm_cr3 m \<and>
    (case r of None \<Rightarrow> mm_ok m' kr R X
     | Some (tp, frames) \<Rightarrow> mm_ok m' kr R (X \<union> block frames 8) \<and> X \<inter> block frames 8 = {} \<and>
         kstack_ok (tp - KSTACK_PAGES * 4096) frames)"
proof (cases "slot \<ge> 4096")
  case True
  with assms show ?thesis by (simp add: kstack_slot_def)
next
  case False
  define base where "base = KSTACK_REGION_BASE + slot * KSTACK_SLOT_BYTES + KSTACK_GUARD_PAGES * 4096"
  have va: "stack_va base 8" unfolding base_def by (rule kstack_va) (use False in simp)
  obtain ro fa where al: "alloc_frames KSTACK_PAGES (mm_fa m) = (ro, fa)" by fastforce
  show ?thesis
  proof (cases ro)
    case None
    have "mm_ok (m\<lparr>mm_fa := fa\<rparr>) kr R X"
      using space_inv_alloc_fail [OF mm_okD(1) [OF assms] al [unfolded None]]
      by (intro mm_ok_regs [OF assms]) (simp_all add: KSTACK_PAGES_nat)
    with False al None show ?thesis by (simp add: kstack_slot_def)
  next
    case (Some f)
    note a = mm_ok_alloc [OF assms al [unfolded Some], unfolded KSTACK_PAGES_nat, simplified]
    obtain ok m1 where r: "register_kstack base f KSTACK_PAGES (m\<lparr>mm_fa := fa\<rparr>) = (ok, m1)" by fastforce
    note rk = register_kstack_ok [OF a(1) va r]
    show ?thesis
    proof (cases ok)
      case True
      then have "kstack_slot slot m = Some (Some (base + KSTACK_PAGES * 4096, f), m1)"
        using False al Some r by (simp add: kstack_slot_def base_def)
      with rk a va show ?thesis by (simp add: kstack_ok_def)
    next
      case False': False
      have "X \<union> block f 8 - block f 8 = X" using a(2) by blast
      with mm_ok_free [OF rk(1), of f KSTACK_PAGES] a(3) obtain m2 where
        "free_frame_mm f KSTACK_PAGES m1 = Some m2" "mm_ok m2 kr R X" "mm_mem m2 = mm_mem m1" "mm_cr3 m2 = mm_cr3 m1"
        by (auto simp: KSTACK_PAGES_nat)
      moreover from this(1) have "kstack_slot slot m = Some (None, m2)"
        using False False' al Some r by (simp add: kstack_slot_def base_def)
      ultimately show ?thesis using rk by simp
    qed
  qed
qed

section \<open>The reaper\<close>

lemma unregister_ok:
  assumes "mm_ok m kr R X" and "stack_va base 8"
  shows "mm_ok (unregister_kstack base KSTACK_PAGES m) kr R X"
    and "keeps R (mm_mem m) (mm_mem (unregister_kstack base KSTACK_PAGES m))"
    and "mm_cr3 (unregister_kstack base KSTACK_PAGES m) = mm_cr3 m"
proof -
  note inv = mm_okD [OF assms(1)]
  define m1 where "m1 = fold (\<lambda>i. fold (\<lambda>p. unmap_page_in p (base + of_nat i * 4096)) (mm_spaces m)) [0..<unat KSTACK_PAGES] m"
  have st: "stays kr R X m m1"
    unfolding m1_def using assms(2)
    by (intro unmap_pages [OF inv(1,4)]) (simp add: stack_va_def KSTACK_PAGES_nat)
  note ok = mm_ok_stays [OF assms(1) this]
  have u: "unregister_kstack base KSTACK_PAGES m = m1\<lparr>mm_kstacks := filter (\<lambda>(b, _, _). b \<noteq> base) (mm_kstacks m1)\<rparr>"
    by (simp only: unregister_kstack_def m1_def Let_def)
  have "stacks_va (filter P ks)" if "stacks_va ks" for P ks
    using that by (auto simp: stacks_va_def list_all_iff)
  with ok show "mm_ok (unregister_kstack base KSTACK_PAGES m) kr R X" by (simp add: u mm_ok_def)
  show "keeps R (mm_mem m) (mm_mem (unregister_kstack base KSTACK_PAGES m))"
    and "mm_cr3 (unregister_kstack base KSTACK_PAGES m) = mm_cr3 m"
    using st by (simp_all add: u stays_def same_regs_def)
qed

lemma reclaim_ok:
  assumes "mm_ok m kr (insert (pr_cr3 p) R) X" and "pr_cr3 p \<notin> insert kr R" and "mm_cr3 m \<in> insert kr R"
    and "kstack_ok (pr_kstack_base_va p) (pr_kstack_frames_base p)" and "block (pr_kstack_frames_base p) 8 \<subseteq> X"
  shows "\<exists>m'. reclaim p m = Some m' \<and> mm_ok m' kr R (X - block (pr_kstack_frames_base p) 8) \<and>
    keeps R (mm_mem m) (mm_mem m') \<and> mm_cr3 m' = mm_cr3 m"
proof -
  from destroy_mm_ok [OF assms(1-3)] obtain m1 where
    d: "destroy_address_space (pr_cr3 p) m = Some m1" "mm_ok m1 kr R X" "keeps R (mm_mem m) (mm_mem m1)"
      "mm_cr3 m1 = mm_cr3 m" by blast
  have va: "stack_va (pr_kstack_base_va p) 8" and b: "unat (pr_kstack_frames_base p) + 4096 * unat KSTACK_PAGES \<le> 2 ^ 52"
    using assms(4) by (simp_all add: kstack_ok_def KSTACK_PAGES_nat)
  note u = unregister_ok [OF d(2) va]
  from mm_ok_free [OF u(1) _ _ b] assms(5) obtain m2 where
    "free_frame_mm (pr_kstack_frames_base p) KSTACK_PAGES (unregister_kstack (pr_kstack_base_va p) KSTACK_PAGES m1) = Some m2"
    "mm_ok m2 kr R (X - block (pr_kstack_frames_base p) 8)"
    "mm_mem m2 = mm_mem (unregister_kstack (pr_kstack_base_va p) KSTACK_PAGES m1)"
    "mm_cr3 m2 = mm_cr3 (unregister_kstack (pr_kstack_base_va p) KSTACK_PAGES m1)"
    by (auto simp: KSTACK_PAGES_nat)
  with d u keeps_trans show ?thesis by (auto simp: reclaim_def)
qed

end
