(* ===== verification/Kernel_Still.thy ===== *)
theory Kernel_Still
  imports Kernel_Calm Spawn "HOL-Library.Multiset"
begin

text \<open>
  What most of the kernel leaves alone, continued: memory. A \<open>still\<close> change touches neither physical memory
  nor the frame allocator, and every address space and kernel stack keeps its owner: a task, or
  the queue of the reaper.
\<close>

section \<open>Owners of memory\<close>

definition owners :: "kernel_state \<Rightarrow> pending_reap list" where
  "owners k = map snapshot (k_tasks k) @ k_reap k"

definition sites :: "task list \<Rightarrow> (usize \<times> pending_reap) list" where
  "sites ts = map (\<lambda>t. (t_id t, snapshot t)) ts"

definition same_memory :: "mm \<Rightarrow> mm \<Rightarrow> bool" where
  "same_memory m m' \<longleftrightarrow> mm_mem m' = mm_mem m \<and> mm_fa m' = mm_fa m \<and> mm_spaces m' = mm_spaces m \<and>
     mm_kstacks m' = mm_kstacks m"

definition ids_distinct :: "kernel_state \<Rightarrow> bool" where
  "ids_distinct k \<longleftrightarrow> distinct (map t_id (k_tasks k))"

definition still :: "kernel_state \<Rightarrow> kernel_state \<Rightarrow> bool" where
  "still k k' \<longleftrightarrow> same_memory (k_mm k) (k_mm k') \<and>
     (ids_distinct k \<longrightarrow> ids_distinct k' \<and> mset (owners k') = mset (owners k) \<and>
        set (sites (k_tasks k')) \<subseteq> set (sites (k_tasks k)))"

lemma same_memory_refl [simp]: "same_memory m m"
  by (simp add: same_memory_def)

lemma still_refl [simp]: "still k k"
  by (simp add: still_def)

lemma still_trans: "still k k' \<Longrightarrow> still k' k'' \<Longrightarrow> still k k''"
  by (auto simp: still_def same_memory_def)

lemma still_simps [simp]:
  "still k (k'\<lparr>k_frames := fs\<rparr>) = still k k'" "still k (k'\<lparr>k_out := out\<rparr>) = still k k'"
  "still k (k'\<lparr>k_ticks := n\<rparr>) = still k k'" "still k (k'\<lparr>k_since_switch := n\<rparr>) = still k k'"
  "still k (k'\<lparr>k_current := c\<rparr>) = still k k'" "still k (k'\<lparr>k_rsp0 := r\<rparr>) = still k k'"
  "still k (k'\<lparr>k_ready := q\<rparr>) = still k k'" "still k (k'\<lparr>k_endpoints := eps\<rparr>) = still k k'"
  "still k (k'\<lparr>k_input := i\<rparr>) = still k k'" "still k (k'\<lparr>k_next_tid := tid\<rparr>) = still k k'"
  "still k (k'\<lparr>k_primary := d\<rparr>) = still k k'" "still k (k'\<lparr>k_secondary := d\<rparr>) = still k k'"
  "still k (k'\<lparr>k_mm := (k_mm k')\<lparr>mm_cr3 := pml4\<rparr>\<rparr>) = still k k'"
  "still (k\<lparr>k_since_switch := n\<rparr>) k' = still k k'" "still (k\<lparr>k_input := i\<rparr>) k' = still k k'"
  by (simp_all add: still_def owners_def ids_distinct_def same_memory_def)

lemma still_ops [simp]:
  "still k (set_frame a f k') = still k k'" "still k (set_rax a v k') = still k k'" "still k (kprint_raw s k') = still k k'"
  "still k (set_current c k') = still k k'" "still k (make_ready tid front k') = still k k'"
  "still k (set_ep ep e k') = still k k'" "still k (bump_tick k') = still k k'"
  by (simp_all add: set_frame_def set_rax_def kprint_raw_def set_current_def make_ready_def set_ep_def bump_tick_def)

lemma still_activate [simp]: "still k (k'\<lparr>k_mm := activate_kernel_space (k_mm k')\<rparr>) = still k k'"
  by (simp add: activate_kernel_space_def split: list.split)

text \<open>Updates of tasks that keep id and memory.\<close>

definition keeps_site :: "(task \<Rightarrow> task) \<Rightarrow> bool" where
  "keeps_site f \<longleftrightarrow> (\<forall>t. t_id (f t) = t_id t \<and> snapshot (f t) = snapshot t)"

declare keeps_site_def [simp]

lemma snapshot_upd [simp]:
  "snapshot (t\<lparr>t_state := s\<rparr>) = snapshot t" "snapshot (t\<lparr>t_saved_rsp := r\<rparr>) = snapshot t"
  "snapshot (t\<lparr>t_parent := p\<rparr>) = snapshot t" "snapshot (t\<lparr>t_caps := cs\<rparr>) = snapshot t"
  "snapshot (t\<lparr>t_name := nm\<rparr>) = snapshot t" "snapshot (t\<lparr>t_saved_rsp := r, t_state := s\<rparr>) = snapshot t"
  by (simp_all add: snapshot_def)

lemma sites_update_first [simp]: "keeps_site f \<Longrightarrow> sites (update_first p f ts) = sites ts"
  unfolding sites_def by (rule map_update_first) (simp add: keeps_site_def)

lemma sites_same:
  assumes "sites ts = sites ts'"
  shows "map t_id ts = map t_id ts'" and "map snapshot ts = map snapshot ts'"
proof -
  have "map fst (sites ts) = map fst (sites ts')" "map snd (sites ts) = map snd (sites ts')" using assms by simp_all
  then show "map t_id ts = map t_id ts'" "map snapshot ts = map snapshot ts'" by (simp_all add: sites_def comp_def)
qed

lemma still_tasks: "sites ts = sites (k_tasks k') \<Longrightarrow> still k k' \<Longrightarrow> still k (k'\<lparr>k_tasks := ts\<rparr>)"
  using sites_same [of ts "k_tasks k'"] by (simp add: still_def owners_def ids_distinct_def)

lemma still_upd_task [intro!]: "keeps_site f \<Longrightarrow> still k k' \<Longrightarrow> still k (upd_task tid f k')"
  unfolding upd_task_def by (rule still_tasks) simp_all

lemma still_with_task: "with_task tid f k = Some k' \<Longrightarrow> keeps_site f \<Longrightarrow> still k k'"
  by (auto simp: with_task_def split: option.splits)

lemma mset_filter_one:
  assumes "distinct (map t_id ts)" and "find (\<lambda>t. t_id t = tid) ts = Some t"
  shows "mset ts = add_mset t (mset (filter (\<lambda>t. t_id t \<noteq> tid) ts))"
  using assms
proof (induction ts)
  case (Cons u ts)
  show ?case
  proof (cases "t_id u = tid")
    case True
    then have "filter (\<lambda>t. t_id t \<noteq> tid) ts = ts"
      using Cons.prems(1) by (auto simp: filter_id_conv image_iff)
    with True Cons.prems(2) show ?thesis by simp
  next
    case False
    with Cons show ?thesis by simp
  qed
qed simp

lemma still_schedule_reap [intro!]: "still k k' \<Longrightarrow> still k (schedule_reap tid k')"
proof -
  assume s: "still k k'"
  have "still k' (schedule_reap tid k')"
  proof (cases "find_task tid k'")
    case (Some t)
    have "distinct (map t_id (filter (\<lambda>t. t_id t \<noteq> tid) (k_tasks k')))" if "ids_distinct k'"
      using that by (simp add: ids_distinct_def distinct_map_filter)
    moreover have "image_mset snapshot (mset (k_tasks k')) =
        add_mset (snapshot t) (image_mset snapshot (mset (filter (\<lambda>t. t_id t \<noteq> tid) (k_tasks k'))))" if "ids_distinct k'"
      using arg_cong [OF mset_filter_one [of "k_tasks k'" tid t], of "image_mset snapshot"] that Some
      by (simp add: ids_distinct_def find_task_def)
    ultimately show ?thesis
      using Some by (auto simp: schedule_reap_def still_def owners_def sites_def ids_distinct_def)
  qed (simp add: schedule_reap_def)
  with s show ?thesis by (rule still_trans)
qed

lemma still_fold: "(\<And>x k'. still k k' \<Longrightarrow> still k (f x k')) \<Longrightarrow> still k k' \<Longrightarrow> still k (fold f xs k')"
  by (induction xs arbitrary: k') simp_all

section \<open>Results\<close>

definition still_result :: "kernel_state \<Rightarrow> (cpu \<times> kernel_state) option \<Rightarrow> bool" where
  "still_result k r \<longleftrightarrow> (\<forall>c k'. r = Some (c, k') \<longrightarrow> still k k')"

lemma still_result_simps [simp]:
  "still_result k None" "still_result k (Some (c, k')) = still k k'" "still_result k (ret fp v k') = still k k'"
  "still_result k (stay fp k') = still k k'"
  by (auto simp: still_result_def ret_def stay_def)

lemma still_result_bind:
  "(\<And>k'. r = Some k' \<Longrightarrow> still_result k (f k')) \<Longrightarrow> still_result k (r \<bind> f)"
  by (cases r) simp_all

lemma still_pick_next: "pick_next ex k = (r, k') \<Longrightarrow> still k k'"
  by (auto simp: pick_next_def split: prod.splits)

lemma still_resume: "still k k' \<Longrightarrow> still_result k (resume tid k')"
proof -
  assume s: "still k k'"
  have "still k (upd_task tid (\<lambda>t. t\<lparr>t_state := Running\<rparr>) k')" using s by auto
  then have "still k (set_current (Some tid) (upd_task tid (\<lambda>t. t\<lparr>t_state := Running\<rparr>) k'))" by simp
  then show ?thesis by (auto simp: resume_def Let_def split: option.split)
qed

lemma still_park_idle: "still k k' \<Longrightarrow> still_result k (park_idle k')"
  by (simp add: park_idle_def)

lemma still_switch_away: "still k k' \<Longrightarrow> still_result k (switch_away k')"
  by (auto simp: switch_away_def intro!: still_resume still_park_idle split: prod.split option.split
      elim!: still_trans dest!: still_pick_next)

lemma still_requeue: "requeue_current tid fp k' = Some k'' \<Longrightarrow> still k k' \<Longrightarrow> still k k''"
  by (auto simp: requeue_current_def split: option.splits)

lemma still_blocked:
  "with_task tid f k = Some k' \<Longrightarrow> keeps_site f \<Longrightarrow> still_result k (switch_away (set_current None k'))"
  by (rule still_switch_away) (auto dest: still_with_task)

lemma still_block:
  "keeps_site f \<Longrightarrow> still k k' \<Longrightarrow> still_result k (with_task tid f k' \<bind> (\<lambda>k. switch_away (set_current None k)))"
  by (intro still_result_bind still_switch_away) (auto dest: still_with_task intro: still_trans)

section \<open>Handlers\<close>

lemma still_yield: "still_result k (yield_task tid fp k)"
  by (auto simp: yield_task_def intro!: still_result_bind still_resume split: prod.split option.split
      dest!: still_pick_next still_requeue)

lemma sites_wake_loop: "wake_loop now ts fs = (ts', fs', woke) \<Longrightarrow> sites ts' = sites ts"
  by (induction ts arbitrary: fs ts' fs' woke) (auto simp: sites_def split: if_splits prod.splits)

lemma still_wake_expired: "still k k' \<Longrightarrow> still k (wake_expired k')"
  by (auto simp: wake_expired_def intro!: still_fold still_tasks split: prod.split dest!: sites_wake_loop)

lemma still_timer: "still_result k (timer_trap fp k)"
proof -
  have "still_result k (maybe_preempt fp k')" if "still k k'" for k'
    using that
    by (auto simp: maybe_preempt_def Let_def intro!: still_result_bind still_resume split: prod.split option.split
        dest!: still_pick_next still_requeue elim!: still_trans)
  then show ?thesis by (simp add: timer_trap_def still_wake_expired)
qed

lemma sites_orphan: "sites (fold orphan_child kids ts) = sites ts"
  by (induction kids arbitrary: ts) (auto simp: orphan_child_def)

lemma still_die: "die tid code (k_tasks k') = (fate, dead, ts) \<Longrightarrow> still k k' \<Longrightarrow> still k (k'\<lparr>k_tasks := ts\<rparr>)"
  by (auto simp: die_def Let_def sites_orphan intro!: still_tasks split: option.splits)

lemma still_abort_ipc: "still k k' \<Longrightarrow> still k (abort_ipc tid k')"
proof -
  have "still k (wake_stranded c k1)" if "still k k1" for c k1
    using that by (auto simp: wake_stranded_def split: option.split task_state.split)
  then show "still k k' \<Longrightarrow> still k (abort_ipc tid k')" by (auto simp: abort_ipc_def Let_def intro!: still_fold)
qed

lemma still_terminate: "terminate_lifecycle tid code k' = Some k'' \<Longrightarrow> still k k' \<Longrightarrow> still k k''"
proof -
  assume t: "terminate_lifecycle tid code k' = Some k''" and c: "still k k'"
  obtain fate dead ts where d: "die tid code (k_tasks k') = (fate, dead, ts)" by (cases "die tid code (k_tasks k')")
  have "still k (abort_ipc tid (fold schedule_reap dead (k'\<lparr>k_tasks := ts\<rparr>)))"
    by (intro still_abort_ipc still_fold still_schedule_reap still_die [OF d c])
  then show "still k k''" using t d
    by (auto simp: terminate_lifecycle_def deliver_exit_def Let_def split: fate.splits option.splits)
qed

lemma still_exit: "still_result k (exit_task tid code k)"
  by (auto simp: exit_task_def intro!: still_result_bind still_switch_away elim!: still_terminate)

lemma still_kill: "still_result k (sys_kill fp tid victim k)"
  by (auto simp: sys_kill_def intro!: still_result_bind elim!: still_terminate)

lemma still_call: "still_result k (ipc_call tid fp a k)"
proof -
  have w: "still k k2" if "with_task x f k1 = Some k2" "keeps_site f" "still k k1" for x f k1 k2
    using that still_with_task still_trans by blast
  show ?thesis
    unfolding ipc_call_def Let_def
    by (auto intro!: still_result_bind still_switch_away still_tasks elim!: w split: sum.split option.splits)
qed

lemma still_recv: "still_result k (ipc_recv tid fp slot deadline k)"
  by (auto simp: ipc_recv_def Let_def intro!: still_result_bind elim!: still_blocked split: sum.split list.split)

lemma still_reply: "still_result k (ipc_reply tid fp a k)"
  by (auto simp: ipc_reply_def Let_def intro!: still_result_bind split: sum.split option.split)

lemma still_sleep: "still_result k (sys_sleep tid fp delta k)"
  by (auto simp: sys_sleep_def Let_def intro!: still_block)

lemma still_debug_write: "still k (sys_debug_write fp tid buf len raw k)"
  by (auto simp: sys_debug_write_def Let_def split: option.split)

lemma still_set_name: "still k (sys_set_name fp tid buf len k)"
  by (auto simp: sys_set_name_def set_name_def Let_def split: option.split)

lemma still_cap_derive: "still k (sys_cap_derive fp tid a k)"
  by (auto simp: sys_cap_derive_def split: sum.split)

lemma still_fault: "still_result k (handle_user_fault fp v k)"
  by (auto simp: handle_user_fault_def intro: still_exit split: option.split)

lemma still_write_sectors: "write_sectors h disk lba n buf k = (r, k') \<Longrightarrow> still k k'"
  by (auto simp: write_sectors_def split: option.splits prod.splits if_splits)

end
