(* ===== verification/Kernel_Settled.thy ===== *)
theory Kernel_Settled
  imports Kernel_Still
begin

text \<open>
  Which address space is active. When the kernel leaves, CR3 is the root of the current task, or the
  kernel's own root when no task runs: every switch loads it, and nothing else changes it.
\<close>

definition settled :: "kernel_state \<Rightarrow> bool" where
  "settled k \<longleftrightarrow>
     (k_current k = None \<longrightarrow> mm_spaces (k_mm k) \<noteq> [] \<longrightarrow> mm_cr3 (k_mm k) = hd (mm_spaces (k_mm k))) \<and>
     (\<forall>tid t. k_current k = Some tid \<longrightarrow> tmap (k_tasks k) tid = Some t \<longrightarrow> mm_cr3 (k_mm k) = t_cr3 t)"

definition settles :: "(cpu \<times> kernel_state) option \<Rightarrow> bool" where
  "settles r \<longleftrightarrow> (\<forall>c k'. r = Some (c, k') \<longrightarrow> settled k')"

lemma settled_simps [simp]:
  "settled (k\<lparr>k_frames := fs\<rparr>) = settled k" "settled (k\<lparr>k_out := out\<rparr>) = settled k"
  "settled (k\<lparr>k_ticks := n\<rparr>) = settled k" "settled (k\<lparr>k_since_switch := n\<rparr>) = settled k"
  "settled (k\<lparr>k_rsp0 := r\<rparr>) = settled k" "settled (k\<lparr>k_ready := q\<rparr>) = settled k"
  "settled (k\<lparr>k_endpoints := eps\<rparr>) = settled k" "settled (k\<lparr>k_input := i\<rparr>) = settled k"
  "settled (k\<lparr>k_reap := rq\<rparr>) = settled k" "settled (k\<lparr>k_primary := d\<rparr>) = settled k"
  "settled (k\<lparr>k_secondary := d\<rparr>) = settled k" "settled (k\<lparr>k_next_tid := tid\<rparr>) = settled k"
  "settled (k\<lparr>k_mm := (k_mm k)\<lparr>mm_mem := mem\<rparr>\<rparr>) = settled k"
  by (simp_all add: settled_def)

lemma settled_ops [simp]:
  "settled (set_frame a f k) = settled k" "settled (set_rax a v k) = settled k" "settled (kprint_raw s k) = settled k"
  "settled (make_ready tid front k) = settled k" "settled (set_ep ep e k) = settled k" "settled (bump_tick k) = settled k"
  by (simp_all add: set_frame_def set_rax_def kprint_raw_def make_ready_def set_ep_def bump_tick_def)

lemma settles_simps [simp]:
  "settles None" "settles (Some (c, k)) = settled k" "settles (ret fp v k) = settled k" "settles (stay fp k) = settled k"
  by (auto simp: settles_def ret_def stay_def)

lemma settles_bind: "(\<And>k'. r = Some k' \<Longrightarrow> settles (f k')) \<Longrightarrow> settles (r \<bind> f)"
  by (cases r) simp_all

text \<open>The root of a task is where its id is.\<close>

lemma tmap_sites: "map_option t_cr3 (tmap ts tid) = map_option pr_cr3 (map_of (sites ts) tid)"
  by (induction ts) (auto simp: tmap_Cons sites_def snapshot_def)

lemma settled_sites:
  "settled k \<longleftrightarrow>
     (k_current k = None \<longrightarrow> mm_spaces (k_mm k) \<noteq> [] \<longrightarrow> mm_cr3 (k_mm k) = hd (mm_spaces (k_mm k))) \<and>
     (\<forall>tid p. k_current k = Some tid \<longrightarrow> map_of (sites (k_tasks k)) tid = Some p \<longrightarrow> mm_cr3 (k_mm k) = pr_cr3 p)"
proof -
  have "(\<forall>t. tmap (k_tasks k) tid = Some t \<longrightarrow> x = t_cr3 t) \<longleftrightarrow>
      (\<forall>p. map_of (sites (k_tasks k)) tid = Some p \<longrightarrow> x = pr_cr3 p)" for tid x
    using tmap_sites [of "k_tasks k" tid]
    by (cases "tmap (k_tasks k) tid"; cases "map_of (sites (k_tasks k)) tid") auto
  then show ?thesis by (simp add: settled_def)
qed

lemma settled_tasks: "sites ts = sites (k_tasks k) \<Longrightarrow> settled (k\<lparr>k_tasks := ts\<rparr>) = settled k"
  by (simp add: settled_sites)

lemma settled_upd_task [simp]: "keeps_site f \<Longrightarrow> settled (upd_task tid f k) = settled k"
  unfolding upd_task_def by (rule settled_tasks) simp

lemma map_of_sites_filter:
  "map_of (sites (filter (\<lambda>t. t_id t \<noteq> tid) ts)) x = (if x = tid then None else map_of (sites ts) x)"
  by (induction ts) (auto simp: sites_def)

lemma settled_schedule_reap: "settled k \<Longrightarrow> settled (schedule_reap tid k)"
  by (auto simp: schedule_reap_def settled_sites map_of_sites_filter split: option.splits)

lemma settled_with_task: "with_task tid f k = Some k' \<Longrightarrow> keeps_site f \<Longrightarrow> settled k \<Longrightarrow> settled k'"
  by (auto simp: with_task_def split: option.splits)

lemma settled_fold: "(\<And>x k. settled k \<Longrightarrow> settled (f x k)) \<Longrightarrow> settled k \<Longrightarrow> settled (fold f xs k)"
  by (induction xs arbitrary: k) simp_all

section \<open>Switching\<close>

lemma settles_resume: "settles (resume tid k)"
proof (cases "find_task tid k")
  case (Some t)
  have "sites (k_tasks (upd_task tid (\<lambda>t. t\<lparr>t_state := Running\<rparr>) k)) = sites (k_tasks k)"
    by (simp add: upd_task_def)
  moreover have "map_option pr_cr3 (map_of (sites (k_tasks k)) tid) = Some (t_cr3 t)"
    using Some tmap_sites [of "k_tasks k" tid] by (simp add: find_task_tmap)
  ultimately show ?thesis
    using Some by (auto simp: resume_def Let_def settled_sites set_current_def)
qed (simp add: resume_def)

lemma settles_park_idle: "k_current k = None \<Longrightarrow> settles (park_idle k)"
  by (auto simp: park_idle_def settled_def activate_kernel_space_def split: list.split)

lemma pick_next_current: "pick_next ex k = (r, k') \<Longrightarrow> k_current k' = k_current k"
  by (auto simp: pick_next_def split: prod.splits)

lemma settles_switch_away: "k_current k = None \<Longrightarrow> settles (switch_away k)"
  by (auto simp: switch_away_def intro!: settles_resume settles_park_idle split: prod.split option.split
      dest: pick_next_current)

lemma settles_switch [simp]: "settles (switch_away (set_current None k))"
  by (rule settles_switch_away) (simp add: set_current_def)

lemma settled_pick_next: "pick_next ex k = (r, k') \<Longrightarrow> settled k \<Longrightarrow> settled k'"
  by (auto simp: pick_next_def split: prod.splits)

section \<open>Handlers\<close>

lemma settles_yield: "settled k \<Longrightarrow> settles (yield_task tid fp k)"
  by (auto simp: yield_task_def intro!: settles_bind settles_resume split: prod.split option.split
      dest: settled_pick_next)

lemma settled_wake_expired: "settled k \<Longrightarrow> settled (wake_expired k)"
  by (auto simp: wake_expired_def settled_tasks intro!: settled_fold split: prod.split dest!: sites_wake_loop)

lemma settles_timer: "settled k \<Longrightarrow> settles (timer_trap fp k)"
proof -
  have "settles (maybe_preempt fp k)" if "settled k" for k
    using that
    by (auto simp: maybe_preempt_def Let_def intro!: settles_bind settles_resume split: prod.split option.split
        dest: settled_pick_next)
  then show "settled k \<Longrightarrow> settles (timer_trap fp k)" by (simp add: timer_trap_def settled_wake_expired)
qed

lemma settled_terminate: "terminate_lifecycle tid code k = Some k' \<Longrightarrow> settled k \<Longrightarrow> settled k'"
proof -
  assume t: "terminate_lifecycle tid code k = Some k'" and c: "settled k"
  obtain fate dead ts where d: "die tid code (k_tasks k) = (fate, dead, ts)" by (cases "die tid code (k_tasks k)")
  have "sites ts = sites (k_tasks k)" using d by (auto simp: die_def Let_def sites_orphan split: option.splits)
  then have "settled (k\<lparr>k_tasks := ts\<rparr>)" using c by (simp add: settled_tasks)
  then have "settled (fold schedule_reap dead (k\<lparr>k_tasks := ts\<rparr>))" by (intro settled_fold settled_schedule_reap)
  moreover have "settled (wake_stranded x k1)" if "settled k1" for x k1
    using that by (auto simp: wake_stranded_def split: option.split task_state.split)
  ultimately have "settled (abort_ipc tid (fold schedule_reap dead (k\<lparr>k_tasks := ts\<rparr>)))"
    by (auto simp: abort_ipc_def Let_def intro!: settled_fold)
  then show "settled k'" using t d
    by (auto simp: terminate_lifecycle_def deliver_exit_def Let_def intro!: settled_schedule_reap
        split: fate.splits option.splits)
qed

lemma settles_exit: "settles (exit_task tid code k)"
  by (auto simp: exit_task_def intro!: settles_bind)

lemma settles_kill: "settled k \<Longrightarrow> settles (sys_kill fp tid victim k)"
  by (auto simp: sys_kill_def intro!: settles_bind dest: settled_terminate)

lemma settles_call: "settled k \<Longrightarrow> settles (ipc_call tid fp a k)"
  unfolding ipc_call_def Let_def by (auto intro!: settles_bind split: sum.split)

lemma settles_recv: "settled k \<Longrightarrow> settles (ipc_recv tid fp slot deadline k)"
  by (auto simp: ipc_recv_def Let_def intro!: settles_bind split: sum.split list.split)

lemma settles_reply: "settled k \<Longrightarrow> settles (ipc_reply tid fp a k)"
  by (auto simp: ipc_reply_def Let_def intro!: settles_bind split: sum.split option.split)

lemma settles_sleep: "settled k \<Longrightarrow> settles (sys_sleep tid fp delta k)"
  by (auto simp: sys_sleep_def Let_def intro!: settles_bind)

lemma settled_debug_write: "settled k \<Longrightarrow> settled (sys_debug_write fp tid buf len raw k)"
  by (auto simp: sys_debug_write_def Let_def split: option.split)

lemma settled_set_name: "settled k \<Longrightarrow> settled (sys_set_name fp tid buf len k)"
  by (auto simp: sys_set_name_def set_name_def Let_def split: option.split)

lemma settled_cap_derive: "settled k \<Longrightarrow> settled (sys_cap_derive fp tid a k)"
  by (auto simp: sys_cap_derive_def split: sum.split)

lemma settled_write_sectors: "write_sectors h disk lba n buf k = (r, k') \<Longrightarrow> settled k \<Longrightarrow> settled k'"
  by (auto simp: write_sectors_def split: option.splits prod.splits if_splits)

lemma settled_copy_to_user: "copy_to_user cr3 dst src k = (ok, k') \<Longrightarrow> settled k \<Longrightarrow> settled k'"
  by (auto simp: copy_to_user_def split: if_splits prod.splits)

lemma settled_stats: "settled k \<Longrightarrow> settled (sys_stats pad fp tid buf len k)"
  by (auto simp: sys_stats_def split: prod.splits dest: settled_copy_to_user)

lemma settles_block_io: "settled k \<Longrightarrow> settles (block_io h fp tid a wr k)"
  unfolding block_io_def Let_def
  by (auto split: sum.split option.split prod.split dest: settled_write_sectors settled_copy_to_user)

lemma settled_fill: "fill_from_queue cr3 buf len k = (n, k') \<Longrightarrow> settled k \<Longrightarrow> settled k'"
  by (auto simp: fill_from_queue_def settled_def split: prod.splits)

lemma settles_input_read: "settled k \<Longrightarrow> settles (sys_input_read tid fp a k)"
  by (auto simp: sys_input_read_def Let_def try_read_def request_read_def intro!: settles_bind
      split: option.split prod.split read_outcome.split dest: settled_fill)

lemma settles_fault: "settled k \<Longrightarrow> settles (handle_user_fault fp v k)"
  by (auto simp: handle_user_fault_def intro: settles_exit split: option.split)

lemma settled_scancode: "settled k \<Longrightarrow> settled (on_scancode sc k)"
  by (auto simp: on_scancode_def enqueue_def deliver_to_def Let_def split: option.split list.split prod.split
      dest: settled_fill)

end
