(* ===== verification/Kernel_Mem.thy ===== *)
theory Kernel_Mem
  imports Kernel_Settled Kernel_Run
begin

text \<open>
  Memory and the kernel. \<open>mem_ok\<close> says that the address spaces and kernel stacks of all tasks, and of dead
  tasks waiting for the reaper, own their pages exclusively, and that the active address space is the current
  task's. Every trap keeps this, none panics, and no trap changes the memory of a task other than the one that
  runs.
\<close>

section \<open>Ownership\<close>

definition stack_block :: "pending_reap \<Rightarrow> u64 set" where
  "stack_block p = block (pr_kstack_frames_base p) 8"

definition owned_ok :: "mm \<Rightarrow> u64 \<Rightarrow> pending_reap list \<Rightarrow> bool" where
  "owned_ok m kr os \<longleftrightarrow>
     mm_ok m kr (pr_cr3 ` set os) (\<Union> (stack_block ` set os)) \<and> distinct (map pr_cr3 os) \<and>
     (\<forall>p \<in> set os. kstack_ok (pr_kstack_base_va p) (pr_kstack_frames_base p)) \<and>
     (\<forall>p \<in> set os. \<forall>q \<in> set os. p \<noteq> q \<longrightarrow> stack_block p \<inter> stack_block q = {})"

lemma owned_ok_mset:
  assumes "mset os' = mset os"
  shows "owned_ok m kr os' = owned_ok m kr os"
proof -
  have "set os' = set os" using assms by (rule mset_eq_setD)
  moreover have "mset (map pr_cr3 os') = mset (map pr_cr3 os)" using assms by simp
  then have "distinct (map pr_cr3 os') = distinct (map pr_cr3 os)" by (rule mset_eq_imp_distinct_iff)
  ultimately show ?thesis by (simp add: owned_ok_def)
qed

definition mem_ok :: "u64 \<Rightarrow> kernel_state \<Rightarrow> bool" where
  "mem_ok kr k \<longleftrightarrow> owned_ok (k_mm k) kr (owners k) \<and> settled k"

lemma task_root: "t \<in> set (k_tasks k) \<Longrightarrow> t_cr3 t \<in> pr_cr3 ` set (owners k)"
  by (force simp: owners_def snapshot_def)

lemma owned_ok_step:
  assumes "owned_ok m kr os" and "mm_ok m' kr (pr_cr3 ` set os) (\<Union> (stack_block ` set os))"
  shows "owned_ok m' kr os"
  using assms by (simp add: owned_ok_def)

text \<open>The processor's root may change to any live one.\<close>

lemma mm_ok_same_memory:
  assumes "mm_ok m kr R X" and "same_memory m m'" and "mm_cr3 m' \<in> insert kr R"
  shows "mm_ok m' kr R X"
  using assms by (simp add: mm_ok_def same_memory_def)

section \<open>The reaper\<close>

lemma owned_reclaim:
  assumes "owned_ok m kr (p # os)" and "mm_cr3 m \<noteq> pr_cr3 p"
  shows "\<exists>m'. reclaim p m = Some m' \<and> owned_ok m' kr os \<and> keeps (pr_cr3 ` set os) (mm_mem m) (mm_mem m') \<and>
    mm_cr3 m' = mm_cr3 m"
proof -
  let ?R = "pr_cr3 ` set os" and ?X = "\<Union> (stack_block ` set (p # os))"
  have ok: "mm_ok m kr (insert (pr_cr3 p) ?R) ?X" and d: "pr_cr3 p \<notin> ?R" "distinct (map pr_cr3 os)"
    and ks: "kstack_ok (pr_kstack_base_va p) (pr_kstack_frames_base p)"
    and dj: "\<And>q. q \<in> set os \<Longrightarrow> p \<noteq> q \<Longrightarrow> stack_block p \<inter> stack_block q = {}"
    using assms(1) by (auto simp: owned_ok_def)
  have "kr \<notin> insert (pr_cr3 p) ?R" using space_inv_kr [OF mm_okD(1) [OF ok]] .
  then have nk: "pr_cr3 p \<notin> insert kr ?R" using d(1) by auto
  have c3: "mm_cr3 m \<in> insert kr ?R" using mm_okD(3) [OF ok] assms(2) by blast
  have "block (pr_kstack_frames_base p) 8 \<subseteq> ?X" by (auto simp: stack_block_def)
  from reclaim_ok [OF ok nk c3 ks this] obtain m' where
    m': "reclaim p m = Some m'" "mm_ok m' kr ?R (?X - stack_block p)" "keeps ?R (mm_mem m) (mm_mem m')" "mm_cr3 m' = mm_cr3 m"
    by (auto simp: stack_block_def)
  have "p \<notin> set os" using d(1) by auto
  then have "?X - stack_block p = \<Union> (stack_block ` set os)" using dj by fastforce
  with m'(2) have "owned_ok m' kr os" using assms(1) d(2) by (simp add: owned_ok_def)
  with m' show ?thesis by blast
qed

lemma owned_reclaims:
  assumes "owned_ok m kr (ps @ os)" and "\<forall>p \<in> set ps. mm_cr3 m \<noteq> pr_cr3 p"
  shows "\<exists>m'. ofold reclaim ps m = Some m' \<and> owned_ok m' kr os \<and> keeps (pr_cr3 ` set os) (mm_mem m) (mm_mem m') \<and>
    mm_cr3 m' = mm_cr3 m"
  using assms
proof (induction ps arbitrary: m)
  case Nil
  then show ?case by simp
next
  case (Cons p ps)
  from owned_reclaim [of m kr p "ps @ os"] Cons.prems obtain m1 where
    m1: "reclaim p m = Some m1" "owned_ok m1 kr (ps @ os)" "keeps (pr_cr3 ` set (ps @ os)) (mm_mem m) (mm_mem m1)"
      "mm_cr3 m1 = mm_cr3 m" by auto
  from Cons.IH [OF m1(2)] Cons.prems(2) m1(4) obtain m2 where
    m2: "ofold reclaim ps m1 = Some m2" "owned_ok m2 kr os" "keeps (pr_cr3 ` set os) (mm_mem m1) (mm_mem m2)"
      "mm_cr3 m2 = mm_cr3 m1" by auto
  have "keeps (pr_cr3 ` set os) (mm_mem m) (mm_mem m2)"
    using m1(3) m2(3) by (auto intro: keeps_trans keeps_mono)
  with m1 m2 show ?case by simp
qed

text \<open>The active root is not one that waits for the reaper.\<close>

lemma active_root:
  assumes "mem_ok kr k" and "at_rest k"
  shows "mm_cr3 (k_mm k) \<in> insert kr (t_cr3 ` set (k_tasks k))"
proof (cases "k_current k")
  case None
  with assms(1) show ?thesis by (auto simp: mem_ok_def owned_ok_def mm_ok_def settled_def)
next
  case (Some tid)
  then obtain t where t: "tmap (k_tasks k) tid = Some t" using running [OF assms(2)] by blast
  then have "t \<in> set (k_tasks k)" by (auto simp: tmap_def dest: find_SomeD)
  with Some t assms(1) show ?thesis by (auto simp: mem_ok_def settled_def)
qed

lemma mem_ok_drain:
  assumes "mem_ok kr k" and "at_rest k"
  shows "\<exists>m. drain_reaper k = Some (k\<lparr>k_mm := m, k_reap := []\<rparr>) \<and> mem_ok kr (k\<lparr>k_mm := m, k_reap := []\<rparr>) \<and>
    keeps (t_cr3 ` set (k_tasks k)) (mm_mem (k_mm k)) (mm_mem m)"
proof -
  have o: "owned_ok (k_mm k) kr (k_reap k @ map snapshot (k_tasks k))"
    using assms(1) owned_ok_mset [of "k_reap k @ map snapshot (k_tasks k)" "owners k"]
    by (simp add: mem_ok_def owners_def union_commute)
  have r: "pr_cr3 ` set (map snapshot (k_tasks k)) = t_cr3 ` set (k_tasks k)"
    by (force simp: snapshot_def)
  have "mm_ok (k_mm k) kr (pr_cr3 ` set (owners k)) (\<Union> (stack_block ` set (owners k)))"
    using assms(1) by (simp add: mem_ok_def owned_ok_def)
  from space_inv_kr [OF mm_okD(1) [OF this]] have "kr \<notin> pr_cr3 ` set (owners k)" .
  moreover have "pr_cr3 p \<notin> t_cr3 ` set (k_tasks k)" if "p \<in> set (k_reap k)" for p
    using o that r by (auto simp: owned_ok_def)
  moreover have "pr_cr3 p \<in> pr_cr3 ` set (owners k)" if "p \<in> set (k_reap k)" for p
    using that by (simp add: owners_def)
  ultimately have "\<forall>p \<in> set (k_reap k). mm_cr3 (k_mm k) \<noteq> pr_cr3 p"
    using active_root [OF assms] by (metis insertE)
  from owned_reclaims [OF o this] obtain m where
    m: "ofold reclaim (k_reap k) (k_mm k) = Some m" "owned_ok m kr (map snapshot (k_tasks k))"
      "keeps (t_cr3 ` set (k_tasks k)) (mm_mem (k_mm k)) (mm_mem m)" "mm_cr3 m = mm_cr3 (k_mm k)"
    unfolding r by blast
  have "hd (mm_spaces m) = kr" "hd (mm_spaces (k_mm k)) = kr" "mm_spaces (k_mm k) \<noteq> []"
    using m(2) o by (auto simp: owned_ok_def mm_ok_def)
  then have "settled (k\<lparr>k_mm := m, k_reap := []\<rparr>)" using assms(1) m(4) by (auto simp: mem_ok_def settled_def)
  with m show ?thesis by (intro exI [of _ m]) (simp add: drain_reaper_def mem_ok_def owners_def)
qed

section \<open>Other tasks\<close>

text \<open>Tasks that survive keep their address space; outside \<open>A\<close> its contents are untouched.\<close>

definition spares :: "usize set \<Rightarrow> kernel_state \<Rightarrow> kernel_state \<Rightarrow> bool" where
  "spares A k k' \<longleftrightarrow>
     (\<forall>t \<in> set (k_tasks k). \<forall>t' \<in> set (k_tasks k'). t_id t' = t_id t \<longrightarrow>
        t_cr3 t' = t_cr3 t \<and> (t_id t \<notin> A \<longrightarrow> keeps {t_cr3 t} (mm_mem (k_mm k)) (mm_mem (k_mm k'))))"

lemma spares_mono: "spares A k k' \<Longrightarrow> A \<subseteq> B \<Longrightarrow> spares B k k'"
  by (auto simp: spares_def)

lemma site_mem: "t \<in> set ts \<longleftrightarrow> t \<in> set ts \<and> (t_id t, snapshot t) \<in> set (sites ts)"
  by (auto simp: sites_def)

lemma still_site:
  assumes "still k k'" and "ids_distinct k" and "t \<in> set (k_tasks k)" and "t' \<in> set (k_tasks k')" and "t_id t' = t_id t"
  shows "snapshot t' = snapshot t"
proof -
  have "(t_id t', snapshot t') \<in> set (sites (k_tasks k))" 
    using assms(1,4) unfolding still_def sites_def using assms(2) by (force simp: image_subset_iff)
  then obtain u where u: "u \<in> set (k_tasks k)" "t_id u = t_id t'" "snapshot u = snapshot t'" by (auto simp: sites_def)
  with assms(2,3,5) have "u = t" by (auto simp: ids_distinct_def distinct_map inj_on_def)
  with u show ?thesis by simp
qed

lemma rest_distinct: "at_rest k \<Longrightarrow> ids_distinct k"
  by (simp add: at_rest_def ids_ok_def ids_distinct_def)

lemma still_spares: "still k k' \<Longrightarrow> ids_distinct k \<Longrightarrow> spares {} k k'"
  unfolding spares_def
proof (intro ballI impI)
  fix t t' assume a: "still k k'" "ids_distinct k" "t \<in> set (k_tasks k)" "t' \<in> set (k_tasks k')" "t_id t' = t_id t"
  have "t_cr3 t' = t_cr3 t" using arg_cong [OF still_site [OF a], of pr_cr3] by (simp add: snapshot_def)
  with a(1) show "t_cr3 t' = t_cr3 t \<and> (t_id t \<notin> {} \<longrightarrow> keeps {t_cr3 t} (mm_mem (k_mm k)) (mm_mem (k_mm k')))"
    by (simp add: still_def same_memory_def)
qed

lemma still_mem_ok:
  assumes "mem_ok kr k" and "ids_distinct k" and "still k k'" and "settled k'" and "at_rest k'"
  shows "mem_ok kr k'"
proof -
  have ms: "mset (owners k') = mset (owners k)" and sm: "same_memory (k_mm k) (k_mm k')"
    using assms(2,3) by (simp_all add: still_def)
  have o: "owned_ok (k_mm k) kr (owners k')" using assms(1) owned_ok_mset [OF ms] by (simp add: mem_ok_def)
  then have ok: "mm_ok (k_mm k) kr (pr_cr3 ` set (owners k')) (\<Union> (stack_block ` set (owners k')))"
    by (simp add: owned_ok_def)
  have "mm_cr3 (k_mm k') \<in> insert kr (pr_cr3 ` set (owners k'))"
  proof (cases "k_current k'")
    case None
    with assms(4) ok sm show ?thesis by (auto simp: settled_def mm_ok_def same_memory_def)
  next
    case (Some tid)
    then obtain t where t: "tmap (k_tasks k') tid = Some t" using running [OF assms(5)] by blast
    then have "t \<in> set (k_tasks k')" by (auto simp: tmap_def dest: find_SomeD)
    with Some t assms(4) task_root show ?thesis by (auto simp: settled_def)
  qed
  from mm_ok_same_memory [OF ok sm this] owned_ok_step [OF o] assms(4) show ?thesis by (simp add: mem_ok_def)
qed

section \<open>Writes to the current space\<close>

lemma mem_okD:
  assumes "mem_ok kr k"
  shows "mm_ok (k_mm k) kr (pr_cr3 ` set (owners k)) (\<Union> (stack_block ` set (owners k)))" and "settled k"
    and "minv (k_mm k) kr (pr_cr3 ` set (owners k)) (\<Union> (stack_block ` set (owners k)))"
    and "distinct (map t_cr3 (k_tasks k))"
proof -
  show ok: "mm_ok (k_mm k) kr (pr_cr3 ` set (owners k)) (\<Union> (stack_block ` set (owners k)))" and "settled k"
    using assms by (simp_all add: mem_ok_def owned_ok_def)
  show "minv (k_mm k) kr (pr_cr3 ` set (owners k)) (\<Union> (stack_block ` set (owners k)))" by (rule mm_okD(1) [OF ok])
  have "distinct (map pr_cr3 (map snapshot (k_tasks k)))" using assms by (simp add: mem_ok_def owned_ok_def owners_def)
  then show "distinct (map t_cr3 (k_tasks k))" by (simp add: comp_def snapshot_def)
qed

lemma settled_mm: "settled k \<Longrightarrow> same_regs (k_mm k) m \<Longrightarrow> settled (k\<lparr>k_mm := m\<rparr>)"
  by (auto simp: settled_def same_regs_def)

text \<open>A change within the space of task \<open>t\<close> spares every other task.\<close>

lemma own_space:
  assumes "mem_ok kr k" and "t \<in> set (k_tasks k)"
    and "within_space kr (pr_cr3 ` set (owners k)) (\<Union> (stack_block ` set (owners k))) (t_cr3 t) (k_mm k) m"
  shows "mem_ok kr (k\<lparr>k_mm := m\<rparr>)"
    and "ids_distinct k \<Longrightarrow> spares {t_id t} k (k\<lparr>k_mm := m\<rparr>)"
proof -
  note inv = mem_okD [OF assms(1)]
  have sr: "same_regs (k_mm k) m" and ke: "keeps (pr_cr3 ` set (owners k) - {t_cr3 t}) (mm_mem (k_mm k)) (mm_mem m)"
    using assms(3) by (simp_all add: within_space_def)
  have "mm_ok m kr (pr_cr3 ` set (owners k)) (\<Union> (stack_block ` set (owners k)))"
    by (rule mm_ok_regs [OF inv(1) sr within_space_inv [OF assms(3)]])
  then have "owned_ok m kr (owners k)" using assms(1) by (simp add: mem_ok_def owned_ok_def)
  then show "mem_ok kr (k\<lparr>k_mm := m\<rparr>)"
    using settled_mm [OF inv(2) sr] by (simp add: mem_ok_def owners_def)
  show "spares {t_id t} k (k\<lparr>k_mm := m\<rparr>)" if "ids_distinct k"
    unfolding spares_def
  proof (intro ballI impI)
    fix u u' assume u: "u \<in> set (k_tasks k)" "u' \<in> set (k_tasks (k\<lparr>k_mm := m\<rparr>))" "t_id u' = t_id u"
    then have "u' = u" using that by (auto simp: ids_distinct_def distinct_map inj_on_def)
    moreover have "keeps {t_cr3 u} (mm_mem (k_mm k)) (mm_mem m)" if "t_id u \<noteq> t_id t"
    proof -
      have "t_cr3 u \<noteq> t_cr3 t" using inv(4) u(1) assms(2) that by (auto simp: distinct_map inj_on_def)
      with task_root [OF u(1)] show ?thesis by (intro keeps_mono [OF ke]) auto
    qed
    ultimately show "t_cr3 u' = t_cr3 u \<and> (t_id u \<notin> {t_id t} \<longrightarrow> keeps {t_cr3 u} (mm_mem (k_mm k)) (mm_mem (k_mm (k\<lparr>k_mm := m\<rparr>))))"
      by simp
  qed
qed

lemma user_range_low: "user_range_valid va n \<Longrightarrow> unat va + unat n \<le> 2 ^ 39"
  using checked_add_SomeD(2) [of va n]
  by (auto simp: user_range_valid_def consts_def word_le_nat_alt split: option.splits)

lemma fill_user:
  assumes "minv m kr R X" and "s \<in> R" and "user_range_valid buf len"
    and "fill s buf len w q (mm_mem m) = (n, q', mem')"
  shows "within_space kr R X s m (m\<lparr>mm_mem := mem'\<rparr>)"
  using assms(1,4)
proof (induction q arbitrary: w m)
  case Nil
  then show ?case by (simp add: within_space_def)
next
  case (Cons b q)
  show ?case
  proof (cases "w < len \<and> translate (mm_mem m) s (buf + w) \<noteq> None")
    case False
    with Cons.prems show ?thesis by (auto simp: within_space_def split: if_splits option.splits)
  next
    case True
    then obtain pa where pa: "w < len" "translate (mm_mem m) s (buf + w) = Some pa" by auto
    have "unat (buf + w) \<le> unat buf + unat w" by (simp add: unat_word_ariths)
    moreover have "unat w < unat len" using pa(1) by (simp add: word_less_nat_alt)
    ultimately have "p4_index (buf + w) = 0" using user_range_low [OF assms(3)] by (intro low_p4) linarith
    note w = write_byte_user(1) [OF Cons.prems(1) assms(2) this pa(2), of b]
    have "fill s buf len (w + 1) q (mm_mem (m\<lparr>mm_mem := write_byte pa b (mm_mem m)\<rparr>)) = (n, q', mem')"
      using Cons.prems(2) pa by simp
    from within_space_trans [OF w Cons.IH [OF within_space_inv [OF w] this]] show ?thesis by simp
  qed
qed

end
