(* ===== verification/Kernel_Guard.thy ===== *)
theory Kernel_Guard
  imports Kernel_Mem
begin

text \<open>
  Every handler keeps the ownership of memory and spares the memory of the tasks that do not run. Handlers that
  touch memory at all write into the buffers of the running task, build the space of a child or take down the
  space of a dead one.
\<close>

section \<open>Guarded results\<close>

definition guarded :: "u64 \<Rightarrow> kernel_state \<Rightarrow> kernel_state \<Rightarrow> bool" where
  "guarded kr k k' \<longleftrightarrow> (at_rest k' \<longrightarrow> mem_ok kr k' \<and> spares (set_option (k_current k)) k k')"

definition guards :: "u64 \<Rightarrow> kernel_state \<Rightarrow> (cpu \<times> kernel_state) option \<Rightarrow> bool" where
  "guards kr k r \<longleftrightarrow> (\<forall>c k'. r = Some (c, k') \<longrightarrow> guarded kr k k')"

lemma mem_ok_simps [simp]:
  "mem_ok kr (k\<lparr>k_frames := fs\<rparr>) = mem_ok kr k" "mem_ok kr (k\<lparr>k_input := i\<rparr>) = mem_ok kr k"
  "mem_ok kr (k\<lparr>k_input := i, k_mm := m\<rparr>) = mem_ok kr (k\<lparr>k_mm := m\<rparr>)"
  by (simp_all add: mem_ok_def owners_def settled_def)

lemma spares_simps [simp]:
  "spares A k (k'\<lparr>k_frames := fs\<rparr>) = spares A k k'" "spares A k (k'\<lparr>k_input := i\<rparr>) = spares A k k'"
  "spares A k (k'\<lparr>k_input := i, k_mm := m\<rparr>) = spares A k (k'\<lparr>k_mm := m\<rparr>)"
  by (simp_all add: spares_def)

lemma spares_refl [simp]: "ids_distinct k \<Longrightarrow> spares A k k"
  using spares_mono [OF still_spares [OF still_refl]] by simp

lemma guarded_simps [simp]:
  "guarded kr k (set_frame a f k') = guarded kr k k'" "guarded kr k (set_rax a v k') = guarded kr k k'"
  by (simp_all add: guarded_def set_rax_def set_frame_def at_rest_def)

lemma guards_simps [simp]:
  "guards kr k None" "guards kr k (Some (c, k')) = guarded kr k k'" "guards kr k (ret fp v k') = guarded kr k k'"
  "guards kr k (stay fp k') = guarded kr k k'"
  by (simp_all add: guards_def ret_def stay_def)

lemma guarded_still:
  assumes "mem_ok kr k" and "at_rest k" and "still k k'" and "settled k'"
  shows "guarded kr k k'"
  using still_mem_ok [OF assms(1) rest_distinct [OF assms(2)] assms(3,4)]
    spares_mono [OF still_spares [OF assms(3) rest_distinct [OF assms(2)]]]
  by (simp add: guarded_def)

lemma guarded_refl: "mem_ok kr k \<Longrightarrow> at_rest k \<Longrightarrow> guarded kr k k"
  by (simp add: guarded_still mem_okD(2))

lemma guards_still:
  "mem_ok kr k \<Longrightarrow> at_rest k \<Longrightarrow> still_result k r \<Longrightarrow> settles r \<Longrightarrow> guards kr k r"
  by (auto simp: guards_def still_result_def settles_def intro: guarded_still)

section \<open>Buffers of the running task\<close>

lemma running_task:
  assumes "at_rest k" and "k_current k = Some tid"
  obtains t where "tmap (k_tasks k) tid = Some t" and "t \<in> set (k_tasks k)" and "t_id t = tid"
proof -
  obtain t where "tmap (k_tasks k) tid = Some t" using running [OF assms] by blast
  moreover from this have "t \<in> set (k_tasks k)" "t_id t = tid" by (auto simp: tmap_def dest: find_SomeD)
  ultimately show ?thesis by (rule that)
qed

lemma running_root: "mem_ok kr k \<Longrightarrow> k_current k = Some tid \<Longrightarrow> tmap (k_tasks k) tid = Some t \<Longrightarrow> current_cr3 k = t_cr3 t"
  by (auto simp: mem_ok_def settled_def)

lemma guarded_own:
  assumes "mem_ok kr k" and "at_rest k" and "k_current k = Some tid" and "tmap (k_tasks k) tid = Some t"
    and "within_space kr (pr_cr3 ` set (owners k)) (\<Union> (stack_block ` set (owners k))) (t_cr3 t) (k_mm k) m"
  shows "guarded kr k (k\<lparr>k_mm := m\<rparr>)"
proof -
  have "t \<in> set (k_tasks k)" "t_id t = tid" using assms(4) by (auto simp: tmap_def dest: find_SomeD)
  with own_space [OF assms(1) _ assms(5)] rest_distinct [OF assms(2)] assms(3) show ?thesis by (simp add: guarded_def)
qed

lemma guarded_copy:
  assumes "mem_ok kr k" and "at_rest k" and "k_current k = Some tid" and "length src < 2 ^ 64"
    and "copy_to_user (current_cr3 k) dst src k = (ok, k')"
  shows "guarded kr k k'"
proof (cases "user_range_valid dst (of_nat (length src))")
  case False
  with assms(5) guarded_refl [OF assms(1,2)] show ?thesis by (simp add: copy_to_user_def)
next
  case True
  obtain t where t: "tmap (k_tasks k) tid = Some t" "t \<in> set (k_tasks k)" using running_task [OF assms(2,3)] by blast
  note root = running_root [OF assms(1,3) t(1)]
  obtain mem where w: "write_through (t_cr3 t) dst src (mm_mem (k_mm k)) = (ok, mem)"
    and k': "k' = k\<lparr>k_mm := (k_mm k)\<lparr>mm_mem := mem\<rparr>\<rparr>"
    using assms(5) True by (auto simp: copy_to_user_def root split: prod.splits)
  have "unat (of_nat (length src) :: u64) = length src" using assms(4) by (simp add: unat_of_nat)
  with user_range_low [OF True] have "unat dst + length src \<le> 2 ^ 39" by simp
  from guarded_own [OF assms(1-3) t(1) write_through_user(1) [OF mem_okD(3) [OF assms(1)] task_root [OF t(2)] this w]]
  show ?thesis by (simp add: k')
qed

lemma guarded_fill:
  assumes "mem_ok kr k" and "at_rest k" and "k_current k = Some tid" and "tmap (k_tasks k) tid = Some t"
    and "user_range_valid buf len" and "fill_from_queue (t_cr3 t) buf len k = (n, k')"
  shows "guarded kr k k'"
proof -
  obtain q mem where f: "fill (t_cr3 t) buf len 0 (in_queue (k_input k)) (mm_mem (k_mm k)) = (n, q, mem)"
    and k': "k' = k\<lparr>k_input := (k_input k)\<lparr>in_queue := q\<rparr>, k_mm := (k_mm k)\<lparr>mm_mem := mem\<rparr>\<rparr>"
    using assms(6) by (auto simp: fill_from_queue_def split: prod.splits)
  have "t \<in> set (k_tasks k)" using assms(4) by (auto simp: tmap_def dest: find_SomeD)
  note own = own_space [OF assms(1) this fill_user [OF mem_okD(3) [OF assms(1)] task_root [OF this] assms(5) f]]
  have "t_id t = tid" using assms(4) by (auto simp: tmap_def dest: find_SomeD)
  with own rest_distinct [OF assms(2)] assms(3) show ?thesis by (simp add: guarded_def k')
qed

lemma guards_stats:
  assumes "mem_ok kr k" and "at_rest k" and "k_current k = Some tid"
  shows "guarded kr k (sys_stats pad fp tid buf len k)"
proof -
  have "length (sys_stats_bytes pad tid k) < 2 ^ 64" by (simp add: sys_stats_bytes_def)
  with guarded_copy [OF assms] guarded_refl [OF assms(1,2)] show ?thesis
    by (simp add: sys_stats_def split: prod.split)
qed

lemma guards_input_read:
  assumes "mem_ok kr k" and "at_rest k" and "k_current k = Some tid"
  shows "guards kr k (sys_input_read tid fp a k)"
proof -
  obtain t where t: "tmap (k_tasks k) tid = Some t" using running_task [OF assms(2,3)] by blast
  have f: "guarded kr k k'" if "user_range_valid buf len" "fill_from_queue (t_cr3 t) buf len k = (n, k')" for buf len n k'
    using guarded_fill [OF assms t that] .
  show ?thesis
  proof (cases "(a ! 2) AND INPUT_NOHANG \<noteq> 0")
    case True
    with t f guarded_refl [OF assms(1,2)] show ?thesis
      by (auto simp: sys_input_read_def find_task_tmap try_read_def Let_def split: prod.split option.split)
  next
    case False
    show ?thesis
    proof (cases "fst (request_read tid (t_cr3 t) (a ! 0) (min (a ! 1) 512) k)")
      case (Served n)
      with t f False show ?thesis
        by (auto simp: sys_input_read_def find_task_tmap request_read_def Let_def split: prod.splits if_splits)
    next
      case Parked
      then obtain i where i: "request_read tid (t_cr3 t) (a ! 0) (min (a ! 1) 512) k = (Parked, k\<lparr>k_input := i\<rparr>)"
        by (auto simp: request_read_def split: prod.splits if_splits)
      have "still_result k (sys_input_read tid fp a k)" using t i False
        by (auto simp: sys_input_read_def find_task_tmap Let_def intro!: still_result_bind still_switch_away
            dest!: still_with_task)
      then show ?thesis using settles_input_read mem_okD(2) [OF assms(1)] guards_still [OF assms(1,2)] by blast
    next
      case BadArgs
      with t False guarded_refl [OF assms(1,2)] show ?thesis
        by (auto simp: sys_input_read_def find_task_tmap request_read_def Let_def split: prod.splits if_splits)
    qed
  qed
qed

text \<open>Sectors are 512 bytes.\<close>

definition full_sectors :: "kernel_state \<Rightarrow> bool" where
  "full_sectors k \<longleftrightarrow> (\<forall>disk d lba. with_drive disk k = Some d \<longrightarrow> length (dr_data d lba) = 512)"

lemma full_sectors_effect:
  assumes "full_sectors k" and "effect k k'"
  shows "full_sectors k'"
  unfolding full_sectors_def
proof (intro allI impI)
  fix disk d lba assume d: "with_drive disk k' = Some d"
  have "drive_effect (may_write k disk) (with_drive disk k) (Some d)" using assms(2) d by (metis effect_def)
  then obtain d0 where "with_drive disk k = Some d0" "dr_data d lba = dr_data d0 lba \<or> length (dr_data d lba) = 512"
    by (cases "with_drive disk k") auto
  with assms(1) show "length (dr_data d lba) = 512" by (auto simp: full_sectors_def)
qed

lemma length_read_sectors:
  assumes "full_sectors k" and "read_sectors h disk lba cnt n k = Inr data"
  shows "length data = 512 * unat cnt"
proof -
  obtain d where d: "with_drive disk k = Some d" "data = concat (map (\<lambda>s. dr_data d (lba + of_nat s)) [0..<unat cnt])"
    using assms(2) by (auto simp: read_sectors_def drive_read_def split: option.splits if_splits sum.splits)
  have "map (\<lambda>s. length (dr_data d (lba + of_nat s))) [0..<unat cnt] = replicate (unat cnt) 512"
    using assms(1) d(1) by (simp add: full_sectors_def map_replicate_const)
  then show ?thesis by (simp add: d(2) length_concat comp_def sum_list_replicate)
qed

lemma guards_block_io:
  assumes "mem_ok kr k" and "at_rest k" and "k_current k = Some tid" and "full_sectors k"
  shows "guards kr k (block_io h fp tid a wr k)"
proof -
  have c: "guarded kr k k'" if "read_sectors h disk lba (ucast (a ! 2)) n k = Inr data"
    "copy_to_user (current_cr3 k) dst data k = (ok, k')" for disk lba n data dst ok k'
  proof -
    have "unat (ucast (a ! 2) :: u16) < 2 ^ 16" using unsigned_less [of "ucast (a ! 2) :: u16"] by simp
    then have "length data < 2 ^ 64" using length_read_sectors [OF assms(4) that(1)] by simp
    from guarded_copy [OF assms(1-3) this that(2)] show ?thesis .
  qed
  have w: "guarded kr k k'" if "write_sectors h disk lba n buf k = (r, k')" for disk lba n buf r k'
    using guarded_still [OF assms(1,2) still_write_sectors [OF that] settled_write_sectors [OF that mem_okD(2) [OF assms(1)]]] .
  show ?thesis using c w guarded_refl [OF assms(1,2)] unfolding block_io_def Let_def
    by (auto split: if_split sum.split option.split prod.split)
qed

end
