(* ===== verification/Kernel_Life_Mem.thy ===== *)
theory Kernel_Life_Mem
  imports Kernel_Guard
begin

text \<open>Address spaces come and go: collecting a dead child and spawning a new one.\<close>

section \<open>Collecting a child\<close>

lemma owners_split:
  assumes "ids_distinct k" and "z \<in> set (k_tasks k)"
  shows "mset (owners k) = mset (snapshot z # owners (k\<lparr>k_tasks := filter (\<lambda>t. t_id t \<noteq> t_id z) (k_tasks k)\<rparr>))"
proof -
  have d: "distinct (map t_id (k_tasks k))" using assms(1) by (simp add: ids_distinct_def)
  have "tmap (k_tasks k) (t_id z) = Some z" using tmap_mem [OF d] assms(2) by simp
  then have "mset (k_tasks k) = add_mset z (mset (filter (\<lambda>t. t_id t \<noteq> t_id z) (k_tasks k)))"
    using mset_filter_one [OF d, of "t_id z" z] by (simp only: tmap_def)
  from arg_cong [OF this, of "image_mset snapshot"] show ?thesis by (simp add: owners_def)
qed

lemma reap_mem:
  assumes "mem_ok kr k" and "at_rest k" and "k_current k = Some tid" and "z \<in> set (k_tasks k)" and "t_id z \<noteq> tid"
  shows "\<exists>m. reclaim (snapshot z) (k_mm k) = Some m \<and>
    guarded kr k (k\<lparr>k_tasks := filter (\<lambda>t. t_id t \<noteq> t_id z) (k_tasks k), k_mm := m\<rparr>)"
proof -
  let ?ts = "filter (\<lambda>t. t_id t \<noteq> t_id z) (k_tasks k)"
  let ?k = "k\<lparr>k_tasks := ?ts\<rparr>"
  obtain t where t: "tmap (k_tasks k) tid = Some t" "t \<in> set (k_tasks k)" "t_id t = tid"
    using running_task [OF assms(2,3)] by blast
  have d: "ids_distinct k" by (rule rest_distinct [OF assms(2)])
  have o: "owned_ok (k_mm k) kr (snapshot z # owners ?k)"
    using assms(1) owned_ok_mset [OF owners_split [OF d assms(4)]] by (simp add: mem_ok_def)
  have c3: "current_cr3 k = t_cr3 t" by (rule running_root [OF assms(1,3) t(1)])
  have "t_cr3 t \<noteq> t_cr3 z" using mem_okD(4) [OF assms(1)] t(2,3) assms(4,5) by (auto simp: distinct_map inj_on_def)
  with c3 have "mm_cr3 (k_mm k) \<noteq> pr_cr3 (snapshot z)" by (simp add: snapshot_def)
  from owned_reclaim [OF o this] obtain m where m: "reclaim (snapshot z) (k_mm k) = Some m" "owned_ok m kr (owners ?k)"
    "keeps (pr_cr3 ` set (owners ?k)) (mm_mem (k_mm k)) (mm_mem m)" "mm_cr3 m = mm_cr3 (k_mm k)" by blast
  have "tmap ?ts tid = Some t" using t(1) assms(5) by (simp add: tmap_filter)
  then have "settled (?k\<lparr>k_mm := m\<rparr>)" using assms(3) m(4) c3 by (simp add: settled_def)
  with m(2) have "mem_ok kr (?k\<lparr>k_mm := m\<rparr>)" by (simp add: mem_ok_def owners_def)
  moreover have "keeps {t_cr3 u} (mm_mem (k_mm k)) (mm_mem m)" if "u \<in> set ?ts" for u
    using keeps_mono [OF m(3), of "{t_cr3 u}"] task_root [of u ?k] that by simp
  then have "spares A k (?k\<lparr>k_mm := m\<rparr>)" for A
    using d by (fastforce simp: spares_def ids_distinct_def distinct_map inj_on_def)
  ultimately show ?thesis using m(1) by (intro exI [of _ m]) (simp add: guarded_def)
qed

lemma guards_wait:
  assumes "mem_ok kr k" and "at_rest k" and "k_current k = Some tid"
  shows "guards kr k (sys_wait tid fp flags k)"
proof (cases "find (\<lambda>t. t_parent t = Some tid \<and> is_zombie (t_state t)) (k_tasks k)")
  case None
  then have "still_result k (sys_wait tid fp flags k)"
    by (auto simp: sys_wait_def intro!: still_result_bind still_switch_away dest!: still_with_task)
  moreover have "settles (sys_wait tid fp flags k)" using None mem_okD(2) [OF assms(1)]
    by (auto simp: sys_wait_def intro!: settles_bind)
  ultimately show ?thesis by (rule guards_still [OF assms(1,2)])
next
  case (Some z)
  have d: "distinct (map t_id (k_tasks k))" using rest_distinct [OF assms(2)] by (simp add: ids_distinct_def)
  from find_tmap(1) [OF d Some] have z: "tmap (k_tasks k) (t_id z) = Some z" "is_zombie (t_state z)" by auto
  then have zt: "z \<in> set (k_tasks k)" by (auto simp: tmap_def dest: find_SomeD)
  obtain code where code: "t_state z = Zombie code" using z(2) by (cases "t_state z") auto
  have "t_id z \<noteq> tid" using running [OF assms(2,3)] z(1) code by auto
  from reap_mem [OF assms zt this] obtain m where m: "reclaim (snapshot z) (k_mm k) = Some m"
    "guarded kr k (k\<lparr>k_tasks := filter (\<lambda>t. t_id t \<noteq> t_id z) (k_tasks k), k_mm := m\<rparr>)" by blast
  then have "reap_zombie (t_id z) k = Some (Some code, k\<lparr>k_tasks := filter (\<lambda>t. t_id t \<noteq> t_id z) (k_tasks k), k_mm := m\<rparr>)"
    using z(1) code by (simp add: reap_zombie_def find_task_tmap remove_first_tmap [OF d])
  with Some m(2) show ?thesis by (simp add: sys_wait_def)
qed

section \<open>Spawning a child\<close>

text \<open>A child's memory next to everybody else's.\<close>

lemma settled_owned:
  assumes "owned_ok (k_mm k) kr os"
  shows "settled k \<longleftrightarrow> (k_current k = None \<longrightarrow> current_cr3 k = kr) \<and>
    (\<forall>tid t. k_current k = Some tid \<longrightarrow> tmap (k_tasks k) tid = Some t \<longrightarrow> current_cr3 k = t_cr3 t)"
  using assms by (auto simp: settled_def owned_ok_def mm_ok_def)

lemma mem_ok_spawn:
  assumes "mem_ok kr k" and "at_rest k" and "t_id t \<notin> t_id ` set (k_tasks k)"
    and "s \<notin> insert kr (pr_cr3 ` set (owners k))" and "snapshot t = \<lparr>pr_cr3 = s, pr_kstack_base_va = va, pr_kstack_frames_base = fb\<rparr>"
    and "mm_ok m kr (insert s (pr_cr3 ` set (owners k))) (\<Union> (stack_block ` set (owners k)) \<union> block fb 8)"
    and "\<Union> (stack_block ` set (owners k)) \<inter> block fb 8 = {}" and "kstack_ok va fb" and "mm_cr3 m = current_cr3 k"
    and "k_tasks k' = k_tasks k @ [t]" and "k_reap k' = k_reap k" and "k_mm k' = m" and "k_current k' = k_current k"
  shows "mem_ok kr k'"
proof -
  have ms: "mset (owners k') = mset (snapshot t # owners k)" using assms(10,11) by (simp add: owners_def)
  have sb: "stack_block (snapshot t) = block fb 8" and cr: "pr_cr3 (snapshot t) = s" using assms(5) by (simp_all add: stack_block_def)
  have "owned_ok m kr (snapshot t # owners k)"
    using assms(1,4,6-8) sb cr by (auto simp: mem_ok_def owned_ok_def assms(5) Un_commute)
  then have o: "owned_ok (k_mm k') kr (owners k')" using owned_ok_mset [OF ms] assms(12) by simp
  have "tmap (k_tasks k @ [t]) tid = tmap (k_tasks k) tid" if "k_current k = Some tid" for tid
    using running_task [OF assms(2) that] assms(3) by (metis fun_upd_other image_eqI tmap_snoc)
  moreover have "settled k" "owned_ok (k_mm k) kr (owners k)" using assms(1) by (simp_all add: mem_ok_def)
  ultimately have "settled k'" unfolding settled_owned [OF o]
    using assms(9,10,12,13) settled_owned [of k] by simp
  with o show ?thesis by (simp add: mem_ok_def)
qed

lemma alloc_kstack_mem:
  assumes "mm_ok (k_mm k) kr R X"
  shows "\<exists>r m. alloc_kstack k = Some (r, k\<lparr>k_next_kslot := k_next_kslot k + 1, k_mm := m\<rparr>) \<and>
    keeps R (mm_mem (k_mm k)) (mm_mem m) \<and> mm_cr3 m = current_cr3 k \<and>
    (case r of None \<Rightarrow> mm_ok m kr R X
     | Some (tp, frames) \<Rightarrow> mm_ok m kr R (X \<union> block frames 8) \<and> X \<inter> block frames 8 = {} \<and>
         kstack_ok (tp - KSTACK_PAGES * 4096) frames)"
proof (cases "k_next_kslot k \<ge> 4096")
  case True
  then show ?thesis using assms by (intro exI [of _ None] exI [of _ "k_mm k"]) (simp add: alloc_kstack_def Let_def)
next
  case False
  from kstack_slot_ok [OF assms, of "k_next_kslot k"] obtain r m where
    m: "kstack_slot (k_next_kslot k) (k_mm k) = Some (r, m)" "keeps R (mm_mem (k_mm k)) (mm_mem m)" "mm_cr3 m = current_cr3 k"
      "case r of None \<Rightarrow> mm_ok m kr R X
       | Some (tp, frames) \<Rightarrow> mm_ok m kr R (X \<union> block frames 8) \<and> X \<inter> block frames 8 = {} \<and> kstack_ok (tp - KSTACK_PAGES * 4096) frames"
    by blast
  with False show ?thesis by (intro exI [of _ r] exI [of _ m]) (simp add: alloc_kstack_def Let_def set_mm_def)
qed

text \<open>The state after a failed spawn: only memory and the slot counter may differ.\<close>

lemma guarded_mm:
  assumes "mem_ok kr k" and "at_rest k" and "mm_ok m kr (pr_cr3 ` set (owners k)) (\<Union> (stack_block ` set (owners k)))"
    and "mm_cr3 m = current_cr3 k" and "keeps (pr_cr3 ` set (owners k)) (mm_mem (k_mm k)) (mm_mem m)"
    and "k_tasks k' = k_tasks k" and "k_reap k' = k_reap k" and "k_mm k' = m" and "k_current k' = k_current k"
  shows "guarded kr k k'"
proof -
  have "owners k' = owners k" using assms(6,7) by (simp add: owners_def)
  then have o: "owned_ok (k_mm k') kr (owners k')" using assms(1,3,8) by (auto simp: mem_ok_def intro: owned_ok_step)
  moreover have "settled k" "owned_ok (k_mm k) kr (owners k)" using assms(1) by (simp_all add: mem_ok_def)
  then have "settled k'" unfolding settled_owned [OF o] using assms(4,6,8,9) settled_owned [of k] by simp
  ultimately have "mem_ok kr k'" by (simp add: mem_ok_def)
  moreover have "keeps {t_cr3 t} (mm_mem (k_mm k)) (mm_mem m)" if "t \<in> set (k_tasks k)" for t
    using keeps_mono [OF assms(5)] task_root [OF that] by simp
  then have "spares A k k'" for A using rest_distinct [OF assms(2)] assms(6,8)
    by (fastforce simp: spares_def ids_distinct_def distinct_map inj_on_def)
  ultimately show ?thesis by (simp add: guarded_def)
qed

lemma spares_spawn:
  assumes "at_rest k" and "k_tasks k' = k_tasks k @ [t]" and "t_id t = k_next_tid k"
    and "keeps (pr_cr3 ` set (owners k)) (mm_mem (k_mm k)) (mm_mem (k_mm k'))"
  shows "spares A k k'"
  unfolding spares_def
proof (intro ballI impI)
  fix u u' assume u: "u \<in> set (k_tasks k)" "u' \<in> set (k_tasks k')" "t_id u' = t_id u"
  have "t_id u < k_next_tid k" using assms(1) u(1) by (auto simp: at_rest_def ids_ok_def)
  then have "u' \<in> set (k_tasks k)" using u(2,3) assms(2,3) by auto
  then have "u' = u" using u rest_distinct [OF assms(1)] by (auto simp: ids_distinct_def distinct_map inj_on_def)
  with keeps_mono [OF assms(4)] task_root [OF u(1)]
  show "t_cr3 u' = t_cr3 u \<and> (t_id u \<notin> A \<longrightarrow> keeps {t_cr3 u} (mm_mem (k_mm k)) (mm_mem (k_mm k')))" by simp
qed

lemma spawn_user_mem:
  assumes "mem_ok kr k" and "at_rest k" and "length elf < 2 ^ 63"
  shows "\<exists>r k'. spawn_user elf name cs parent k = Some (r, k') \<and> guarded kr k k'"
proof -
  define R where "R = pr_cr3 ` set (owners k)"
  define X where "X = \<Union> (stack_block ` set (owners k))"
  have ok: "mm_ok (k_mm k) kr R X" using mem_okD(1) [OF assms(1)] by (simp add: R_def X_def)
  note quit = guarded_mm [OF assms(1,2), folded R_def X_def]
  from spawn_space_ok [OF ok assms(3)] obtain sp m where
    sp: "spawn_space elf (k_mm k) = Some (sp, m)" "keeps R (mm_mem (k_mm k)) (mm_mem m)" "mm_cr3 m = current_cr3 k"
      "case sp of None \<Rightarrow> mm_ok m kr R X | Some (s, entry, pages) \<Rightarrow> s \<notin> insert kr R \<and> mm_ok m kr (insert s R) X" by blast
  show ?thesis
  proof (cases sp)
    case None
    with sp quit [of m "set_mm m k"] show ?thesis by (simp add: spawn_user_def set_mm_def)
  next
    case (Some a)
    then obtain s entry pages where a: "sp = Some (s, entry, pages)" by (cases a) auto
    then have s: "s \<notin> insert kr R" "mm_ok m kr (insert s R) X" using sp(4) by simp_all
    have "mm_ok (k_mm (set_mm m k)) kr (insert s R) X" using s(2) by (simp add: set_mm_def)
    from alloc_kstack_mem [OF this] obtain r m1 where al0:
        "alloc_kstack (set_mm m k) = Some (r, (set_mm m k)\<lparr>k_next_kslot := k_next_kslot (set_mm m k) + 1, k_mm := m1\<rparr>)"
        "keeps (insert s R) (mm_mem (k_mm (set_mm m k))) (mm_mem m1)" "mm_cr3 m1 = current_cr3 (set_mm m k)"
        "case r of None \<Rightarrow> mm_ok m1 kr (insert s R) X
         | Some (tp, frames) \<Rightarrow> mm_ok m1 kr (insert s R) (X \<union> block frames 8) \<and> X \<inter> block frames 8 = {} \<and>
             kstack_ok (tp - KSTACK_PAGES * 4096) frames" by (elim exE conjE)
    have al: "alloc_kstack (set_mm m k) = Some (r, k\<lparr>k_next_kslot := k_next_kslot k + 1, k_mm := m1\<rparr>)"
        "keeps (insert s R) (mm_mem m) (mm_mem m1)" "mm_cr3 m1 = current_cr3 k"
      using al0(1-3) sp(3) by (simp_all add: set_mm_def)
    have ke: "keeps R (mm_mem (k_mm k)) (mm_mem m1)" using sp(2) al(2) by (auto intro: keeps_trans keeps_mono)
    show ?thesis
    proof (cases r)
      case None
      have "mm_cr3 m1 \<in> insert kr R" using al(3) mm_okD(3) [OF ok] by simp
      moreover have "mm_ok m1 kr (insert s R) X" using None al0(4) by simp
      ultimately obtain m2 where
        m2: "destroy_address_space s m1 = Some m2" "mm_ok m2 kr R X" "keeps R (mm_mem m1) (mm_mem m2)" "mm_cr3 m2 = mm_cr3 m1"
        using destroy_mm_ok [of m1 kr s R X] s(1) by blast
      let ?k = "k\<lparr>k_next_kslot := k_next_kslot k + 1, k_mm := m2\<rparr>"
      have "guarded kr k ?k" using quit [of m2 ?k] m2 al(3) keeps_trans [OF ke m2(3)] by simp
      with sp(1) a al(1) None m2(1) show ?thesis by (simp add: spawn_user_def set_mm_def)
    next
      case (Some tf)
      then obtain tp fb where tf: "r = Some (tp, fb)" by (cases tf) auto
      define t where "t = \<lparr>t_id = k_next_tid k, t_name = name, t_state = Ready, t_cr3 = s,
         t_kstack_top = tp, t_saved_rsp = tp - FRAME_BYTES, t_caps = install_caps cs, t_parent = parent,
         t_kstack_base_va = tp - KSTACK_PAGES * 4096, t_kstack_frames_base = fb, t_pages = pages\<rparr>"
      define k' where "k' = (set_frame (tp - FRAME_BYTES) (\<lambda>_. new_user entry USER_STACK_TOP USER_CS USER_SS)
          (k\<lparr>k_next_kslot := k_next_kslot k + 1, k_mm := m1\<rparr>))
          \<lparr>k_next_tid := k_next_tid k + 1, k_tasks := k_tasks k @ [t], k_ready := k_ready k @ [k_next_tid k]\<rparr>"
      have f: "k_tasks k' = k_tasks k @ [t]" "k_reap k' = k_reap k" "k_mm k' = m1" "k_current k' = k_current k"
        by (simp_all add: k'_def set_frame_def)
      have "spawn_user elf name cs parent k = Some (Inr (k_next_tid k), k')"
        using sp(1) a al(1) tf by (simp add: spawn_user_def t_def k'_def Let_def set_frame_def)
      moreover have "t_id t \<notin> t_id ` set (k_tasks k)" using assms(2) by (auto simp: t_def at_rest_def ids_ok_def)
      from mem_ok_spawn [OF assms(1,2) this _ _ _ _ _ al(3) f, of s "tp - KSTACK_PAGES * 4096" fb]
      have "mem_ok kr k'" using s(1) al0(4) tf by (simp add: R_def X_def t_def snapshot_def)
      moreover have "spares (set_option (k_current k)) k k'"
        using spares_spawn [OF assms(2) f(1)] ke f(3) by (simp add: R_def t_def)
      ultimately show ?thesis by (auto simp: guarded_def)
    qed
  qed
qed

lemma task_spawn_mem:
  assumes "mem_ok kr k" and "at_rest k" and "k_current k = Some tid"
  shows "\<exists>k'. sys_task_spawn fp tid a k = Some k' \<and> guarded kr k k'"
proof -
  define B where "B elf cs = (spawn_user elf [0x75, 0x73, 0x65, 0x72] cs (Some tid) k \<bind> (\<lambda>r. Some (case r of
       (Inr child, k) \<Rightarrow> set_frame fp (\<lambda>f. f\<lparr>tf_rax := E_OK, tf_rdi := child\<rparr>) k
     | (Inl _, k) \<Rightarrow> set_rax fp E_BAD_ARG k)))" for elf cs
  have sp: "\<exists>k'. B elf cs = Some k' \<and> guarded kr k k'"
    if "\<not> a ! 1 > MAX_SPAWN_ELF" "copy_from_user (current_cr3 k) (a ! 0) (a ! 1) k = Some elf" for elf cs
  proof -
    have "length elf = unat (a ! 1)" using that(2) length_read_through by (auto simp: copy_from_user_def split: if_splits)
    moreover have "unat (a ! 1) \<le> 2097152" using that(1) by (simp add: consts_def word_le_nat_alt not_less)
    ultimately have "length elf < 2 ^ 63" by simp
    from spawn_user_mem [OF assms(1,2) this, of "[0x75, 0x73, 0x65, 0x72]" cs "Some tid"] obtain r k' where
      "spawn_user elf [0x75, 0x73, 0x65, 0x72] cs (Some tid) k = Some (r, k')" "guarded kr k k'" by blast
    then show ?thesis by (cases r) (simp_all add: B_def)
  qed
  show ?thesis unfolding sys_task_spawn_def Let_def B_def [symmetric]
    using guarded_refl [OF assms(1,2)] sp by (simp split: option.split sum.split)
qed

end
