(* ===== verification/Isolation.thy ===== *)
theory Isolation
  imports Kernel_Life_Mem
begin

text \<open>
  Isolation of tasks, and the absence of panics. Over every step of the kernel memory keeps its owners, a task that
  does not run keeps its memory, and the trap of an arbitrary user program is handled.
\<close>

section \<open>System calls\<close>

lemma guards_dispatch:
  assumes "mem_ok kr k" and "at_rest k" and "full_sectors k"
  shows "guards kr k (dispatch env fp k)"
proof (cases "k_current k")
  case None
  with guarded_refl [OF assms(1,2)] show ?thesis by (simp add: dispatch_def)
next
  case (Some tid)
  note gs = guards_still [OF assms(1,2)] and st = mem_okD(2) [OF assms(1)]
  have calls: "guards kr k (yield_task tid fp k)" "guards kr k (exit_task tid x k)" "guards kr k (ipc_call tid fp a k)"
    "guards kr k (ipc_recv tid fp x y k)" "guards kr k (ipc_reply tid fp a k)" "guards kr k (sys_sleep tid fp x k)"
    "guards kr k (sys_kill fp tid x k)" for x y a
    using st by (auto intro: gs still_yield settles_yield still_exit settles_exit still_call settles_call still_recv settles_recv
      still_reply settles_reply still_sleep settles_sleep still_kill settles_kill)
  have stays: "guards kr k (stay fp (sys_debug_write fp tid x y z k))" "guards kr k (stay fp (sys_cap_derive fp tid a k))"
    "guards kr k (stay fp (sys_set_name fp tid x y k))" "guards kr k (ret fp x k)" "guards kr k (Some (Reboot, k))" for x y z a
    using guarded_still [OF assms(1,2)] guarded_refl [OF assms(1,2)] st
    by (simp_all add: still_debug_write settled_debug_write still_cap_derive settled_cap_derive still_set_name settled_set_name)
  have mem: "guards kr k (sys_task_spawn fp tid a k \<bind> stay fp)" "guards kr k (stay fp (sys_stats pad fp tid x y k))" for a x y pad
    using task_spawn_mem [OF assms(1,2) Some, of fp a] guards_stats [OF assms(1,2) Some] by auto
  note rest = guards_wait [OF assms(1,2) Some] guards_input_read [OF assms(1,2) Some] guards_block_io [OF assms(1,2) Some assms(3)]
  show ?thesis
    unfolding dispatch_def Some option.case Let_def
    by (simp only: if_split calls stays mem rest simp_thms)
qed

section \<open>Traps\<close>

lemma spares_trans:
  assumes "ids_distinct k" and "k_tasks k1 = k_tasks k" and "spares A k k1" and "spares A k1 k'"
  shows "spares A k k'"
  unfolding spares_def
proof (intro ballI impI)
  fix t t' assume t: "t \<in> set (k_tasks k)" "t' \<in> set (k_tasks k')" "t_id t' = t_id t"
  then have t1: "t \<in> set (k_tasks k1)" using assms(2) by simp
  have "t_id t \<notin> A \<Longrightarrow> keeps {t_cr3 t} (mm_mem (k_mm k)) (mm_mem (k_mm k1))"
    using assms(3) t(1) t1 unfolding spares_def by blast
  moreover have "t_cr3 t' = t_cr3 t" "t_id t \<notin> A \<Longrightarrow> keeps {t_cr3 t} (mm_mem (k_mm k1)) (mm_mem (k_mm k'))"
    using assms(4) t(2,3) t1 unfolding spares_def by blast+
  ultimately show "t_cr3 t' = t_cr3 t \<and> (t_id t \<notin> A \<longrightarrow> keeps {t_cr3 t} (mm_mem (k_mm k)) (mm_mem (k_mm k')))"
    using keeps_trans by blast
qed

lemma same_tasks_spares:
  assumes "ids_distinct k" and "k_tasks k1 = k_tasks k" and "keeps (t_cr3 ` set (k_tasks k)) (mm_mem (k_mm k)) (mm_mem (k_mm k1))"
  shows "spares A k k1"
  unfolding spares_def
proof (intro ballI impI)
  fix t t' assume t: "t \<in> set (k_tasks k)" "t' \<in> set (k_tasks k1)" "t_id t' = t_id t"
  then have "t' = t" using assms(1,2) by (auto simp: ids_distinct_def distinct_map inj_on_def)
  with keeps_mono [OF assms(3)] t(1)
  show "t_cr3 t' = t_cr3 t \<and> (t_id t \<notin> A \<longrightarrow> keeps {t_cr3 t} (mm_mem (k_mm k)) (mm_mem (k_mm k1)))" by simp
qed

lemma guarded_trans:
  assumes "ids_distinct k" and "k_tasks k1 = k_tasks k" and "k_current k1 = k_current k"
    and "spares (set_option (k_current k)) k k1" and "guarded kr k1 k'"
  shows "guarded kr k k'"
  using spares_trans [OF assms(1,2,4)] assms(3,5) by (simp add: guarded_def)

lemma guards_trans:
  assumes "ids_distinct k" and "k_tasks k1 = k_tasks k" and "k_current k1 = k_current k"
    and "spares (set_option (k_current k)) k k1" and "guards kr k1 r"
  shows "guards kr k r"
  using guarded_trans [OF assms(1-4)] assms(5) by (auto simp: guards_def)

lemma guards_trap:
  assumes "mem_ok kr k" and "at_rest k" and "full_sectors k"
  shows "guards kr k (handle_trap env fp v k)"
proof -
  from mem_ok_drain [OF assms(1,2)] obtain m where m: "drain_reaper k = Some (k\<lparr>k_mm := m, k_reap := []\<rparr>)"
    "mem_ok kr (k\<lparr>k_mm := m, k_reap := []\<rparr>)" "keeps (t_cr3 ` set (k_tasks k)) (mm_mem (k_mm k)) (mm_mem m)" by blast
  define k1 where "k1 = k\<lparr>k_mm := m, k_reap := []\<rparr>"
  have k1: "mem_ok kr k1" "k_tasks k1 = k_tasks k" "k_current k1 = k_current k" "mm_mem (k_mm k1) = mm_mem m"
    using m(2) by (simp_all add: k1_def)
  have r1: "at_rest k1" using assms(2) by (simp add: k1_def at_rest_def)
  have s1: "full_sectors k1" using full_sectors_effect [OF assms(3) calm_effect [OF calm_drain [OF m(1)]]] by (simp add: k1_def)
  have d: "ids_distinct k" by (rule rest_distinct [OF assms(2)])
  have "guards kr k1 (timer_trap fp k1)"
    using guards_still [OF k1(1) r1 still_timer settles_timer] mem_okD(2) [OF k1(1)] by blast
  moreover note guards_dispatch [OF k1(1) r1 s1, of env fp]
  moreover have "guards kr k1 (stay fp k1)" using guarded_refl [OF k1(1) r1] by simp
  ultimately have "guards kr k1 (handle_trap env fp v k)" using m(1) by (simp add: handle_trap_def k1_def)
  moreover have "spares (set_option (k_current k)) k k1" using same_tasks_spares [OF d k1(2)] m(3) k1(4) by simp
  ultimately show ?thesis using guards_trans [OF d k1(2,3)] by blast
qed

text \<open>The stores of a program stay in its own space.\<close>

lemma user_runs_mem:
  assumes "mem_ok kr k" and "at_rest k" and "k_current k = Some tid"
  shows "mem_ok kr (user_runs stores f k)" and "spares {tid} k (user_runs stores f k)"
proof -
  obtain t where t: "tmap (k_tasks k) tid = Some t" "t \<in> set (k_tasks k)" "t_id t = tid" using running_task [OF assms(2,3)] by blast
  have w: "within_space kr (pr_cr3 ` set (owners k)) (\<Union> (stack_block ` set (owners k))) (t_cr3 t) (k_mm k)
      ((k_mm k)\<lparr>mm_mem := fold (user_store (t_cr3 t)) stores (mm_mem (k_mm k))\<rparr>)"
    by (rule user_stores_own [OF mem_okD(3) [OF assms(1)] task_root [OF t(2)]])
  note own = own_space [OF assms(1) t(2) w] and root = running_root [OF assms(1,3) t(1)]
  show "mem_ok kr (user_runs stores f k)" using own(1) root by (simp add: user_runs_def set_frame_def)
  show "spares {tid} k (user_runs stores f k)"
    using own(2) rest_distinct [OF assms(2)] t(3) root by (simp add: user_runs_def set_frame_def)
qed

lemma user_runs_rest:
  assumes "at_rest k"
  shows "at_rest (user_runs stores f k)" and "full_sectors (user_runs stores f k) = full_sectors k"
    and "k_tasks (user_runs stores f k) = k_tasks k"
  using assms at_rest_quiet [OF quiet_user_runs]
  by (simp_all add: user_runs_def set_frame_def full_sectors_def with_drive_def)

section \<open>Keys\<close>

definition waiters_live :: "kernel_state \<Rightarrow> bool" where
  "waiters_live k \<longleftrightarrow> w_tid ` set (in_waiters (k_input k)) \<subseteq> t_id ` set (k_tasks k)"

lemma still_deliver:
  assumes "fill_from_queue (w_cr3 w) (w_buf w) (w_len w) k = (n, k1)"
  shows "still k1 (deliver_to w k)" and "settled k1 \<Longrightarrow> settled (deliver_to w k)"
  using assms by (auto simp: deliver_to_def Let_def split: option.split)

lemma deliver_mem:
  assumes "mem_ok kr k" and "ids_distinct k" and "t \<in> set (k_tasks k)" and "t_id t = w_tid w" and "t_cr3 t = w_cr3 w"
    and "user_range_valid (w_buf w) (w_len w)" and "at_rest (deliver_to w k)"
  shows "mem_ok kr (deliver_to w k)" and "spares {w_tid w} k (deliver_to w k)"
proof -
  obtain n q mem where f: "fill (t_cr3 t) (w_buf w) (w_len w) 0 (in_queue (k_input k)) (mm_mem (k_mm k)) = (n, q, mem)"
    by (metis prod_cases3)
  define k1 where "k1 = k\<lparr>k_input := (k_input k)\<lparr>in_queue := q\<rparr>, k_mm := (k_mm k)\<lparr>mm_mem := mem\<rparr>\<rparr>"
  have fq: "fill_from_queue (w_cr3 w) (w_buf w) (w_len w) k = (n, k1)" using f assms(5) by (simp add: fill_from_queue_def k1_def)
  note own = own_space [OF assms(1,3) fill_user [OF mem_okD(3) [OF assms(1)] task_root [OF assms(3)] assms(6) f]]
  have k1: "mem_ok kr k1" "spares {w_tid w} k k1" "k_tasks k1 = k_tasks k" "ids_distinct k1"
    using own assms(2,4) by (simp_all add: k1_def ids_distinct_def)
  note st = still_deliver(1) [OF fq] still_deliver(2) [OF fq mem_okD(2) [OF k1(1)]]
  show "mem_ok kr (deliver_to w k)" by (rule still_mem_ok [OF k1(1,4) st assms(7)])
  show "spares {w_tid w} k (deliver_to w k)"
    by (rule spares_trans [OF assms(2) k1(3,2) spares_mono [OF still_spares [OF st(1) k1(4)]]]) simp
qed

lemma key_mem:
  assumes "mem_ok kr k" and "at_rest k" and "waiters_live k" and "at_rest (on_scancode sc k)"
  shows "mem_ok kr (on_scancode sc k)" and "spares (w_tid ` set (in_waiters (k_input k))) k (on_scancode sc k)"
proof -
  let ?A = "w_tid ` set (in_waiters (k_input k))"
  have d: "ids_distinct k" by (rule rest_distinct [OF assms(2)])
  have e: "mem_ok kr (enqueue b k) \<and> spares ?A k (enqueue b k)" if r: "at_rest (enqueue b k)" for b
  proof (cases "in_waiters (k_input k)")
    case Nil
    with assms(1) d show ?thesis by (simp add: enqueue_def Let_def)
  next
    case (Cons w ws)
    define k0 where "k0 = k\<lparr>k_input := (k_input k)\<lparr>in_queue := (if length (in_queue (k_input k)) \<ge> QUEUE_CAP then tl (in_queue (k_input k)) else in_queue (k_input k)) @ [b], in_waiters := ws\<rparr>\<rparr>"
    have eq: "enqueue b k = deliver_to w k0" using Cons by (simp add: enqueue_def k0_def Let_def)
    obtain t where t: "t \<in> set (k_tasks k)" "t_id t = w_tid w" using assms(3) Cons by (force simp: waiters_live_def)
    then have "tmap (k_tasks k) (w_tid w) = Some t" using tmap_mem d by (auto simp: ids_distinct_def)
    then have w: "t_cr3 t = w_cr3 w" "user_range_valid (w_buf w) (w_len w)"
      using assms(2) Cons by (auto simp: at_rest_def core_def input_ok_def)
    have k0: "mem_ok kr k0" "ids_distinct k0" "k_tasks k0 = k_tasks k" using assms(1) d by (simp_all add: k0_def ids_distinct_def)
    note dl = deliver_mem [OF k0(1,2) _ t(2) w, unfolded k0(3), OF t(1)]
    have "spares {w_tid w} k (deliver_to w k0)"
      using dl(2) r by (simp add: eq) (simp add: spares_def k0_def)
    with dl(1) r Cons show ?thesis by (auto simp: eq intro: spares_mono)
  qed
  show "mem_ok kr (on_scancode sc k)" and "spares ?A k (on_scancode sc k)"
    using assms(1,4) d e unfolding on_scancode_def Let_def by (auto split: if_splits option.splits)
qed

end
