(* ===== verification/Boot_Mem.thy ===== *)
theory Boot_Mem
  imports Isolation Boot_Props
begin

text \<open>
  The start of the system establishes the ownership of memory. What the boot loader must provide is \<open>loader_ok\<close>:
  usable regions that do not touch, a root table outside them, and nothing in that root where the kernel puts its
  heap and its stacks or that is open to ring 3.
\<close>

section \<open>What the boot loader provides\<close>

definition loader_ok :: "boot \<Rightarrow> bool" where
  "loader_ok b \<longleftrightarrow>
     boot_map_ok (bt_regions b) \<and> aligned (bt_cr3 b) \<and>
     (\<forall>s e. (True, s, e) \<in> set (bt_regions b) \<longrightarrow> page (bt_cr3 b) \<inter> {unat s ..< unat e} = {}) \<and>
     (\<forall>i < 512. i \<noteq> 0 \<longrightarrow> (if kernel_slot i then bt_mem b (bt_cr3 b) i = 0 else \<not> grants (bt_mem b (bt_cr3 b) i))) \<and>
     length (bt_console_elf b) < 2 ^ 63 \<and> length (bt_initfs_elf b) < 2 ^ 63 \<and>
     (\<forall>d lba. bt_primary b = Some d \<or> bt_secondary b = Some d \<longrightarrow> length (dr_data d lba) = 512)"

lemma loader_okD:
  assumes "loader_ok b"
  shows "boot_map_ok (bt_regions b)" and "aligned (bt_cr3 b)"
    and "\<And>s e. (True, s, e) \<in> set (bt_regions b) \<Longrightarrow> page (bt_cr3 b) \<inter> {unat s ..< unat e} = {}"
    and "\<And>i. kernel_slot i \<Longrightarrow> bt_mem b (bt_cr3 b) i = 0"
    and "\<And>i. i < 512 \<Longrightarrow> i \<noteq> 0 \<Longrightarrow> \<not> kernel_slot i \<Longrightarrow> \<not> grants (bt_mem b (bt_cr3 b) i)"
    and "length (bt_console_elf b) < 2 ^ 63" and "length (bt_initfs_elf b) < 2 ^ 63"
    and "\<And>d lba. bt_primary b = Some d \<or> bt_secondary b = Some d \<Longrightarrow> length (dr_data d lba) = 512"
proof -
  note l = assms [unfolded loader_ok_def]
  from l have e: "\<forall>i < 512. i \<noteq> 0 \<longrightarrow>
      (if kernel_slot i then bt_mem b (bt_cr3 b) i = 0 else \<not> grants (bt_mem b (bt_cr3 b) i))" by (elim conjE)
  from l show "boot_map_ok (bt_regions b)" by (elim conjE)
  from l show "aligned (bt_cr3 b)" by (elim conjE)
  from l show "length (bt_console_elf b) < 2 ^ 63" by (elim conjE)
  from l show "length (bt_initfs_elf b) < 2 ^ 63" by (elim conjE)
  show "page (bt_cr3 b) \<inter> {unat s ..< unat e} = {}" if "(True, s, e) \<in> set (bt_regions b)" for s e
    using l that by (elim conjE) blast
  show "bt_mem b (bt_cr3 b) i = 0" if "kernel_slot i" for i
    using e [rule_format, of i] kernel_slot_less [OF that] that by simp
  show "\<not> grants (bt_mem b (bt_cr3 b) i)" if "i < 512" "i \<noteq> 0" "\<not> kernel_slot i" for i
    using e [rule_format, OF that(1,2)] that(3) by simp
  show "length (dr_data d lba) = 512" if "bt_primary b = Some d \<or> bt_secondary b = Some d" for d lba
    using l that by (elim conjE) blast
qed

lemma frame_init_available: "available (frame_init rs) \<subseteq> ranges (fa_regions (frame_init rs))"
  by (cases "scan_regions rs []") (auto simp: available_def virgin_def frame_init_def)

lemma boot_space:
  assumes "loader_ok b"
  shows "space_inv (bt_mem b) (frame_init (bt_regions b)) (bt_cr3 b) {} {}"
proof -
  let ?mem = "bt_mem b" and ?kr = "bt_cr3 b" and ?fa = "frame_init (bt_regions b)"
  note ld = loader_okD [OF assms]
  note fi = frame_init_ok [OF ld(1)]
  have n: "node ?mem ?kr p = None" if "kern_path p" "p \<noteq> []" for p
    using that ld(4) by (cases p) (auto simp: kern_path_def)
  have kt: "ktables ?mem {?kr} = {}" unfolding ktables_def using n by fastforce
  have up: "upages ?mem {} = {}" by (simp add: upages_def)
  have "page ?kr \<inter> ranges (fa_regions ?fa) = {}"
  proof -
    have "page ?kr \<inter> range_of r = {}" if r: "r \<in> set (fa_regions ?fa)" for r
    proof -
      obtain s e where se: "(True, s, e) \<in> set (bt_regions b)" "within r (max s MIN_ADDR, e)"
        using fi r by blast
      then have "max s MIN_ADDR \<le> fst r" "snd r \<le> e" by (simp_all add: within_iff)
      then have "s \<le> fst r" "snd r \<le> e" using max.cobounded1 order_trans by blast+
      then have "range_of r \<subseteq> {unat s ..< unat e}" unfolding range_of_eq word_le_nat_alt by auto
      with ld(3) [OF se(1)] show ?thesis by blast
    qed
    then show ?thesis by (auto simp: ranges_def)
  qed
  then have "page ?kr \<inter> available ?fa = {}" using frame_init_available by blast
  moreover have "ledger ?fa {}" by (rule conjunct1 [OF fi])
  ultimately have h: "holds ?fa {} {?kr}" using ld(2) unfolding holds_def by auto
  have "one_level ?mem {?kr}"
    unfolding one_level_def
  proof (intro ballI allI impI)
    fix s s' p p' a assume "s \<in> {?kr}" "s' \<in> {?kr}" "kern_path p" "kern_path p'" "node ?mem s p = Some a" "node ?mem s' p' = Some a"
    then have "p = []" "p' = []" using n [of p] n [of p'] by auto
    then show "length p = length p'" by simp
  qed
  moreover have "shielded ?mem ?kr {}"
  proof -
    have "entry_ok p (?mem t j)" if "kern_path p" "node ?mem ?kr p = Some t" for p t j
      using n [OF that(1)] that(2) by (cases "p = []") (simp_all add: entry_ok_def del: node.simps)
    then show ?thesis unfolding shielded_def using ld(5) by blast
  qed
  ultimately show ?thesis using kt up h by (simp add: space_inv_def one_owner_def)
qed

section \<open>The kernel's memory\<close>

lemma alloc_dropped:
  assumes "minv m kr R X" and "alloc_frames n (mm_fa m) = (Some b, fa)" and "0 < unat n" and "unat n < 2 ^ 40"
  shows "minv (m\<lparr>mm_fa := fa\<rparr>) kr R X"
  using space_inv_less [OF space_inv_alloc(1) [OF assms]] by simp

lemma heap_va:
  assumes "i < 2048"
  shows "p4_index (HEAP_BASE + of_nat i * 4096) = 224"
proof -
  have u: "unat (HEAP_BASE + of_nat i * 4096 :: u64) = 0x700000000000 + i * 4096"
    using assms by (simp add: consts_def unat_word_ariths unat_of_nat)
  have "unat (drop_bit 39 (HEAP_BASE + of_nat i * 4096 :: u64)) = (0x700000000000 + i * 4096) div 2 ^ 39"
    unfolding unsigned_drop_bit_eq u using assms by (simp add: drop_bit_eq_div take_bit_nat_def)
  also have "\<dots> = 224" using assms by simp
  finally have "drop_bit 39 (HEAP_BASE + of_nat i * 4096 :: u64) = 224" by (simp add: word_unat_eq_iff)
  then show ?thesis by (simp add: p4_index_def)
qed

lemma heap_pages_ok:
  assumes "minv m kr {} X" and "mm_cr3 m = kr" and "\<forall>i \<in> set is. i < 2048"
    and "ofold (\<lambda>i. map_page (HEAP_BASE + of_nat i * 4096) (frames + of_nat i * 4096) KSTACK_FLAGS) is m = Some m'"
  shows "minv m' kr {} X \<and> same_regs m m'"
  using assms
proof (induction "is" arbitrary: m)
  case Nil
  then show ?case by (simp add: same_regs_def)
next
  case (Cons i "is")
  obtain m1 where m1: "map_page (HEAP_BASE + of_nat i * 4096) (frames + of_nat i * 4096) KSTACK_FLAGS m = Some m1"
    "ofold (\<lambda>i. map_page (HEAP_BASE + of_nat i * 4096) (frames + of_nat i * 4096) KSTACK_FLAGS) is m1 = Some m'"
    using Cons.prems(4) by (auto split: bind_splits)
  then obtain ok where "map_page_in kr (HEAP_BASE + of_nat i * 4096) (frames + of_nat i * 4096) KSTACK_FLAGS m = (ok, m1)"
    using Cons.prems(2) by (auto simp: map_page_def split: prod.splits if_splits)
  moreover have "kernel_slot (p4_index (HEAP_BASE + of_nat i * 4096))" using heap_va [of i] Cons.prems(3) by simp
  ultimately have st: "stays kr {} X m m1" using map_kern [OF Cons.prems(1), of kr] by blast
  then have "minv m1 kr {} X" "same_regs m m1" by (simp_all add: stays_def)
  moreover from this have "mm_cr3 m1 = kr" using Cons.prems(2) by (simp add: same_regs_def)
  ultimately show ?case using Cons.IH [OF _ _ _ m1(2)] Cons.prems(3) by (auto intro: same_regs_trans)
qed

lemma boot_memory_ok:
  assumes "loader_ok b" and "boot_memory b = Some m"
  shows "mm_ok m (bt_cr3 b) {} {} \<and> mm_cr3 m = bt_cr3 b"
proof -
  let ?kr = "bt_cr3 b"
  define m0 where "m0 = \<lparr>mm_fa = frame_init (bt_regions b), mm_mem = bt_mem b, mm_spaces = [], mm_kstacks = [], mm_cr3 = ?kr\<rparr>"
  obtain m1 m2 where m: "gdt_init m0 = Some m1" "heap_init m1 = Some m2"
    "idle_stack_init (register_address_space (mm_cr3 m2) m2) = Some m"
    using assms(2) by (auto simp: boot_memory_def m0_def split: bind_splits)
  have "minv m0 ?kr {} {}" using boot_space [OF assms(1)] by (simp add: m0_def)
  then have m1: "minv m1 ?kr {} {}" "same_regs m0 m1" using m(1) alloc_dropped [of m0 ?kr "{}" "{}" 8]
    by (auto simp: gdt_init_def same_regs_def split: prod.splits option.splits)
  obtain frames fa where fr: "alloc_frames (HEAP_BYTES div 4096) (mm_fa m1) = (Some frames, fa)"
    "ofold (\<lambda>i. map_page (HEAP_BASE + of_nat i * 4096) (frames + of_nat i * 4096) KSTACK_FLAGS) [0..<2048] (m1\<lparr>mm_fa := fa\<rparr>) = Some m2"
    using m(2) by (auto simp: heap_init_def KSTACK_FLAGS_def HEAP_BYTES_def simp del: upt_Suc split: prod.splits option.splits)
  have c1: "mm_cr3 m1 = ?kr" using m1(2) by (simp add: same_regs_def m0_def)
  have "minv (m1\<lparr>mm_fa := fa\<rparr>) ?kr {} {}" using alloc_dropped [OF m1(1) fr(1)] by (simp add: consts_def)
  from heap_pages_ok [OF this _ _ fr(2)] c1 have m2: "minv m2 ?kr {} {}" "same_regs m1 m2" by (simp_all add: same_regs_def)
  then have r: "mm_spaces m2 = []" "mm_kstacks m2 = []" "mm_cr3 m2 = ?kr"
    using m1(2) c1 by (simp_all add: same_regs_def m0_def)
  then have "mm_ok (register_address_space (mm_cr3 m2) m2) ?kr {} {}"
    using m2(1) by (simp add: mm_ok_def register_address_space_def stacks_va_def)
  from kstack_slot_ok [OF this, of 0] m(3) obtain tp frames' where
    k: "mm_ok m ?kr {} ({} \<union> block frames' 8)" "mm_cr3 m = ?kr"
    using r by (auto simp: idle_stack_init_def register_address_space_def split: option.splits prod.splits)
  then show ?thesis using mm_ok_less by blast
qed

end
