(* ===== verification/Spec2Isabelle.thy ===== *)
theory Spec2Isabelle
  imports Prelude Caps Frame Paging Elf Task Sched Input Ata Syscall Kernel_Inv Kernel_Steps Kernel_Life Kernel_Death Kernel_Trap Digest Sha Hmac Chacha20 Layout Layout_Props Fe25519 Scalar25519 Ed25519
    Text Userlib Initfs Supd Storaged Storaged_Ops Updated Console Shell Agt
    Fetch Confine Storaged_Props Storaged_Log Supd_Props
    Boot Kernel_Calm Kernel_Run Boot_Props Fairness
    Mmu Page_Ledger Page_Tree Page_Ops Page_Map Page_Free Page_Kern Spaces Spawn Kernel_Still Kernel_Settled
    Kernel_Mem Kernel_Guard Kernel_Life_Mem Isolation Boot_Mem
begin

text \<open>
  Verification of the Redoubt kernel and its servers.
\<close>

end
